(* ===== verification/Prelude.thy ===== *)
theory Prelude
  imports Main "HOL-Library.AList" "HOL-Library.Multiset"
begin

text \<open>
  Shared vocabulary of the development: Python dictionaries as insertion-ordered
  association lists, results of fallible code as sums, and the generic
  state-machine library (reachable states, invariants) that the stateful
  components instantiate.

  \<^item> A Python \<^verbatim>\<open>dict\<close> keeps insertion order, updates an existing key in place
    and appends a new one; \<open>AList.update\<close> has exactly this behaviour, and
    \<open>AList.delete\<close> is \<^verbatim>\<open>d.pop(k, None)\<close> with the value dropped.
    \<open>dict_ok\<close> says that no key occurs twice, which every constructor keeps.
  \<^item> A Python function that may raise returns \<open>'e + 'a\<close>: \<open>Inl e\<close> is the
    exception \<open>e\<close> (a constructor of the component's own error type, one per
    raise site), \<open>Inr x\<close> the returned value.
\<close>

section \<open>Collections of proof rules\<close>

named_theorems dict_rules \<open>facts about dictionaries as association lists\<close>
named_theorems inv_rules \<open>preservation of component invariants\<close>

section \<open>Results\<close>

definition rbind :: "'e + 'a \<Rightarrow> ('a \<Rightarrow> 'e + 'b) \<Rightarrow> 'e + 'b" where
  "rbind r f = (case r of Inl e \<Rightarrow> Inl e | Inr x \<Rightarrow> f x)"

lemma rbind_simps [simp]:
  "rbind (Inl e) f = Inl e"
  "rbind (Inr x) f = f x"
  by (simp_all add: rbind_def)

lemma rbind_eq_Inr: "rbind r f = Inr y \<longleftrightarrow> (\<exists>x. r = Inr x \<and> f x = Inr y)"
  by (cases r) simp_all

lemma rbind_eq_Inl: "rbind r f = Inl e \<longleftrightarrow> r = Inl e \<or> (\<exists>x. r = Inr x \<and> f x = Inl e)"
  by (cases r) simp_all

lemma rbind_cong [fundef_cong]:
  "r = r' \<Longrightarrow> (\<And>x. r' = Inr x \<Longrightarrow> f x = g x) \<Longrightarrow> rbind r f = rbind r' g"
  by (cases r') simp_all

text \<open>A comprehension over a raising function: the first exception leaves the loop.\<close>

fun rmap :: "('a \<Rightarrow> 'e + 'b) \<Rightarrow> 'a list \<Rightarrow> 'e + 'b list" where
  "rmap f [] = Inr []"
| "rmap f (x # xs) = rbind (f x) (\<lambda>y. rbind (rmap f xs) (\<lambda>ys. Inr (y # ys)))"

lemma rmap_Inr_length: "rmap f xs = Inr ys \<Longrightarrow> length ys = length xs"
  by (induction xs arbitrary: ys) (auto simp: rbind_eq_Inr)

lemma rmap_Inr_nth: "rmap f xs = Inr ys \<Longrightarrow> i < length xs \<Longrightarrow> f (xs ! i) = Inr (ys ! i)"
  by (induction xs arbitrary: ys i) (auto simp: rbind_eq_Inr nth_Cons split: nat.splits)

lemma rmap_Inr_set:
  "rmap f xs = Inr ys \<Longrightarrow> y \<in> set ys \<Longrightarrow> \<exists>x\<in>set xs. f x = Inr y"
  by (induction xs arbitrary: ys) (auto simp: rbind_eq_Inr)

lemma rmap_Inr_map: "rmap f xs = Inr ys \<Longrightarrow> (\<And>x y. f x = Inr y \<Longrightarrow> g y = h x) \<Longrightarrow> map g ys = map h xs"
  by (induction xs arbitrary: ys) (auto simp: rbind_eq_Inr)

text \<open>A loop whose body only validates: the first exception leaves it.\<close>

fun rcheck :: "('a \<Rightarrow> 'e + unit) \<Rightarrow> 'a list \<Rightarrow> 'e + unit" where
  "rcheck f [] = Inr ()"
| "rcheck f (x # xs) = rbind (f x) (\<lambda>_. rcheck f xs)"

lemma rcheck_Inr: "rcheck f xs = Inr () \<longleftrightarrow> (\<forall>x\<in>set xs. f x = Inr ())"
  by (induction xs) (auto simp: rbind_eq_Inr)

lemma rcheck_Inl: "rcheck f xs = Inl e \<Longrightarrow> \<exists>x\<in>set xs. f x = Inl e"
  by (induction xs) (auto simp: rbind_eq_Inl)

text \<open>A loop over a list that threads an accumulator and may raise.\<close>

fun rfold :: "('a \<Rightarrow> 's \<Rightarrow> 'e + 's) \<Rightarrow> 'a list \<Rightarrow> 's \<Rightarrow> 'e + 's" where
  "rfold f [] s = Inr s"
| "rfold f (x # xs) s = rbind (f x s) (rfold f xs)"

lemma rfold_append: "rfold f (xs @ ys) s = rbind (rfold f xs s) (rfold f ys)"
  by (induction xs arbitrary: s) (auto simp: rbind_def split: sum.splits)

lemma rfold_total: "(\<And>x s. x \<in> set xs \<Longrightarrow> \<exists>t. f x s = Inr t) \<Longrightarrow> \<exists>t. rfold f xs s = Inr t"
proof (induction xs arbitrary: s)
  case (Cons x xs)
  obtain t where "f x s = Inr t" using Cons.prems [of x s] by auto
  moreover obtain u where "rfold f xs t = Inr u" using Cons.IH Cons.prems by fastforce
  ultimately show ?case by simp
qed simp

lemma rfold_invariant:
  "rfold f xs s = Inr t \<Longrightarrow> P s \<Longrightarrow> (\<And>x u v. x \<in> set xs \<Longrightarrow> P u \<Longrightarrow> f x u = Inr v \<Longrightarrow> P v) \<Longrightarrow> P t"
  by (induction xs arbitrary: s) (auto simp: rbind_eq_Inr)

section \<open>Dictionaries\<close>

type_synonym ('k, 'v) dict = "('k \<times> 'v) list"

abbreviation dget :: "('k, 'v) dict \<Rightarrow> 'k \<Rightarrow> 'v option" where
  "dget d k \<equiv> map_of d k"

abbreviation dset :: "('k, 'v) dict \<Rightarrow> 'k \<Rightarrow> 'v \<Rightarrow> ('k, 'v) dict" where
  "dset d k v \<equiv> AList.update k v d"

abbreviation ddel :: "('k, 'v) dict \<Rightarrow> 'k \<Rightarrow> ('k, 'v) dict" where
  "ddel d k \<equiv> AList.delete k d"

definition dhas :: "('k, 'v) dict \<Rightarrow> 'k \<Rightarrow> bool" where
  "dhas d k = (case map_of d k of None \<Rightarrow> False | Some _ \<Rightarrow> True)"

definition dict_ok :: "('k, 'v) dict \<Rightarrow> bool" where
  "dict_ok d \<longleftrightarrow> distinct (map fst d)"

lemma dget_dset [simp, dict_rules]: "map_of (AList.update k v d) = (map_of d)(k \<mapsto> v)"
  by (rule AList.update_conv')

lemma dget_ddel [simp, dict_rules]: "map_of (AList.delete k d) = (map_of d)(k := None)"
  by (rule AList.delete_conv')

lemma dhas_dget: "dhas d k \<longleftrightarrow> map_of d k \<noteq> None"
  by (simp add: dhas_def split: option.splits)

lemma dhas_iff: "dhas d k \<longleftrightarrow> k \<in> fst ` set d"
  by (simp add: dhas_dget map_of_eq_None_iff)

lemma not_dhas_dget: "\<not> dhas d k \<longleftrightarrow> map_of d k = None"
  by (simp add: dhas_dget)

lemma dhas_simps [simp]:
  "dhas [] k = False"
  "dhas (AList.update k v d) k' \<longleftrightarrow> k' = k \<or> dhas d k'"
  "dhas (AList.delete k d) k' \<longleftrightarrow> k' \<noteq> k \<and> dhas d k'"
  by (auto simp: dhas_dget)

lemma dhas_Cons: "dhas ((k, v) # d) k' \<longleftrightarrow> k' = k \<or> dhas d k'"
  by (auto simp: dhas_dget)

lemma dict_ok_empty [simp, intro, inv_rules]: "dict_ok []"
  by (simp add: dict_ok_def)

lemma dict_ok_dset [simp, intro, inv_rules]: "dict_ok d \<Longrightarrow> dict_ok (AList.update k v d)"
  by (simp add: dict_ok_def AList.distinct_update)

lemma dict_ok_ddel [simp, intro, inv_rules]: "dict_ok d \<Longrightarrow> dict_ok (AList.delete k d)"
  by (simp add: dict_ok_def AList.distinct_delete)

lemma length_dset: "length (AList.update k v d) = (if dhas d k then length d else Suc (length d))"
  by (induction d) (auto simp: dhas_dget)

lemma length_ddel: "dict_ok d \<Longrightarrow> length (AList.delete k d) = (if dhas d k then length d - 1 else length d)"
proof (induction d)
  case (Cons p d)
  obtain k' v where p: "p = (k', v)" by (cases p)
  show ?case
  proof (cases "k' = k")
    case True
    with Cons.prems p have "k \<notin> fst ` set d" by (auto simp: dict_ok_def)
    with p True show ?thesis by (simp add: dhas_dget)
  next
    case False
    with Cons p show ?thesis
      by (cases d) (auto simp: dhas_dget dict_ok_def split: if_splits)
  qed
qed simp

lemma length_ddel_le: "length (ddel d k) \<le> length d"
  by (induction d) auto

lemma length_ddel_less: "map_of d k = Some v \<Longrightarrow> length (ddel d k) < length d"
  by (induction d) (auto simp: le_imp_less_Suc length_ddel_le)

lemma length_fold_ddel_le: "length (fold (\<lambda>r d. ddel d r) rs d) \<le> length d"
proof (induction rs arbitrary: d)
  case (Cons r rs)
  show ?case using Cons [of "ddel d r"] length_ddel_le [of r d] by simp
qed simp

lemma length_dset_le: "length (dset d k v) \<le> Suc (length d)"
  by (simp add: length_dset)

lemma keys_dset [simp]: "fst ` set (AList.update k v d) = insert k (fst ` set d)"
  by (induction d) auto

lemma dset_nonempty [simp]: "AList.update k v d \<noteq> []"
  by (cases d) auto

lemma dset_fresh: "map_of d k = None \<Longrightarrow> AList.update k v d = d @ [(k, v)]"
  by (induction d) (auto split: if_splits)

lemma dict_ok_in_set: "dict_ok d \<Longrightarrow> (k, v) \<in> set d \<longleftrightarrow> map_of d k = Some v"
  by (simp add: dict_ok_def)

lemma ddel_absent [simp]: "map_of d k = None \<Longrightarrow> AList.delete k d = d"
  by (simp add: map_of_eq_None_iff)

lemma map_ran_dget [simp]: "map_of (map (\<lambda>(k, v). (k, f k v)) d) k = map_option (f k) (map_of d k)"
  by (induction d) auto

lemma dict_ok_map [simp]: "dict_ok (map (\<lambda>(k, v). (k, f k v)) d) = dict_ok d"
  by (simp add: dict_ok_def comp_def case_prod_unfold)

text \<open>A dictionary comprehension stores its pairs from left to right; the last pair of a key wins.\<close>

lemma dget_fold_dset: "map_of (fold (\<lambda>(k, v) d. AList.update k v d) xs d) = map_of d ++ map_of (rev xs)"
proof (induction xs arbitrary: d)
  case (Cons p xs)
  obtain k v where p: "p = (k, v)" by (cases p)
  from Cons.IH [of "AList.update k v d"] p show ?case
    by (auto simp: fun_eq_iff map_add_def split: option.splits)
qed simp

lemma dget_fold_dset_distinct:
  "distinct (map fst xs) \<Longrightarrow> map_of (fold (\<lambda>(k, v) d. AList.update k v d) xs []) = map_of xs"
  using dget_fold_dset [of xs "[]"] map_of_inject_set [of "rev xs" xs]
  by (simp add: rev_map [symmetric])

lemma dict_ok_fold_dset: "dict_ok d \<Longrightarrow> dict_ok (fold (\<lambda>(k, v) d. AList.update k v d) xs d)"
  by (induction xs arbitrary: d) auto

section \<open>Names of unchecked type\<close>

text \<open>An element of a sequence model code returns where stage names are expected: a string or not.\<close>

datatype py_name = PStr string | POther nat

definition is_pstr :: "py_name \<Rightarrow> bool" where
  "is_pstr n = (case n of PStr _ \<Rightarrow> True | POther _ \<Rightarrow> False)"

definition pstr :: "py_name \<Rightarrow> string" where
  "pstr n = (case n of PStr s \<Rightarrow> s | POther _ \<Rightarrow> [])"

section \<open>Subset tests on key lists\<close>

text \<open>Python's \<^verbatim>\<open>set(a) <= set(b)\<close> and \<^verbatim>\<open>set(a) < set(b)\<close> on lists of keys.\<close>

definition sub_keys :: "'a list \<Rightarrow> 'a list \<Rightarrow> bool" where
  "sub_keys xs ys = list_all (\<lambda>x. x \<in> set ys) xs"

definition psub_keys :: "'a list \<Rightarrow> 'a list \<Rightarrow> bool" where
  "psub_keys xs ys \<longleftrightarrow> sub_keys xs ys \<and> \<not> sub_keys ys xs"

lemma sub_keys_iff [simp]: "sub_keys xs ys \<longleftrightarrow> set xs \<subseteq> set ys"
  by (auto simp: sub_keys_def list_all_iff)

lemma psub_keys_iff [simp]: "psub_keys xs ys \<longleftrightarrow> set xs \<subset> set ys"
  by (auto simp: psub_keys_def)

section \<open>Distinctness of concatenations\<close>

lemma distinct_concat_by_owner:
  assumes "distinct (map k xs)" "\<And>x y. x \<in> set xs \<Longrightarrow> y \<in> set (f x) \<Longrightarrow> own y = k x"
    and "\<And>x. x \<in> set xs \<Longrightarrow> distinct (f x)"
  shows "distinct (concat (map f xs))"
  using assms
proof (induction xs)
  case (Cons x xs)
  have "set (f x) \<inter> set (concat (map f xs)) = {}"
  proof (rule ccontr)
    assume "set (f x) \<inter> set (concat (map f xs)) \<noteq> {}"
    then obtain y z where "y \<in> set (f x)" "z \<in> set xs" "y \<in> set (f z)" by auto
    then have "k x = k z" using Cons.prems(2) [of x y] Cons.prems(2) [of z y] by simp
    with \<open>z \<in> set xs\<close> Cons.prems(1) show False by auto
  qed
  with Cons show ?case by simp
qed simp

section \<open>State machines\<close>

text \<open>
  A component's atomic sections form a labelled step function \<open>step s e\<close>; the
  reachable states are those of some run. The locale states the two obligations
  of an invariant once; every component that interprets it obtains the run and
  reachability facts.
\<close>

fun run :: "('s \<Rightarrow> 'e \<Rightarrow> 's) \<Rightarrow> 's \<Rightarrow> 'e list \<Rightarrow> 's" where
  "run step s [] = s"
| "run step s (e # es) = run step (step s e) es"

lemma run_append: "run step s (xs @ ys) = run step (run step s xs) ys"
  by (induction xs arbitrary: s) simp_all

inductive reach :: "('s \<Rightarrow> 'e \<Rightarrow> 's) \<Rightarrow> 's \<Rightarrow> 's \<Rightarrow> bool" for step :: "'s \<Rightarrow> 'e \<Rightarrow> 's" and s0 :: 's where
  reach_init: "reach step s0 s0"
| reach_step: "reach step s0 s \<Longrightarrow> reach step s0 (step s e)"

lemma reach_run: "reach step s0 (run step s0 es)"
proof (induction es rule: rev_induct)
  case Nil
  show ?case by (simp add: reach_init)
next
  case (snoc e es)
  then show ?case by (simp add: run_append reach_step)
qed

lemma reach_iff_run: "reach step s0 s \<longleftrightarrow> (\<exists>es. s = run step s0 es)"
proof
  assume "reach step s0 s"
  then show "\<exists>es. s = run step s0 es"
  proof induction
    case reach_init
    show ?case by (rule exI [where x = "[]"]) simp
  next
    case (reach_step s e)
    then obtain es where "s = run step s0 es" by blast
    then have "step s e = run step s0 (es @ [e])" by (simp add: run_append)
    then show ?case by blast
  qed
qed (auto simp: reach_run)

locale machine =
  fixes step :: "'s \<Rightarrow> 'e \<Rightarrow> 's"
    and inv :: "'s \<Rightarrow> bool"
  assumes inv_step: "inv s \<Longrightarrow> inv (step s e)"
begin

lemma inv_run: "inv s \<Longrightarrow> inv (run step s es)"
  by (induction es arbitrary: s) (simp_all add: inv_step)

lemma inv_reach: "reach step s0 s \<Longrightarrow> inv s0 \<Longrightarrow> inv s"
  by (induction rule: reach.induct) (simp_all add: inv_step)

lemma inv_prefix: "inv s \<Longrightarrow> inv (run step s (take n es))"
  by (rule inv_run)

end

section \<open>Components keyed by a request id\<close>

text \<open>
  Many components hold one slot of state per request. The locale says that an
  event reads and writes the slot of its own key only; then the outputs of one
  key's events do not depend on how the events of other keys are interleaved.
\<close>

fun outs :: "('s \<Rightarrow> 'm \<Rightarrow> 'o \<times> 's) \<Rightarrow> 's \<Rightarrow> 'm list \<Rightarrow> 'o list" where
  "outs step s [] = []"
| "outs step s (m # ms) = fst (step s m) # outs step (snd (step s m)) ms"

lemma length_outs [simp]: "length (outs step s ms) = length ms"
  by (induction ms arbitrary: s) simp_all

locale keyed =
  fixes step :: "'s \<Rightarrow> 'm \<Rightarrow> 'o \<times> 's"
    and key :: "'m \<Rightarrow> 'k"
    and view :: "'s \<Rightarrow> 'k \<Rightarrow> 'v"
  assumes frame: "key m \<noteq> k \<Longrightarrow> view (snd (step s m)) k = view s k"
    and local_out: "view s (key m) = view t (key m) \<Longrightarrow> fst (step s m) = fst (step t m)"
    and local_view: "view s (key m) = view t (key m) \<Longrightarrow>
      view (snd (step s m)) (key m) = view (snd (step t m)) (key m)"
begin

lemma isolated:
  "view s k = view t k \<Longrightarrow>
   map snd (filter (\<lambda>p. key (fst p) = k) (zip ms (outs step s ms))) = outs step t (filter (\<lambda>m. key m = k) ms)"
proof (induction ms arbitrary: s t)
  case (Cons m ms)
  show ?case
  proof (cases "key m = k")
    case True
    with Cons.prems local_out [of s m t] local_view [of s m t] Cons.IH [of "snd (step s m)" "snd (step t m)"]
    show ?thesis by simp
  next
    case False
    with frame [of m k s] Cons.prems Cons.IH [of "snd (step s m)" t] show ?thesis by simp
  qed
qed simp

end

end
