(* ===== verification/Py_Strings.thy ===== *)
theory Py_Strings
  imports Prelude "HOL-Library.List_Lexorder" "HOL-Library.Char_ord" "HOL-Library.Product_Lexorder"
begin

text \<open>
  The Python string operations the modelled code uses. A HOL \<open>string\<close> stands for a
  Python \<^verbatim>\<open>str\<close> whose code points are below 256 (Latin-1), one \<open>char\<close> per code
  point. On that range the character classes are written out exactly: \<^verbatim>\<open>isdigit\<close>
  also holds of the superscripts at code points 178, 179 and 185, which \<^verbatim>\<open>int\<close> refuses;
  \<^verbatim>\<open>strip\<close> removes the Latin-1 white space.
\<close>

section \<open>Decimal rendering and parsing\<close>

definition digit_char :: "nat \<Rightarrow> char" where
  "digit_char d = char_of (48 + d)"

definition dec_digit :: "char \<Rightarrow> bool" where
  "dec_digit c \<longleftrightarrow> 48 \<le> (of_char c :: nat) \<and> (of_char c :: nat) \<le> 57"

definition digit_val :: "char \<Rightarrow> nat" where
  "digit_val c = of_char c - 48"

text \<open>\<^verbatim>\<open>str(n)\<close> of a non-negative integer.\<close>

fun show_nat :: "nat \<Rightarrow> string" where
  "show_nat n = (if n < 10 then [digit_char n] else show_nat (n div 10) @ [digit_char (n mod 10)])"

declare show_nat.simps [simp del]

text \<open>\<^verbatim>\<open>str(n)\<close> of any integer.\<close>

definition show_int :: "int \<Rightarrow> string" where
  "show_int i = (if i < 0 then CHR ''-'' # show_nat (nat (- i)) else show_nat (nat i))"

definition dec_value :: "string \<Rightarrow> nat" where
  "dec_value s = foldl (\<lambda>acc c. 10 * acc + digit_val c) 0 s"

text \<open>\<^verbatim>\<open>s.isdigit()\<close>: non-empty, every character a Unicode digit.\<close>

definition digit_like :: "char \<Rightarrow> bool" where
  "digit_like c \<longleftrightarrow> dec_digit c \<or> (of_char c :: nat) \<in> {178, 179, 185}"

definition py_isdigit :: "string \<Rightarrow> bool" where
  "py_isdigit s \<longleftrightarrow> s \<noteq> [] \<and> list_all digit_like s"

text \<open>\<^verbatim>\<open>int(s)\<close> on a string for which \<^verbatim>\<open>isdigit\<close> holds; \<open>None\<close> is the \<^verbatim>\<open>ValueError\<close>.\<close>

definition py_int_of_digits :: "string \<Rightarrow> nat option" where
  "py_int_of_digits s = (if s \<noteq> [] \<and> list_all dec_digit s then Some (dec_value s) else None)"

lemma dec_digit_digit_char: "d < 10 \<Longrightarrow> dec_digit (digit_char d)"
  by (simp add: dec_digit_def digit_char_def)

lemma digit_val_digit_char: "d < 10 \<Longrightarrow> digit_val (digit_char d) = d"
  by (simp add: digit_val_def digit_char_def)

lemma show_nat_nonempty [simp]: "show_nat n \<noteq> []"
  by (subst show_nat.simps) simp

lemma show_nat_digits: "list_all dec_digit (show_nat n)"
proof (induction n rule: show_nat.induct)
  case (1 n)
  then show ?case
    by (subst show_nat.simps) (auto simp: dec_digit_digit_char)
qed

lemma dec_value_snoc: "dec_value (s @ [c]) = 10 * dec_value s + digit_val c"
  by (simp add: dec_value_def)

lemma dec_value_show_nat [simp]: "dec_value (show_nat n) = n"
proof (induction n rule: show_nat.induct)
  case (1 n)
  show ?case
  proof (cases "n < 10")
    case True
    then show ?thesis
      by (subst show_nat.simps) (simp add: dec_value_def digit_val_digit_char)
  next
    case False
    with "1" have "dec_value (show_nat (n div 10)) = n div 10" by simp
    with False show ?thesis
      by (subst show_nat.simps) (simp add: dec_value_snoc digit_val_digit_char)
  qed
qed

lemma show_nat_inj: "show_nat m = show_nat n \<longleftrightarrow> m = n"
  by (metis dec_value_show_nat)

lemma py_int_show_nat [simp]: "py_int_of_digits (show_nat n) = Some n"
  by (simp add: py_int_of_digits_def show_nat_digits)

lemma py_isdigit_show_nat [simp]: "py_isdigit (show_nat n)"
  using show_nat_digits [of n] by (auto simp: py_isdigit_def digit_like_def list_all_iff)

lemma dec_digit_neq:
  "dec_digit c \<Longrightarrow> c \<noteq> CHR ''@''" "dec_digit c \<Longrightarrow> c \<noteq> CHR ''-''" "dec_digit c \<Longrightarrow> c \<noteq> CHR ''_''"
  by (auto simp: dec_digit_def)

lemma show_int_inj: "show_int i = show_int j \<longleftrightarrow> i = j"
proof
  assume eq: "show_int i = show_int j"
  have neg: "show_nat n \<noteq> CHR ''-'' # s" for n s
    using show_nat_digits [of n] by (auto simp: dec_digit_def)
  show "i = j"
    using eq neg by (auto simp: show_int_def show_nat_inj neg [symmetric] split: if_splits)
qed simp

section \<open>Splitting at the last separator\<close>

text \<open>
  \<^verbatim>\<open>s.rpartition(sep)\<close> for a non-empty separator: \<open>None\<close> when \<open>sep\<close> does not
  occur, otherwise what stands before and after its last occurrence.
\<close>

fun rpartition :: "string \<Rightarrow> string \<Rightarrow> (string \<times> string) option" where
  "rpartition sep [] = None"
| "rpartition sep (c # cs) =
     (case rpartition sep cs of
        Some (a, b) \<Rightarrow> Some (c # a, b)
      | None \<Rightarrow> if take (length sep) (c # cs) = sep then Some ([], drop (length sep) (c # cs)) else None)"

lemma rpartition_Some: "rpartition sep s = Some (a, b) \<Longrightarrow> s = a @ sep @ b"
proof (induction s arbitrary: a)
  case (Cons c cs)
  show ?case
  proof (cases "rpartition sep cs")
    case None
    with Cons.prems have "take (length sep) (c # cs) = sep" "a = []" "b = drop (length sep) (c # cs)"
      by (auto split: if_splits)
    then show ?thesis by (metis append_Nil append_take_drop_id)
  next
    case (Some p)
    with Cons.prems obtain a' where "a = c # a'" "rpartition sep cs = Some (a', b)"
      by (cases p) auto
    with Cons.IH show ?thesis by simp
  qed
qed simp

lemma rpartition_None: "\<forall>i. take (length sep) (drop i s) \<noteq> sep \<Longrightarrow> rpartition sep s = None"
proof (induction s)
  case (Cons c cs)
  have "\<forall>i. take (length sep) (drop i cs) \<noteq> sep"
    using Cons.prems by (metis drop_Suc_Cons)
  with Cons.IH have "rpartition sep cs = None" by blast
  moreover have "take (length sep) (c # cs) \<noteq> sep"
    using Cons.prems [rule_format, of 0] by simp
  ultimately show ?case by simp
qed simp

lemma rpartition_prepend: "rpartition sep s = Some (a, b) \<Longrightarrow> rpartition sep (p @ s) = Some (p @ a, b)"
  by (induction p) simp_all

section \<open>White space and case\<close>

definition py_space :: "char \<Rightarrow> bool" where
  "py_space c \<longleftrightarrow> (of_char c :: nat) \<in> {9, 10, 11, 12, 13, 28, 29, 30, 31, 32, 133, 160}"

definition py_strip :: "string \<Rightarrow> string" where
  "py_strip s = rev (dropWhile py_space (rev (dropWhile py_space s)))"

text \<open>\<^verbatim>\<open>s.lower()\<close> on Latin-1: the letters A-Z and the accented capitals move up by 32.\<close>

definition lower_char :: "char \<Rightarrow> char" where
  "lower_char c =
     (let n = (of_char c :: nat) in
      if 65 \<le> n \<and> n \<le> 90 \<or> 192 \<le> n \<and> n \<le> 222 \<and> n \<noteq> 215 then char_of (n + 32) else c)"

definition py_lower :: "string \<Rightarrow> string" where
  "py_lower s = map lower_char s"

lemma lower_char_idem: "lower_char (lower_char c) = lower_char c"
proof -
  have "(of_char c :: nat) < 256" by simp
  then show ?thesis
    by (auto simp: lower_char_def Let_def)
qed

lemma py_lower_idem [simp]: "py_lower (py_lower s) = py_lower s"
  by (simp add: py_lower_def lower_char_idem)

lemma dropWhile_rev_first:
  "s \<noteq> [] \<Longrightarrow> \<not> P (hd s) \<Longrightarrow> dropWhile P (rev (dropWhile P (rev s))) = rev (dropWhile P (rev s))"
  by (cases s) (auto simp: dropWhile_append)

lemma py_strip_idem [simp]: "py_strip (py_strip s) = py_strip s"
proof -
  let ?P = py_space
  define t where "t = dropWhile ?P s"
  have "dropWhile ?P (rev (dropWhile ?P (rev t))) = rev (dropWhile ?P (rev t))"
  proof (cases "t = []")
    case True
    then show ?thesis by simp
  next
    case False
    then have "\<not> ?P (hd t)" unfolding t_def by (rule hd_dropWhile)
    with False show ?thesis by (rule dropWhile_rev_first)
  qed
  then have "py_strip (rev (dropWhile ?P (rev t))) = rev (dropWhile ?P (dropWhile ?P (rev t)))"
    by (simp add: py_strip_def)
  then show ?thesis by (simp add: py_strip_def t_def)
qed

end
