(* ===== verification/Config_Schema.thy ===== *)
theory Config_Schema
  imports Complex_Main Py_Strings
begin

text \<open>
  The configuration schema, \<^verbatim>\<open>sglang_omni/config/schema.py\<close>: replica instance names,
  memory sizes, and the validators of \<^verbatim>\<open>EngineArgs\<close>, \<^verbatim>\<open>ProcessConfig\<close>, \<^verbatim>\<open>StageConfig\<close>
  and \<^verbatim>\<open>PipelineConfig\<close>. A validator returns \<open>Inl\<close> of the constructor that names its raise
  site. Memory fractions are reals: the model sums them exactly where the program
  sums binary floating point numbers.
\<close>

section \<open>Replica instance names\<close>

datatype name_error = InvalidIntLiteral string

definition REPLICA_SEPARATOR :: string where
  "REPLICA_SEPARATOR = ''@r''"

definition replica_instance_name :: "string \<Rightarrow> nat \<Rightarrow> string" where
  "replica_instance_name logical_name replica_id = logical_name @ REPLICA_SEPARATOR @ show_nat replica_id"

definition parse_replica_instance_name :: "string \<Rightarrow> name_error + string \<times> nat option" where
  "parse_replica_instance_name name =
     (case rpartition REPLICA_SEPARATOR name of
        None \<Rightarrow> Inr (name, None)
      | Some (logical, suffix) \<Rightarrow>
          if \<not> py_isdigit suffix then Inr (name, None)
          else (case py_int_of_digits suffix of
                  None \<Rightarrow> Inl (InvalidIntLiteral suffix)
                | Some n \<Rightarrow> Inr (logical, Some n)))"

lemma rpartition_replica_suffix:
  assumes "list_all dec_digit ds"
  shows "rpartition ''@r'' (''@r'' @ ds) = Some ([], ds)"
proof -
  have no_sep: "take 2 (drop i ds) \<noteq> ''@r''" for i
  proof
    assume "take 2 (drop i ds) = ''@r''"
    then have "CHR ''@'' \<in> set ds"
      by (metis in_set_dropD in_set_takeD list.set_intros(1))
    with assms show False by (auto simp: list_all_iff dest: dec_digit_neq(1))
  qed
  have "rpartition ''@r'' ds = None"
    by (rule rpartition_None) (use no_sep in \<open>simp add: numeral_2_eq_2\<close>)
  moreover have "take (length ''@r'') (''r'' @ ds) \<noteq> ''@r''" by simp
  ultimately have "rpartition ''@r'' (''r'' @ ds) = None" by simp
  then show ?thesis by simp
qed

lemma parse_replica_instance_name_roundtrip [simp]:
  "parse_replica_instance_name (replica_instance_name s n) = Inr (s, Some n)"
proof -
  have "rpartition ''@r'' (s @ ''@r'' @ show_nat n) = Some (s @ [], show_nat n)"
    by (rule rpartition_prepend) (rule rpartition_replica_suffix [OF show_nat_digits])
  then show ?thesis
    by (simp add: parse_replica_instance_name_def replica_instance_name_def REPLICA_SEPARATOR_def)
qed

lemma replica_instance_name_inj [simp]:
  "replica_instance_name s m = replica_instance_name t n \<longleftrightarrow> s = t \<and> m = n"
  by (metis parse_replica_instance_name_roundtrip old.sum.inject(2) option.inject prod.inject)

lemma parse_replica_instance_name_Some:
  "parse_replica_instance_name s = Inr (l, Some n) \<Longrightarrow> \<exists>ds. s = l @ ''@r'' @ ds \<and> list_all dec_digit ds \<and> ds \<noteq> [] \<and> dec_value ds = n"
  by (auto simp: parse_replica_instance_name_def py_int_of_digits_def REPLICA_SEPARATOR_def
      dest!: rpartition_Some split: option.splits if_splits)

section \<open>Memory sizes\<close>

text \<open>What a configuration source may supply where a byte count is expected.\<close>

datatype mem_value = MNone | MBool bool | MInt int | MStr string | MOther

datatype mem_error = MemFormat | MemNotPositive

definition unit_multiplier :: "string \<Rightarrow> int option" where
  "unit_multiplier u =
     (if u = ''KiB'' then Some 1024
      else if u = ''MiB'' then Some (1024 ^ 2)
      else if u = ''GiB'' then Some (1024 ^ 3)
      else if u = ''TiB'' then Some (1024 ^ 4)
      else None)"

text \<open>\<^verbatim>\<open>re.fullmatch(r"([0-9]+)(KiB|MiB|GiB|TiB)", value)\<close>: the two groups.\<close>

definition match_size :: "string \<Rightarrow> (string \<times> string) option" where
  "match_size s =
     (let n = length s - 3; ds = take n s; u = drop n s in
      if ds \<noteq> [] \<and> list_all dec_digit ds \<and> unit_multiplier u \<noteq> None then Some (ds, u) else None)"

definition parse_memory_bytes :: "mem_value \<Rightarrow> mem_error + int option" where
  "parse_memory_bytes v =
     (case v of
        MNone \<Rightarrow> Inr None
      | MBool _ \<Rightarrow> Inl MemFormat
      | MInt i \<Rightarrow> if i \<le> 0 then Inl MemNotPositive else Inr (Some i)
      | MOther \<Rightarrow> Inl MemFormat
      | MStr s \<Rightarrow>
          (case match_size s of
             None \<Rightarrow> Inl MemFormat
           | Some (ds, u) \<Rightarrow>
               let quantity = int (dec_value ds) in
               if quantity \<le> 0 then Inl MemNotPositive
               else (case unit_multiplier u of
                       None \<Rightarrow> Inl MemFormat
                     | Some m \<Rightarrow> Inr (Some (quantity * m)))))"

lemma unit_multiplier_pos: "unit_multiplier u = Some m \<Longrightarrow> 0 < m"
  by (auto simp: unit_multiplier_def split: if_splits)

lemma unit_multiplier_length: "unit_multiplier u = Some m \<Longrightarrow> length u = 3"
  by (auto simp: unit_multiplier_def split: if_splits)

lemma match_size_render:
  "unit_multiplier u = Some m \<Longrightarrow> match_size (show_nat n @ u) = Some (show_nat n, u)"
  using unit_multiplier_length [of u m] by (simp add: match_size_def Let_def show_nat_digits)

section \<open>Engine and process blocks\<close>

record engine_args =
  mem_fraction_static :: "real option"
  max_total_tokens :: "int option"
  quantization :: "string option"
  kv_cache_bytes :: "int option"

datatype config_error =
    EmptyQuantization | KvBytesWithMemFraction | KvBytesWithMaxTotalTokens
  | EmptyReplicaDevices | NegativeReplicaDevice | NonPositiveReplicas
  | ScalarGpuWithTp string | GpuCountMismatch string | DuplicateGpuIds string
  | EmptyProcess string | NotAnEngineStage string | TwoMemoryBudgets string
  | KvExceedsReserve string | GpuRequired string | NegativeGpuId string
  | MissingModelPath | NoStages | DuplicateStageNames | UnknownEntry string
  | MissingFactory string | NextXorTerminal string | RouteFnOnTerminal string
  | StreamDoneWithoutStream string | WaitForWithoutMerge string
  | WaitForUnknown string "string list" | WaitForFnWithoutWaitFor string
  | NextUnknown string "string list" | StreamToUnknown string string
  | ProjectUnknown string string | ReservedStageName string
  | MissingProcess "string list" | MustDeclareProcess string
  | ReservedProcessName string | MultipleTpStages string "string list"
  | SharedTpProcess string | UnknownProcess "string list"
  | BadName name_error

definition engine_post_init :: "engine_args \<Rightarrow> config_error + unit" where
  "engine_post_init e =
     (if (case quantization e of None \<Rightarrow> False | Some q \<Rightarrow> py_strip q = []) then Inl EmptyQuantization
      else if kv_cache_bytes e \<noteq> None \<and> mem_fraction_static e \<noteq> None then Inl KvBytesWithMemFraction
      else if kv_cache_bytes e \<noteq> None \<and> max_total_tokens e \<noteq> None then Inl KvBytesWithMaxTotalTokens
      else Inr ())"

record process_config =
  pc_num_replicas :: int
  pc_replica_devices :: "int list option"

definition process_config_default :: process_config where
  "process_config_default = \<lparr>pc_num_replicas = 1, pc_replica_devices = None\<rparr>"

definition validate_replica_devices :: "int list option \<Rightarrow> config_error + int list option" where
  "validate_replica_devices value =
     (case value of
        None \<Rightarrow> Inr None
      | Some ds \<Rightarrow>
          if ds = [] then Inl EmptyReplicaDevices
          else if list_ex (\<lambda>d. d < 0) ds then Inl NegativeReplicaDevice
          else Inr (Some ds))"

definition process_config_post_init :: "process_config \<Rightarrow> config_error + unit" where
  "process_config_post_init p = (if pc_num_replicas p < 1 then Inl NonPositiveReplicas else Inr ())"

section \<open>Stages\<close>

datatype next_spec = NextStr string | NextList "string list"

datatype gpu_spec = GpuInt int | GpuList "int list"

record stage_config =
  sc_name :: string
  factory_path :: string
  sc_next :: "next_spec option"
  terminal :: bool
  route_fn :: "string option"
  gpu :: "gpu_spec option"
  tp_size :: int
  process :: "string option"
  gpu_memory_fraction :: "real option"
  total_reserve_bytes :: "int option"
  engine :: "engine_args option"
  wait_for :: "string list option"
  wait_for_fn :: "string option"
  merge_fn :: "string option"
  stream_to :: "string list"
  stream_done_to_fn :: "string option"
  project_payload :: "(string, string) dict"
  engine_stage :: bool

text \<open>Python truthiness of an optional string: neither \<^verbatim>\<open>None\<close> nor empty.\<close>

definition truthy :: "string option \<Rightarrow> bool" where
  "truthy s = (case s of None \<Rightarrow> False | Some t \<Rightarrow> t \<noteq> [])"

definition gpu_ids_of :: "gpu_spec \<Rightarrow> int list" where
  "gpu_ids_of g = (case g of GpuInt i \<Rightarrow> [i] | GpuList is \<Rightarrow> is)"

definition stage_process_name :: "stage_config \<Rightarrow> config_error + string" where
  "stage_process_name s =
     (if 1 < tp_size s then Inr (if truthy (process s) then the (process s) else sc_name s)
      else if \<not> truthy (process s) then Inl (MustDeclareProcess (sc_name s))
      else Inr (the (process s)))"

text \<open>
  The first two blocks of \<^verbatim>\<open>StageConfig.model_post_init\<close>: the scalar and list forms of \<^verbatim>\<open>gpu\<close>.
\<close>

definition check_gpu_shape :: "stage_config \<Rightarrow> config_error + unit" where
  "check_gpu_shape s =
     (case gpu s of
        Some (GpuInt _) \<Rightarrow> if 1 < tp_size s then Inl (ScalarGpuWithTp (sc_name s)) else Inr ()
      | Some (GpuList is) \<Rightarrow>
          if int (length is) \<noteq> tp_size s then Inl (GpuCountMismatch (sc_name s))
          else if \<not> distinct is then Inl (DuplicateGpuIds (sc_name s))
          else Inr ()
      | None \<Rightarrow> Inr ())"

definition check_memory_budget :: "stage_config \<Rightarrow> config_error + unit" where
  "check_memory_budget s =
     (if engine s \<noteq> None \<and> \<not> engine_stage s then Inl (NotAnEngineStage (sc_name s))
      else if total_reserve_bytes s \<noteq> None \<and> gpu_memory_fraction s \<noteq> None then Inl (TwoMemoryBudgets (sc_name s))
      else (case (Option.bind (engine s) kv_cache_bytes, total_reserve_bytes s) of
              (Some kv, Some reserve) \<Rightarrow> if reserve < kv then Inl (KvExceedsReserve (sc_name s)) else Inr ()
            | _ \<Rightarrow> Inr ()))"

definition check_gpu_ids :: "stage_config \<Rightarrow> config_error + unit" where
  "check_gpu_ids s =
     (case gpu s of
        None \<Rightarrow> if 1 < tp_size s then Inl (GpuRequired (sc_name s)) else Inr ()
      | Some g \<Rightarrow>
          let gpu_ids = gpu_ids_of g in
          if int (length gpu_ids) \<noteq> tp_size s then Inl (GpuCountMismatch (sc_name s))
          else if list_ex (\<lambda>i. i < 0) gpu_ids then Inl (NegativeGpuId (sc_name s))
          else if \<not> distinct gpu_ids then Inl (DuplicateGpuIds (sc_name s))
          else Inr ())"

definition strip_process :: "stage_config \<Rightarrow> config_error + stage_config" where
  "strip_process s =
     (case process s of
        None \<Rightarrow> Inr s
      | Some p \<Rightarrow>
          if py_strip p = [] then Inl (EmptyProcess (sc_name s))
          else Inr (s\<lparr>process := Some (py_strip p)\<rparr>))"

definition stage_post_init :: "stage_config \<Rightarrow> config_error + stage_config" where
  "stage_post_init s =
     rbind (check_gpu_shape s) (\<lambda>_.
     rbind (strip_process s) (\<lambda>s'.
     rbind (check_memory_budget s') (\<lambda>_.
     rbind (check_gpu_ids s') (\<lambda>_. Inr s'))))"

section \<open>Pipelines\<close>

record pipeline_config =
  model_path :: string
  stages :: "stage_config list"
  entry_stage :: "string option"
  processes :: "(string, process_config) dict"
  max_total_gpu_memory_fraction_per_gpu :: real
  require_memory_fraction_for_colocation :: bool
  process_local_edges :: "(string \<times> string) list"

definition resolved_entry_stage :: "pipeline_config \<Rightarrow> string" where
  "resolved_entry_stage c =
     (case entry_stage c of Some e \<Rightarrow> e | None \<Rightarrow> (case stages c of [] \<Rightarrow> [] | s # _ \<Rightarrow> sc_name s))"

definition terminal_stages :: "pipeline_config \<Rightarrow> string list" where
  "terminal_stages c = map sc_name (filter terminal (stages c))"

definition next_targets :: "next_spec option \<Rightarrow> string list" where
  "next_targets n = (case n of None \<Rightarrow> [] | Some (NextStr t) \<Rightarrow> [t] | Some (NextList ts) \<Rightarrow> ts)"

definition unknown_in :: "string list \<Rightarrow> string list \<Rightarrow> string list" where
  "unknown_in names xs = sort (filter (\<lambda>x. x \<notin> set names) (remdups xs))"

lemma unknown_in_empty: "unknown_in names xs = [] \<longleftrightarrow> set xs \<subseteq> set names"
proof -
  have "set (unknown_in names xs) = set xs - set names"
    by (auto simp: unknown_in_def)
  then show ?thesis by (metis Diff_eq_empty_iff set_empty)
qed

text \<open>The body of the first loop of \<^verbatim>\<open>_validate_general\<close>, one stage at a time.\<close>

definition validate_stage_refs :: "string list \<Rightarrow> stage_config \<Rightarrow> config_error + unit" where
  "validate_stage_refs names s =
     (let n = sc_name s; waits = (case wait_for s of None \<Rightarrow> [] | Some ws \<Rightarrow> ws) in
      if factory_path s = [] then Inl (MissingFactory n)
      else if (sc_next s \<noteq> None) = terminal s then Inl (NextXorTerminal n)
      else if terminal s \<and> route_fn s \<noteq> None then Inl (RouteFnOnTerminal n)
      else if stream_done_to_fn s \<noteq> None \<and> stream_to s = [] then Inl (StreamDoneWithoutStream n)
      else if waits \<noteq> [] \<and> \<not> truthy (merge_fn s) then Inl (WaitForWithoutMerge n)
      else if waits \<noteq> [] \<and> unknown_in names waits \<noteq> [] then Inl (WaitForUnknown n (unknown_in names waits))
      else if waits = [] \<and> wait_for_fn s \<noteq> None then Inl (WaitForFnWithoutWaitFor n)
      else if unknown_in names (next_targets (sc_next s)) \<noteq> []
           then Inl (NextUnknown n (unknown_in names (next_targets (sc_next s))))
      else (case find (\<lambda>t. t \<notin> set names) (stream_to s) of
              Some t \<Rightarrow> Inl (StreamToUnknown n t)
            | None \<Rightarrow>
                (case find (\<lambda>t. t \<notin> set names) (map fst (project_payload s)) of
                   Some t \<Rightarrow> Inl (ProjectUnknown n t)
                 | None \<Rightarrow> Inr ())))"

definition check_stage_name :: "stage_config \<Rightarrow> config_error + unit" where
  "check_stage_name s =
     (case parse_replica_instance_name (sc_name s) of
        Inl e \<Rightarrow> Inl (BadName e)
      | Inr (_, None) \<Rightarrow> Inr ()
      | Inr (_, Some _) \<Rightarrow> Inl (ReservedStageName (sc_name s)))"

definition validate_general :: "pipeline_config \<Rightarrow> config_error + unit" where
  "validate_general c =
     (let names = map sc_name (stages c);
          missing = map sc_name (filter (\<lambda>s. tp_size s = 1 \<and> \<not> truthy (process s)) (stages c)) in
      if model_path c = [] then Inl MissingModelPath
      else if names = [] then Inl NoStages
      else if \<not> distinct names then Inl DuplicateStageNames
      else if resolved_entry_stage c \<notin> set names then Inl (UnknownEntry (resolved_entry_stage c))
      else rbind (rcheck (validate_stage_refs names) (stages c)) (\<lambda>_.
           rbind (rcheck check_stage_name (stages c)) (\<lambda>_.
           if missing \<noteq> [] then Inl (MissingProcess missing) else Inr ())))"

text \<open>
  Grouping stages by Process Name in configuration order,
  \<^verbatim>\<open>members.setdefault(stage_process_name(stage), []).append(stage)\<close>.
\<close>

definition add_member :: "(string, stage_config list) dict \<Rightarrow> string \<Rightarrow> stage_config \<Rightarrow> (string, stage_config list) dict" where
  "add_member d p s = dset d p ((case dget d p of None \<Rightarrow> [] | Some ss \<Rightarrow> ss) @ [s])"

fun group_members ::
  "stage_config list \<Rightarrow> (string, stage_config list) dict \<Rightarrow> config_error + (string, stage_config list) dict" where
  "group_members [] d = Inr d"
| "group_members (s # ss) d = rbind (stage_process_name s) (\<lambda>p. group_members ss (add_member d p s))"

definition validate_process_members :: "string \<times> stage_config list \<Rightarrow> config_error + unit" where
  "validate_process_members m =
     (let p = fst m; ss = snd m; tp_stages = map sc_name (filter (\<lambda>s. 1 < tp_size s) ss) in
      case parse_replica_instance_name p of
        Inl e \<Rightarrow> Inl (BadName e)
      | Inr (_, Some _) \<Rightarrow> Inl (ReservedProcessName p)
      | Inr (_, None) \<Rightarrow>
          if 1 < length tp_stages then Inl (MultipleTpStages p tp_stages)
          else if tp_stages \<noteq> [] \<and> 1 < length ss then Inl (SharedTpProcess p)
          else Inr ())"

definition validate_processes :: "pipeline_config \<Rightarrow> config_error + unit" where
  "validate_processes c =
     rbind (group_members (stages c) []) (\<lambda>members.
     rbind (rcheck validate_process_members members) (\<lambda>_.
     let unknown = unknown_in (map fst members) (map fst (processes c)) in
     if unknown \<noteq> [] then Inl (UnknownProcess unknown) else Inr ()))"

definition pipeline_post_init :: "pipeline_config \<Rightarrow> config_error + unit" where
  "pipeline_post_init c = rbind (validate_general c) (\<lambda>_. validate_processes c)"

end
