(* ===== verification/Logical_Topology.thy ===== *)
theory Logical_Topology
  imports Config_Schema
begin

text \<open>
  The logical Process plan of \<^verbatim>\<open>sglang_omni/config/topology.py\<close>: stages grouped by their
  declared Process, each with its replica policy, and the check that no handoff that
  must stay inside one process crosses a process boundary. The operations follow the
  code's order; a dictionary lookup that may miss returns \<open>TopoKeyError\<close>.
\<close>

section \<open>Data\<close>

record logical_process =
  lp_name :: string
  lp_stage_names :: "string list"
  lp_tp_size :: int
  lp_num_replicas :: int
  lp_replica_devices :: "int list list option"

definition lp_is_replicated :: "logical_process \<Rightarrow> bool" where
  "lp_is_replicated p \<longleftrightarrow> 1 < lp_num_replicas p"

definition lp_is_tensor_parallel :: "logical_process \<Rightarrow> bool" where
  "lp_is_tensor_parallel p \<longleftrightarrow> 1 < lp_tp_size p"

record logical_process_plan =
  plan_processes :: "logical_process list"
  plan_stage_to_process :: "(string, string) dict"

datatype topo_error =
    TopoConfig config_error
  | ReplicasRequireDevices string
  | DevicesWithoutGpuStage string
  | DeviceCountMismatch string nat int
  | DuplicateReplicaDevices string nat
  | LocalEdgesCross "(string \<times> string) list"
  | TopoKeyError string

section \<open>Queries on a plan\<close>

definition plan_get :: "logical_process_plan \<Rightarrow> string \<Rightarrow> topo_error + logical_process" where
  "plan_get plan name =
     (case find (\<lambda>p. lp_name p = name) (plan_processes plan) of
        Some p \<Rightarrow> Inr p
      | None \<Rightarrow> Inl (TopoKeyError name))"

definition process_of :: "logical_process_plan \<Rightarrow> string \<Rightarrow> topo_error + logical_process" where
  "process_of plan stage =
     (case dget (plan_stage_to_process plan) stage of
        None \<Rightarrow> Inl (TopoKeyError stage)
      | Some p \<Rightarrow> plan_get plan p)"

definition plan_num_replicas :: "logical_process_plan \<Rightarrow> string \<Rightarrow> topo_error + int" where
  "plan_num_replicas plan name = rbind (plan_get plan name) (\<lambda>p. Inr (lp_num_replicas p))"

definition replicated_process_names :: "logical_process_plan \<Rightarrow> string list" where
  "replicated_process_names plan = map lp_name (filter lp_is_replicated (plan_processes plan))"

definition has_replicas :: "logical_process_plan \<Rightarrow> bool" where
  "has_replicas plan = list_ex lp_is_replicated (plan_processes plan)"

section \<open>Compilation\<close>

definition lift_config :: "config_error + 'a \<Rightarrow> topo_error + 'a" where
  "lift_config r = (case r of Inl e \<Rightarrow> Inl (TopoConfig e) | Inr x \<Rightarrow> Inr x)"

lemma lift_config_Inr [simp]: "lift_config r = Inr x \<longleftrightarrow> r = Inr x"
  by (cases r) (simp_all add: lift_config_def)

definition group_stages_by_process :: "stage_config list \<Rightarrow> topo_error + (string, stage_config list) dict" where
  "group_stages_by_process ss = lift_config (group_members ss [])"

text \<open>\<^verbatim>\<open>device_ids[index * tp_size : (index + 1) * tp_size]\<close> for each replica index.\<close>

definition slice_devices :: "int list \<Rightarrow> int \<Rightarrow> int \<Rightarrow> int list list" where
  "slice_devices ds n tp = map (\<lambda>i. take (nat tp) (drop (i * nat tp) ds)) [0..<nat n]"

text \<open>\<^verbatim>\<open>for replica_id, devices in enumerate(replica_devices)\<close>: the first replica with a repeated id.\<close>

definition first_duplicate :: "int list list \<Rightarrow> nat option" where
  "first_duplicate dss = find (\<lambda>i. \<not> distinct (dss ! i)) [0..<length dss]"

definition resolve_replica_devices ::
  "string \<Rightarrow> stage_config list \<Rightarrow> process_config \<Rightarrow> int \<Rightarrow> topo_error + int list list option" where
  "resolve_replica_devices process_name ss policy tp =
     (let has_gpu_stage = list_ex (\<lambda>s. gpu s \<noteq> None) ss in
      case pc_replica_devices policy of
        None \<Rightarrow>
          if 1 < pc_num_replicas policy \<and> has_gpu_stage then Inl (ReplicasRequireDevices process_name) else Inr None
      | Some device_ids \<Rightarrow>
          if \<not> has_gpu_stage then Inl (DevicesWithoutGpuStage process_name)
          else if int (length device_ids) \<noteq> pc_num_replicas policy * tp
               then Inl (DeviceCountMismatch process_name (length device_ids) (pc_num_replicas policy * tp))
          else (let replica_devices = slice_devices device_ids (pc_num_replicas policy) tp in
                case first_duplicate replica_devices of
                  Some i \<Rightarrow> Inl (DuplicateReplicaDevices process_name i)
                | None \<Rightarrow> Inr (Some replica_devices)))"

definition build_logical_process ::
  "string \<Rightarrow> stage_config list \<Rightarrow> process_config option \<Rightarrow> topo_error + logical_process" where
  "build_logical_process name ss process_cfg =
     (let policy = (case process_cfg of None \<Rightarrow> process_config_default | Some p \<Rightarrow> p);
          tp = Max (set (map tp_size ss)) in
      rbind (resolve_replica_devices name ss policy tp) (\<lambda>devices.
        Inr \<lparr>lp_name = name, lp_stage_names = map sc_name ss, lp_tp_size = tp,
             lp_num_replicas = pc_num_replicas policy, lp_replica_devices = devices\<rparr>))"

definition stage_to_process_of :: "logical_process list \<Rightarrow> (string, string) dict" where
  "stage_to_process_of ps =
     fold (\<lambda>(st, p) d. dset d st p) (concat (map (\<lambda>p. map (\<lambda>st. (st, lp_name p)) (lp_stage_names p)) ps)) []"

definition stage_edges :: "stage_config \<Rightarrow> (string \<times> string) list" where
  "stage_edges s =
     map (\<lambda>t. (sc_name s, t)) (next_targets (sc_next s) @ stream_to s) @
     map (\<lambda>src. (src, sc_name s)) (case wait_for s of None \<Rightarrow> [] | Some ws \<Rightarrow> ws)"

definition pipeline_edges :: "stage_config list \<Rightarrow> (string \<times> string) list" where
  "pipeline_edges ss = remdups (concat (map stage_edges ss))"

fun cross_edges_of ::
  "(string, string) dict \<Rightarrow> (string \<times> string) list \<Rightarrow> topo_error + (string \<times> string) list" where
  "cross_edges_of d [] = Inr []"
| "cross_edges_of d ((src, dst) # es) =
     (case dget d src of
        None \<Rightarrow> Inl (TopoKeyError src)
      | Some p \<Rightarrow>
          (case dget d dst of
             None \<Rightarrow> Inl (TopoKeyError dst)
           | Some q \<Rightarrow> rbind (cross_edges_of d es) (\<lambda>r. Inr (if p \<noteq> q then (src, dst) # r else r))))"

definition cross_process_edges :: "stage_config list \<Rightarrow> logical_process_plan \<Rightarrow> topo_error + (string \<times> string) list" where
  "cross_process_edges ss plan = cross_edges_of (plan_stage_to_process plan) (pipeline_edges ss)"

definition validate_process_local_edges ::
  "pipeline_config \<Rightarrow> (string \<times> string) list \<Rightarrow> topo_error + unit" where
  "validate_process_local_edges c edges =
     (let invalid = sort (filter (\<lambda>e. e \<in> set (process_local_edges c)) edges) in
      if invalid \<noteq> [] then Inl (LocalEdgesCross invalid) else Inr ())"

definition compile_logical_processes ::
  "pipeline_config \<Rightarrow> topo_error + logical_process_plan \<times> stage_config list" where
  "compile_logical_processes c =
     rbind (group_stages_by_process (stages c)) (\<lambda>members.
     rbind (rmap (\<lambda>(name, ss). build_logical_process name ss (dget (processes c) name)) members) (\<lambda>ps.
     let plan = \<lparr>plan_processes = ps, plan_stage_to_process = stage_to_process_of ps\<rparr> in
     rbind (cross_process_edges (stages c) plan) (\<lambda>edges.
     rbind (validate_process_local_edges c edges) (\<lambda>_. Inr (plan, stages c)))))"

section \<open>Grouping\<close>

text \<open>Well-formed groups: the keys are the declared process names and no group is empty.\<close>

definition members_ok :: "(string, stage_config list) dict \<Rightarrow> bool" where
  "members_ok d \<longleftrightarrow> dict_ok d \<and> (\<forall>p ss. (p, ss) \<in> set d \<longrightarrow> ss \<noteq> [] \<and> (\<forall>s\<in>set ss. stage_process_name s = Inr p))"

lemma add_member_dget:
  "dget (add_member d p s) q =
     (if q = p then Some ((case dget d p of None \<Rightarrow> [] | Some ss \<Rightarrow> ss) @ [s]) else dget d q)"
  by (simp add: add_member_def)

lemma members_ok_add:
  assumes ok: "members_ok d" and p: "stage_process_name s = Inr p"
  shows "members_ok (add_member d p s)"
proof -
  have dok: "dict_ok d" using ok by (simp add: members_ok_def)
  then have aok: "dict_ok (add_member d p s)" by (simp add: add_member_def)
  have "ss \<noteq> [] \<and> (\<forall>x\<in>set ss. stage_process_name x = Inr q)" if "(q, ss) \<in> set (add_member d p s)" for q ss
  proof -
    from that aok have get: "dget (add_member d p s) q = Some ss" by (simp add: dict_ok_in_set)
    show ?thesis
    proof (cases "q = p")
      case False
      with get have "(q, ss) \<in> set d" using dok by (simp add: add_member_dget dict_ok_in_set)
      with ok show ?thesis by (simp add: members_ok_def)
    next
      case True
      have old: "\<forall>x\<in>set ss'. stage_process_name x = Inr p" if "dget d p = Some ss'" for ss'
        using that ok dok by (auto simp: members_ok_def dict_ok_in_set)
      from True get old p show ?thesis
        by (auto simp: add_member_dget split: option.splits)
    qed
  qed
  with aok show ?thesis by (auto simp: members_ok_def)
qed

lemma group_members_ok: "group_members ss d = Inr m \<Longrightarrow> members_ok d \<Longrightarrow> members_ok m"
  by (induction ss arbitrary: d) (auto simp: rbind_eq_Inr members_ok_add)

text \<open>Every stage lands in the group of its process, in configuration order.\<close>

lemma group_members_dget:
  "group_members ss d = Inr m \<Longrightarrow>
   dget m p = (let old = (case dget d p of None \<Rightarrow> [] | Some xs \<Rightarrow> xs); new = filter (\<lambda>s. stage_process_name s = Inr p) ss
               in if dget d p = None \<and> new = [] then None else Some (old @ new))"
proof (induction ss arbitrary: d)
  case (Cons s ss)
  then obtain q where q: "stage_process_name s = Inr q" and g: "group_members ss (add_member d q s) = Inr m"
    by (auto simp: rbind_eq_Inr)
  from Cons.IH [OF g] q show ?case
    by (auto simp: add_member_dget Let_def split: option.splits)
qed (auto simp: Let_def split: option.splits)

lemma group_members_total:
  "(\<forall>s\<in>set ss. \<exists>p. stage_process_name s = Inr p) \<Longrightarrow> \<exists>m. group_members ss d = Inr m"
  by (induction ss arbitrary: d) auto

lemma group_members_Inr_all:
  "group_members ss d = Inr m \<Longrightarrow> s \<in> set ss \<Longrightarrow> \<exists>p. stage_process_name s = Inr p"
  by (induction ss arbitrary: d) (auto simp: rbind_eq_Inr)


section \<open>The compiled plan\<close>

lemma add_member_Cons:
  "add_member ((k, v) # d) p s = (if k = p then (k, v @ [s]) # d else (k, v) # add_member d p s)"
  by (simp add: add_member_def)

lemma mset_add_member:
  "mset (concat (map snd (add_member d p s))) = add_mset s (mset (concat (map snd d)))"
proof (induction d)
  case Nil
  show ?case by (simp add: add_member_def)
next
  case (Cons kv d)
  then show ?case by (cases kv) (auto simp: add_member_Cons)
qed

lemma mset_group_members:
  "group_members ss d = Inr m \<Longrightarrow> mset (concat (map snd m)) = mset (concat (map snd d)) + mset ss"
  by (induction ss arbitrary: d) (auto simp: rbind_eq_Inr mset_add_member)

lemma build_logical_process_fields:
  assumes "build_logical_process name ss cfg = Inr p"
  shows "lp_name p = name" and "lp_stage_names p = map sc_name ss"
    and "lp_num_replicas p = pc_num_replicas (case cfg of None \<Rightarrow> process_config_default | Some c \<Rightarrow> c)"
    and "lp_tp_size p = Max (set (map tp_size ss))"
    and "resolve_replica_devices name ss (case cfg of None \<Rightarrow> process_config_default | Some c \<Rightarrow> c)
           (Max (set (map tp_size ss))) = Inr (lp_replica_devices p)"
  using assms by (auto simp: build_logical_process_def Let_def rbind_eq_Inr)

text \<open>What a successful compilation produced, step by step.\<close>

lemma compile_InrE:
  assumes "compile_logical_processes c = Inr (plan, ss)"
  obtains members where "group_members (stages c) [] = Inr members"
    and "rmap (\<lambda>(name, gs). build_logical_process name gs (dget (processes c) name)) members = Inr (plan_processes plan)"
    and "plan_stage_to_process plan = stage_to_process_of (plan_processes plan)"
    and "\<exists>edges. cross_process_edges (stages c) plan = Inr edges \<and> validate_process_local_edges c edges = Inr ()"
    and "ss = stages c"
  using assms
  by (auto simp: compile_logical_processes_def group_stages_by_process_def rbind_eq_Inr Let_def)

lemma plan_names_and_groups:
  assumes "rmap (\<lambda>(name, gs). build_logical_process name gs (dget cfgs name)) members = Inr ps"
  shows "map lp_name ps = map fst members" and "map lp_stage_names ps = map (map sc_name \<circ> snd) members"
  by (rule rmap_Inr_map [OF assms]; auto dest: build_logical_process_fields)+

lemma stage_pairs_fst:
  "map fst (concat (map (\<lambda>p. map (\<lambda>st. (st, lp_name p)) (lp_stage_names p)) ps)) = concat (map lp_stage_names ps)"
  by (induction ps) (simp_all add: comp_def)

lemma stage_to_process_of_dget:
  assumes "distinct (concat (map lp_stage_names ps))" "p \<in> set ps" "st \<in> set (lp_stage_names p)"
  shows "dget (stage_to_process_of ps) st = Some (lp_name p)"
proof -
  let ?xs = "concat (map (\<lambda>p. map (\<lambda>st. (st, lp_name p)) (lp_stage_names p)) ps)"
  have d: "distinct (map fst ?xs)" using assms(1) by (simp add: stage_pairs_fst)
  moreover have "(st, lp_name p) \<in> set ?xs" using assms(2,3) by auto
  ultimately have "map_of ?xs st = Some (lp_name p)" by (metis map_of_is_SomeI)
  with d show ?thesis by (simp add: stage_to_process_of_def dget_fold_dset_distinct)
qed

lemma stage_to_process_of_dom: "dom (map_of (stage_to_process_of ps)) = set (concat (map lp_stage_names ps))"
proof -
  have "dom (map_of (stage_to_process_of ps)) = set (map fst (concat (map (\<lambda>p. map (\<lambda>st. (st, lp_name p)) (lp_stage_names p)) ps)))"
    by (simp add: stage_to_process_of_def dget_fold_dset dom_map_of_conv_image_fst)
  then show ?thesis by (simp only: stage_pairs_fst)
qed

lemma plan_stages_concat:
  assumes "rmap (\<lambda>(name, gs). build_logical_process name gs (dget cfgs name)) members = Inr ps"
  shows "concat (map lp_stage_names ps) = map sc_name (concat (map snd members))"
  by (simp add: plan_names_and_groups(2) [OF assms] map_concat comp_def)

lemma set_group_members: "group_members ss [] = Inr m \<Longrightarrow> set (concat (map snd m)) = set ss"
  using mset_group_members [of ss "[]" m] by (intro mset_eq_setD) simp

lemma plan_stages_mset:
  assumes "compile_logical_processes c = Inr (plan, ss)"
  shows "mset (concat (map lp_stage_names (plan_processes plan))) = mset (map sc_name (stages c))"
proof -
  from assms obtain members where g: "group_members (stages c) [] = Inr members"
    and r: "rmap (\<lambda>(name, gs). build_logical_process name gs (dget (processes c) name)) members = Inr (plan_processes plan)"
    by (rule compile_InrE)
  show ?thesis using mset_group_members [OF g] by (simp add: plan_stages_concat [OF r])
qed

lemma plan_process_names_distinct:
  assumes "compile_logical_processes c = Inr (plan, ss)"
  shows "distinct (map lp_name (plan_processes plan))"
proof -
  from assms obtain members where g: "group_members (stages c) [] = Inr members"
    and r: "rmap (\<lambda>(name, gs). build_logical_process name gs (dget (processes c) name)) members = Inr (plan_processes plan)"
    by (rule compile_InrE)
  have "members_ok members" by (rule group_members_ok [OF g]) (simp add: members_ok_def)
  then show ?thesis by (simp add: plan_names_and_groups(1) [OF r] members_ok_def dict_ok_def)
qed

lemma plan_process_of_stage:
  assumes c: "compile_logical_processes c = Inr (plan, ss)" and s: "s \<in> set (stages c)"
  obtains p where "p \<in> set (plan_processes plan)" "sc_name s \<in> set (lp_stage_names p)"
    "stage_process_name s = Inr (lp_name p)"
proof -
  from c obtain members where g: "group_members (stages c) [] = Inr members"
    and r: "rmap (\<lambda>(name, gs). build_logical_process name gs (dget (processes c) name)) members = Inr (plan_processes plan)"
    by (rule compile_InrE)
  obtain q where q: "stage_process_name s = Inr q" using group_members_Inr_all [OF g s] by blast
  have "dget members q = Some (filter (\<lambda>s. stage_process_name s = Inr q) (stages c))"
    using group_members_dget [OF g, of q] s q by (auto simp: Let_def filter_empty_conv)
  then obtain i where i: "i < length members" "members ! i = (q, filter (\<lambda>s. stage_process_name s = Inr q) (stages c))"
    by (metis in_set_conv_nth map_of_SomeD)
  let ?p = "plan_processes plan ! i"
  have len: "length (plan_processes plan) = length members" by (rule rmap_Inr_length [OF r])
  have "build_logical_process q (filter (\<lambda>s. stage_process_name s = Inr q) (stages c)) (dget (processes c) q) = Inr ?p"
    using rmap_Inr_nth [OF r i(1)] i(2) by simp
  note f = build_logical_process_fields [OF this]
  show thesis
  proof (rule that)
    show "?p \<in> set (plan_processes plan)" using i len by simp
    show "sc_name s \<in> set (lp_stage_names ?p)" using s q by (auto simp: f)
    show "stage_process_name s = Inr (lp_name ?p)" using q by (simp add: f)
  qed
qed

section \<open>Replica devices\<close>

lemma concat_slices: "concat (map (\<lambda>i. take k (drop (i * k) ds)) [0..<n]) = take (n * k) ds"
proof (induction n)
  case (Suc n)
  have "take (n * k) ds @ take k (drop (n * k) ds) = take (n * k + k) ds"
    by (rule take_add [symmetric])
  with Suc show ?case by (simp add: add.commute)
qed simp

lemma first_duplicate_None: "first_duplicate dss = None \<Longrightarrow> ds \<in> set dss \<Longrightarrow> distinct ds"
  by (auto simp: first_duplicate_def find_None_iff in_set_conv_nth)

lemma slice_length:
  "length ds = n * k \<Longrightarrow> x \<in> set (map (\<lambda>i. take k (drop (i * k) ds)) [0..<n]) \<Longrightarrow> length x = k"
proof -
  assume len: "length ds = n * k" and "x \<in> set (map (\<lambda>i. take k (drop (i * k) ds)) [0..<n])"
  then obtain i where i: "i < n" "x = take k (drop (i * k) ds)" by auto
  then have "Suc i * k \<le> n * k" by (intro mult_le_mono1) simp
  then have "k \<le> n * k - i * k" by simp
  with i len show "length x = k" by (simp add: min.absorb2)
qed

lemma resolve_replica_devices_shape:
  assumes r: "resolve_replica_devices name ss policy tp = Inr (Some dss)"
    and n: "1 \<le> pc_num_replicas policy" and tp: "1 \<le> tp"
  shows "length dss = nat (pc_num_replicas policy)"
    and "\<forall>ds\<in>set dss. length ds = nat tp \<and> distinct ds"
    and "pc_replica_devices policy = Some (concat dss)"
proof -
  from r obtain ids where ids: "pc_replica_devices policy = Some ids"
    and len: "int (length ids) = pc_num_replicas policy * tp"
    and dss: "dss = slice_devices ids (pc_num_replicas policy) tp" and dup: "first_duplicate dss = None"
    by (auto simp: resolve_replica_devices_def Let_def split: option.splits if_splits)
  have nlen: "length ids = nat (pc_num_replicas policy) * nat tp"
  proof -
    have "length ids = nat (pc_num_replicas policy * tp)" using len by linarith
    then show ?thesis using n by (simp add: nat_mult_distrib)
  qed
  show "length dss = nat (pc_num_replicas policy)" by (simp add: dss slice_devices_def)
  show "\<forall>ds\<in>set dss. length ds = nat tp \<and> distinct ds"
  proof
    fix ds assume ds: "ds \<in> set dss"
    then have "ds \<in> set (map (\<lambda>i. take (nat tp) (drop (i * nat tp) ids)) [0..<nat (pc_num_replicas policy)])"
      by (simp only: dss slice_devices_def)
    then have "length ds = nat tp" by (rule slice_length [OF nlen])
    with first_duplicate_None [OF dup ds] show "length ds = nat tp \<and> distinct ds" by simp
  qed
  show "pc_replica_devices policy = Some (concat dss)"
    using ids nlen by (simp add: dss slice_devices_def concat_slices)
qed

section \<open>Edges\<close>

lemma cross_edges_of_total:
  "(\<forall>(a, b)\<in>set es. a \<in> dom (map_of d) \<and> b \<in> dom (map_of d)) \<Longrightarrow> \<exists>r. cross_edges_of d es = Inr r"
  by (induction es) (auto simp: dom_def)

lemma cross_edges_of_set:
  "cross_edges_of d es = Inr r \<Longrightarrow> set r = {(a, b) \<in> set es. dget d a \<noteq> dget d b}"
  by (induction es arbitrary: r) (auto simp: rbind_eq_Inr split: option.splits if_splits)

lemma set_pipeline_edges:
  "set (pipeline_edges ss) = (\<Union>s\<in>set ss. set (stage_edges s))"
  by (simp add: pipeline_edges_def)

end
