(* ===== verification/Replicas.thy ===== *)
theory Replicas
  imports Logical_Topology
begin

text \<open>
  Process replicas, \<^verbatim>\<open>sglang_omni/pipeline/replicas.py\<close>: the map from logical stages to
  instances, the expansion of a logical Process into its copies, the round-robin
  binding policy and the assignment of one replica index per replicated Process to a
  request. The locale \<open>binding_policy\<close> is the \<^verbatim>\<open>BindingPolicy\<close> protocol; what the
  assignment guarantees is proved there once and obtained for the shipped policy by
  interpretation.
\<close>

section \<open>ReplicaTopology\<close>

datatype replica_error =
    NotReplicated string int
  | ReplicaOutOfRange string nat int
  | BindingOutOfRange string int int
  | GpuOutOfRange string int int
  | ReplicaKeyError string
  | ReplicaIndexError
  | ReplicaName name_error

record replica_topology =
  rt_replicas :: "(string, string list) dict"

definition empty_topology :: replica_topology where
  "empty_topology = \<lparr>rt_replicas = []\<rparr>"

definition is_replicated :: "replica_topology \<Rightarrow> string \<Rightarrow> bool" where
  "is_replicated t n = dhas (rt_replicas t) n"

definition num_replicas :: "replica_topology \<Rightarrow> string \<Rightarrow> nat" where
  "num_replicas t n = (case dget (rt_replicas t) n of None \<Rightarrow> 1 | Some is \<Rightarrow> length is)"

definition instances :: "replica_topology \<Rightarrow> string \<Rightarrow> string list" where
  "instances t n = (case dget (rt_replicas t) n of None \<Rightarrow> [n] | Some is \<Rightarrow> is)"

definition resolve :: "replica_topology \<Rightarrow> string \<Rightarrow> int \<Rightarrow> replica_error + string" where
  "resolve t n i =
     (case dget (rt_replicas t) n of
        None \<Rightarrow> if i \<noteq> 0 then Inl (NotReplicated n i) else Inr n
      | Some is \<Rightarrow>
          if \<not> (0 \<le> i \<and> i < int (length is)) then Inl (ReplicaOutOfRange n (length is) i)
          else Inr (is ! nat i))"

definition logical_name :: "replica_topology \<Rightarrow> string \<Rightarrow> replica_error + string" where
  "logical_name t name =
     (case parse_replica_instance_name name of
        Inl e \<Rightarrow> Inl (ReplicaName e)
      | Inr (logical, None) \<Rightarrow> Inr name
      | Inr (logical, Some _) \<Rightarrow>
          (case dget (rt_replicas t) logical of
             None \<Rightarrow> Inr name
           | Some is \<Rightarrow> if name \<notin> set is then Inr name else Inr logical))"

definition replicated_logical_names :: "replica_topology \<Rightarrow> string list" where
  "replicated_logical_names t = sort (map fst (rt_replicas t))"

section \<open>Expansion\<close>

definition replica_stage_gpu :: "stage_config \<Rightarrow> int list option \<Rightarrow> replica_error + gpu_spec option" where
  "replica_stage_gpu s devices =
     (case (devices, gpu s) of
        (Some ds, Some g) \<Rightarrow>
          if tp_size s = 1 then (case ds of [] \<Rightarrow> Inl ReplicaIndexError | d # _ \<Rightarrow> Inr (Some (GpuInt d)))
          else Inr (Some (GpuList ds))
      | _ \<Rightarrow> Inr (gpu s))"

text \<open>The first loop: the instance names of every member of a replicated Process.\<close>

definition build_replicas :: "logical_process list \<Rightarrow> (string, string list) dict" where
  "build_replicas ps =
     fold (\<lambda>(st, is) d. dset d st is)
       (concat (map (\<lambda>p. if lp_is_replicated p
                          then map (\<lambda>st. (st, map (replica_instance_name st) [0..<nat (lp_num_replicas p)])) (lp_stage_names p)
                          else []) ps)) []"

definition lookup_stage :: "stage_config list \<Rightarrow> string \<Rightarrow> replica_error + stage_config" where
  "lookup_stage ss n = (case find (\<lambda>s. sc_name s = n) (rev ss) of None \<Rightarrow> Inl (ReplicaKeyError n) | Some s \<Rightarrow> Inr s)"

definition nth_devices :: "int list list option \<Rightarrow> nat \<Rightarrow> replica_error + int list option" where
  "nth_devices dss i =
     (case dss of None \<Rightarrow> Inr None | Some ds \<Rightarrow> if i < length ds then Inr (Some (ds ! i)) else Inl ReplicaIndexError)"

text \<open>One copy of one member stage, \<^verbatim>\<open>stage_cfg.model_copy(update=...)\<close>.\<close>

definition copy_stage ::
  "stage_config list \<Rightarrow> logical_process \<Rightarrow> nat \<Rightarrow> string \<Rightarrow> replica_error + stage_config" where
  "copy_stage ss p i st =
     rbind (nth_devices (lp_replica_devices p) i) (\<lambda>devices.
     rbind (lookup_stage ss st) (\<lambda>cfg.
     rbind (replica_stage_gpu cfg devices) (\<lambda>g.
       Inr (cfg\<lparr>sc_name := replica_instance_name st i, gpu := g,
                process := Some (replica_instance_name (lp_name p) i)\<rparr>))))"

definition append_copy :: "(string, stage_config list) dict \<Rightarrow> string \<Rightarrow> stage_config \<Rightarrow> (string, stage_config list) dict" where
  "append_copy d st s = dset d st ((case dget d st of None \<Rightarrow> [] | Some xs \<Rightarrow> xs) @ [s])"

definition expand_process ::
  "stage_config list \<Rightarrow> logical_process \<Rightarrow> (string, stage_config list) dict \<Rightarrow> replica_error + (string, stage_config list) dict" where
  "expand_process ss p d =
     (if \<not> lp_is_replicated p then
        (case lp_replica_devices p of
           None \<Rightarrow> Inr d
         | Some dss \<Rightarrow>
             rfold (\<lambda>st d.
               rbind (lookup_stage ss st) (\<lambda>cfg.
               rbind (nth_devices (Some dss) 0) (\<lambda>devices.
               rbind (replica_stage_gpu cfg devices) (\<lambda>g. Inr (dset d st [cfg\<lparr>gpu := g\<rparr>])))))
             (lp_stage_names p) d)
      else
        rfold (\<lambda>(i, st) d. rbind (copy_stage ss p i st) (\<lambda>s. Inr (append_copy d st s)))
          (concat (map (\<lambda>i. map (Pair i) (lp_stage_names p)) [0..<nat (lp_num_replicas p)])) d)"

definition expand_replica_stages ::
  "stage_config list \<Rightarrow> logical_process_plan \<Rightarrow> replica_error + stage_config list \<times> replica_topology" where
  "expand_replica_stages ss plan =
     (let replicas = build_replicas (plan_processes plan) in
      rbind (rfold (expand_process ss) (plan_processes plan) []) (\<lambda>by_stage.
        Inr (concat (map (\<lambda>s. case dget by_stage (sc_name s) of None \<Rightarrow> [s] | Some cs \<Rightarrow> cs) ss),
             \<lparr>rt_replicas = replicas\<rparr>)))"

definition validate_device_assignment :: "stage_config list \<Rightarrow> int option \<Rightarrow> replica_error + unit" where
  "validate_device_assignment ss device_count =
     (case device_count of
        None \<Rightarrow> Inr ()
      | Some n \<Rightarrow>
          rcheck (\<lambda>s. case gpu s of
                        None \<Rightarrow> Inr ()
                      | Some g \<Rightarrow> rcheck (\<lambda>i. if n \<le> i then Inl (GpuOutOfRange (sc_name s) i n) else Inr ()) (gpu_ids_of g)) ss)"

section \<open>Bindings\<close>

text \<open>
  \<^verbatim>\<open>RoundRobinBindingPolicy\<close>: a counter per process name. A policy is a function from its
  own state, the process name, the replica count and the request id to the chosen
  index and the new state.
\<close>

type_synonym rr_state = "(string, int) dict"

type_synonym 'p bind_fn = "'p \<Rightarrow> string \<Rightarrow> int \<Rightarrow> string \<Rightarrow> int \<times> 'p"

definition rr_bind :: "rr_state bind_fn" where
  "rr_bind counters process_name n request_id =
     (let index = (case dget counters process_name of None \<Rightarrow> 0 | Some i \<Rightarrow> i) in
      (index mod n, dset counters process_name (index + 1)))"

fun assign_loop ::
  "'p bind_fn \<Rightarrow> string \<Rightarrow> logical_process list \<Rightarrow> (string, int) dict \<Rightarrow> 'p \<Rightarrow> (replica_error + (string, int) dict) \<times> 'p" where
  "assign_loop bind r [] b st = (Inr b, st)"
| "assign_loop bind r (p # ps) b st =
     (if \<not> lp_is_replicated p then assign_loop bind r ps b st
      else let (index, st') = bind st (lp_name p) (lp_num_replicas p) r in
           if \<not> (0 \<le> index \<and> index < lp_num_replicas p)
           then (Inl (BindingOutOfRange (lp_name p) index (lp_num_replicas p)), st')
           else assign_loop bind r ps (fold (\<lambda>s d. dset d s index) (lp_stage_names p) b) st')"

definition assign_replica_bindings ::
  "'p bind_fn \<Rightarrow> logical_process_plan \<Rightarrow> 'p \<Rightarrow> string \<Rightarrow> (replica_error + (string, int) dict option) \<times> 'p" where
  "assign_replica_bindings bind plan st r =
     (if \<not> has_replicas plan then (Inr None, st)
      else (let (res, st') = assign_loop bind r (plan_processes plan) [] st in
            (rbind res (\<lambda>b. Inr (Some b)), st')))"

section \<open>The BindingPolicy protocol\<close>

lemma dget_fold_const: "map_of (fold (\<lambda>s d. AList.update s v d) xs d) k = (if k \<in> set xs then Some v else map_of d k)"
  by (induction xs arbitrary: d) auto

locale binding_policy =
  fixes bind :: "'p bind_fn"
  assumes bind_in_range: "0 < n \<Longrightarrow> 0 \<le> fst (bind st name n r) \<and> fst (bind st name n r) < n"
begin

lemma assign_loop_Inr: "\<exists>b' st'. assign_loop bind r ps b st = (Inr b', st')"
proof (induction ps arbitrary: b st)
  case (Cons p ps)
  show ?case
  proof (cases "lp_is_replicated p")
    case True
    then have "0 < lp_num_replicas p" by (simp add: lp_is_replicated_def)
    from bind_in_range [OF this] Cons.IH show ?thesis
      by (auto simp: case_prod_unfold Let_def)
  qed (use Cons.IH in simp)
qed simp

lemma assign_loop_spec:
  assumes "assign_loop bind r ps b st = (Inr b', st')" "distinct (concat (map lp_stage_names ps))"
  shows "(\<forall>s. s \<notin> set (concat (map lp_stage_names (filter lp_is_replicated ps))) \<longrightarrow> dget b' s = dget b s) \<and>
         (\<forall>p\<in>set ps. lp_is_replicated p \<longrightarrow>
            (\<exists>i. 0 \<le> i \<and> i < lp_num_replicas p \<and> (\<forall>s\<in>set (lp_stage_names p). dget b' s = Some i)))"
  using assms
proof (induction ps arbitrary: b st)
  case (Cons p ps)
  show ?case
  proof (cases "lp_is_replicated p")
    case False
    with Cons show ?thesis by auto
  next
    case True
    obtain i st1 where b: "bind st (lp_name p) (lp_num_replicas p) r = (i, st1)" by fastforce
    have rng: "0 \<le> i" "i < lp_num_replicas p"
      using bind_in_range [of "lp_num_replicas p" st "lp_name p" r] True b by (auto simp: lp_is_replicated_def)
    let ?b1 = "fold (\<lambda>s d. dset d s i) (lp_stage_names p) b"
    have rec: "assign_loop bind r ps ?b1 st1 = (Inr b', st')"
      using Cons.prems(1) True b rng by simp
    have dis: "distinct (concat (map lp_stage_names ps))" using Cons.prems(2) by simp
    note ih = Cons.IH [OF rec dis]
    have "dget b' s = Some i" if s: "s \<in> set (lp_stage_names p)" for s
    proof -
      have "s \<notin> set (concat (map lp_stage_names (filter lp_is_replicated ps)))"
        using Cons.prems(2) s by auto
      with ih have "dget b' s = dget ?b1 s" by blast
      with s show ?thesis by (simp add: dget_fold_const)
    qed
    moreover have "dget b' s = dget b s"
      if "s \<notin> set (concat (map lp_stage_names (filter lp_is_replicated (p # ps))))" for s
    proof -
      have "s \<notin> set (lp_stage_names p)" "s \<notin> set (concat (map lp_stage_names (filter lp_is_replicated ps)))"
        using that True by auto
      with ih show ?thesis by (simp add: dget_fold_const)
    qed
    ultimately show ?thesis using ih rng True by auto
  qed
qed simp

lemma assign_total:
  "\<exists>b st'. assign_replica_bindings bind plan st r = (Inr b, st')"
  using assign_loop_Inr [of r "plan_processes plan" "[]" st]
  by (auto simp: assign_replica_bindings_def)

lemma assign_bindings:
  assumes "assign_replica_bindings bind plan st r = (Inr (Some b), st')"
    and "distinct (concat (map lp_stage_names (plan_processes plan)))"
    and "p \<in> set (plan_processes plan)" "lp_is_replicated p"
  shows "\<exists>i. 0 \<le> i \<and> i < lp_num_replicas p \<and> (\<forall>s\<in>set (lp_stage_names p). dget b s = Some i)"
proof -
  from assms(1) have "assign_loop bind r (plan_processes plan) [] st = (Inr b, st')"
    by (auto simp: assign_replica_bindings_def rbind_eq_Inr split: if_splits prod.splits)
  from assign_loop_spec [OF this assms(2)] assms(3,4) show ?thesis by blast
qed

end

interpretation rr: binding_policy rr_bind
  by unfold_locales (simp add: rr_bind_def Let_def)

end
