(* ===== verification/Topology_Properties.thy ===== *)
theory Topology_Properties
  imports Logical_Topology
begin

text \<open>
  Correctness of the configuration front end: names, sizes, the static validation of a
  pipeline and the compiled logical Process plan. The closing sections give a small
  two-process pipeline on which the properties are exercised.
\<close>

section \<open>Names and sizes\<close>

text \<open>
  A replica instance name \<open>stage@rN\<close> parses back to exactly the logical stage and the
  replica index it was rendered from, whatever the stage name contains, and distinct
  (stage, index) pairs never render to the same instance name.
\<close>

theorem replica_name_roundtrip:
  "parse_replica_instance_name (replica_instance_name s n) = Inr (s, Some n) \<and>
   (replica_instance_name s n = replica_instance_name t m \<longleftrightarrow> s = t \<and> n = m)"
  by simp

text \<open>
  A size string made of a positive decimal quantity and one of the four binary units
  parses to quantity times unit, and no input of any kind is ever accepted as a byte
  count that is zero or negative.
\<close>

theorem memory_size_exact:
  assumes "unit_multiplier u = Some m" and "0 < n"
  shows "parse_memory_bytes (MStr (show_nat n @ u)) = Inr (Some (int n * m)) \<and>
    (\<forall>v b. parse_memory_bytes v = Inr (Some b) \<longrightarrow> 0 < b)"
proof
  show "parse_memory_bytes (MStr (show_nat n @ u)) = Inr (Some (int n * m))"
    using assms by (simp add: parse_memory_bytes_def match_size_render Let_def)
  show "\<forall>v b. parse_memory_bytes v = Inr (Some b) \<longrightarrow> 0 < b"
    by (auto simp: parse_memory_bytes_def Let_def dest!: unit_multiplier_pos
        split: mem_value.splits option.splits if_splits)
qed

theorem memory_size_exact_witness:
  "parse_memory_bytes (MStr (show_nat 2 @ ''GiB'')) = Inr (Some (2 * 1024 ^ 3))"
proof -
  have "unit_multiplier ''GiB'' = Some (1024 ^ 3)" by (simp add: unit_multiplier_def)
  from memory_size_exact [OF this, of 2] show ?thesis by simp
qed

section \<open>Static validation\<close>

lemma validate_stage_refs_edges:
  assumes "validate_stage_refs names s = Inr ()"
  shows "\<forall>t\<in>set (next_targets (sc_next s)) \<union> set (stream_to s) \<union> set (case wait_for s of None \<Rightarrow> [] | Some ws \<Rightarrow> ws).
           t \<in> set names"
    and "sc_next s \<noteq> None \<longleftrightarrow> \<not> terminal s"
  using assms
  by (auto simp: validate_stage_refs_def Let_def unknown_in_empty find_None_iff split: if_splits option.splits)

lemma validate_general_Inr:
  assumes "validate_general c = Inr ()"
  shows "distinct (map sc_name (stages c))" and "resolved_entry_stage c \<in> set (map sc_name (stages c))"
    and "\<forall>s\<in>set (stages c). validate_stage_refs (map sc_name (stages c)) s = Inr ()"
    and "\<forall>s\<in>set (stages c). check_stage_name s = Inr ()"
    and "\<forall>s\<in>set (stages c). tp_size s = 1 \<longrightarrow> truthy (process s)"
  using assms
  by (auto simp: validate_general_def Let_def rbind_eq_Inr rcheck_Inr filter_empty_conv split: if_splits)

lemma stage_edges_known:
  assumes "validate_general c = Inr ()" and "s \<in> set (stages c)" and "(a, b) \<in> set (stage_edges s)"
  shows "a \<in> sc_name ` set (stages c) \<and> b \<in> sc_name ` set (stages c)"
proof -
  have v: "validate_stage_refs (map sc_name (stages c)) s = Inr ()"
    using validate_general_Inr(3) [OF assms(1)] assms(2) by blast
  show ?thesis
    using validate_stage_refs_edges(1) [OF v] assms(2,3) by (auto simp: stage_edges_def split: option.splits)
qed

lemma check_stage_name_Inr:
  assumes "check_stage_name s = Inr ()"
  shows "\<exists>l. parse_replica_instance_name (sc_name s) = Inr (l, None)"
proof (cases "parse_replica_instance_name (sc_name s)")
  case (Inr r)
  obtain l o' where "r = (l, o')" by (cases r)
  with Inr assms show ?thesis by (cases o') (simp_all add: check_stage_name_def)
qed (use assms in \<open>simp add: check_stage_name_def\<close>)

lemma tp_process_singleton:
  assumes v: "validate_process_members (p, ss) = Inr ()" and s: "s \<in> set ss" and tp: "1 < tp_size s"
  shows "ss = [s]"
proof -
  define tps where "tps = map sc_name (filter (\<lambda>s. 1 < tp_size s) ss)"
  have "sc_name s \<in> set tps" using s tp by (auto simp: tps_def)
  then have "tps \<noteq> []" by auto
  moreover have "\<not> (tps \<noteq> [] \<and> 1 < length ss)"
    using v unfolding validate_process_members_def Let_def fst_conv snd_conv tps_def [symmetric]
    by (simp split: sum.splits option.splits if_splits prod.splits)
  ultimately have "length ss \<le> 1" by simp
  with s show ?thesis by (cases ss) auto
qed

text \<open>
  C28: a pipeline that passes \<open>model_post_init\<close> has unique stage names, a defined entry
  stage, only handoffs between defined stages, exactly one of \<open>next\<close> and \<open>terminal\<close> on every
  stage, no stage whose name parses as a replica instance, and in every process that
  holds a tensor-parallel stage no other stage.
\<close>

theorem validated_pipeline:
  assumes "pipeline_post_init c = Inr ()"
  shows "distinct (map sc_name (stages c)) \<and> resolved_entry_stage c \<in> sc_name ` set (stages c) \<and>
    (\<forall>s\<in>set (stages c).
       (\<forall>a b. (a, b) \<in> set (stage_edges s) \<longrightarrow> a \<in> sc_name ` set (stages c) \<and> b \<in> sc_name ` set (stages c)) \<and>
       (sc_next s \<noteq> None \<longleftrightarrow> \<not> terminal s) \<and>
       (\<exists>l. parse_replica_instance_name (sc_name s) = Inr (l, None)) \<and>
       (\<forall>p. stage_process_name s = Inr p \<and> 1 < tp_size s \<longrightarrow>
          filter (\<lambda>t. stage_process_name t = Inr p) (stages c) = [s]))"
proof -
  have g: "validate_general c = Inr ()" and vp: "validate_processes c = Inr ()"
    using assms by (auto simp: pipeline_post_init_def rbind_eq_Inr)
  from vp obtain members where m: "group_members (stages c) [] = Inr members"
    and chk: "\<forall>x\<in>set members. validate_process_members x = Inr ()"
    by (auto simp: validate_processes_def rbind_eq_Inr rcheck_Inr)
  have tp: "filter (\<lambda>t. stage_process_name t = Inr p) (stages c) = [s]"
    if s: "s \<in> set (stages c)" and p: "stage_process_name s = Inr p" and tp: "1 < tp_size s" for s p
  proof -
    let ?g = "filter (\<lambda>t. stage_process_name t = Inr p) (stages c)"
    have sg: "s \<in> set ?g" using s p by simp
    have "dget members p = Some ?g"
      using group_members_dget [OF m, of p] sg by (auto simp: Let_def filter_empty_conv)
    then have "validate_process_members (p, ?g) = Inr ()" using chk by (blast dest: map_of_SomeD)
    then show "?g = [s]" using sg tp by (rule tp_process_singleton)
  qed
  have nm: "(\<exists>l. parse_replica_instance_name (sc_name s) = Inr (l, None))" if "s \<in> set (stages c)" for s
    using validate_general_Inr(4) [OF g] that check_stage_name_Inr by blast
  have per: "(\<forall>a b. (a, b) \<in> set (stage_edges s) \<longrightarrow> a \<in> sc_name ` set (stages c) \<and> b \<in> sc_name ` set (stages c)) \<and>
       (sc_next s \<noteq> None \<longleftrightarrow> \<not> terminal s) \<and>
       (\<exists>l. parse_replica_instance_name (sc_name s) = Inr (l, None)) \<and>
       (\<forall>p. stage_process_name s = Inr p \<and> 1 < tp_size s \<longrightarrow>
          filter (\<lambda>t. stage_process_name t = Inr p) (stages c) = [s])" if s: "s \<in> set (stages c)" for s
  proof (intro conjI)
    show "sc_next s \<noteq> None \<longleftrightarrow> \<not> terminal s"
      using validate_general_Inr(3) [OF g] s validate_stage_refs_edges(2) by blast
    show "(\<exists>l. parse_replica_instance_name (sc_name s) = Inr (l, None))" by (rule nm [OF s])
  qed (use stage_edges_known [OF g s] tp [OF s] in blast)+
  have "resolved_entry_stage c \<in> sc_name ` set (stages c)" using validate_general_Inr(2) [OF g] by simp
  with validate_general_Inr(1) [OF g] per show ?thesis by blast
qed

section \<open>A small pipeline\<close>

definition demo_stage :: "string \<Rightarrow> next_spec option \<Rightarrow> gpu_spec option \<Rightarrow> string \<Rightarrow> stage_config" where
  "demo_stage n nx g p =
     \<lparr>sc_name = n, factory_path = ''f'', sc_next = nx, terminal = (nx = None), route_fn = None, gpu = g,
      tp_size = 1, process = Some p, gpu_memory_fraction = None, total_reserve_bytes = None, engine = None,
      wait_for = None, wait_for_fn = None, merge_fn = None, stream_to = [], stream_done_to_fn = None,
      project_payload = [], engine_stage = False\<rparr>"

definition demo_pipeline :: pipeline_config where
  "demo_pipeline =
     \<lparr>model_path = ''m'',
      stages = [demo_stage ''pre'' (Some (NextStr ''ar'')) None ''cpu'',
                demo_stage ''ar'' (Some (NextStr ''dec'')) (Some (GpuInt 0)) ''gpu'',
                demo_stage ''dec'' None (Some (GpuInt 0)) ''gpu''],
      entry_stage = None,
      processes = [(''gpu'', \<lparr>pc_num_replicas = 2, pc_replica_devices = Some [0, 1]\<rparr>)],
      max_total_gpu_memory_fraction_per_gpu = 1, require_memory_fraction_for_colocation = True,
      process_local_edges = [(''ar'', ''dec'')]\<rparr>"

definition demo_plan :: logical_process_plan where
  "demo_plan =
     \<lparr>plan_processes =
        [\<lparr>lp_name = ''cpu'', lp_stage_names = [''pre''], lp_tp_size = 1, lp_num_replicas = 1, lp_replica_devices = None\<rparr>,
         \<lparr>lp_name = ''gpu'', lp_stage_names = [''ar'', ''dec''], lp_tp_size = 1, lp_num_replicas = 2,
          lp_replica_devices = Some [[0], [1]]\<rparr>],
      plan_stage_to_process = [(''pre'', ''cpu''), (''ar'', ''gpu''), (''dec'', ''gpu'')]\<rparr>"

lemmas schema_eval =
  pipeline_post_init_def validate_general_def validate_processes_def validate_stage_refs_def validate_process_members_def
  check_stage_name_def parse_replica_instance_name_def REPLICA_SEPARATOR_def stage_process_name_def add_member_def
  resolved_entry_stage_def next_targets_def unknown_in_def truthy_def Let_def

lemmas plan_eval =
  compile_logical_processes_def group_stages_by_process_def lift_config_def build_logical_process_def
  resolve_replica_devices_def slice_devices_def first_duplicate_def stage_to_process_of_def
  cross_process_edges_def pipeline_edges_def stage_edges_def validate_process_local_edges_def
  process_config_default_def

lemma demo_pipeline_valid: "pipeline_post_init demo_pipeline = Inr ()"
  by (simp add: demo_pipeline_def demo_stage_def schema_eval)

lemma demo_pipeline_compiles: "compile_logical_processes demo_pipeline = Inr (demo_plan, stages demo_pipeline)"
  by (simp add: demo_pipeline_def demo_stage_def demo_plan_def schema_eval plan_eval upt_rec)

theorem validated_pipeline_witness:
  "distinct (map sc_name (stages demo_pipeline)) \<and> resolved_entry_stage demo_pipeline = ''pre''"
  using validated_pipeline [OF demo_pipeline_valid]
  by (simp add: demo_pipeline_def demo_stage_def resolved_entry_stage_def)

section \<open>The compiled plan\<close>

lemma plan_get_member:
  assumes "distinct (map lp_name (plan_processes plan))" "p \<in> set (plan_processes plan)"
  shows "plan_get plan (lp_name p) = Inr p"
proof -
  have "find (\<lambda>q. lp_name q = lp_name p) ps = Some p" if "distinct (map lp_name ps)" "p \<in> set ps" for ps
    using that by (induction ps) (auto intro: rev_image_eqI)
  with assms show ?thesis by (simp add: plan_get_def)
qed

lemma compiled_process_of:
  assumes v: "distinct (map sc_name (stages c))" and comp: "compile_logical_processes c = Inr (plan, ss)"
    and s: "s \<in> set (stages c)"
  shows "\<exists>p\<in>set (plan_processes plan). process_of plan (sc_name s) = Inr p \<and>
           sc_name s \<in> set (lp_stage_names p) \<and> stage_process_name s = Inr (lp_name p)"
proof -
  obtain p where p: "p \<in> set (plan_processes plan)" "sc_name s \<in> set (lp_stage_names p)"
    "stage_process_name s = Inr (lp_name p)"
    using plan_process_of_stage [OF comp s] .
  have "distinct (concat (map lp_stage_names (plan_processes plan)))"
    using v plan_stages_mset [OF comp] by (metis mset_eq_imp_distinct_iff)
  then have "dget (stage_to_process_of (plan_processes plan)) (sc_name s) = Some (lp_name p)"
    using p by (intro stage_to_process_of_dget)
  moreover have "plan_stage_to_process plan = stage_to_process_of (plan_processes plan)"
    using comp by (rule compile_InrE)
  ultimately have "process_of plan (sc_name s) = Inr p"
    using plan_get_member [OF plan_process_names_distinct [OF comp] p(1)] by (simp add: process_of_def)
  with p show ?thesis by blast
qed

text \<open>
  Compiling a validated pipeline groups its stages into processes with distinct names;
  every stage appears in exactly one process (the plan's stages are the configured stages,
  counted with multiplicity), and looking a stage up in the plan yields the process the
  stage declares.
\<close>

theorem compiled_plan_partitions_stages:
  assumes "pipeline_post_init c = Inr ()" and "compile_logical_processes c = Inr (plan, ss)"
  shows "ss = stages c \<and> distinct (map lp_name (plan_processes plan)) \<and>
    mset (concat (map lp_stage_names (plan_processes plan))) = mset (map sc_name (stages c)) \<and>
    (\<forall>s\<in>set (stages c). \<exists>p\<in>set (plan_processes plan). process_of plan (sc_name s) = Inr p \<and>
       sc_name s \<in> set (lp_stage_names p) \<and> stage_process_name s = Inr (lp_name p))"
proof -
  have "distinct (map sc_name (stages c))"
    using assms(1) validate_general_Inr(1) by (auto simp: pipeline_post_init_def rbind_eq_Inr)
  then show ?thesis
    using compile_InrE [OF assms(2)] plan_process_names_distinct [OF assms(2)] plan_stages_mset [OF assms(2)]
      compiled_process_of [OF _ assms(2)] by blast
qed

theorem compiled_plan_partitions_stages_witness:
  "mset (concat (map lp_stage_names (plan_processes demo_plan))) = mset [''pre'', ''ar'', ''dec''] \<and>
   distinct (map lp_name (plan_processes demo_plan))"
  using compiled_plan_partitions_stages [OF demo_pipeline_valid demo_pipeline_compiles]
  by (simp add: demo_pipeline_def demo_stage_def)

text \<open>
  The compiler never looks up a stage the plan does not know: on a validated pipeline
  it either succeeds or reports a policy error, never a missing key.
\<close>

theorem compile_no_missing_key:
  assumes "pipeline_post_init c = Inr ()"
  shows "compile_logical_processes c \<noteq> Inl (TopoKeyError k)"
proof
  assume err: "compile_logical_processes c = Inl (TopoKeyError k)"
  have g: "validate_general c = Inr ()" using assms by (auto simp: pipeline_post_init_def rbind_eq_Inr)
  have build: "build_logical_process n gs cfg \<noteq> Inl (TopoKeyError k)" for n gs cfg
    by (auto simp: build_logical_process_def resolve_replica_devices_def Let_def rbind_eq_Inl
        split: option.splits if_splits)
  have rm: "rmap (\<lambda>(name, gs). build_logical_process name gs (dget (processes c) name)) ms \<noteq> Inl (TopoKeyError k)" for ms
    using build by (induction ms) (auto simp: rbind_eq_Inl)
  have grp: "group_stages_by_process (stages c) \<noteq> Inl (TopoKeyError k)"
    by (simp add: group_stages_by_process_def lift_config_def split: sum.splits)
  from err grp rm obtain members ps where m: "group_stages_by_process (stages c) = Inr members"
    and r: "rmap (\<lambda>(name, gs). build_logical_process name gs (dget (processes c) name)) members = Inr ps"
    and e: "cross_process_edges (stages c) \<lparr>plan_processes = ps, plan_stage_to_process = stage_to_process_of ps\<rparr>
              = Inl (TopoKeyError k)"
    by (auto simp: compile_logical_processes_def Let_def rbind_eq_Inl validate_process_local_edges_def
        split: if_splits)
  have "group_members (stages c) [] = Inr members" using m by (simp add: group_stages_by_process_def)
  then have "set (concat (map lp_stage_names ps)) = sc_name ` set (stages c)"
    unfolding plan_stages_concat [OF r] by (simp only: list.set_map set_group_members)
  then have "dom (map_of (stage_to_process_of ps)) = sc_name ` set (stages c)"
    by (simp add: stage_to_process_of_dom)
  with stage_edges_known [OF g] have "\<forall>(a, b)\<in>set (pipeline_edges (stages c)).
      a \<in> dom (map_of (stage_to_process_of ps)) \<and> b \<in> dom (map_of (stage_to_process_of ps))"
    by (auto simp: set_pipeline_edges)
  from cross_edges_of_total [OF this] e show False by (auto simp: cross_process_edges_def)
qed

theorem compile_no_missing_key_witness: "compile_logical_processes demo_pipeline \<noteq> Inl (TopoKeyError ''ar'')"
  by (rule compile_no_missing_key [OF demo_pipeline_valid])

lemma compiled_device_blocks:
  assumes comp: "compile_logical_processes c = Inr (plan, ss)"
    and tps: "\<forall>s\<in>set (stages c). 1 \<le> tp_size s"
    and pcs: "\<forall>(n, pc)\<in>set (processes c). process_config_post_init pc = Inr ()"
    and p: "p \<in> set (plan_processes plan)" and dss: "lp_replica_devices p = Some dss"
  shows "length dss = nat (lp_num_replicas p)" and "\<forall>ds\<in>set dss. length ds = nat (lp_tp_size p) \<and> distinct ds"
    and "\<exists>pc. dget (processes c) (lp_name p) = Some pc \<and> pc_replica_devices pc = Some (concat dss)"
    and "1 \<le> lp_tp_size p"
proof -
  from comp obtain members where g: "group_members (stages c) [] = Inr members"
    and r: "rmap (\<lambda>(name, gs). build_logical_process name gs (dget (processes c) name)) members = Inr (plan_processes plan)"
    by (rule compile_InrE)
  from rmap_Inr_set [OF r p] obtain n gs where mem: "(n, gs) \<in> set members"
    and b: "build_logical_process n gs (dget (processes c) n) = Inr p" by auto
  note f = build_logical_process_fields [OF b]
  define policy where "policy = (case dget (processes c) n of None \<Rightarrow> process_config_default | Some pc \<Rightarrow> pc)"
  have res: "resolve_replica_devices n gs policy (lp_tp_size p) = Inr (Some dss)"
    using f dss by (simp add: policy_def)
  have n1: "1 \<le> pc_num_replicas policy"
    using pcs by (auto simp: policy_def process_config_default_def process_config_post_init_def
        split: option.splits if_splits dest!: map_of_SomeD)
  have "members_ok members" by (rule group_members_ok [OF g]) (simp add: members_ok_def)
  then have gs: "gs \<noteq> []" using mem by (auto simp: members_ok_def)
  have "set gs \<subseteq> set (stages c)"
    unfolding set_group_members [OF g, symmetric] using mem by (auto intro!: bexI [of _ "(n, gs)"])
  then have "\<forall>s\<in>set gs. 1 \<le> tp_size s" using tps by blast
  with gs obtain s0 where s0: "s0 \<in> set gs" "1 \<le> tp_size s0" by (metis hd_in_set)
  have "tp_size s0 \<le> lp_tp_size p" unfolding f(4) by (rule Max_ge) (use s0 in auto)
  with s0 have tp1: "1 \<le> lp_tp_size p" by simp
  note sh = resolve_replica_devices_shape [OF res n1 tp1]
  have "dget (processes c) n \<noteq> None"
    using sh(3) by (auto simp: policy_def process_config_default_def split: option.splits)
  with sh show "length dss = nat (lp_num_replicas p)" "\<forall>ds\<in>set dss. length ds = nat (lp_tp_size p) \<and> distinct ds"
    "\<exists>pc. dget (processes c) (lp_name p) = Some pc \<and> pc_replica_devices pc = Some (concat dss)"
    by (auto simp: f policy_def)
  show "1 \<le> lp_tp_size p" by (rule tp1)
qed

text \<open>
  When a process declares replica devices, the plan splits the configured list into
  consecutive blocks without losing or reordering an id: one block per replica, each of
  exactly \<open>tp_size\<close> distinct devices.
\<close>

theorem compiled_replica_devices:
  assumes comp: "compile_logical_processes c = Inr (plan, ss)"
    and tps: "\<forall>s\<in>set (stages c). 1 \<le> tp_size s"
    and pcs: "\<forall>(n, pc)\<in>set (processes c). process_config_post_init pc = Inr ()"
    and p: "p \<in> set (plan_processes plan)" and dss: "lp_replica_devices p = Some dss"
  shows "length dss = nat (lp_num_replicas p) \<and> (\<forall>ds\<in>set dss. length ds = nat (lp_tp_size p) \<and> distinct ds) \<and>
    (\<exists>pc. dget (processes c) (lp_name p) = Some pc \<and> pc_replica_devices pc = Some (concat dss))"
  using compiled_device_blocks [OF assms] by blast

theorem compiled_replica_devices_witness:
  "\<exists>pc. dget (processes demo_pipeline) ''gpu'' = Some pc \<and> pc_replica_devices pc = Some (concat [[0], [1 :: int]])"
proof -
  have "1 \<le> tp_size s" if "s \<in> set (stages demo_pipeline)" for s
    using that by (auto simp: demo_pipeline_def demo_stage_def)
  moreover have "\<forall>(n, pc)\<in>set (processes demo_pipeline). process_config_post_init pc = Inr ()"
    by (simp add: demo_pipeline_def process_config_post_init_def)
  moreover have "plan_processes demo_plan ! 1 \<in> set (plan_processes demo_plan)"
    by (simp add: demo_plan_def)
  moreover have "lp_replica_devices (plan_processes demo_plan ! 1) = Some [[0], [1]]"
    by (simp add: demo_plan_def)
  ultimately show ?thesis
    using compiled_replica_devices [OF demo_pipeline_compiles, of "plan_processes demo_plan ! 1" "[[0], [1]]"]
    by (simp add: demo_plan_def)
qed

text \<open>
  An edge the pipeline declares process-local never crosses a process boundary in a
  compiled plan: both of its stages belong to one and the same process.
\<close>

theorem local_edges_stay_local:
  assumes v: "pipeline_post_init c = Inr ()" and comp: "compile_logical_processes c = Inr (plan, ss)"
    and e: "(a, b) \<in> set (pipeline_edges (stages c))" and l: "(a, b) \<in> set (process_local_edges c)"
  shows "\<exists>p. process_of plan a = Inr p \<and> process_of plan b = Inr p"
proof -
  have g: "validate_general c = Inr ()" using v by (auto simp: pipeline_post_init_def rbind_eq_Inr)
  obtain edges where ce: "cross_process_edges (stages c) plan = Inr edges"
    and ok: "validate_process_local_edges c edges = Inr ()"
    using compile_InrE [OF comp] by metis
  have "(a, b) \<notin> set edges"
  proof
    assume "(a, b) \<in> set edges"
    with l have "set (sort (filter (\<lambda>e. e \<in> set (process_local_edges c)) edges)) \<noteq> {}" by auto
    then have "sort (filter (\<lambda>e. e \<in> set (process_local_edges c)) edges) \<noteq> []" by (metis set_empty)
    with ok show False unfolding validate_process_local_edges_def Let_def by simp
  qed
  then have same: "dget (plan_stage_to_process plan) a = dget (plan_stage_to_process plan) b"
    using e cross_edges_of_set [of "plan_stage_to_process plan" "pipeline_edges (stages c)" edges] ce
    by (auto simp: cross_process_edges_def)
  from e obtain s where "s \<in> set (stages c)" "(a, b) \<in> set (stage_edges s)" by (auto simp: set_pipeline_edges)
  then obtain sa where sa: "sa \<in> set (stages c)" "sc_name sa = a" using stage_edges_known [OF g] by blast
  obtain p where p: "process_of plan a = Inr p"
    using compiled_process_of [OF validate_general_Inr(1) [OF g] comp sa(1)] sa(2) by blast
  moreover have "process_of plan b = process_of plan a"
    using same p by (simp add: process_of_def split: option.splits)
  ultimately show ?thesis by simp
qed

theorem local_edges_stay_local_witness:
  "\<exists>p. process_of demo_plan ''ar'' = Inr p \<and> process_of demo_plan ''dec'' = Inr p"
  by (rule local_edges_stay_local [OF demo_pipeline_valid demo_pipeline_compiles])
    (simp_all add: demo_pipeline_def demo_stage_def pipeline_edges_def stage_edges_def next_targets_def)

end
