(* ===== verification/Replica_Properties.thy ===== *)
theory Replica_Properties
  imports Replicas Topology_Properties
begin

text \<open>
  Correctness of replica expansion and of request bindings: the expansion is total on a
  compiled plan and produces exactly the instance names of the topology, instance names
  resolve back to their stage, bindings keep the members of a process together, and the
  shipped policy is fair.
\<close>

section \<open>Expansion\<close>

definition entry_list :: "('k, 'v list) dict \<Rightarrow> 'k \<Rightarrow> 'v list" where
  "entry_list d k = (case dget d k of None \<Rightarrow> [] | Some xs \<Rightarrow> xs)"

lemma entry_list_append_copy:
  "entry_list (append_copy d st s) k = (if k = st then entry_list d st @ [s] else entry_list d k)"
  by (simp add: entry_list_def append_copy_def split: option.splits)

lemma dget_append_copy_None: "dget (append_copy d st s) k = None \<longleftrightarrow> k \<noteq> st \<and> dget d k = None"
  by (simp add: append_copy_def)

lemma copy_stage_name: "copy_stage ss p i st = Inr s \<Longrightarrow> sc_name s = replica_instance_name st i"
  by (auto simp: copy_stage_def rbind_eq_Inr)

lemma copies_names:
  "rfold (\<lambda>(i, st) d. rbind (copy_stage ss p i st) (\<lambda>s. Inr (append_copy d st s))) xs d = Inr d' \<Longrightarrow>
   map sc_name (entry_list d' k) =
     map sc_name (entry_list d k) @ map (\<lambda>(i, st). replica_instance_name st i) (filter (\<lambda>(i, st). st = k) xs) \<and>
   (dget d' k = None \<longleftrightarrow> dget d k = None \<and> filter (\<lambda>(i, st). st = k) xs = [])"
proof (induction xs arbitrary: d)
  case (Cons x xs)
  obtain i st where x: "x = (i, st)" by (cases x)
  from Cons.prems x obtain s where s: "copy_stage ss p i st = Inr s"
    and r: "rfold (\<lambda>(i, st) d. rbind (copy_stage ss p i st) (\<lambda>s. Inr (append_copy d st s))) xs (append_copy d st s) = Inr d'"
    by (auto simp: rbind_eq_Inr)
  from Cons.IH [OF r] x copy_stage_name [OF s] show ?case
    by (simp add: entry_list_append_copy dget_append_copy_None)
qed simp

lemma filter_replica_pairs:
  assumes "distinct names" "k \<in> set names"
  shows "filter (\<lambda>(i, st). st = k) (concat (map (\<lambda>i. map (Pair i) names) is)) = map (\<lambda>i. (i, k)) is"
proof -
  have "filter (\<lambda>st. st = k) names = [k]"
    using assms by (induction names) (auto simp: filter_empty_conv)
  then have "filter (\<lambda>(i, st). st = k) (map (Pair i) names) = [(i, k)]" for i :: 'b
    by (simp add: filter_map comp_def)
  then show ?thesis by (induction "is") (simp_all)
qed

lemma filter_replica_pairs_other:
  "k \<notin> set names \<Longrightarrow> filter (\<lambda>(i, st). st = k) (concat (map (\<lambda>i. map (Pair i) names) is)) = []"
  by (auto simp: filter_empty_conv)

text \<open>What one process adds to the table of expanded stages.\<close>

definition process_entry_names :: "logical_process \<Rightarrow> string \<Rightarrow> string list" where
  "process_entry_names p st =
     (if lp_is_replicated p then map (replica_instance_name st) [0..<nat (lp_num_replicas p)] else [st])"

lemma lookup_stage_name: "lookup_stage ss n = Inr s \<Longrightarrow> sc_name s = n \<and> s \<in> set ss"
  by (auto simp: lookup_stage_def find_Some_iff in_set_conv_nth rev_nth split: option.splits)
    (metis diff_less length_greater_0_conv list.size(3) not_less_zero zero_less_Suc)

lemma lookup_stage_total: "n \<in> sc_name ` set ss \<Longrightarrow> \<exists>s. lookup_stage ss n = Inr s"
  by (auto simp: lookup_stage_def find_None_iff split: option.splits)

lemma single_entries:
  assumes "rfold (\<lambda>st d.
               rbind (lookup_stage ss st) (\<lambda>cfg.
               rbind (nth_devices (Some dss) 0) (\<lambda>devices.
               rbind (replica_stage_gpu cfg devices) (\<lambda>g. Inr (dset d st [cfg\<lparr>gpu := g\<rparr>]))))) names d = Inr d'"
  shows "if k \<in> set names then \<exists>s. dget d' k = Some [s] \<and> sc_name s = k else dget d' k = dget d k"
  using assms
proof (induction names arbitrary: d)
  case (Cons st names)
  then obtain s g where s: "lookup_stage ss st = Inr s"
    and r: "rfold (\<lambda>st d.
               rbind (lookup_stage ss st) (\<lambda>cfg.
               rbind (nth_devices (Some dss) 0) (\<lambda>devices.
               rbind (replica_stage_gpu cfg devices) (\<lambda>g. Inr (dset d st [cfg\<lparr>gpu := g\<rparr>]))))) names (dset d st [s\<lparr>gpu := g\<rparr>]) = Inr d'"
    by (auto simp: rbind_eq_Inr)
  from Cons.IH [OF r] lookup_stage_name [OF s] show ?case by (auto split: if_splits)
qed simp

lemma expand_process_entries:
  assumes e: "expand_process ss p d = Inr d'" and dis: "distinct (lp_stage_names p)"
    and fresh: "\<forall>st\<in>set (lp_stage_names p). dget d st = None"
  shows "if k \<in> set (lp_stage_names p)
         then (dget d' k = None \<and> \<not> lp_is_replicated p) \<or>
              (\<exists>cs. dget d' k = Some cs \<and> map sc_name cs = process_entry_names p k)
         else dget d' k = dget d k"
proof (cases "lp_is_replicated p")
  case False
  show ?thesis
  proof (cases "lp_replica_devices p")
    case None
    with False e fresh show ?thesis by (auto simp: expand_process_def)
  next
    case (Some dss)
    with False e have r: "rfold (\<lambda>st d.
               rbind (lookup_stage ss st) (\<lambda>cfg.
               rbind (nth_devices (Some dss) 0) (\<lambda>devices.
               rbind (replica_stage_gpu cfg devices) (\<lambda>g. Inr (dset d st [cfg\<lparr>gpu := g\<rparr>]))))) (lp_stage_names p) d = Inr d'"
      by (simp add: expand_process_def)
    from single_entries [OF r, of k] False show ?thesis by (auto simp: process_entry_names_def)
  qed
next
  case True
  let ?xs = "concat (map (\<lambda>i. map (Pair i) (lp_stage_names p)) [0..<nat (lp_num_replicas p)])"
  have r: "rfold (\<lambda>(i, st) d. rbind (copy_stage ss p i st) (\<lambda>s. Inr (append_copy d st s))) ?xs d = Inr d'"
    using e True by (simp add: expand_process_def)
  have n: "[0..<nat (lp_num_replicas p)] \<noteq> []" using True by (simp add: lp_is_replicated_def)
  show ?thesis
  proof (cases "k \<in> set (lp_stage_names p)")
    case mem: True
    note f = filter_replica_pairs [OF dis mem, of "[0..<nat (lp_num_replicas p)]"]
    have "map sc_name (entry_list d' k) = process_entry_names p k" "dget d' k \<noteq> None"
      using copies_names [OF r, of k] fresh mem n True
      by (simp_all add: f entry_list_def process_entry_names_def comp_def)
    then show ?thesis using mem by (auto simp: entry_list_def)
  next
    case False
    have same: "dget d' k = dget d k"
      if "rfold (\<lambda>(i, st) d. rbind (copy_stage ss p i st) (\<lambda>s. Inr (append_copy d st s))) xs d = Inr d'"
        and "\<forall>(i, st)\<in>set xs. st \<noteq> k" for xs d
      using that by (induction xs arbitrary: d) (auto simp: rbind_eq_Inr append_copy_def)
    have "dget d' k = dget d k" by (rule same [OF r]) (use False in auto)
    with False show ?thesis by simp
  qed
qed

lemma expand_all_entries:
  assumes "rfold (expand_process ss) ps d = Inr d'" "distinct (concat (map lp_stage_names ps))"
    and "\<forall>st\<in>set (concat (map lp_stage_names ps)). dget d st = None"
  shows "(\<forall>p\<in>set ps. \<forall>k\<in>set (lp_stage_names p).
            (dget d' k = None \<and> \<not> lp_is_replicated p) \<or>
            (\<exists>cs. dget d' k = Some cs \<and> map sc_name cs = process_entry_names p k)) \<and>
         (\<forall>k. k \<notin> set (concat (map lp_stage_names ps)) \<longrightarrow> dget d' k = dget d k)"
  using assms
proof (induction ps arbitrary: d)
  case (Cons p ps)
  then obtain d1 where e: "expand_process ss p d = Inr d1" and r: "rfold (expand_process ss) ps d1 = Inr d'"
    by (auto simp: rbind_eq_Inr)
  have ent: "if k \<in> set (lp_stage_names p)
         then (dget d1 k = None \<and> \<not> lp_is_replicated p) \<or>
              (\<exists>cs. dget d1 k = Some cs \<and> map sc_name cs = process_entry_names p k)
         else dget d1 k = dget d k" for k
    by (rule expand_process_entries [OF e]) (use Cons.prems in auto)
  have "\<forall>st\<in>set (concat (map lp_stage_names ps)). dget d1 st = None"
  proof
    fix st assume st: "st \<in> set (concat (map lp_stage_names ps))"
    then have "st \<notin> set (lp_stage_names p)" using Cons.prems(2) by auto
    with ent [of st] Cons.prems(3) st show "dget d1 st = None" by simp
  qed
  with Cons.IH [OF r] Cons.prems(2)
  have ih: "\<forall>q\<in>set ps. \<forall>k\<in>set (lp_stage_names q).
            (dget d' k = None \<and> \<not> lp_is_replicated q) \<or>
            (\<exists>cs. dget d' k = Some cs \<and> map sc_name cs = process_entry_names q k)"
    and ih2: "\<forall>k. k \<notin> set (concat (map lp_stage_names ps)) \<longrightarrow> dget d' k = dget d1 k"
    by auto
  have "dget d' k = dget d1 k" if "k \<in> set (lp_stage_names p)" for k
    using ih2 that Cons.prems(2) by auto
  with ent ih ih2 show ?case by (auto split: if_splits)
qed simp

lemma build_replicas_dget:
  assumes dis: "distinct (concat (map lp_stage_names ps))" and p: "p \<in> set ps" and st: "st \<in> set (lp_stage_names p)"
  shows "dget (build_replicas ps) st =
    (if lp_is_replicated p then Some (map (replica_instance_name st) [0..<nat (lp_num_replicas p)]) else None)"
proof -
  let ?f = "\<lambda>p. if lp_is_replicated p
      then map (\<lambda>st. (st, map (replica_instance_name st) [0..<nat (lp_num_replicas p)])) (lp_stage_names p) else []"
  let ?xs = "concat (map ?f ps)"
  have keys: "map fst (concat (map ?f qs)) = concat (map lp_stage_names (filter lp_is_replicated qs))" for qs
    by (induction qs) (simp_all add: comp_def)
  have "distinct (concat (map lp_stage_names (filter lp_is_replicated qs)))"
    if "distinct (concat (map lp_stage_names qs))" for qs
    using that by (induction qs) auto
  with dis have d: "distinct (map fst ?xs)" by (simp add: keys)
  have get: "dget (build_replicas ps) st = map_of ?xs st"
    by (simp add: build_replicas_def dget_fold_dset_distinct [OF d])
  show ?thesis
  proof (cases "lp_is_replicated p")
    case True
    then have "(st, map (replica_instance_name st) [0..<nat (lp_num_replicas p)]) \<in> set ?xs" using p st by auto
    with d True get show ?thesis by (simp add: map_of_is_SomeI)
  next
    case False
    have "st \<notin> set (concat (map lp_stage_names (filter lp_is_replicated qs)))"
      if "distinct (concat (map lp_stage_names qs))" "p \<in> set qs" for qs
      using that st False by (induction qs) auto
    from this [OF dis p] have "st \<notin> set (map fst ?xs)" by (simp only: keys not_False_eq_True)
    with False get show ?thesis by (simp add: map_of_eq_None_iff)
  qed
qed

lemma replica_stage_gpu_total: "(\<And>d. ds = Some d \<Longrightarrow> d \<noteq> []) \<Longrightarrow> \<exists>g. replica_stage_gpu s ds = Inr g"
  by (auto simp: replica_stage_gpu_def split: option.splits list.splits)

lemma expand_process_total:
  assumes names: "set (lp_stage_names p) \<subseteq> sc_name ` set ss" and n: "1 \<le> lp_num_replicas p"
    and dev: "\<And>dss. lp_replica_devices p = Some dss \<Longrightarrow> length dss = nat (lp_num_replicas p) \<and> [] \<notin> set dss"
  shows "\<exists>d'. expand_process ss p d = Inr d'"
proof -
  have gpu: "\<exists>g. replica_stage_gpu s devices = Inr g"
    if "nth_devices (lp_replica_devices p) i = Inr devices" "i < nat (lp_num_replicas p)" for i s devices
    by (rule replica_stage_gpu_total)
      (use that dev in \<open>auto simp: nth_devices_def split: option.splits if_splits\<close>, metis nth_mem)
  have dv: "\<exists>devices. nth_devices (lp_replica_devices p) i = Inr devices" if "i < nat (lp_num_replicas p)" for i
    using that dev by (auto simp: nth_devices_def split: option.splits)
  show ?thesis
  proof (cases "lp_is_replicated p")
    case True
    have "\<exists>s. copy_stage ss p i st = Inr s" if i: "i < nat (lp_num_replicas p)" and st: "st \<in> set (lp_stage_names p)" for i st
    proof -
      obtain devices where d: "nth_devices (lp_replica_devices p) i = Inr devices" using dv [OF i] by blast
      obtain cfg where c: "lookup_stage ss st = Inr cfg" using lookup_stage_total names st by blast
      obtain g where "replica_stage_gpu cfg devices = Inr g" using gpu [OF d i] by blast
      with d c show ?thesis by (simp add: copy_stage_def)
    qed
    then have "\<exists>d'. rfold (\<lambda>(i, st) d. rbind (copy_stage ss p i st) (\<lambda>s. Inr (append_copy d st s)))
        (concat (map (\<lambda>i. map (Pair i) (lp_stage_names p)) [0..<nat (lp_num_replicas p)])) d = Inr d'"
      by (intro rfold_total) fastforce
    with True show ?thesis by (simp add: expand_process_def)
  next
    case False
    show ?thesis
    proof (cases "lp_replica_devices p")
      case (Some dss)
      obtain devices where d: "nth_devices (Some dss) 0 = Inr devices" using dv [of 0] n Some by auto
      have "\<exists>d'. rbind (lookup_stage ss st) (\<lambda>cfg. rbind (nth_devices (Some dss) 0) (\<lambda>devices.
               rbind (replica_stage_gpu cfg devices) (\<lambda>g. Inr (dset d st [cfg\<lparr>gpu := g\<rparr>])))) = Inr d'"
        if st: "st \<in> set (lp_stage_names p)" for st d
      proof -
        obtain cfg where c: "lookup_stage ss st = Inr cfg" using lookup_stage_total names st by blast
        obtain g where "replica_stage_gpu cfg devices = Inr g" using gpu [of 0] d n Some by auto
        with c d show ?thesis by simp
      qed
      then show ?thesis using False Some by (simp add: expand_process_def rfold_total)
    qed (use False in \<open>simp add: expand_process_def\<close>)
  qed
qed

text \<open>The hypotheses under which a plan reaches expansion: what validation and compilation establish.\<close>

definition expandable :: "stage_config list \<Rightarrow> logical_process_plan \<Rightarrow> bool" where
  "expandable ss plan \<longleftrightarrow>
     distinct (map sc_name ss) \<and>
     mset (concat (map lp_stage_names (plan_processes plan))) = mset (map sc_name ss) \<and>
     (\<forall>s\<in>set ss. \<exists>l. parse_replica_instance_name (sc_name s) = Inr (l, None)) \<and>
     (\<forall>p\<in>set (plan_processes plan). 1 \<le> lp_num_replicas p \<and>
        (\<forall>dss. lp_replica_devices p = Some dss \<longrightarrow> length dss = nat (lp_num_replicas p) \<and> [] \<notin> set dss))"

lemma expandable_distinct: "expandable ss plan \<Longrightarrow> distinct (concat (map lp_stage_names (plan_processes plan)))"
  unfolding expandable_def by (metis mset_eq_imp_distinct_iff)

lemma expandable_stage:
  assumes "expandable ss plan" "s \<in> set ss"
  obtains p where "p \<in> set (plan_processes plan)" "sc_name s \<in> set (lp_stage_names p)"
proof -
  have "set (concat (map lp_stage_names (plan_processes plan))) = set (map sc_name ss)"
    using assms(1) by (intro mset_eq_setD) (simp add: expandable_def)
  with assms(2) have "sc_name s \<in> set (concat (map lp_stage_names (plan_processes plan)))" by simp
  with that show thesis by auto
qed

lemma instances_build:
  assumes "expandable ss plan" "p \<in> set (plan_processes plan)" "st \<in> set (lp_stage_names p)"
  shows "instances \<lparr>rt_replicas = build_replicas (plan_processes plan)\<rparr> st = process_entry_names p st"
  using build_replicas_dget [OF expandable_distinct [OF assms(1)] assms(2,3)]
  by (simp add: instances_def process_entry_names_def)

lemma instance_owner:
  assumes "parse_replica_instance_name st = Inr (l, None)" "x \<in> set (process_entry_names p st)"
  shows "(case parse_replica_instance_name x of Inr (m, _) \<Rightarrow> m | Inl _ \<Rightarrow> []) = st"
proof -
  have "l = st" using assms(1) by (auto simp: parse_replica_instance_name_def split: option.splits if_splits)
  with assms show ?thesis by (auto simp: process_entry_names_def split: if_splits)
qed

lemma expansion_names:
  assumes ex: "expandable ss plan"
  shows "\<exists>out topo. expand_replica_stages ss plan = Inr (out, topo) \<and>
    topo = \<lparr>rt_replicas = build_replicas (plan_processes plan)\<rparr> \<and>
    map sc_name out = concat (map (\<lambda>s. instances topo (sc_name s)) ss) \<and> distinct (map sc_name out)"
proof -
  let ?ps = "plan_processes plan" and ?topo = "\<lparr>rt_replicas = build_replicas (plan_processes plan)\<rparr>"
  have names: "set (concat (map lp_stage_names ?ps)) = set (map sc_name ss)"
    using ex by (intro mset_eq_setD) (simp add: expandable_def)
  have "\<exists>d'. expand_process ss p d = Inr d'" if p: "p \<in> set ?ps" for p d
  proof (rule expand_process_total)
    have "set (lp_stage_names p) \<subseteq> set (concat (map lp_stage_names ?ps))" using p by auto
    then show "set (lp_stage_names p) \<subseteq> sc_name ` set ss" using names by simp
  qed (use ex p in \<open>auto simp: expandable_def\<close>)
  then obtain by_stage where d: "rfold (expand_process ss) ?ps [] = Inr by_stage"
    using rfold_total [of ?ps "expand_process ss"] by blast
  let ?g = "\<lambda>s. case dget by_stage (sc_name s) of None \<Rightarrow> [s] | Some cs \<Rightarrow> cs"
  note ent = expand_all_entries [OF d expandable_distinct [OF ex]]
  have one: "map sc_name (?g s) = instances ?topo (sc_name s)" if s: "s \<in> set ss" for s
  proof -
    obtain p where p: "p \<in> set ?ps" "sc_name s \<in> set (lp_stage_names p)" using expandable_stage [OF ex s] .
    from ent p have "(dget by_stage (sc_name s) = None \<and> \<not> lp_is_replicated p) \<or>
        (\<exists>cs. dget by_stage (sc_name s) = Some cs \<and> map sc_name cs = process_entry_names p (sc_name s))" by simp
    then show ?thesis unfolding instances_build [OF ex p] by (auto simp: process_entry_names_def)
  qed
  have nm: "map sc_name (concat (map ?g ss)) = concat (map (\<lambda>s. instances ?topo (sc_name s)) ss)"
    using one by (induction ss) simp_all
  have "distinct (concat (map (\<lambda>s. instances ?topo (sc_name s)) ss))"
  proof (rule distinct_concat_by_owner [where k = sc_name
        and own = "\<lambda>x. case parse_replica_instance_name x of Inr (m, _) \<Rightarrow> m | Inl _ \<Rightarrow> []"])
    fix s y assume s: "s \<in> set ss" and y: "y \<in> set (instances ?topo (sc_name s))"
    obtain p where p: "p \<in> set ?ps" "sc_name s \<in> set (lp_stage_names p)" using expandable_stage [OF ex s] .
    obtain l where l: "parse_replica_instance_name (sc_name s) = Inr (l, None)" using ex s by (auto simp: expandable_def)
    have "y \<in> set (process_entry_names p (sc_name s))" using y by (simp add: instances_build [OF ex p])
    with l show "(case parse_replica_instance_name y of Inr (m, _) \<Rightarrow> m | Inl _ \<Rightarrow> []) = sc_name s"
      by (rule instance_owner)
  next
    fix s assume s: "s \<in> set ss"
    obtain p where p: "p \<in> set ?ps" "sc_name s \<in> set (lp_stage_names p)" using expandable_stage [OF ex s] .
    show "distinct (instances ?topo (sc_name s))"
      by (simp add: instances_build [OF ex p] process_entry_names_def distinct_map inj_on_def)
  qed (use ex in \<open>simp add: expandable_def\<close>)
  with nm d show ?thesis by (simp add: expand_replica_stages_def Let_def)
qed

lemma compiled_num_replicas:
  assumes comp: "compile_logical_processes c = Inr (plan, ss)"
    and pcs: "\<forall>(n, pc)\<in>set (processes c). process_config_post_init pc = Inr ()"
    and p: "p \<in> set (plan_processes plan)"
  shows "1 \<le> lp_num_replicas p"
proof -
  from comp obtain members where
    r: "rmap (\<lambda>(name, gs). build_logical_process name gs (dget (processes c) name)) members = Inr (plan_processes plan)"
    by (rule compile_InrE)
  from rmap_Inr_set [OF r p] obtain n gs where "build_logical_process n gs (dget (processes c) n) = Inr p" by auto
  from build_logical_process_fields(3) [OF this] pcs show ?thesis
    by (auto simp: process_config_default_def process_config_post_init_def
        split: option.splits if_splits dest!: map_of_SomeD)
qed

lemma compiled_expandable:
  assumes v: "pipeline_post_init c = Inr ()" and comp: "compile_logical_processes c = Inr (plan, ss)"
    and tps: "\<forall>s\<in>set (stages c). 1 \<le> tp_size s"
    and pcs: "\<forall>(n, pc)\<in>set (processes c). process_config_post_init pc = Inr ()"
  shows "expandable (stages c) plan"
proof -
  have g: "validate_general c = Inr ()" using v by (auto simp: pipeline_post_init_def rbind_eq_Inr)
  have "[] \<notin> set dss" if "p \<in> set (plan_processes plan)" "lp_replica_devices p = Some dss" for p dss
    using compiled_device_blocks [OF comp tps pcs that] by auto
  then show ?thesis
    using validate_general_Inr [OF g] check_stage_name_Inr plan_stages_mset [OF comp]
      compiled_num_replicas [OF comp pcs] compiled_device_blocks(1) [OF comp tps pcs]
    by (auto simp: expandable_def)
qed

text \<open>
  Replica expansion of a compiled pipeline always succeeds, keeps configuration order,
  replaces every stage by exactly the instances the resulting topology lists for it, and
  never gives two expanded stages the same name.
\<close>

theorem expansion_total_and_distinct:
  assumes "pipeline_post_init c = Inr ()" and "compile_logical_processes c = Inr (plan, ss)"
    and "\<forall>s\<in>set (stages c). 1 \<le> tp_size s"
    and "\<forall>(n, pc)\<in>set (processes c). process_config_post_init pc = Inr ()"
  shows "\<exists>out topo. expand_replica_stages ss plan = Inr (out, topo) \<and>
    map sc_name out = concat (map (\<lambda>s. instances topo (sc_name s)) (stages c)) \<and> distinct (map sc_name out)"
proof -
  have "ss = stages c" using assms(2) by (rule compile_InrE)
  then show ?thesis using expansion_names [OF compiled_expandable [OF assms]] by blast
qed

lemma demo_tp_sizes: "\<forall>s\<in>set (stages demo_pipeline). 1 \<le> tp_size s"
  by (auto simp: demo_pipeline_def demo_stage_def)

lemma demo_process_configs: "\<forall>(n, pc)\<in>set (processes demo_pipeline). process_config_post_init pc = Inr ()"
  by (simp add: demo_pipeline_def process_config_post_init_def)

theorem expansion_total_and_distinct_witness:
  "\<exists>out topo. expand_replica_stages (stages demo_pipeline) demo_plan = Inr (out, topo) \<and> distinct (map sc_name out)"
  using expansion_total_and_distinct [OF demo_pipeline_valid demo_pipeline_compiles demo_tp_sizes demo_process_configs]
  by blast

text \<open>
  For every stage of a replicated process and every replica index, resolving the
  instance and mapping the instance name back to its logical stage returns the stage the
  runtime started from.
\<close>

theorem resolve_logical_roundtrip:
  assumes ex: "expandable ss plan" and p: "p \<in> set (plan_processes plan)" "lp_is_replicated p"
    and st: "st \<in> set (lp_stage_names p)" and i: "0 \<le> i" "i < lp_num_replicas p"
    and topo: "expand_replica_stages ss plan = Inr (out, topo)"
  shows "\<exists>inst. resolve topo st i = Inr inst \<and> inst \<in> set (map sc_name out) \<and> logical_name topo inst = Inr st"
proof -
  have t: "topo = \<lparr>rt_replicas = build_replicas (plan_processes plan)\<rparr>"
    and names: "map sc_name out = concat (map (\<lambda>s. instances topo (sc_name s)) ss)"
    using expansion_names [OF ex] topo by auto
  have get: "dget (rt_replicas topo) st = Some (map (replica_instance_name st) [0..<nat (lp_num_replicas p)])"
    using build_replicas_dget [OF expandable_distinct [OF ex] p(1) st] p(2) by (simp add: t)
  let ?inst = "replica_instance_name st (nat i)"
  have r: "resolve topo st i = Inr ?inst" using get i by (simp add: resolve_def nat_less_iff)
  have inset: "?inst \<in> set (instances topo st)"
    using get i by (auto simp: instances_def nat_less_iff intro!: image_eqI)
  then have l: "logical_name topo ?inst = Inr st" using get by (simp add: logical_name_def instances_def)
  have "set (concat (map lp_stage_names (plan_processes plan))) = set (map sc_name ss)"
    using ex by (intro mset_eq_setD) (simp add: expandable_def)
  moreover have "st \<in> set (concat (map lp_stage_names (plan_processes plan)))" using p(1) st by auto
  ultimately obtain s where "s \<in> set ss" "sc_name s = st" by auto
  with inset have "?inst \<in> set (map sc_name out)" unfolding names by auto
  with r l show ?thesis by blast
qed

theorem resolve_logical_roundtrip_witness:
  "\<exists>out topo inst. expand_replica_stages (stages demo_pipeline) demo_plan = Inr (out, topo) \<and>
     resolve topo ''ar'' 1 = Inr inst \<and> logical_name topo inst = Inr ''ar''"
proof -
  have ex: "expandable (stages demo_pipeline) demo_plan"
    by (rule compiled_expandable [OF demo_pipeline_valid demo_pipeline_compiles demo_tp_sizes demo_process_configs])
  obtain out topo where o: "expand_replica_stages (stages demo_pipeline) demo_plan = Inr (out, topo)"
    using expansion_names [OF ex] by blast
  have p: "plan_processes demo_plan ! 1 \<in> set (plan_processes demo_plan)" "lp_is_replicated (plan_processes demo_plan ! 1)"
    "''ar'' \<in> set (lp_stage_names (plan_processes demo_plan ! 1))" "(1 :: int) < lp_num_replicas (plan_processes demo_plan ! 1)"
    by (simp_all add: demo_plan_def lp_is_replicated_def)
  from resolve_logical_roundtrip [OF ex p(1,2,3) _ p(4) o] o show ?thesis by auto
qed

section \<open>Bindings\<close>

text \<open>
  At admission the shipped round-robin policy always yields a binding, every member
  stage of a replicated process is bound to one common replica index, and that index
  resolves to an instance of each of those stages.
\<close>

theorem round_robin_bindings_sound:
  assumes ex: "expandable ss plan" and topo: "expand_replica_stages ss plan = Inr (out, topo)"
    and p: "p \<in> set (plan_processes plan)" "lp_is_replicated p"
  shows "\<exists>b st'. assign_replica_bindings rr_bind plan st r = (Inr (Some b), st') \<and>
    (\<exists>i. \<forall>s\<in>set (lp_stage_names p). dget b s = Some i \<and> (\<exists>inst. resolve topo s i = Inr inst))"
proof -
  have "has_replicas plan" using p by (auto simp: has_replicas_def list_ex_iff)
  then obtain b st' where a: "assign_replica_bindings rr_bind plan st r = (Inr (Some b), st')"
    using rr.assign_loop_Inr [of r "plan_processes plan" "[]" st] by (auto simp: assign_replica_bindings_def)
  from rr.assign_bindings [OF a expandable_distinct [OF ex] p]
  obtain i where i: "0 \<le> i" "i < lp_num_replicas p" "\<forall>s\<in>set (lp_stage_names p). dget b s = Some i" by blast
  have t: "topo = \<lparr>rt_replicas = build_replicas (plan_processes plan)\<rparr>"
    using expansion_names [OF ex] topo by auto
  have "\<exists>inst. resolve topo s i = Inr inst" if "s \<in> set (lp_stage_names p)" for s
    using build_replicas_dget [OF expandable_distinct [OF ex] p(1) that] p(2) i(1,2) by (simp add: t resolve_def)
  with a i(3) show ?thesis by blast
qed

theorem round_robin_bindings_sound_witness:
  "\<exists>b st'. assign_replica_bindings rr_bind demo_plan [] ''req'' = (Inr (Some b), st')"
proof -
  have ex: "expandable (stages demo_pipeline) demo_plan"
    by (rule compiled_expandable [OF demo_pipeline_valid demo_pipeline_compiles demo_tp_sizes demo_process_configs])
  obtain out topo where o: "expand_replica_stages (stages demo_pipeline) demo_plan = Inr (out, topo)"
    using expansion_names [OF ex] by blast
  have p: "plan_processes demo_plan ! 1 \<in> set (plan_processes demo_plan)" "lp_is_replicated (plan_processes demo_plan ! 1)"
    by (simp_all add: demo_plan_def lp_is_replicated_def)
  from round_robin_bindings_sound [OF ex o p] show ?thesis by blast
qed

text \<open>A run of consecutive requests bound by the round-robin policy for one process.\<close>

fun bind_run :: "rr_state \<Rightarrow> string \<Rightarrow> int \<Rightarrow> string list \<Rightarrow> int list" where
  "bind_run st name n [] = []"
| "bind_run st name n (r # rs) = (let (i, st') = rr_bind st name n r in i # bind_run st' name n rs)"

definition rr_cursor :: "rr_state \<Rightarrow> string \<Rightarrow> int" where
  "rr_cursor st name = (case dget st name of None \<Rightarrow> 0 | Some i \<Rightarrow> i)"

lemma bind_run_eq: "bind_run st name n rs = map (\<lambda>j. (rr_cursor st name + int j) mod n) [0..<length rs]"
proof (induction rs arbitrary: st)
  case (Cons r rs)
  have cur: "rr_cursor (dset st name (rr_cursor st name + 1)) name = rr_cursor st name + 1"
    by (simp add: rr_cursor_def)
  have "bind_run st name n (r # rs) =
      rr_cursor st name mod n # bind_run (dset st name (rr_cursor st name + 1)) name n rs"
    by (simp add: rr_bind_def rr_cursor_def Let_def)
  also have "\<dots> = map (\<lambda>j. (rr_cursor st name + int j) mod n) (0 # map Suc [0..<length rs])"
    by (simp add: Cons.IH cur comp_def add.assoc)
  finally show ?case by (simp only: upt_conv_Cons map_Suc_upt length_Cons zero_less_Suc)
qed simp

text \<open>
  The round-robin policy is fair: whatever its counter, any \<open>n\<close> consecutive requests
  for a process with \<open>n\<close> replicas use every replica exactly once.
\<close>

theorem round_robin_fair:
  assumes n: "0 < n" and len: "length rs = nat n"
  shows "distinct (bind_run st name n rs) \<and> set (bind_run st name n rs) = {0..<n}"
proof -
  let ?c = "rr_cursor st name" and ?f = "\<lambda>j. (rr_cursor st name + int j) mod n"
  have "inj_on ?f (set [0..<nat n])"
  proof (rule inj_onI)
    fix i j assume ij: "i \<in> set [0..<nat n]" "j \<in> set [0..<nat n]" "?f i = ?f j"
    then have "(?c + int i - (?c + int j)) mod n = 0" by (simp add: mod_eq_0_iff_dvd mod_eq_dvd_iff)
    then have "n dvd (int i - int j)" by (simp add: mod_eq_0_iff_dvd)
    moreover have "\<bar>int i - int j\<bar> < n" using ij n by auto
    ultimately show "i = j" using zdvd_imp_le [of n "\<bar>int i - int j\<bar>"] by fastforce
  qed
  then have d: "distinct (bind_run st name n rs)" by (simp add: bind_run_eq len distinct_map)
  have "set (bind_run st name n rs) \<subseteq> {0..<n}" using n by (auto simp: bind_run_eq)
  moreover have "card (set (bind_run st name n rs)) = card {0..<n}"
    using distinct_card [OF d] by (simp add: bind_run_eq len)
  ultimately show ?thesis using d by (simp add: card_subset_eq)
qed

theorem round_robin_fair_witness: "set (bind_run [(''gpu'', 5)] ''gpu'' 3 [''a'', ''b'', ''c'']) = {0..<3}"
  using round_robin_fair [of 3 "[''a'', ''b'', ''c'']"] by simp

end
