(* ===== verification/Placement.thy ===== *)
theory Placement
  imports Replica_Properties
begin

text \<open>
  Stage placement on GPUs, \<^verbatim>\<open>sglang_omni/config/placement.py\<close>, and the physical process plan of
  \<^verbatim>\<open>sglang_omni/config/topology.py\<close>. Memory fractions are exact reals where the code has floats. The placement policy a
  pipeline may import is an argument, as is the memory size a device reports.
\<close>

section \<open>Dictionaries of lists\<close>

text \<open>\<^verbatim>\<open>defaultdict(list)\<close> and \<^verbatim>\<open>defaultdict(set)\<close> as dictionaries of lists.\<close>

definition dlist :: "('k, 'v list) dict \<Rightarrow> 'k \<Rightarrow> 'v list" where
  "dlist d k = (case dget d k of None \<Rightarrow> [] | Some xs \<Rightarrow> xs)"

definition dappend :: "('k, 'v list) dict \<Rightarrow> 'k \<Rightarrow> 'v \<Rightarrow> ('k, 'v list) dict" where
  "dappend d k v = dset d k (dlist d k @ [v])"

definition dinsert :: "('k, 'v list) dict \<Rightarrow> 'k \<Rightarrow> 'v \<Rightarrow> ('k, 'v list) dict" where
  "dinsert d k v = (if v \<in> set (dlist d k) then d else dappend d k v)"

lemma dlist_simps [simp]:
  "dlist [] k = []" "dlist (dappend d k v) k' = (if k' = k then dlist d k @ [v] else dlist d k')"
  "set (dlist (dinsert d k v) k') = (if k' = k then insert v (set (dlist d k)) else set (dlist d k'))"
  by (auto simp: dlist_def dappend_def dinsert_def)

lemma dict_ok_dappend [simp]: "dict_ok d \<Longrightarrow> dict_ok (dappend d k v)" "dict_ok d \<Longrightarrow> dict_ok (dinsert d k v)"
  by (simp_all add: dappend_def dinsert_def)

lemma dlist_fold_dappend:
  "distinct ks \<Longrightarrow> dlist (fold (\<lambda>k d. dappend d k v) ks d) k' = dlist d k' @ (if k' \<in> set ks then [v] else [])"
  by (induction ks arbitrary: d) auto

section \<open>The placement plan\<close>

record stage_placement =
  sp_stage_name :: string
  sp_gpu_ids :: "int list"
  sp_tp_size :: int
  sp_fraction :: "real option"
  sp_kv_cache_bytes :: "int option"
  sp_total_reserve_bytes :: "int option"

record gpu_placement =
  gp_gpu_id :: int
  gp_stage_names :: "string list"
  gp_total_fraction :: real
  gp_has_memory_fraction :: bool
  gp_missing :: "string list"
  gp_total_kv_cache_bytes :: int
  gp_total_reserve_bytes :: int

record stage_placement_plan =
  pl_stages :: "(string, stage_placement) dict"
  pl_gpus :: "(int, gpu_placement) dict"
  pl_replica_instances :: "(string, string list) dict"

datatype placement_error =
    ScalarTpPlacement string
  | BadTpPlacement string
  | FractionExceedsLimit int
  | PolicyRefused string
  | PolicyNotCallable
  | BudgetsExceedMemory int
  | KvPoolsExceedMemory int "string list"
  | GroupSpansGpus string "int list"
  | DuplicateTpProcessNames "string list"
  | TpProcessCollision "string list"
  | UndeclaredFootprint int bool "string list"
  | PlacementConfig config_error
  | PlacementKeyError

definition instances_of :: "stage_placement_plan \<Rightarrow> string \<Rightarrow> stage_placement list" where
  "instances_of plan n =
     List.map_filter (dget (pl_stages plan)) (case dget (pl_replica_instances plan) n of None \<Rightarrow> [n] | Some is \<Rightarrow> is)"

text \<open>\<^verbatim>\<open>_resolve_stage_gpu_ids\<close>\<close>

definition stage_gpus :: "stage_config \<Rightarrow> placement_error + int list" where
  "stage_gpus s =
     (case gpu s of
        None \<Rightarrow> Inr []
      | Some (GpuInt g) \<Rightarrow> if 1 < tp_size s then Inl (ScalarTpPlacement (sc_name s)) else Inr [g]
      | Some (GpuList gs) \<Rightarrow>
          if int (length gs) \<noteq> tp_size s \<or> \<not> distinct gs then Inl (BadTpPlacement (sc_name s)) else Inr gs)"

definition placement_of :: "stage_config \<Rightarrow> int list \<Rightarrow> stage_placement" where
  "placement_of s gs =
     \<lparr>sp_stage_name = sc_name s, sp_gpu_ids = gs, sp_tp_size = tp_size s, sp_fraction = gpu_memory_fraction s,
      sp_kv_cache_bytes = Option.bind (engine s) kv_cache_bytes, sp_total_reserve_bytes = total_reserve_bytes s\<rparr>"

text \<open>The loop of \<^verbatim>\<open>StagePlacementPlanner.build\<close> over the stages.\<close>

fun place_stages ::
  "stage_config list \<Rightarrow> (string, stage_placement) dict \<Rightarrow> (int, stage_placement list) dict \<Rightarrow>
   placement_error + (string, stage_placement) dict \<times> (int, stage_placement list) dict" where
  "place_stages [] ps es = Inr (ps, es)"
| "place_stages (s # ss) ps es =
     rbind (stage_gpus s) (\<lambda>gs.
       if gs = [] then place_stages ss ps es
       else (let p = placement_of s gs in
             place_stages ss (dset ps (sc_name s) p) (fold (\<lambda>g d. dappend d g p) gs es)))"

definition option_sum :: "('a \<Rightarrow> 'b option) \<Rightarrow> 'a list \<Rightarrow> 'b::comm_monoid_add" where
  "option_sum f xs = sum_list (List.map_filter f xs)"

definition build_gpu_placement :: "int \<Rightarrow> stage_placement list \<Rightarrow> gpu_placement" where
  "build_gpu_placement g entries =
     \<lparr>gp_gpu_id = g, gp_stage_names = map sp_stage_name entries, gp_total_fraction = option_sum sp_fraction entries,
      gp_has_memory_fraction = list_ex (\<lambda>e. sp_fraction e \<noteq> None) entries,
      gp_missing = sort (remdups (map sp_stage_name (filter (\<lambda>e. sp_fraction e = None) entries))),
      gp_total_kv_cache_bytes = option_sum sp_kv_cache_bytes entries,
      gp_total_reserve_bytes = option_sum sp_total_reserve_bytes entries\<rparr>"

definition validate_memory_budgets :: "real \<Rightarrow> stage_placement_plan \<Rightarrow> placement_error + unit" where
  "validate_memory_budgets limit plan =
     rcheck (\<lambda>(_, p). if limit + 1 / 10 ^ 9 < gp_total_fraction p then Inl (FractionExceedsLimit (gp_gpu_id p)) else Inr ())
       (pl_gpus plan)"

text \<open>What \<^verbatim>\<open>placement_policy\<close> imports: nothing, something to call on the plan, or neither.\<close>

datatype placement_policy = NoPolicy | PolicyCall "stage_placement_plan \<Rightarrow> string option" | PolicyOther

definition apply_placement_policy :: "placement_policy \<Rightarrow> stage_placement_plan \<Rightarrow> placement_error + unit" where
  "apply_placement_policy pol plan =
     (case pol of
        NoPolicy \<Rightarrow> Inr ()
      | PolicyCall f \<Rightarrow> (case f plan of None \<Rightarrow> Inr () | Some e \<Rightarrow> Inl (PolicyRefused e))
      | PolicyOther \<Rightarrow> Inl PolicyNotCallable)"

definition build_stage_placement_plan ::
  "placement_policy \<Rightarrow> pipeline_config \<Rightarrow> stage_config list \<Rightarrow> (string, string list) dict \<Rightarrow> placement_error + stage_placement_plan" where
  "build_stage_placement_plan pol c ss replica_instances =
     rbind (place_stages ss [] []) (\<lambda>(ps, es).
       let plan = \<lparr>pl_stages = ps, pl_gpus = map (\<lambda>(g, entries). (g, build_gpu_placement g entries)) es,
                   pl_replica_instances = replica_instances\<rparr> in
       rbind (validate_memory_budgets (max_total_gpu_memory_fraction_per_gpu c) plan) (\<lambda>_.
       rbind (apply_placement_policy pol plan) (\<lambda>_. Inr plan)))"

definition resolve_stage_gpu_ids :: "stage_placement_plan \<Rightarrow> stage_config \<Rightarrow> int option list" where
  "resolve_stage_gpu_ids plan s =
     (case dget (pl_stages plan) (sc_name s) of
        None \<Rightarrow> replicate (nat (tp_size s)) None
      | Some p \<Rightarrow> map Some (sp_gpu_ids p))"

text \<open>\<^verbatim>\<open>validate_gpu_capacity\<close>; \<open>mem\<close> is the total memory the device reports, if any.\<close>

definition check_gpu_capacity :: "(int \<Rightarrow> int option) \<Rightarrow> stage_placement_plan \<Rightarrow> int \<times> gpu_placement \<Rightarrow> placement_error + unit" where
  "check_gpu_capacity mem plan gp =
     (let (g, p) = gp in
      if gp_total_reserve_bytes p \<le> 0 \<and> gp_total_kv_cache_bytes p \<le> 0 then Inr ()
      else case mem g of
        None \<Rightarrow> Inr ()
      | Some m \<Rightarrow>
          if 0 < gp_total_reserve_bytes p \<and>
             of_int m < gp_total_fraction p * of_int m + of_int (gp_total_reserve_bytes p) then Inl (BudgetsExceedMemory g)
          else if m < gp_total_kv_cache_bytes p then
            Inl (KvPoolsExceedMemory g
              (sort (map sp_stage_name (filter (\<lambda>e. sp_kv_cache_bytes e \<noteq> None \<and> sp_kv_cache_bytes e \<noteq> Some 0 \<and> g \<in> set (sp_gpu_ids e))
                (map snd (pl_stages plan))))))
          else Inr ())"

definition validate_gpu_capacity :: "(int \<Rightarrow> int option) \<Rightarrow> stage_placement_plan \<Rightarrow> placement_error + unit" where
  "validate_gpu_capacity mem plan = rcheck (check_gpu_capacity mem plan) (sort_key fst (pl_gpus plan))"

section \<open>The physical process plan\<close>

record process_group =
  pg_name :: string
  pg_stage_names :: "string list"
  pg_gpu_id :: "int option"

record process_topology_plan =
  pt_groups :: "process_group list"
  pt_stage_to_process :: "(string, string) dict"
  pt_tp_processes :: "(string, string list) dict"

definition group_gpus :: "stage_placement_plan \<Rightarrow> stage_config list \<Rightarrow> int list" where
  "group_gpus plan ss = remdups (List.map_filter id (concat (map (resolve_stage_gpu_ids plan) ss)))"

definition resolve_group_gpu_id :: "stage_placement_plan \<Rightarrow> string \<Rightarrow> stage_config list \<Rightarrow> placement_error + int option" where
  "resolve_group_gpu_id plan name ss =
     (case group_gpus plan ss of
        [] \<Rightarrow> Inr None
      | [g] \<Rightarrow> Inr (Some g)
      | gs \<Rightarrow> Inl (GroupSpansGpus name (sort gs)))"

definition build_process_groups :: "stage_config list \<Rightarrow> stage_placement_plan \<Rightarrow> placement_error + process_group list" where
  "build_process_groups ss plan =
     (case group_members (filter (\<lambda>s. tp_size s = 1) ss) [] of
        Inl e \<Rightarrow> Inl (PlacementConfig e)
      | Inr components \<Rightarrow>
          rmap (\<lambda>(name, comp). rbind (resolve_group_gpu_id plan name comp) (\<lambda>g.
            Inr \<lparr>pg_name = name, pg_stage_names = map sc_name comp, pg_gpu_id = g\<rparr>)) components)"

definition tp_process_name :: "stage_config \<Rightarrow> nat \<Rightarrow> string" where
  "tp_process_name s rank = (if truthy (process s) then the (process s) else sc_name s) @ ''_tp'' @ show_nat rank"

definition build_tp_process_names :: "stage_config list \<Rightarrow> (string, string list) dict" where
  "build_tp_process_names ss =
     fold (\<lambda>s d. dset d (sc_name s) (map (tp_process_name s) [0..<nat (tp_size s)])) (filter (\<lambda>s. 1 < tp_size s) ss) []"

definition group_stage_pairs :: "process_group list \<Rightarrow> (string \<times> string) list" where
  "group_stage_pairs gs = concat (map (\<lambda>g. map (\<lambda>s. (s, pg_name g)) (pg_stage_names g)) gs)"

definition validate_process_name_uniqueness :: "process_topology_plan \<Rightarrow> placement_error + unit" where
  "validate_process_name_uniqueness t =
     (let tp = concat (map snd (pt_tp_processes t));
          duplicates = sort (filter (\<lambda>p. 1 < count_list tp p) (remdups tp));
          collisions = sort (filter (\<lambda>p. p \<in> set tp) (remdups (map snd (pt_stage_to_process t)))) in
      if duplicates \<noteq> [] then Inl (DuplicateTpProcessNames duplicates)
      else if collisions \<noteq> [] then Inl (TpProcessCollision collisions)
      else Inr ())"

section \<open>Stages that share a GPU\<close>

definition lacks_declared_memory_budget :: "stage_config \<Rightarrow> bool" where
  "lacks_declared_memory_budget s \<longleftrightarrow> gpu_memory_fraction s = None \<and> total_reserve_bytes s = None"

record gpu_use =
  gu_processes :: "(int, string list) dict"
  gu_replica_gpus :: "int list"
  gu_missing :: "(int, string list) dict"

text \<open>The closure \<^verbatim>\<open>record\<close> of \<^verbatim>\<open>_validate_gpu_process_colocation\<close>.\<close>

definition record_use :: "string list \<Rightarrow> int \<Rightarrow> string \<Rightarrow> stage_config \<Rightarrow> gpu_use \<Rightarrow> gpu_use" where
  "record_use replica_names g p s u =
     (let u1 = u\<lparr>gu_processes := dinsert (gu_processes u) g p\<rparr>;
          u2 = (if sc_name s \<in> set replica_names then u1\<lparr>gu_replica_gpus := List.insert g (gu_replica_gpus u1)\<rparr> else u1) in
      if lacks_declared_memory_budget s then u2\<lparr>gu_missing := dinsert (gu_missing u2) g (sc_name s)\<rparr> else u2)"

definition instance_to_logical :: "stage_placement_plan \<Rightarrow> (string, string) dict" where
  "instance_to_logical plan =
     fold (\<lambda>(i, l) d. dset d i l) (concat (map (\<lambda>(l, is). map (\<lambda>i. (i, l)) is) (pl_replica_instances plan))) []"

text \<open>The stages that run on devices of \<^verbatim>\<open>replica_devices\<close>.\<close>

fun replica_device_stages ::
  "pipeline_config \<Rightarrow> (string, string) dict \<Rightarrow> stage_config list \<Rightarrow> placement_error + string list" where
  "replica_device_stages c itl [] = Inr []"
| "replica_device_stages c itl (s # ss) =
     (let logical = (case dget itl (sc_name s) of None \<Rightarrow> sc_name s | Some l \<Rightarrow> l) in
      case find (\<lambda>x. sc_name x = logical) (rev (stages c)) of
        None \<Rightarrow> replica_device_stages c itl ss
      | Some ls \<Rightarrow>
          (case stage_process_name ls of
             Inl e \<Rightarrow> Inl (PlacementConfig e)
           | Inr p \<Rightarrow>
               rbind (replica_device_stages c itl ss) (\<lambda>rest.
                 Inr (case dget (processes c) p of
                        None \<Rightarrow> rest
                      | Some pc \<Rightarrow> if pc_replica_devices pc \<noteq> None then sc_name s # rest else rest))))"

text \<open>The GPU uses: (GPU, process, stage), groups first and then the tensor-parallel ranks.\<close>

definition group_uses :: "stage_config list \<Rightarrow> stage_placement_plan \<Rightarrow> process_group \<Rightarrow> placement_error + (int \<times> string \<times> stage_config) list" where
  "group_uses ss plan grp =
     rbind (rmap (\<lambda>n. case find (\<lambda>s. sc_name s = n) (rev ss) of
                        None \<Rightarrow> Inl PlacementKeyError
                      | Some s \<Rightarrow> Inr (map (\<lambda>g. (g, pg_name grp, s)) (List.map_filter id (resolve_stage_gpu_ids plan s))))
       (pg_stage_names grp)) (\<lambda>us. Inr (concat us))"

definition tp_uses :: "stage_placement_plan \<Rightarrow> process_topology_plan \<Rightarrow> stage_config \<Rightarrow> placement_error + (int \<times> string \<times> stage_config) list" where
  "tp_uses plan t s =
     rbind (rmap (\<lambda>(rank, g).
         case g of
           None \<Rightarrow> Inr []
         | Some g' \<Rightarrow>
             (case dget (pt_tp_processes t) (sc_name s) of
                None \<Rightarrow> Inl PlacementKeyError
              | Some ps \<Rightarrow> if rank < length ps then Inr [(g', ps ! rank, s)] else Inl PlacementKeyError))
       (zip [0..<length (resolve_stage_gpu_ids plan s)] (resolve_stage_gpu_ids plan s))) (\<lambda>us. Inr (concat us))"

definition check_shared_gpu :: "pipeline_config \<Rightarrow> stage_placement_plan \<Rightarrow> gpu_use \<Rightarrow> int \<times> string list \<Rightarrow> placement_error + unit" where
  "check_shared_gpu c plan u gp =
     (let (g, ps) = gp; missing = dlist (gu_missing u) g in
      if length ps \<le> 1 then Inr ()
      else if (require_memory_fraction_for_colocation c \<or> g \<in> set (gu_replica_gpus u)) \<and> missing \<noteq> []
           then Inl (UndeclaredFootprint g (g \<in> set (gu_replica_gpus u)) (sort missing))
      else case dget (pl_gpus plan) g of
        None \<Rightarrow> Inl PlacementKeyError
      | Some p \<Rightarrow>
          if max_total_gpu_memory_fraction_per_gpu c + 1 / 10 ^ 9 < gp_total_fraction p
          then Inl (FractionExceedsLimit g) else Inr ())"

definition validate_gpu_process_colocation ::
  "pipeline_config \<Rightarrow> stage_placement_plan \<Rightarrow> stage_config list \<Rightarrow> process_topology_plan \<Rightarrow> placement_error + unit" where
  "validate_gpu_process_colocation c plan ss t =
     rbind (replica_device_stages c (instance_to_logical plan) ss) (\<lambda>replica_names.
     rbind (rmap (group_uses ss plan) (pt_groups t)) (\<lambda>gus.
     rbind (rmap (tp_uses plan t) (filter (\<lambda>s. 1 < tp_size s) ss)) (\<lambda>tus.
       let u = fold (\<lambda>(g, p, s). record_use replica_names g p s) (concat gus @ concat tus)
                 \<lparr>gu_processes = [], gu_replica_gpus = [], gu_missing = []\<rparr> in
       rcheck (check_shared_gpu c plan u) (gu_processes u))))"

definition build_process_topology_plan ::
  "pipeline_config \<Rightarrow> stage_placement_plan \<Rightarrow> stage_config list \<Rightarrow> placement_error + process_topology_plan" where
  "build_process_topology_plan c plan ss =
     rbind (build_process_groups ss plan) (\<lambda>groups.
       let t = \<lparr>pt_groups = groups, pt_stage_to_process = fold (\<lambda>(s, p) d. dset d s p) (group_stage_pairs groups) [],
                pt_tp_processes = build_tp_process_names ss\<rparr> in
       rbind (validate_process_name_uniqueness t) (\<lambda>_.
       rbind (validate_gpu_process_colocation c plan ss t) (\<lambda>_. Inr t)))"

end
