(* ===== verification/Placement_Properties.thy ===== *)
theory Placement_Properties
  imports Placement
begin

text \<open>
  What a placement and a physical process plan guarantee: memory budgets per GPU, one GPU per process group,
  distinct process names, and declared footprints wherever two processes share a GPU.
\<close>

section \<open>The placement plan\<close>

definition gpus_of :: "stage_config \<Rightarrow> int list" where
  "gpus_of s = (case stage_gpus s of Inr gs \<Rightarrow> gs | Inl _ \<Rightarrow> [])"

lemma stage_gpus_distinct: "stage_gpus s = Inr gs \<Longrightarrow> distinct gs"
  by (auto simp: stage_gpus_def split: option.splits gpu_spec.splits if_splits)

lemma place_stages_entries:
  "place_stages ss ps es = Inr (ps', es') \<Longrightarrow>
   dlist es' g = dlist es g @ map (\<lambda>s. placement_of s (gpus_of s)) (filter (\<lambda>s. g \<in> set (gpus_of s)) ss)"
proof (induction ss arbitrary: ps es)
  case (Cons s ss)
  then obtain gs where gs: "stage_gpus s = Inr gs" by (auto simp: rbind_eq_Inr)
  then show ?case using Cons.prems Cons.IH stage_gpus_distinct [OF gs]
    by (auto simp: gpus_of_def Let_def dlist_fold_dappend split: if_splits)
qed simp

lemma dict_ok_fold_dappend: "dict_ok d \<Longrightarrow> dict_ok (fold (\<lambda>k d. dappend d k v) ks d)"
  by (induction ks arbitrary: d) simp_all

lemma place_stages_dict_ok: "place_stages ss ps es = Inr (ps', es') \<Longrightarrow> dict_ok es \<Longrightarrow> dict_ok es'"
  by (induction ss arbitrary: ps es) (auto simp: rbind_eq_Inr Let_def dict_ok_fold_dappend split: if_splits)

lemma place_stages_other:
  "place_stages ss ps es = Inr (ps', es') \<Longrightarrow> n \<notin> sc_name ` set ss \<Longrightarrow> dget ps' n = dget ps n"
  by (induction ss arbitrary: ps es) (fastforce simp: rbind_eq_Inr Let_def split: if_splits)+

lemma place_stages_dget:
  "place_stages ss ps es = Inr (ps', es') \<Longrightarrow> distinct (map sc_name ss) \<Longrightarrow> s \<in> set ss \<Longrightarrow>
   dget ps' (sc_name s) = (if gpus_of s = [] then dget ps (sc_name s) else Some (placement_of s (gpus_of s)))"
proof (induction ss arbitrary: ps es)
  case (Cons x ss)
  then obtain gs where gs: "stage_gpus x = Inr gs" by (auto simp: rbind_eq_Inr)
  show ?case
  proof (cases "s = x")
    case True
    with Cons.prems gs show ?thesis
      by (auto simp: gpus_of_def Let_def image_iff dest: place_stages_other [where n = "sc_name x"] split: if_splits)
  next
    case False
    then have s: "s \<in> set ss" "sc_name s \<noteq> sc_name x" using Cons.prems(2,3) by (auto simp: image_iff)
    with Cons.prems gs Cons.IH show ?thesis by (auto simp: Let_def split: if_splits)
  qed
qed simp

lemma build_planE:
  assumes "build_stage_placement_plan pol c ss ri = Inr plan"
  obtains es where "place_stages ss [] [] = Inr (pl_stages plan, es)"
    and "pl_gpus plan = map (\<lambda>(g, entries). (g, build_gpu_placement g entries)) es"
    and "validate_memory_budgets (max_total_gpu_memory_fraction_per_gpu c) plan = Inr ()"
    and "pl_replica_instances plan = ri"
  using assms by (auto simp: build_stage_placement_plan_def rbind_eq_Inr Let_def)

lemma planned_gpu:
  assumes b: "build_stage_placement_plan pol c ss ri = Inr plan" and g: "\<exists>s\<in>set ss. g \<in> set (gpus_of s)"
  shows "dget (pl_gpus plan) g =
    Some (build_gpu_placement g (map (\<lambda>s. placement_of s (gpus_of s)) (filter (\<lambda>s. g \<in> set (gpus_of s)) ss)))"
proof -
  obtain es where es: "place_stages ss [] [] = Inr (pl_stages plan, es)"
    and pl: "pl_gpus plan = map (\<lambda>(g, entries). (g, build_gpu_placement g entries)) es"
    using b by (rule build_planE)
  have d: "dlist es g = map (\<lambda>s. placement_of s (gpus_of s)) (filter (\<lambda>s. g \<in> set (gpus_of s)) ss)"
    using place_stages_entries [OF es, of g] by simp
  moreover have "filter (\<lambda>s. g \<in> set (gpus_of s)) ss \<noteq> []" using g by (simp add: filter_empty_conv)
  ultimately have "dget es g = Some (dlist es g)" by (auto simp: dlist_def split: option.splits)
  with d show ?thesis by (simp add: pl)
qed

lemma planned_stage_gpus:
  assumes "build_stage_placement_plan pol c ss ri = Inr plan" "distinct (map sc_name ss)" "s \<in> set ss"
  shows "List.map_filter id (resolve_stage_gpu_ids plan s) = gpus_of s"
    and "gpus_of s \<noteq> [] \<Longrightarrow> resolve_stage_gpu_ids plan s = map Some (gpus_of s)"
proof -
  obtain es where es: "place_stages ss [] [] = Inr (pl_stages plan, es)" using assms(1) by (rule build_planE)
  have nones: "List.map_filter id (replicate n None) = []" for n by (induction n) (simp_all add: List.map_filter_simps)
  have somes: "List.map_filter id (map Some xs) = xs" for xs :: "int list" by (induction xs) (simp_all add: List.map_filter_simps)
  show "List.map_filter id (resolve_stage_gpu_ids plan s) = gpus_of s"
    "gpus_of s \<noteq> [] \<Longrightarrow> resolve_stage_gpu_ids plan s = map Some (gpus_of s)"
    using place_stages_dget [OF es assms(2,3)] by (simp_all add: resolve_stage_gpu_ids_def placement_of_def nones somes)
qed

lemma option_sum_map: "option_sum f (map h xs) = option_sum (f \<circ> h) xs"
  by (simp add: option_sum_def List.map_filter_def filter_map comp_def)

text \<open>
  C33: the memory of a GPU is not promised twice. In a plan that was built and whose capacity check
  passed, the fractions declared by the stages on a GPU, replica instances included, sum up to at most the limit (with the code's
  tolerance); where the device reports its memory the KV pools fit into it, and so do the fractions and the byte reserves together
  when a reserve is declared.
\<close>

theorem gpu_memory_budgeted:
  assumes b: "build_stage_placement_plan pol c ss ri = Inr plan" and v: "validate_gpu_capacity mem plan = Inr ()"
    and g: "\<exists>s\<in>set ss. g \<in> set (gpus_of s)"
  shows "let on = filter (\<lambda>s. g \<in> set (gpus_of s)) ss in
    option_sum gpu_memory_fraction on \<le> max_total_gpu_memory_fraction_per_gpu c + 1 / 10 ^ 9 \<and>
    (\<forall>m. mem g = Some m \<and> 0 \<le> m \<longrightarrow>
       option_sum (\<lambda>s. Option.bind (engine s) kv_cache_bytes) on \<le> m \<and>
       (0 < option_sum total_reserve_bytes on \<longrightarrow>
        option_sum gpu_memory_fraction on * of_int m + of_int (option_sum total_reserve_bytes on) \<le> of_int m))"
proof -
  let ?on = "filter (\<lambda>s. g \<in> set (gpus_of s)) ss"
  let ?p = "build_gpu_placement g (map (\<lambda>s. placement_of s (gpus_of s)) ?on)"
  have p: "gp_total_fraction ?p = option_sum gpu_memory_fraction ?on"
    "gp_total_kv_cache_bytes ?p = option_sum (\<lambda>s. Option.bind (engine s) kv_cache_bytes) ?on"
    "gp_total_reserve_bytes ?p = option_sum total_reserve_bytes ?on" "gp_gpu_id ?p = g"
    by (simp_all add: build_gpu_placement_def option_sum_map placement_of_def comp_def)
  have mem: "(g, ?p) \<in> set (pl_gpus plan)" by (rule map_of_SomeD [OF planned_gpu [OF b g]])
  have "validate_memory_budgets (max_total_gpu_memory_fraction_per_gpu c) plan = Inr ()" using b by (rule build_planE)
  with mem have "gp_total_fraction ?p \<le> max_total_gpu_memory_fraction_per_gpu c + 1 / 10 ^ 9"
    by (fastforce simp: validate_memory_budgets_def rcheck_Inr split: if_splits)
  moreover have "check_gpu_capacity mem plan (g, ?p) = Inr ()" using v mem by (simp add: validate_gpu_capacity_def rcheck_Inr)
  ultimately show ?thesis unfolding Let_def by (auto simp: check_gpu_capacity_def p split: if_splits)
qed

section \<open>The physical process plan\<close>

lemma build_topologyE:
  assumes "build_process_topology_plan c plan ss = Inr t"
  obtains "build_process_groups ss plan = Inr (pt_groups t)"
    and "pt_stage_to_process t = fold (\<lambda>(s, p) d. dset d s p) (group_stage_pairs (pt_groups t)) []"
    and "pt_tp_processes t = build_tp_process_names ss"
    and "validate_process_name_uniqueness t = Inr ()" and "validate_gpu_process_colocation c plan ss t = Inr ()"
  using assms by (auto simp: build_process_topology_plan_def rbind_eq_Inr Let_def)

lemma build_groupsE:
  assumes "build_process_groups ss plan = Inr gs"
  obtains comps where "group_members (filter (\<lambda>s. tp_size s = 1) ss) [] = Inr comps"
    and "map pg_name gs = map fst comps" and "map pg_stage_names gs = map (map sc_name \<circ> snd) comps"
    and "\<And>i. i < length comps \<Longrightarrow> resolve_group_gpu_id plan (fst (comps ! i)) (snd (comps ! i)) = Inr (pg_gpu_id (gs ! i))"
proof -
  from assms obtain comps where g: "group_members (filter (\<lambda>s. tp_size s = 1) ss) [] = Inr comps"
    and r: "rmap (\<lambda>(name, comp). rbind (resolve_group_gpu_id plan name comp) (\<lambda>g.
      Inr \<lparr>pg_name = name, pg_stage_names = map sc_name comp, pg_gpu_id = g\<rparr>)) comps = Inr gs"
    by (auto simp: build_process_groups_def split: sum.splits)
  show thesis
  proof (rule that [OF g])
    show "map pg_name gs = map fst comps" "map pg_stage_names gs = map (map sc_name \<circ> snd) comps"
      by (rule rmap_Inr_map [OF r]; auto simp: rbind_eq_Inr)+
    show "resolve_group_gpu_id plan (fst (comps ! i)) (snd (comps ! i)) = Inr (pg_gpu_id (gs ! i))" if "i < length comps" for i
      using rmap_Inr_nth [OF r that] by (auto simp: rbind_eq_Inr case_prod_unfold) (metis process_group.select_convs(3))
  qed
qed

lemma resolve_group_gpu_id_covers:
  assumes "resolve_group_gpu_id plan name ss = Inr g" "s \<in> set ss"
  shows "set (List.map_filter id (resolve_stage_gpu_ids plan s)) \<subseteq> set_option g"
proof -
  have "set (List.map_filter id (resolve_stage_gpu_ids plan s)) \<subseteq> set (group_gpus plan ss)"
    using assms(2) by (auto simp: group_gpus_def List.map_filter_def)
  with assms(1) show ?thesis by (auto simp: resolve_group_gpu_id_def split: list.splits)
qed

lemma group_pairs_fst: "map fst (group_stage_pairs gs) = concat (map pg_stage_names gs)"
  by (induction gs) (simp_all add: group_stage_pairs_def comp_def)

text \<open>Every ordinary stage has its group.\<close>

lemma group_of_stage:
  assumes g: "build_process_groups ss plan = Inr gs" and s: "s \<in> set ss" "tp_size s = 1"
  obtains grp where "grp \<in> set gs" "sc_name s \<in> set (pg_stage_names grp)" "stage_process_name s = Inr (pg_name grp)"
    "set (List.map_filter id (resolve_stage_gpu_ids plan s)) \<subseteq> set_option (pg_gpu_id grp)"
proof -
  obtain comps where m: "group_members (filter (\<lambda>s. tp_size s = 1) ss) [] = Inr comps"
    and n: "map pg_name gs = map fst comps" and st: "map pg_stage_names gs = map (map sc_name \<circ> snd) comps"
    and r: "\<And>i. i < length comps \<Longrightarrow> resolve_group_gpu_id plan (fst (comps ! i)) (snd (comps ! i)) = Inr (pg_gpu_id (gs ! i))"
    using g by (rule build_groupsE) blast
  have "s \<in> set (concat (map snd comps))" using set_group_members [OF m] s by auto
  then obtain kv where kv: "kv \<in> set comps" "s \<in> set (snd kv)" by auto
  then obtain i where i: "i < length comps" "comps ! i = kv" by (auto simp: in_set_conv_nth)
  have len: "length gs = length comps" using arg_cong [OF n, of length] by simp
  have nm: "pg_name (gs ! i) = fst kv" "pg_stage_names (gs ! i) = map sc_name (snd kv)"
    using arg_cong [OF n, of "\<lambda>xs. xs ! i"] arg_cong [OF st, of "\<lambda>xs. xs ! i"] i len by simp_all
  have "members_ok comps" by (rule group_members_ok [OF m]) (simp add: members_ok_def)
  then have "stage_process_name s = Inr (fst kv)" using kv by (auto simp: members_ok_def) (metis prod.collapse)
  with resolve_group_gpu_id_covers [OF r [OF i(1)], of s] nm kv i len show thesis by (intro that [of "gs ! i"]) auto
qed

lemma groups_distinct:
  assumes "build_process_groups ss plan = Inr gs"
  shows "distinct (map pg_name gs)" and "distinct (map sc_name ss) \<Longrightarrow> distinct (concat (map pg_stage_names gs))"
    and "grp \<in> set gs \<Longrightarrow> pg_stage_names grp \<noteq> []"
proof -
  obtain comps where m: "group_members (filter (\<lambda>s. tp_size s = 1) ss) [] = Inr comps"
    and n: "map pg_name gs = map fst comps" and st: "map pg_stage_names gs = map (map sc_name \<circ> snd) comps"
    using assms by (rule build_groupsE)
  have ok: "members_ok comps" by (rule group_members_ok [OF m]) (simp add: members_ok_def)
  then show "distinct (map pg_name gs)" by (simp add: n members_ok_def dict_ok_def)
  have cat: "concat (map pg_stage_names gs) = map sc_name (concat (map snd comps))" by (simp add: st map_concat comp_def)
  have "mset (concat (map pg_stage_names gs)) = mset (map sc_name (filter (\<lambda>s. tp_size s = 1) ss))"
    using mset_group_members [OF m] unfolding cat by simp
  moreover have "distinct (map sc_name ss) \<Longrightarrow> distinct (map sc_name (filter (\<lambda>s. tp_size s = 1) ss))" by (rule distinct_map_filter)
  ultimately show "distinct (map sc_name ss) \<Longrightarrow> distinct (concat (map pg_stage_names gs))" by (metis mset_eq_imp_distinct_iff)
  show "pg_stage_names grp \<noteq> []" if "grp \<in> set gs"
  proof -
    have "pg_stage_names grp \<in> set (map (map sc_name \<circ> snd) comps)" using that by (simp flip: st)
    then obtain kv where "kv \<in> set comps" "pg_stage_names grp = map sc_name (snd kv)" by auto
    with ok show ?thesis by (cases kv) (auto simp: members_ok_def)
  qed
qed

lemma stage_to_process_dget:
  assumes "build_process_groups ss plan = Inr gs" "distinct (map sc_name ss)" "grp \<in> set gs" "n \<in> set (pg_stage_names grp)"
  shows "dget (fold (\<lambda>(s, p) d. dset d s p) (group_stage_pairs gs) []) n = Some (pg_name grp)"
proof -
  have d: "distinct (map fst (group_stage_pairs gs))" using groups_distinct(2) [OF assms(1,2)] by (simp add: group_pairs_fst)
  have "(n, pg_name grp) \<in> set (group_stage_pairs gs)" using assms(3,4) by (auto simp: group_stage_pairs_def)
  with d show ?thesis by (simp add: dget_fold_dset_distinct)
qed

lemma tp_processes_dget:
  assumes "distinct (map sc_name ss)" "s \<in> set ss" "1 < tp_size s"
  shows "dget (build_tp_process_names ss) (sc_name s) = Some (map (tp_process_name s) [0..<nat (tp_size s)])"
proof -
  let ?xs = "map (\<lambda>s. (sc_name s, map (tp_process_name s) [0..<nat (tp_size s)])) (filter (\<lambda>s. 1 < tp_size s) ss)"
  have "build_tp_process_names ss = fold (\<lambda>(k, v) d. dset d k v) ?xs []" by (simp add: build_tp_process_names_def fold_map comp_def)
  moreover have "distinct (map fst ?xs)" using assms(1) by (simp add: comp_def distinct_map_filter)
  moreover have "(sc_name s, map (tp_process_name s) [0..<nat (tp_size s)]) \<in> set ?xs" using assms by auto
  ultimately show ?thesis by (simp add: dget_fold_dset_distinct)
qed

lemma distinct_count_list: "distinct xs \<longleftrightarrow> (\<forall>x\<in>set xs. count_list xs x \<le> 1)"
proof (induction xs)
  case (Cons x xs)
  have "count_list xs x = 0 \<longleftrightarrow> x \<notin> set xs" by (simp add: count_list_0_iff)
  with Cons show ?case by (auto simp: le_Suc_eq)
qed simp

lemma sort_eq_Nil: "sort xs = [] \<longleftrightarrow> xs = []"
  by (metis set_empty set_sort)

lemma process_names_unique:
  assumes "validate_process_name_uniqueness t = Inr ()"
  shows "distinct (concat (map snd (pt_tp_processes t)))"
    and "set (map snd (pt_stage_to_process t)) \<inter> set (concat (map snd (pt_tp_processes t))) = {}"
proof -
  define tp where "tp = concat (map snd (pt_tp_processes t))"
  have "filter (\<lambda>p. 1 < count_list tp p) (remdups tp) = []" "filter (\<lambda>p. p \<in> set tp) (remdups (map snd (pt_stage_to_process t))) = []"
    using assms unfolding validate_process_name_uniqueness_def Let_def tp_def [symmetric] sort_eq_Nil by (simp_all split: if_splits)
  then show "distinct (concat (map snd (pt_tp_processes t)))"
    "set (map snd (pt_stage_to_process t)) \<inter> set (concat (map snd (pt_tp_processes t))) = {}"
    unfolding tp_def [symmetric] by (auto simp: filter_empty_conv distinct_count_list not_less)
qed

text \<open>
  The physical processes are well formed. All operating-system processes of a plan have different names, tensor-parallel
  ranks included; every ordinary stage is in the group of its process, which occupies at most the GPU of that stage, and every
  tensor-parallel stage has one process per rank.
\<close>

theorem physical_processes_sound:
  assumes t: "build_process_topology_plan c plan ss = Inr t" and b: "build_stage_placement_plan pol c ss ri = Inr plan"
    and d: "distinct (map sc_name ss)"
  shows "distinct (map pg_name (pt_groups t) @ concat (map snd (pt_tp_processes t))) \<and>
    (\<forall>s\<in>set ss.
      (tp_size s = 1 \<longrightarrow> (\<exists>grp\<in>set (pt_groups t). sc_name s \<in> set (pg_stage_names grp) \<and> stage_process_name s = Inr (pg_name grp) \<and>
         dget (pt_stage_to_process t) (sc_name s) = Some (pg_name grp) \<and> set (gpus_of s) \<subseteq> set_option (pg_gpu_id grp))) \<and>
      (1 < tp_size s \<longrightarrow> (\<exists>ps. dget (pt_tp_processes t) (sc_name s) = Some ps \<and> int (length ps) = tp_size s)))"
proof -
  have g: "build_process_groups ss plan = Inr (pt_groups t)"
    and sp: "pt_stage_to_process t = fold (\<lambda>(s, p) d. dset d s p) (group_stage_pairs (pt_groups t)) []"
    and tp: "pt_tp_processes t = build_tp_process_names ss" and u: "validate_process_name_uniqueness t = Inr ()"
    using t by (auto elim!: build_topologyE)
  have "pg_name grp \<in> set (map snd (pt_stage_to_process t))" if grp: "grp \<in> set (pt_groups t)" for grp
  proof -
    obtain n where "n \<in> set (pg_stage_names grp)" using groups_distinct(3) [OF g grp] by (meson hd_in_set)
    from map_of_SomeD [OF stage_to_process_dget [OF g d grp this]] show ?thesis by (force simp: sp)
  qed
  then have "distinct (map pg_name (pt_groups t) @ concat (map snd (pt_tp_processes t)))"
    using groups_distinct(1) [OF g] process_names_unique [OF u] by auto
  moreover have "\<exists>grp\<in>set (pt_groups t). sc_name s \<in> set (pg_stage_names grp) \<and> stage_process_name s = Inr (pg_name grp) \<and>
      dget (pt_stage_to_process t) (sc_name s) = Some (pg_name grp) \<and> set (gpus_of s) \<subseteq> set_option (pg_gpu_id grp)"
    if s: "s \<in> set ss" "tp_size s = 1" for s
    using group_of_stage [OF g s] planned_stage_gpus(1) [OF b d s(1)] stage_to_process_dget [OF g d] by (metis sp)
  moreover have "\<exists>ps. dget (pt_tp_processes t) (sc_name s) = Some ps \<and> int (length ps) = tp_size s" if "s \<in> set ss" "1 < tp_size s" for s
    using tp_processes_dget [OF d that] that by (simp add: tp)
  ultimately show ?thesis by blast
qed

section \<open>Shared GPUs\<close>

text \<open>The process that runs rank \<open>k\<close> of a stage.\<close>

definition process_at :: "process_topology_plan \<Rightarrow> stage_config \<Rightarrow> nat \<Rightarrow> string option" where
  "process_at t s k =
     (if tp_size s = 1 then dget (pt_stage_to_process t) (sc_name s)
      else Option.bind (dget (pt_tp_processes t) (sc_name s)) (\<lambda>ps. if k < length ps then Some (ps ! k) else None))"

lemma record_use_simps [simp]:
  "gu_processes (record_use rn g p s u) = dinsert (gu_processes u) g p"
  "set (gu_replica_gpus (record_use rn g p s u)) = (if sc_name s \<in> set rn then insert g (set (gu_replica_gpus u)) else set (gu_replica_gpus u))"
  "gu_missing (record_use rn g p s u) = (if lacks_declared_memory_budget s then dinsert (gu_missing u) g (sc_name s) else gu_missing u)"
  by (simp_all add: record_use_def Let_def)

lemma fold_uses:
  assumes "u = fold (\<lambda>(g, p, s). record_use rn g p s) us u0"
  shows "set (dlist (gu_processes u) g) = set (dlist (gu_processes u0) g) \<union> {p. \<exists>s. (g, p, s) \<in> set us}"
    and "set (gu_replica_gpus u) = set (gu_replica_gpus u0) \<union> {g. \<exists>p s. (g, p, s) \<in> set us \<and> sc_name s \<in> set rn}"
    and "set (dlist (gu_missing u) g) =
      set (dlist (gu_missing u0) g) \<union> {sc_name s |s. lacks_declared_memory_budget s \<and> (\<exists>p. (g, p, s) \<in> set us)}"
  using assms
proof (induction us arbitrary: u0)
  case (Cons x us)
  obtain g' p s where x: "x = (g', p, s)" by (cases x)
  case 1 then show ?case using Cons(1) [of "record_use rn g' p s u0"] by (auto simp: x)
  case 2 then show ?case using Cons(2) [of "record_use rn g' p s u0"] by (auto simp: x)
  case 3 then show ?case using Cons(3) [of "record_use rn g' p s u0"] by (auto simp: x)
qed auto

lemma rmap_Inr_mem: "rmap f xs = Inr ys \<Longrightarrow> x \<in> set xs \<Longrightarrow> \<exists>y\<in>set ys. f x = Inr y"
  by (induction xs arbitrary: ys) (auto simp: rbind_eq_Inr)

lemma find_named: "distinct (map sc_name ss) \<Longrightarrow> s \<in> set ss \<Longrightarrow> find (\<lambda>x. sc_name x = sc_name s) (rev ss) = Some s"
proof -
  assume d: "distinct (map sc_name ss)" and s: "s \<in> set ss"
  then obtain i where i: "i < length (rev ss)" "rev ss ! i = s" by (metis in_set_conv_nth set_rev)
  have "distinct (map sc_name (rev ss))" using d by (simp add: rev_map [symmetric])
  then have "sc_name (rev ss ! j) \<noteq> sc_name s" if "j < i" for j
    using that i by (auto simp: distinct_conv_nth)
  with i show ?thesis unfolding find_Some_iff by blast
qed

lemma use_recorded:
  assumes b: "build_stage_placement_plan pol c ss ri = Inr plan" and d: "distinct (map sc_name ss)"
    and t: "build_process_topology_plan c plan ss = Inr t"
    and gus: "rmap (group_uses ss plan) (pt_groups t) = Inr gus" and tus: "rmap (tp_uses plan t) (filter (\<lambda>s. 1 < tp_size s) ss) = Inr tus"
    and s: "s \<in> set ss" "1 \<le> tp_size s" "k < length (gpus_of s)" and p: "process_at t s k = Some p"
  shows "(gpus_of s ! k, p, s) \<in> set (concat gus @ concat tus)"
proof (cases "tp_size s = 1")
  case True
  have g: "build_process_groups ss plan = Inr (pt_groups t)"
    and sp: "pt_stage_to_process t = fold (\<lambda>(s, p) d. dset d s p) (group_stage_pairs (pt_groups t)) []"
    using t by (auto elim!: build_topologyE)
  obtain grp where grp: "grp \<in> set (pt_groups t)" "sc_name s \<in> set (pg_stage_names grp)" using group_of_stage [OF g s(1) True] .
  have pn: "p = pg_name grp" using stage_to_process_dget [OF g d grp] p True by (simp add: process_at_def sp)
  obtain us where us: "us \<in> set gus" "group_uses ss plan grp = Inr us" using rmap_Inr_mem [OF gus grp(1)] by auto
  obtain vs where vs: "rmap (\<lambda>n. case find (\<lambda>s. sc_name s = n) (rev ss) of
        None \<Rightarrow> Inl PlacementKeyError
      | Some s \<Rightarrow> Inr (map (\<lambda>g. (g, pg_name grp, s)) (List.map_filter id (resolve_stage_gpu_ids plan s)))) (pg_stage_names grp) = Inr vs"
    "us = concat vs" using us(2) by (auto simp: group_uses_def rbind_eq_Inr)
  then have "map (\<lambda>g. (g, pg_name grp, s)) (gpus_of s) \<in> set vs"
    using rmap_Inr_mem [OF vs(1) grp(2)] find_named [OF d s(1)] planned_stage_gpus(1) [OF b d s(1)] by auto
  with us(1) vs(2) s(3) pn show ?thesis by fastforce
next
  case False
  then have tp: "1 < tp_size s" using s(2) by simp
  obtain us where us: "us \<in> set tus" "tp_uses plan t s = Inr us" using rmap_Inr_mem [OF tus, of s] s(1) tp by auto
  have ids: "resolve_stage_gpu_ids plan s = map Some (gpus_of s)" using s(3) by (intro planned_stage_gpus(2) [OF b d s(1)]) auto
  have len: "length (map Some (gpus_of s)) = length (gpus_of s)" by simp
  obtain ps where ps: "dget (pt_tp_processes t) (sc_name s) = Some ps" "k < length ps" "p = ps ! k"
    using p False by (auto simp: process_at_def bind_eq_Some_conv split: if_splits)
  obtain vs where vs: "rmap (\<lambda>(rank, g). case g of
           None \<Rightarrow> Inr []
         | Some g' \<Rightarrow> if rank < length ps then Inr [(g', ps ! rank, s)] else Inl PlacementKeyError)
       (zip [0..<length (gpus_of s)] (map Some (gpus_of s))) = Inr vs" "us = concat vs"
    using us(2) ps(1) by (auto simp: tp_uses_def rbind_eq_Inr ids)
  have "vs ! k = [(gpus_of s ! k, p, s)]" using rmap_Inr_nth [OF vs(1), of k] s(3) ps by simp
  moreover have "k < length vs" using rmap_Inr_length [OF vs(1)] s(3) by simp
  ultimately have "[(gpus_of s ! k, p, s)] \<in> set vs" by (metis nth_mem)
  then have "(gpus_of s ! k, p, s) \<in> set us" unfolding vs(2) by (auto intro: bexI [of _ "[(gpus_of s ! k, p, s)]"])
  with us(1) show ?thesis by auto
qed

text \<open>
  Shared GPUs are declared. When two ranks of stages are placed on the same GPU in different processes, and the
  configuration requires declared footprints or some stage on that GPU runs on replica devices, both stages declare their memory as a
  fraction or as a byte reserve; otherwise no plan is built.
\<close>

theorem shared_gpu_declared:
  assumes b: "build_stage_placement_plan pol c ss ri = Inr plan" and d: "distinct (map sc_name ss)"
    and t: "build_process_topology_plan c plan ss = Inr t" and rn: "replica_device_stages c (instance_to_logical plan) ss = Inr rn"
    and s1: "s1 \<in> set ss" "1 \<le> tp_size s1" "k1 < length (gpus_of s1)" "process_at t s1 k1 = Some p1"
    and s2: "s2 \<in> set ss" "1 \<le> tp_size s2" "k2 < length (gpus_of s2)" "process_at t s2 k2 = Some p2"
    and same: "gpus_of s1 ! k1 = gpus_of s2 ! k2" and p: "p1 \<noteq> p2"
    and strict: "require_memory_fraction_for_colocation c \<or> sc_name s1 \<in> set rn \<or> sc_name s2 \<in> set rn"
  shows "\<not> lacks_declared_memory_budget s1 \<and> \<not> lacks_declared_memory_budget s2"
proof -
  have v: "validate_gpu_process_colocation c plan ss t = Inr ()" using t by (auto elim!: build_topologyE)
  from v rn obtain gus tus where gus: "rmap (group_uses ss plan) (pt_groups t) = Inr gus"
    and tus: "rmap (tp_uses plan t) (filter (\<lambda>s. 1 < tp_size s) ss) = Inr tus"
    by (auto simp: validate_gpu_process_colocation_def rbind_eq_Inr)
  define us where "us = concat gus @ concat tus"
  define u where "u = fold (\<lambda>(g, p, s). record_use rn g p s) us \<lparr>gu_processes = [], gu_replica_gpus = [], gu_missing = []\<rparr>"
  let ?g = "gpus_of s1 ! k1"
  have in1: "(?g, p1, s1) \<in> set us" and in2: "(?g, p2, s2) \<in> set us"
    using use_recorded [OF b d t gus tus s1] use_recorded [OF b d t gus tus s2] same unfolding us_def by simp_all
  note F = fold_uses [OF u_def, simplified]
  have ck: "rcheck (check_shared_gpu c plan u) (gu_processes u) = Inr ()"
    using v rn gus tus by (simp add: validate_gpu_process_colocation_def u_def us_def Let_def)
  have ps: "{p1, p2} \<subseteq> set (dlist (gu_processes u) ?g)" using in1 in2 by (auto simp: F(1))
  then have get: "(?g, dlist (gu_processes u) ?g) \<in> set (gu_processes u)" by (auto simp: dlist_def split: option.splits dest: map_of_SomeD)
  have "1 < length (dlist (gu_processes u) ?g)"
    using card_mono [OF _ ps] p card_length [of "dlist (gu_processes u) ?g"] by simp
  moreover have "require_memory_fraction_for_colocation c \<or> ?g \<in> set (gu_replica_gpus u)" using strict in1 in2 by (auto simp: F(2))
  moreover have "check_shared_gpu c plan u (?g, dlist (gu_processes u) ?g) = Inr ()" using ck get by (simp add: rcheck_Inr)
  ultimately have "dlist (gu_missing u) ?g = []" by (auto simp: check_shared_gpu_def Let_def split: if_splits)
  then have "set (dlist (gu_missing u) ?g) = {}" by simp
  with in1 in2 show ?thesis unfolding F(3) by blast
qed

section \<open>A concrete plan\<close>

definition shared_stage :: "string \<Rightarrow> string \<Rightarrow> real \<Rightarrow> stage_config" where
  "shared_stage n p f = (demo_stage n None (Some (GpuInt 0)) p)\<lparr>gpu_memory_fraction := Some f\<rparr>"

definition shared_stages :: "stage_config list" where
  "shared_stages = [shared_stage ''a'' ''p'' 1, shared_stage ''b'' ''q'' 0]"

definition shared_config :: pipeline_config where
  "shared_config = demo_pipeline\<lparr>stages := shared_stages, processes := []\<rparr>"

definition shared_plan :: stage_placement_plan where
  "shared_plan =
     \<lparr>pl_stages = map (\<lambda>s. (sc_name s, placement_of s [0])) shared_stages,
      pl_gpus = [(0, build_gpu_placement 0 (map (\<lambda>s. placement_of s [0]) shared_stages))], pl_replica_instances = []\<rparr>"

definition shared_topology :: process_topology_plan where
  "shared_topology =
     \<lparr>pt_groups = [\<lparr>pg_name = ''p'', pg_stage_names = [''a''], pg_gpu_id = Some 0\<rparr>, \<lparr>pg_name = ''q'', pg_stage_names = [''b''], pg_gpu_id = Some 0\<rparr>],
      pt_stage_to_process = [(''a'', ''p''), (''b'', ''q'')], pt_tp_processes = []\<rparr>"

lemmas shared_eval = shared_stages_def shared_stage_def demo_stage_def stage_gpus_def gpus_of_def placement_of_def option_sum_def
  build_gpu_placement_def List.map_filter_simps

lemma shared_plan_built: "build_stage_placement_plan NoPolicy shared_config shared_stages [] = Inr shared_plan"
  by (simp add: build_stage_placement_plan_def shared_plan_def validate_memory_budgets_def apply_placement_policy_def shared_config_def
      demo_pipeline_def shared_eval dappend_def dlist_def Let_def)

lemma shared_plan_fits: "validate_gpu_capacity (\<lambda>_. Some 1000) shared_plan = Inr ()"
  by (simp add: validate_gpu_capacity_def check_gpu_capacity_def shared_plan_def shared_eval)

lemma shared_topology_built: "build_process_topology_plan shared_config shared_plan shared_stages = Inr shared_topology"
  by (simp add: build_process_topology_plan_def build_process_groups_def validate_process_name_uniqueness_def
      validate_gpu_process_colocation_def resolve_group_gpu_id_def group_gpus_def resolve_stage_gpu_ids_def shared_topology_def
      shared_plan_def shared_config_def demo_pipeline_def shared_eval group_stage_pairs_def build_tp_process_names_def instance_to_logical_def
      add_member_def stage_process_name_def truthy_def group_uses_def record_use_def check_shared_gpu_def dinsert_def dappend_def dlist_def
      lacks_declared_memory_budget_def Let_def)

theorem gpu_memory_budgeted_witness:
  "let on = filter (\<lambda>s. 0 \<in> set (gpus_of s)) shared_stages in
    option_sum gpu_memory_fraction on \<le> max_total_gpu_memory_fraction_per_gpu shared_config + 1 / 10 ^ 9 \<and>
    (\<forall>m. Some 1000 = Some m \<and> 0 \<le> m \<longrightarrow>
       option_sum (\<lambda>s. Option.bind (engine s) kv_cache_bytes) on \<le> m \<and>
       (0 < option_sum total_reserve_bytes on \<longrightarrow>
        option_sum gpu_memory_fraction on * of_int m + of_int (option_sum total_reserve_bytes on) \<le> of_int m))"
  by (rule gpu_memory_budgeted [OF shared_plan_built shared_plan_fits]) (simp add: shared_eval)

theorem physical_processes_sound_witness:
  "distinct (map pg_name (pt_groups shared_topology) @ concat (map snd (pt_tp_processes shared_topology))) \<and>
    (\<exists>grp\<in>set (pt_groups shared_topology). ''a'' \<in> set (pg_stage_names grp) \<and> stage_process_name (shared_stage ''a'' ''p'' 1) = Inr (pg_name grp) \<and>
       dget (pt_stage_to_process shared_topology) ''a'' = Some (pg_name grp) \<and> {0} \<subseteq> set_option (pg_gpu_id grp))"
proof -
  let ?s = "shared_stage ''a'' ''p'' 1"
  have d: "distinct (map sc_name shared_stages)" and s: "?s \<in> set shared_stages" "tp_size ?s = 1" "sc_name ?s = ''a''" "set (gpus_of ?s) = {0}"
    by (simp_all add: shared_eval)
  note p = physical_processes_sound [OF shared_topology_built shared_plan_built d]
  then obtain grp where "grp \<in> set (pt_groups shared_topology)" "sc_name ?s \<in> set (pg_stage_names grp)" "stage_process_name ?s = Inr (pg_name grp)"
    "dget (pt_stage_to_process shared_topology) (sc_name ?s) = Some (pg_name grp)" "set (gpus_of ?s) \<subseteq> set_option (pg_gpu_id grp)"
    using s(1,2) by blast
  with p show ?thesis by (metis s(3,4))
qed

theorem shared_gpu_declared_witness:
  "\<not> lacks_declared_memory_budget (shared_stage ''a'' ''p'' 1) \<and> \<not> lacks_declared_memory_budget (shared_stage ''b'' ''q'' 0)"
  by (rule shared_gpu_declared [OF shared_plan_built _ shared_topology_built, where rn = "[]" and ?k1.0 = 0 and ?k2.0 = 0 and ?p1.0 = "''p''" and ?p2.0 = "''q''"])
    (simp_all add: shared_eval process_at_def shared_topology_def shared_config_def demo_pipeline_def shared_plan_def instance_to_logical_def
      stage_process_name_def truthy_def)

end
