(* ===== verification/Runtime_Prep.thy ===== *)
theory Runtime_Prep
  imports Placement_Properties
begin

text \<open>
  Preparation of a pipeline run, \<^verbatim>\<open>sglang_omni/pipeline/runtime_config.py\<close>: the private directory for the IPC sockets, the
  endpoint addresses, and the composition of compilation, replica expansion, placement and process plan. Paths are strings; the
  file system is the list of runtime directories that exist. The socket path limit of ZeroMQ (\<open>budget\<close>), \<^verbatim>\<open>tempfile.mkdtemp\<close>, the visible device count and the success of
  \<^verbatim>\<open>shutil.rmtree\<close> are arguments.
\<close>

section \<open>Endpoints\<close>

definition TEMPFILE_RANDOM_SUFFIX_LEN :: nat where "TEMPFILE_RANDOM_SUFFIX_LEN = 8"

datatype prep_error =
    IpcPathTooLong string nat nat
  | PrepTopology topo_error
  | PrepReplicas replica_error
  | PrepPlacement placement_error

definition stage_file :: "stage_config \<Rightarrow> string" where
  "stage_file s = ''stage_'' @ sc_name s"

definition comm_file :: "stage_config \<Rightarrow> string \<Rightarrow> string" where
  "comm_file s rank = ''comm_'' @ sc_name s @ ''_rank'' @ rank"

definition longest_endpoint_suffix_len :: "stage_config list \<Rightarrow> nat" where
  "longest_endpoint_suffix_len ss =
     Max (set ([length ''/completion.sock'', length ''/abort.sock''] @
       map (\<lambda>s. length (''/'' @ stage_file s @ ''.sock'')) ss @
       map (\<lambda>s. length (''/'' @ comm_file s (show_int (tp_size s - 1)) @ ''.sock'')) ss))"

definition validate_ipc_endpoint_budget :: "nat \<Rightarrow> stage_config list \<Rightarrow> string \<Rightarrow> prep_error + unit" where
  "validate_ipc_endpoint_budget budget ss dir =
     (let suffix = longest_endpoint_suffix_len ss; path_len = length dir + suffix in
      if budget < path_len then Inl (IpcPathTooLong dir suffix path_len) else Inr ())"

definition ipc_dir_len :: "string \<Rightarrow> nat \<Rightarrow> nat \<Rightarrow> nat" where
  "ipc_dir_len base_root prefix_len suffix_len =
     (let dir_name_len = prefix_len + TEMPFILE_RANDOM_SUFFIX_LEN;
          dir_name_len' = (if prefix_len \<noteq> 0 then dir_name_len + length ''-'' else dir_name_len) in
      length base_root + length ''/'' + dir_name_len' + suffix_len)"

definition truncate_ipc_namespace_prefix :: "nat \<Rightarrow> string \<Rightarrow> string \<Rightarrow> stage_config list \<Rightarrow> prep_error + string" where
  "truncate_ipc_namespace_prefix budget prefix base_root ss =
     (let suffix = longest_endpoint_suffix_len ss; min_dir_len = ipc_dir_len base_root 0 suffix in
      if budget < min_dir_len then Inl (IpcPathTooLong base_root suffix min_dir_len)
      else
        (let max_prefix_len = int budget - int (length base_root) - int (length ''/'') - int (length ''-'')
               - int TEMPFILE_RANDOM_SUFFIX_LEN - int suffix in
         if max_prefix_len \<le> 0 then Inr [] else Inr (take (nat max_prefix_len) prefix)))"

definition endpoint_address :: "string \<Rightarrow> string \<Rightarrow> string" where
  "endpoint_address dir file = ''ipc://'' @ dir @ ''/'' @ file @ ''.sock''"

definition stage_files :: "stage_config \<Rightarrow> string list" where
  "stage_files s = stage_file s # map (\<lambda>k. comm_file s (show_nat k)) [0..<nat (tp_size s)]"

definition allocate_endpoints :: "nat \<Rightarrow> stage_config list \<Rightarrow> string \<Rightarrow> prep_error + (string, string) dict" where
  "allocate_endpoints budget ss dir =
     rbind (validate_ipc_endpoint_budget budget ss dir) (\<lambda>_.
       Inr (fold (\<lambda>f d. dset d f (endpoint_address dir f)) (concat (map stage_files ss))
         [(''completion'', endpoint_address dir ''completion''), (''abort'', endpoint_address dir ''abort'')]))"

section \<open>The runtime directory\<close>

definition slug_char :: "char \<Rightarrow> bool" where
  "slug_char c \<longleftrightarrow> dec_digit c \<or> 97 \<le> (of_char c :: nat) \<and> (of_char c :: nat) \<le> 122"

text \<open>\<^verbatim>\<open>re.sub(r"[^0-9a-z]+", "-", s)\<close>\<close>

function slug_runs :: "string \<Rightarrow> string" where
  "slug_runs [] = []"
| "slug_runs (c # cs) =
     (if slug_char c then c # slug_runs cs else CHR ''-'' # slug_runs (dropWhile (\<lambda>x. \<not> slug_char x) cs))"
  by pat_completeness auto

termination
  by (relation "measure length") (simp_all add: le_imp_less_Suc length_dropWhile_le)

definition strip_dashes :: "string \<Rightarrow> string" where
  "strip_dashes s = rev (dropWhile (\<lambda>c. c = CHR ''-'') (rev (dropWhile (\<lambda>c. c = CHR ''-'') s)))"

definition namespace_prefix :: "string \<Rightarrow> string" where
  "namespace_prefix name =
     (let p = strip_dashes (slug_runs (py_lower name)) in if p = [] then ''pipeline'' else p)"

definition create_ipc_runtime_dir ::
  "nat \<Rightarrow> (string \<Rightarrow> string \<Rightarrow> string) \<Rightarrow> string \<Rightarrow> string \<Rightarrow> stage_config list \<Rightarrow> prep_error + string" where
  "create_ipc_runtime_dir budget mkdtemp name base_root ss =
     rbind (truncate_ipc_namespace_prefix budget (namespace_prefix name) base_root ss) (\<lambda>prefix.
       Inr (mkdtemp base_root (if prefix \<noteq> [] then prefix @ ''-'' else [])))"

section \<open>Preparation\<close>

record runtime_prep =
  rp_stages :: "stage_config list"
  rp_entry_stage :: string
  rp_endpoints :: "(string, string) dict"
  rp_placement :: stage_placement_plan
  rp_process_plan :: process_topology_plan
  rp_runtime_dir :: string
  rp_created_here :: bool
  rp_replicas :: replica_topology
  rp_logical :: logical_process_plan

definition lift_err :: "('a \<Rightarrow> 'b) \<Rightarrow> 'a + 'c \<Rightarrow> 'b + 'c" where
  "lift_err f r = (case r of Inl e \<Rightarrow> Inl (f e) | Inr x \<Rightarrow> Inr x)"

lemma lift_err_Inr [simp]: "lift_err f r = Inr x \<longleftrightarrow> r = Inr x" "lift_err f (Inr x) = Inr x"
  by (cases r) (simp_all add: lift_err_def)

text \<open>Up to the directory: compilation, expansion, device check.\<close>

definition expand_pipeline ::
  "int option \<Rightarrow> pipeline_config \<Rightarrow> prep_error + logical_process_plan \<times> stage_config list \<times> replica_topology" where
  "expand_pipeline device_count c =
     rbind (lift_err PrepTopology (compile_logical_processes c)) (\<lambda>(lplan, ss0).
     rbind (lift_err PrepReplicas (expand_replica_stages ss0 lplan)) (\<lambda>(ss, topo).
     rbind (lift_err PrepReplicas (validate_device_assignment ss device_count)) (\<lambda>_. Inr (lplan, ss, topo))))"

text \<open>The body of the \<^verbatim>\<open>try\<close>.\<close>

definition plan_pipeline ::
  "nat \<Rightarrow> placement_policy \<Rightarrow> pipeline_config \<Rightarrow> stage_config list \<Rightarrow> replica_topology \<Rightarrow> string \<Rightarrow>
   prep_error + stage_placement_plan \<times> process_topology_plan \<times> (string, string) dict" where
  "plan_pipeline budget pol c ss topo dir =
     rbind (lift_err PrepPlacement (build_stage_placement_plan pol c ss (rt_replicas topo))) (\<lambda>placement.
     rbind (lift_err PrepPlacement (build_process_topology_plan c placement ss)) (\<lambda>procs.
     rbind (allocate_endpoints budget ss dir) (\<lambda>eps. Inr (placement, procs, eps))))"

definition runtime_dir_close :: "bool \<Rightarrow> string \<Rightarrow> string list \<Rightarrow> string list" where
  "runtime_dir_close rm_ok dir fs = (if rm_ok then removeAll dir fs else fs)"

definition prepare_pipeline_runtime ::
  "nat \<Rightarrow> placement_policy \<Rightarrow> (string \<Rightarrow> string \<Rightarrow> string) \<Rightarrow> bool \<Rightarrow> int option \<Rightarrow> string \<Rightarrow> string \<Rightarrow> pipeline_config \<Rightarrow> string option \<Rightarrow>
   string list \<Rightarrow> (prep_error + runtime_prep) \<times> string list" where
  "prepare_pipeline_runtime budget pol mkdtemp rm_ok device_count name base_root c given fs =
     (case expand_pipeline device_count c of
        Inl e \<Rightarrow> (Inl e, fs)
      | Inr (lplan, ss, topo) \<Rightarrow>
          (case (case given of Some d \<Rightarrow> Inr (d, False)
                 | None \<Rightarrow> rbind (create_ipc_runtime_dir budget mkdtemp name base_root ss) (\<lambda>d. Inr (d, True))) of
             Inl e \<Rightarrow> (Inl e, fs)
           | Inr (dir, created) \<Rightarrow>
               (let fs1 = (if created then dir # fs else fs) in
                case plan_pipeline budget pol c ss topo dir of
                  Inl e \<Rightarrow> (Inl e, if created then runtime_dir_close rm_ok dir fs1 else fs1)
                | Inr (placement, procs, eps) \<Rightarrow>
                    (Inr \<lparr>rp_stages = ss, rp_entry_stage = resolved_entry_stage c, rp_endpoints = eps, rp_placement = placement,
                          rp_process_plan = procs, rp_runtime_dir = dir, rp_created_here = created, rp_replicas = topo,
                          rp_logical = lplan\<rparr>, fs1))))"

section \<open>Endpoint names\<close>

lemma length_show_nat_mono: "k \<le> n \<Longrightarrow> length (show_nat k) \<le> length (show_nat n)"
proof (induction n arbitrary: k rule: show_nat.induct)
  case (1 n)
  show ?case
  proof (cases "n < 10 \<or> k < 10")
    case True
    with "1.prems" have "length (show_nat k) = 1" by (subst show_nat.simps) auto
    then show ?thesis by (simp add: Suc_le_eq)
  next
    case False
    then have "length (show_nat (k div 10)) \<le> length (show_nat (n div 10))" using "1.prems" by (intro "1.IH") (simp_all add: div_le_mono)
    then show ?thesis using False by (subst (1 2) show_nat.simps) simp
  qed
qed

lemma digit_suffix_unique:
  assumes "a @ ''_rank'' @ show_nat k = b @ ''_rank'' @ show_nat l"
  shows "a = b" and "k = l"
proof -
  have nd: "\<not> dec_digit CHR ''k''" by (simp add: dec_digit_def)
  have tw: "takeWhile dec_digit (rev (x @ ''_rank'' @ show_nat n)) = rev (show_nat n)" for x n
    using show_nat_digits [of n] nd by (subst rev_append, subst rev_append, subst append.assoc, subst takeWhile_append2) (auto simp: list_all_iff)
  have "rev (show_nat k) = rev (show_nat l)" by (metis tw assms)
  then show "k = l" by (simp add: show_nat_inj)
  with assms show "a = b" by simp
qed

lemma stage_files_distinct: "distinct (stage_files s)"
  by (auto simp: stage_files_def stage_file_def comm_file_def distinct_map inj_on_def show_nat_inj)

lemma stage_files_disjoint: "sc_name s \<noteq> sc_name t \<Longrightarrow> set (stage_files s) \<inter> set (stage_files t) = {}"
  by (auto simp: stage_files_def stage_file_def comm_file_def dest: digit_suffix_unique(1) [simplified])

lemma endpoint_files_distinct:
  "distinct (map sc_name ss) \<Longrightarrow> distinct (''completion'' # ''abort'' # concat (map stage_files ss))"
proof -
  assume d: "distinct (map sc_name ss)"
  then have "distinct (concat (map stage_files ss))"
  proof (induction ss)
    case (Cons s ss)
    have "set (stage_files s) \<inter> set (stage_files t) = {}" if "t \<in> set ss" for t
      using Cons.prems that by (intro stage_files_disjoint) (auto simp: image_iff)
    with Cons show ?case by (auto simp: stage_files_distinct)
  qed simp
  then show ?thesis by (auto simp: stage_files_def stage_file_def comm_file_def)
qed

lemma fold_endpoints:
  assumes "distinct (map fst d @ fs)"
  shows "fold (\<lambda>f d. dset d f (g f)) fs d = d @ map (\<lambda>f. (f, g f)) fs"
  using assms
proof (induction fs arbitrary: d)
  case (Cons f fs)
  then have "dset d f (g f) = d @ [(f, g f)]" by (intro dset_fresh) (auto simp: map_of_eq_None_iff)
  with Cons show ?case by simp
qed simp

lemma allocate_endpoints_eq:
  assumes "distinct (map sc_name ss)"
  shows "allocate_endpoints budget ss dir = rbind (validate_ipc_endpoint_budget budget ss dir)
    (\<lambda>_. Inr (map (\<lambda>f. (f, endpoint_address dir f)) (''completion'' # ''abort'' # concat (map stage_files ss))))"
  using fold_endpoints [of "[(''completion'', endpoint_address dir ''completion''), (''abort'', endpoint_address dir ''abort'')]"
      "concat (map stage_files ss)" "endpoint_address dir"] endpoint_files_distinct [OF assms]
  by (simp add: allocate_endpoints_def)

lemma longest_suffix_covers:
  assumes "f \<in> set (''completion'' # ''abort'' # concat (map stage_files ss))"
  shows "length (''/'' @ f @ ''.sock'') \<le> longest_endpoint_suffix_len ss"
proof -
  let ?L = "[length ''/completion.sock'', length ''/abort.sock''] @
       map (\<lambda>s. length (''/'' @ stage_file s @ ''.sock'')) ss @
       map (\<lambda>s. length (''/'' @ comm_file s (show_int (tp_size s - 1)) @ ''.sock'')) ss"
  have "\<exists>x\<in>set ?L. length (''/'' @ f @ ''.sock'') \<le> x"
  proof (cases "\<exists>s\<in>set ss. f \<in> set (stage_files s)")
    case True
    then obtain s where s: "s \<in> set ss" and f: "f = stage_file s \<or> (\<exists>k<nat (tp_size s). f = comm_file s (show_nat k))"
      by (fastforce simp: stage_files_def)
    have "length (show_nat k) \<le> length (show_int (tp_size s - 1))" if "k < nat (tp_size s)" for k
      using that length_show_nat_mono [of k "nat (tp_size s - 1)"] by (auto simp: show_int_def)
    with f have "length (''/'' @ f @ ''.sock'') \<le> length (''/'' @ stage_file s @ ''.sock'') \<or>
      length (''/'' @ f @ ''.sock'') \<le> length (''/'' @ comm_file s (show_int (tp_size s - 1)) @ ''.sock'')"
      by (auto simp: comm_file_def)
    with s show ?thesis unfolding set_append set_map by blast
  next
    case False
    with assms show ?thesis by auto
  qed
  then obtain x where "x \<in> set ?L" "length (''/'' @ f @ ''.sock'') \<le> x" by blast
  moreover have "x \<le> Max (set ?L)" by (rule Max_ge) (simp, fact)
  ultimately show ?thesis unfolding longest_endpoint_suffix_len_def by linarith
qed

section \<open>What preparation guarantees\<close>

lemma endpoint_address_inj: "endpoint_address dir f = endpoint_address dir g \<longleftrightarrow> f = g"
  by (simp add: endpoint_address_def)

lemma allocated_endpoints:
  assumes a: "allocate_endpoints budget ss dir = Inr eps" and d: "distinct (map sc_name ss)"
  shows "distinct (map snd eps)" and "f \<in> set (concat (map stage_files ss)) \<Longrightarrow> dget eps f = Some (endpoint_address dir f)"
    and "(f, addr) \<in> set eps \<Longrightarrow> \<exists>path. addr = ''ipc://'' @ path \<and> length path \<le> budget"
proof -
  let ?fs = "''completion'' # ''abort'' # concat (map stage_files ss)"
  have fit: "length dir + longest_endpoint_suffix_len ss \<le> budget" and eps: "eps = map (\<lambda>f. (f, endpoint_address dir f)) ?fs"
    using a by (auto simp: allocate_endpoints_eq [OF d] rbind_eq_Inr validate_ipc_endpoint_budget_def Let_def split: if_splits)
  have "distinct (map (endpoint_address dir) ?fs)"
    using endpoint_files_distinct [OF d] by (subst distinct_map) (auto simp: inj_on_def endpoint_address_inj)
  moreover have "map snd eps = map (endpoint_address dir) ?fs" by (simp add: eps)
  ultimately show "distinct (map snd eps)" by metis
  show "dget eps f = Some (endpoint_address dir f)" if "f \<in> set (concat (map stage_files ss))"
    using that unfolding eps map_of_map_restrict by simp
  show "\<exists>path. addr = ''ipc://'' @ path \<and> length path \<le> budget" if "(f, addr) \<in> set eps"
  proof (intro exI conjI)
    have f: "f \<in> set ?fs" "addr = endpoint_address dir f" using that by (auto simp: eps)
    show "addr = ''ipc://'' @ (dir @ ''/'' @ f @ ''.sock'')" by (simp add: f endpoint_address_def)
    show "length (dir @ ''/'' @ f @ ''.sock'') \<le> budget" using longest_suffix_covers [OF f(1)] fit by simp
  qed
qed

lemma expanded_names_distinct:
  assumes "pipeline_post_init c = Inr ()" "\<forall>s\<in>set (stages c). 1 \<le> tp_size s"
    "\<forall>(n, pc)\<in>set (processes c). process_config_post_init pc = Inr ()" "expand_pipeline dc c = Inr (lplan, ss, topo)"
  shows "distinct (map sc_name ss)"
proof -
  from assms(4) obtain ss0 where c: "compile_logical_processes c = Inr (lplan, ss0)" and e: "expand_replica_stages ss0 lplan = Inr (ss, topo)"
    by (auto simp: expand_pipeline_def rbind_eq_Inr)
  have "ss0 = stages c" using c by (rule compile_InrE)
  with expansion_names [OF compiled_expandable [OF assms(1) c assms(2,3)]] e show ?thesis by auto
qed

lemma preparedE:
  assumes "prepare_pipeline_runtime budget pol mk rm dc name base c given fs = (Inr prep, fs')"
  obtains "expand_pipeline dc c = Inr (rp_logical prep, rp_stages prep, rp_replicas prep)"
    and "plan_pipeline budget pol c (rp_stages prep) (rp_replicas prep) (rp_runtime_dir prep) =
      Inr (rp_placement prep, rp_process_plan prep, rp_endpoints prep)"
  using assms by (auto simp: prepare_pipeline_runtime_def Let_def split: sum.splits prod.splits if_splits)

text \<open>
  C34: a prepared pipeline can be connected. From a valid configuration, preparation gives every stage instance and every
  tensor-parallel rank of it an endpoint of its own: no two endpoints share an address, and every socket path is within the limit.
\<close>

theorem prepared_endpoints_usable:
  assumes v: "pipeline_post_init c = Inr ()" and tps: "\<forall>s\<in>set (stages c). 1 \<le> tp_size s"
    and pcs: "\<forall>(n, pc)\<in>set (processes c). process_config_post_init pc = Inr ()"
    and r: "prepare_pipeline_runtime budget pol mk rm dc name base c given fs = (Inr prep, fs')"
  shows "distinct (map sc_name (rp_stages prep)) \<and> distinct (map snd (rp_endpoints prep)) \<and>
    (\<forall>s\<in>set (rp_stages prep). \<forall>f\<in>set (stage_files s). dget (rp_endpoints prep) f = Some (endpoint_address (rp_runtime_dir prep) f)) \<and>
    (\<forall>(f, addr)\<in>set (rp_endpoints prep). \<exists>path. addr = ''ipc://'' @ path \<and> length path \<le> budget)"
proof -
  have x: "expand_pipeline dc c = Inr (rp_logical prep, rp_stages prep, rp_replicas prep)" using r by (rule preparedE)
  have p: "plan_pipeline budget pol c (rp_stages prep) (rp_replicas prep) (rp_runtime_dir prep) =
      Inr (rp_placement prep, rp_process_plan prep, rp_endpoints prep)" using r by (rule preparedE)
  have d: "distinct (map sc_name (rp_stages prep))" by (rule expanded_names_distinct [OF v tps pcs x])
  have a: "allocate_endpoints budget (rp_stages prep) (rp_runtime_dir prep) = Inr (rp_endpoints prep)"
    using p by (auto simp: plan_pipeline_def rbind_eq_Inr)
  from allocated_endpoints [OF a d] d show ?thesis by fastforce
qed

text \<open>
  The truncated directory name is short enough. Whatever the pipeline is called, when the runtime directory can be created at
  all, its sockets stay within the limit, so that allocating the endpoints in it does not fail.
\<close>

theorem created_dir_fits:
  assumes "create_ipc_runtime_dir budget mkdtemp name base ss = Inr dir"
    and "\<And>p. \<exists>rnd. length rnd = TEMPFILE_RANDOM_SUFFIX_LEN \<and> mkdtemp base p = base @ ''/'' @ p @ rnd"
  shows "\<exists>eps. allocate_endpoints budget ss dir = Inr eps"
proof -
  from assms(1) obtain prefix where t: "truncate_ipc_namespace_prefix budget (namespace_prefix name) base ss = Inr prefix"
    and dir: "dir = mkdtemp base (if prefix \<noteq> [] then prefix @ ''-'' else [])"
    by (auto simp: create_ipc_runtime_dir_def rbind_eq_Inr)
  obtain rnd where "length rnd = TEMPFILE_RANDOM_SUFFIX_LEN" "dir = base @ ''/'' @ (if prefix \<noteq> [] then prefix @ ''-'' else []) @ rnd"
    using assms(2) dir by metis
  then have "length dir + longest_endpoint_suffix_len ss \<le> budget"
    using t by (auto simp: truncate_ipc_namespace_prefix_def ipc_dir_len_def Let_def split: if_splits)
  then show ?thesis by (simp add: allocate_endpoints_def validate_ipc_endpoint_budget_def Let_def)
qed

text \<open>
  A failed preparation leaves no directory behind. When preparation raises, the runtime directory it made is gone, and a
  directory the caller passed in is kept.
\<close>

theorem failed_preparation_cleans_up:
  assumes "prepare_pipeline_runtime budget pol mkdtemp True dc name base c given fs = (Inl e, fs')"
    and "\<And>p. mkdtemp base p \<notin> set fs"
  shows "fs' = fs"
  using assms
  by (auto simp: prepare_pipeline_runtime_def create_ipc_runtime_dir_def runtime_dir_close_def Let_def rbind_eq_Inr
      split: sum.splits prod.splits if_splits option.splits)

section \<open>A concrete preparation\<close>

definition demo_mkdtemp :: "string \<Rightarrow> string \<Rightarrow> string" where
  "demo_mkdtemp base p = base @ ''/'' @ p @ ''abcdefgh''"

definition shared_logical :: logical_process_plan where
  "shared_logical =
     \<lparr>plan_processes =
        [\<lparr>lp_name = ''p'', lp_stage_names = [''a''], lp_tp_size = 1, lp_num_replicas = 1, lp_replica_devices = None\<rparr>,
         \<lparr>lp_name = ''q'', lp_stage_names = [''b''], lp_tp_size = 1, lp_num_replicas = 1, lp_replica_devices = None\<rparr>],
      plan_stage_to_process = [(''a'', ''p''), (''b'', ''q'')]\<rparr>"

lemma shared_valid: "pipeline_post_init shared_config = Inr ()"
  by (simp add: shared_config_def shared_stages_def shared_stage_def demo_pipeline_def demo_stage_def schema_eval)

lemma shared_sizes: "\<forall>s\<in>set (stages shared_config). 1 \<le> tp_size s" "\<forall>(n, pc)\<in>set (processes shared_config). process_config_post_init pc = Inr ()"
  by (simp_all add: shared_config_def shared_stages_def shared_stage_def demo_stage_def)

lemma shared_expands: "expand_pipeline None shared_config = Inr (shared_logical, shared_stages, empty_topology)"
proof -
  have "compile_logical_processes shared_config = Inr (shared_logical, shared_stages)"
    by (simp add: shared_config_def shared_stages_def shared_stage_def demo_pipeline_def demo_stage_def shared_logical_def schema_eval plan_eval)
  moreover have "expand_replica_stages shared_stages shared_logical = Inr (shared_stages, empty_topology)"
    by (simp add: expand_replica_stages_def shared_logical_def expand_process_def lp_is_replicated_def build_replicas_def empty_topology_def
        shared_stages_def shared_stage_def demo_stage_def)
  ultimately show ?thesis by (simp add: expand_pipeline_def validate_device_assignment_def)
qed

definition shared_dir :: string where "shared_dir = ''/tmp/omni/my-model-abcdefgh''"

definition shared_endpoints :: "(string, string) dict" where
  "shared_endpoints = map (\<lambda>f. (f, endpoint_address shared_dir f)) [''completion'', ''abort'', ''stage_a'', ''comm_a_rank0'', ''stage_b'', ''comm_b_rank0'']"

lemma char_eval: "char_of (48 :: nat) = CHR ''0''" "char_of (109 :: nat) = CHR ''m''"
  by (simp_all add: char_of_def bit_0)

lemma shared_created: "create_ipc_runtime_dir 107 demo_mkdtemp ''My_Model'' ''/tmp/omni'' shared_stages = Inr shared_dir"
  by (simp add: create_ipc_runtime_dir_def truncate_ipc_namespace_prefix_def longest_endpoint_suffix_len_def ipc_dir_len_def demo_mkdtemp_def
      namespace_prefix_def strip_dashes_def slug_char_def dec_digit_def py_lower_def lower_char_def TEMPFILE_RANDOM_SUFFIX_LEN_def
      stage_file_def comm_file_def shared_stages_def shared_stage_def demo_stage_def shared_dir_def Let_def show_int_def show_nat.simps digit_char_def char_eval)

lemma shared_planned: "plan_pipeline 107 NoPolicy shared_config shared_stages empty_topology shared_dir = Inr (shared_plan, shared_topology, shared_endpoints)"
proof -
  have "allocate_endpoints 107 shared_stages shared_dir = Inr shared_endpoints"
    by (simp add: allocate_endpoints_def validate_ipc_endpoint_budget_def longest_endpoint_suffix_len_def stage_files_def stage_file_def comm_file_def
        shared_stages_def shared_stage_def demo_stage_def shared_dir_def shared_endpoints_def Let_def show_int_def show_nat.simps digit_char_def char_eval)
  then show ?thesis by (simp add: plan_pipeline_def empty_topology_def shared_plan_built shared_topology_built)
qed

definition shared_prep :: runtime_prep where
  "shared_prep = \<lparr>rp_stages = shared_stages, rp_entry_stage = ''a'', rp_endpoints = shared_endpoints, rp_placement = shared_plan,
     rp_process_plan = shared_topology, rp_runtime_dir = shared_dir, rp_created_here = True, rp_replicas = empty_topology, rp_logical = shared_logical\<rparr>"

lemma shared_prepared:
  "prepare_pipeline_runtime 107 NoPolicy demo_mkdtemp True None ''My_Model'' ''/tmp/omni'' shared_config None [] = (Inr shared_prep, [shared_dir])"
proof -
  have "resolved_entry_stage shared_config = ''a''"
    by (simp add: resolved_entry_stage_def shared_config_def demo_pipeline_def shared_stages_def shared_stage_def demo_stage_def)
  then show ?thesis by (simp add: prepare_pipeline_runtime_def shared_expands shared_created shared_planned shared_prep_def)
qed

theorem prepared_endpoints_usable_witness:
  "distinct (map sc_name (rp_stages shared_prep)) \<and> distinct (map snd (rp_endpoints shared_prep)) \<and>
    dget (rp_endpoints shared_prep) ''stage_a'' = Some (endpoint_address (rp_runtime_dir shared_prep) ''stage_a'') \<and>
    (\<exists>path. endpoint_address (rp_runtime_dir shared_prep) ''stage_a'' = ''ipc://'' @ path \<and> length path \<le> 107)"
proof -
  note p = prepared_endpoints_usable [OF shared_valid shared_sizes shared_prepared]
  have s: "shared_stage ''a'' ''p'' 1 \<in> set (rp_stages shared_prep)" "''stage_a'' \<in> set (stage_files (shared_stage ''a'' ''p'' 1))"
    by (simp_all add: shared_prep_def shared_stages_def stage_files_def stage_file_def shared_stage_def demo_stage_def)
  with p have "dget (rp_endpoints shared_prep) ''stage_a'' = Some (endpoint_address (rp_runtime_dir shared_prep) ''stage_a'')" by blast
  moreover from map_of_SomeD [OF this] p have "\<exists>path. endpoint_address (rp_runtime_dir shared_prep) ''stage_a'' = ''ipc://'' @ path \<and> length path \<le> 107" by blast
  ultimately show ?thesis using p by blast
qed

theorem created_dir_fits_witness: "\<exists>eps. allocate_endpoints 107 shared_stages shared_dir = Inr eps"
  by (rule created_dir_fits [OF shared_created]) (simp add: demo_mkdtemp_def TEMPFILE_RANDOM_SUFFIX_LEN_def)

theorem failed_preparation_cleans_up_witness:
  "snd (prepare_pipeline_runtime 107 PolicyOther demo_mkdtemp True None ''My_Model'' ''/tmp/omni'' shared_config None []) = []"
proof -
  have "prepare_pipeline_runtime 107 PolicyOther demo_mkdtemp True None ''My_Model'' ''/tmp/omni'' shared_config None [] =
      (Inl (PrepPlacement PolicyNotCallable), [])"
    using shared_plan_built
    by (auto simp: prepare_pipeline_runtime_def shared_expands shared_created plan_pipeline_def build_stage_placement_plan_def rbind_eq_Inr
        apply_placement_policy_def runtime_dir_close_def empty_topology_def lift_err_def Let_def)
  then have "snd (prepare_pipeline_runtime 107 PolicyOther demo_mkdtemp True None ''My_Model'' ''/tmp/omni'' shared_config None []) = [] \<and> [] = ([] :: string list)"
    using failed_preparation_cleans_up [of 107 PolicyOther demo_mkdtemp None "''My_Model''" "''/tmp/omni''" shared_config None "[]"] by simp
  then show ?thesis ..
qed

end
