(* ===== verification/Stream_Queue.thy ===== *)
theory Stream_Queue
  imports Prelude
begin

text \<open>
  The per-request stream queues of \<^verbatim>\<open>sglang_omni/pipeline/stage/stream_queue.py\<close>.
  A queue object is shared: the registry refers to it by request id while a consumer
  blocked in \<^verbatim>\<open>get\<close> keeps the object itself, so the model stores queue objects in a heap
  and the registry holds addresses. \<^verbatim>\<open>get\<close> has two atomic sections: \<open>get_start\<close> looks the
  queue up, \<open>get_resume\<close> takes an element of the object found, or stays blocked.
  The data of an item stands for its data and metadata together.
  Iteration order of the Python set \<^verbatim>\<open>_closed\<close> is a parameter \<open>iter\<close> of \<open>close\<close>.
\<close>

section \<open>Data\<close>

datatype ('d, 'e) stream_entry =
    StreamItem (chunk_id: int) (item_data: 'd) (item_from: string)
  | StreamSignal (signal_from: "string option") (is_done: bool) (signal_error: "'e option")

record ('d, 'e) stream_queue =
  queues :: "(string, nat) dict"
  heap :: "(nat, ('d, 'e) stream_entry list) dict"
  next_addr :: nat
  closed :: "string list"

datatype sq_error = NoQueue string

definition sq_init :: "('d, 'e) stream_queue" where
  "sq_init = \<lparr>queues = [], heap = [], next_addr = 0, closed = []\<rparr>"

definition cell :: "('d, 'e) stream_queue \<Rightarrow> nat \<Rightarrow> ('d, 'e) stream_entry list" where
  "cell q a = (case dget (heap q) a of None \<Rightarrow> [] | Some xs \<Rightarrow> xs)"

section \<open>Operations\<close>

definition sq_open :: "('d, 'e) stream_queue \<Rightarrow> string \<Rightarrow> ('d, 'e) stream_queue" where
  "sq_open q r =
     (let q' = q\<lparr>closed := removeAll r (closed q)\<rparr> in
      if dhas (queues q) r then q'
      else q'\<lparr>queues := dset (queues q) r (next_addr q), heap := dset (heap q) (next_addr q) [],
              next_addr := Suc (next_addr q)\<rparr>)"

definition sq_has :: "('d, 'e) stream_queue \<Rightarrow> string \<Rightarrow> bool" where
  "sq_has q r = dhas (queues q) r"

text \<open>\<^verbatim>\<open>queue.put_nowait\<close> on the object at an address.\<close>

definition put_nowait :: "('d, 'e) stream_queue \<Rightarrow> nat \<Rightarrow> ('d, 'e) stream_entry \<Rightarrow> ('d, 'e) stream_queue" where
  "put_nowait q a x = q\<lparr>heap := dset (heap q) a (cell q a @ [x])\<rparr>"

definition sq_put :: "('d, 'e) stream_queue \<Rightarrow> string \<Rightarrow> ('d, 'e) stream_entry \<Rightarrow> ('d, 'e) stream_queue" where
  "sq_put q r item = (case dget (queues q) r of None \<Rightarrow> q | Some a \<Rightarrow> put_nowait q a item)"

definition sq_put_done :: "('d, 'e) stream_queue \<Rightarrow> string \<Rightarrow> string option \<Rightarrow> ('d, 'e) stream_queue" where
  "sq_put_done q r from_stage =
     (case dget (queues q) r of None \<Rightarrow> q | Some a \<Rightarrow> put_nowait q a (StreamSignal from_stage True None))"

definition sq_put_error :: "('d, 'e) stream_queue \<Rightarrow> string \<Rightarrow> 'e \<Rightarrow> string option \<Rightarrow> ('d, 'e) stream_queue" where
  "sq_put_error q r error from_stage =
     (case dget (queues q) r of None \<Rightarrow> q | Some a \<Rightarrow> put_nowait q a (StreamSignal from_stage False (Some error)))"

text \<open>
  First section of \<^verbatim>\<open>get\<close> and \<^verbatim>\<open>get_with_source\<close>: \<open>Inr None\<close> is the early return for a
  closed request, \<open>Inr (Some a)\<close> the queue object the call goes on with.
\<close>

definition get_start :: "('d, 'e) stream_queue \<Rightarrow> string \<Rightarrow> sq_error + nat option" where
  "get_start q r =
     (case dget (queues q) r of
        None \<Rightarrow> if r \<in> set (closed q) then Inr None else Inl (NoQueue r)
      | Some a \<Rightarrow> Inr (Some a))"

text \<open>Second section: take the head of the object, or stay blocked (\<open>None\<close>).\<close>

definition get_resume ::
  "('d, 'e) stream_queue \<Rightarrow> nat \<Rightarrow> (('d, 'e) stream_entry \<times> ('d, 'e) stream_queue) option" where
  "get_resume q a =
     (case cell q a of
        [] \<Rightarrow> None
      | x # xs \<Rightarrow> Some (x, q\<lparr>heap := dset (heap q) a xs\<rparr>))"

text \<open>How \<^verbatim>\<open>get\<close> reports what it took: an error signal is raised, any other signal is end of stream.\<close>

definition get_value :: "('d, 'e) stream_entry \<Rightarrow> 'e + ('d, 'e) stream_entry option" where
  "get_value x =
     (case x of
        StreamSignal _ _ (Some e) \<Rightarrow> Inl e
      | StreamSignal _ _ None \<Rightarrow> Inr None
      | StreamItem _ _ _ \<Rightarrow> Inr (Some x))"

definition CLOSED_LIMIT :: nat where "CLOSED_LIMIT = 10000"
definition CLOSED_KEEP :: nat where "CLOSED_KEEP = 5000"

definition trim_closed :: "(string list \<Rightarrow> string list) \<Rightarrow> string list \<Rightarrow> string list" where
  "trim_closed iter cs =
     (if CLOSED_LIMIT < length cs
      then (let to_remove = take (length cs - CLOSED_KEEP) (iter cs) in filter (\<lambda>c. c \<notin> set to_remove) cs)
      else cs)"

definition sq_close ::
  "(string list \<Rightarrow> string list) \<Rightarrow> ('d, 'e) stream_queue \<Rightarrow> string \<Rightarrow> ('d, 'e) stream_queue" where
  "sq_close iter q r =
     (let closed' = trim_closed iter (if r \<in> set (closed q) then closed q else closed q @ [r]);
          q' = q\<lparr>queues := ddel (queues q) r, closed := closed'\<rparr> in
      case dget (queues q) r of
        None \<Rightarrow> q'
      | Some a \<Rightarrow> put_nowait q' a (StreamSignal None True None))"

section \<open>Invariant\<close>

text \<open>
  Every registered queue is an allocated object, no two requests share one, every address
  in use is below the allocation counter, and the record of closed ids has no repetition.
\<close>

definition sq_inv :: "('d, 'e) stream_queue \<Rightarrow> bool" where
  "sq_inv q \<longleftrightarrow>
     dict_ok (queues q) \<and> dict_ok (heap q) \<and>
     (\<forall>r a. dget (queues q) r = Some a \<longrightarrow> dhas (heap q) a \<and> a < next_addr q) \<and>
     (\<forall>a. dhas (heap q) a \<longrightarrow> a < next_addr q) \<and>
     (\<forall>r r' a. dget (queues q) r = Some a \<longrightarrow> dget (queues q) r' = Some a \<longrightarrow> r = r') \<and>
     distinct (closed q)"

lemma sq_inv_init: "sq_inv sq_init"
  by (simp add: sq_inv_def sq_init_def)

lemma cell_put_nowait: "cell (put_nowait q a x) b = (if b = a then cell q a @ [x] else cell q b)"
  by (simp add: cell_def put_nowait_def)

lemma sq_inv_put_nowait [inv_rules]: "sq_inv q \<Longrightarrow> dhas (heap q) a \<Longrightarrow> sq_inv (put_nowait q a x)"
  by (auto simp: sq_inv_def put_nowait_def)

lemma sq_inv_registered: "sq_inv q \<Longrightarrow> dget (queues q) r = Some a \<Longrightarrow> dhas (heap q) a"
  by (simp add: sq_inv_def)

lemma sq_inv_open [inv_rules]:
  assumes "sq_inv q" shows "sq_inv (sq_open q r)"
proof (cases "dhas (queues q) r")
  case True
  with assms show ?thesis by (simp add: sq_inv_def sq_open_def Let_def distinct_removeAll)
next
  case False
  with assms show ?thesis
    by (simp add: sq_inv_def sq_open_def Let_def distinct_removeAll) (metis less_irrefl less_SucI)
qed

lemma sq_inv_puts [inv_rules]:
  assumes "sq_inv q"
  shows "sq_inv (sq_put q r x)" "sq_inv (sq_put_done q r f)" "sq_inv (sq_put_error q r e f)"
  using assms sq_inv_registered [OF assms]
  by (auto simp: sq_put_def sq_put_done_def sq_put_error_def split: option.splits intro!: sq_inv_put_nowait)

lemma sq_inv_resume [inv_rules]:
  assumes "sq_inv q" "get_resume q a = Some (x, q')" shows "sq_inv q'"
proof -
  from assms(2) have "cell q a \<noteq> []" and q': "q' = q\<lparr>heap := dset (heap q) a (tl (cell q a))\<rparr>"
    by (auto simp: get_resume_def split: list.splits)
  then have "dhas (heap q) a" by (auto simp: cell_def dhas_def split: option.splits)
  with assms(1) show ?thesis by (auto simp: q' sq_inv_def)
qed

lemma trim_closed_subset: "set (trim_closed iter cs) \<subseteq> set cs"
  by (auto simp: trim_closed_def Let_def)

lemma distinct_trim_closed: "distinct cs \<Longrightarrow> distinct (trim_closed iter cs)"
  by (simp add: trim_closed_def Let_def)

lemma sq_inv_close [inv_rules]:
  assumes "sq_inv q" shows "sq_inv (sq_close iter q r)"
proof -
  let ?c = "trim_closed iter (if r \<in> set (closed q) then closed q else closed q @ [r])"
  have "distinct ?c" using assms by (intro distinct_trim_closed) (simp add: sq_inv_def)
  with assms have base: "sq_inv (q\<lparr>queues := ddel (queues q) r, closed := ?c\<rparr>)"
    by (auto simp: sq_inv_def split: if_splits)
  show ?thesis
  proof (cases "dget (queues q) r")
    case None
    then show ?thesis using base by (simp add: sq_close_def Let_def)
  next
    case (Some a)
    then have "dhas (heap q) a" by (rule sq_inv_registered [OF assms])
    then show ?thesis using base Some by (simp add: sq_close_def Let_def sq_inv_put_nowait)
  qed
qed

section \<open>As a state machine\<close>

datatype ('d, 'e) sq_op =
    Open string
  | Put string "('d, 'e) stream_entry"
  | PutDone string "string option"
  | PutError string 'e "string option"
  | Resume nat
  | Close string

fun sq_step :: "(string list \<Rightarrow> string list) \<Rightarrow> ('d, 'e) stream_queue \<Rightarrow> ('d, 'e) sq_op \<Rightarrow> ('d, 'e) stream_queue" where
  "sq_step iter q (Open r) = sq_open q r"
| "sq_step iter q (Put r x) = sq_put q r x"
| "sq_step iter q (PutDone r f) = sq_put_done q r f"
| "sq_step iter q (PutError r e f) = sq_put_error q r e f"
| "sq_step iter q (Resume a) = (case get_resume q a of None \<Rightarrow> q | Some (_, q') \<Rightarrow> q')"
| "sq_step iter q (Close r) = sq_close iter q r"

lemma sq_inv_step: "sq_inv q \<Longrightarrow> sq_inv (sq_step iter q op)"
  by (cases op) (auto simp: inv_rules split: option.splits)

interpretation sqm: machine "sq_step iter" sq_inv
  by unfold_locales (rule sq_inv_step)

section \<open>The channel contract\<close>

text \<open>
  What a consumer relies on: a producer appends, a consumer takes from the front, and
  neither touches the queue of another request.
\<close>

text \<open>A producer putting a list of entries and a consumer taking a number of them.\<close>

fun put_all :: "('q \<Rightarrow> 'k \<Rightarrow> 'x \<Rightarrow> 'q) \<Rightarrow> 'q \<Rightarrow> 'k \<Rightarrow> 'x list \<Rightarrow> 'q" where
  "put_all put q k [] = q"
| "put_all put q k (x # xs) = put_all put (put q k x) k xs"

fun take_n :: "('q \<Rightarrow> 'k \<Rightarrow> ('x \<times> 'q) option) \<Rightarrow> nat \<Rightarrow> 'q \<Rightarrow> 'k \<Rightarrow> ('x list \<times> 'q) option" where
  "take_n take_one 0 q k = Some ([], q)"
| "take_n take_one (Suc n) q k =
     (case take_one q k of None \<Rightarrow> None
      | Some (x, q') \<Rightarrow> map_option (\<lambda>(xs, q''). (x # xs, q'')) (take_n take_one n q' k))"

locale fifo_channel =
  fixes put :: "'q \<Rightarrow> 'k \<Rightarrow> 'x \<Rightarrow> 'q"
    and take_one :: "'q \<Rightarrow> 'k \<Rightarrow> ('x \<times> 'q) option"
    and contents :: "'q \<Rightarrow> 'k \<Rightarrow> 'x list option"
    and inv :: "'q \<Rightarrow> bool"
  assumes put_contents: "inv q \<Longrightarrow> contents (put q k x) j = (if j = k then map_option (\<lambda>xs. xs @ [x]) (contents q k) else contents q j)"
    and take_Some: "inv q \<Longrightarrow> contents q k = Some (x # xs) \<Longrightarrow>
      \<exists>q'. take_one q k = Some (x, q') \<and> (\<forall>j. contents q' j = (if j = k then Some xs else contents q j))"
    and put_inv: "inv q \<Longrightarrow> inv (put q k x)"
    and take_inv: "inv q \<Longrightarrow> take_one q k = Some (x, q') \<Longrightarrow> inv q'"
begin

lemma put_all_contents:
  "inv q \<Longrightarrow> contents q k = Some ys \<Longrightarrow> inv (put_all put q k xs) \<and> contents (put_all put q k xs) k = Some (ys @ xs) \<and>
     (\<forall>j. j \<noteq> k \<longrightarrow> contents (put_all put q k xs) j = contents q j)"
  by (induction xs arbitrary: q ys) (simp_all add: put_contents put_inv)

lemma take_n_contents:
  "inv q \<Longrightarrow> contents q k = Some (xs @ ys) \<Longrightarrow>
   \<exists>q'. take_n take_one (length xs) q k = Some (xs, q') \<and> inv q' \<and> contents q' k = Some ys \<and>
     (\<forall>j. j \<noteq> k \<longrightarrow> contents q' j = contents q j)"
proof (induction xs arbitrary: q)
  case (Cons x xs)
  then obtain q1 where t: "take_one q k = Some (x, q1)"
    and c: "\<forall>j. contents q1 j = (if j = k then Some (xs @ ys) else contents q j)"
    using take_Some [of q k x "xs @ ys"] by auto
  from Cons.IH [of q1] take_inv [OF Cons.prems(1) t] c t show ?case by auto
qed simp

lemma fifo:
  assumes "inv q" "contents q k = Some []"
  shows "\<exists>q'. take_n take_one (length xs) (put_all put q k xs) k = Some (xs, q') \<and> contents q' k = Some [] \<and>
    (\<forall>j. j \<noteq> k \<longrightarrow> contents q' j = contents q j)"
  using put_all_contents [OF assms, of xs] take_n_contents [of "put_all put q k xs" k xs "[]"] by auto

end

text \<open>The registry's view of a request's queue and one full \<^verbatim>\<open>get_with_source\<close> call on it.\<close>

definition sq_contents :: "('d, 'e) stream_queue \<Rightarrow> string \<Rightarrow> ('d, 'e) stream_entry list option" where
  "sq_contents q r = map_option (cell q) (dget (queues q) r)"

definition get_with_source ::
  "('d, 'e) stream_queue \<Rightarrow> string \<Rightarrow> (('d, 'e) stream_entry \<times> ('d, 'e) stream_queue) option" where
  "get_with_source q r =
     (case get_start q r of
        Inl _ \<Rightarrow> None
      | Inr None \<Rightarrow> Some (StreamSignal None True None, q)
      | Inr (Some a) \<Rightarrow> get_resume q a)"

lemma sq_contents_put:
  assumes "sq_inv q"
  shows "sq_contents (sq_put q k x) j = (if j = k then map_option (\<lambda>xs. xs @ [x]) (sq_contents q k) else sq_contents q j)"
proof (cases "dget (queues q) k")
  case None
  then show ?thesis by (simp add: sq_put_def sq_contents_def)
next
  case (Some a)
  have qs: "queues (put_nowait q a x) = queues q" by (simp add: put_nowait_def)
  have other: "b \<noteq> a" if "j \<noteq> k" "dget (queues q) j = Some b" for b
    using assms Some that unfolding sq_inv_def by metis
  show ?thesis
    using Some other by (auto simp: sq_put_def sq_contents_def qs cell_put_nowait map_option_case split: option.splits)
qed

lemma sq_contents_take:
  assumes "sq_inv q" and c: "sq_contents q k = Some (x # xs)"
  shows "\<exists>q'. get_with_source q k = Some (x, q') \<and> (\<forall>j. sq_contents q' j = (if j = k then Some xs else sq_contents q j))"
proof -
  from c obtain a where a: "dget (queues q) k = Some a" "cell q a = x # xs" by (auto simp: sq_contents_def)
  let ?q = "q\<lparr>heap := dset (heap q) a xs\<rparr>"
  have cell: "cell ?q b = (if b = a then xs else cell q b)" for b by (simp add: cell_def)
  have other: "b \<noteq> a" if "j \<noteq> k" "dget (queues q) j = Some b" for j b
    using assms(1) a(1) that unfolding sq_inv_def by metis
  have "get_with_source q k = Some (x, ?q)" using a by (simp add: get_with_source_def get_start_def get_resume_def)
  moreover have "sq_contents ?q j = (if j = k then Some xs else sq_contents q j)" for j
    using a(1) other by (auto simp: sq_contents_def cell map_option_case split: option.splits)
  ultimately show ?thesis by blast
qed

interpretation sqc: fifo_channel sq_put get_with_source sq_contents sq_inv
proof
  fix q :: "('a, 'b) stream_queue" and k x q'
  assume "sq_inv q" "get_with_source q k = Some (x, q')"
  then show "sq_inv q'"
    by (auto simp: get_with_source_def split: sum.splits option.splits intro: sq_inv_resume)
qed (auto simp: sq_contents_put sq_contents_take inv_rules)

section \<open>The record of closed ids\<close>

lemma length_trim_closed:
  assumes iter: "mset (iter cs) = mset cs" and "distinct cs"
  shows "length (trim_closed iter cs) \<le> CLOSED_LIMIT"
proof (cases "CLOSED_LIMIT < length cs")
  case True
  let ?n = "length cs - CLOSED_KEEP" and ?rm = "take (length cs - CLOSED_KEEP) (iter cs)"
  have dis: "distinct (iter cs)" using assms by (metis mset_eq_imp_distinct_iff)
  have len: "length (iter cs) = length cs" using iter by (metis size_mset)
  have "set ?rm \<subseteq> set cs" using iter by (metis set_mset_mset set_take_subset)
  then have "card (set cs - set ?rm) = length cs - ?n"
    using dis assms(2) len by (simp add: card_Diff_subset distinct_card)
  moreover have "length (filter (\<lambda>c. c \<notin> set ?rm) cs) = card (set cs - set ?rm)"
    using assms(2) by (metis distinct_card distinct_filter set_diff_eq set_filter)
  ultimately show ?thesis using True by (simp add: trim_closed_def Let_def CLOSED_LIMIT_def CLOSED_KEEP_def)
qed (simp add: trim_closed_def)

lemma closed_step_bound:
  assumes iter: "\<And>cs. mset (iter cs) = mset cs" and inv: "sq_inv q" and len: "length (closed q) \<le> CLOSED_LIMIT"
  shows "length (closed (sq_step iter q op)) \<le> CLOSED_LIMIT"
proof (cases op)
  case (Open r)
  then show ?thesis using len
    by (auto simp: sq_open_def Let_def intro: order_trans [OF length_removeAll_less_eq])
next
  case (Close r)
  have d: "distinct (if r \<in> set (closed q) then closed q else closed q @ [r])" using inv by (simp add: sq_inv_def)
  have "length (trim_closed iter (if r \<in> set (closed q) then closed q else closed q @ [r])) \<le> CLOSED_LIMIT"
    by (rule length_trim_closed) (use iter d in auto)
  with Close show ?thesis
    by (simp add: sq_close_def Let_def put_nowait_def split: option.splits if_splits)
qed (use len in \<open>auto simp: sq_put_def sq_put_done_def sq_put_error_def put_nowait_def get_resume_def
      split: option.splits list.splits\<close>)

section \<open>Properties\<close>

text \<open>
  Stream chunks are delivered in order and exactly once: after \<open>open\<close> of a fresh
  request, any sequence of entries put for it is taken by \<open>get_with_source\<close> in the same
  order, the queue is then empty, and no other request's queue is touched.
\<close>

theorem stream_fifo:
  assumes inv: "sq_inv q" and fresh: "\<not> sq_has q r"
  shows "\<exists>q'. take_n get_with_source (length xs) (put_all sq_put (sq_open q r) r xs) r = Some (xs, q') \<and>
    sq_contents q' r = Some [] \<and> (\<forall>j. j \<noteq> r \<longrightarrow> sq_contents q' j = sq_contents q j)"
proof -
  have c: "sq_contents (sq_open q r) r = Some []"
    using fresh by (simp add: sq_open_def sq_has_def Let_def sq_contents_def cell_def)
  have "b \<noteq> next_addr q" if "dget (queues q) j = Some b" for j b
    using inv that unfolding sq_inv_def by blast
  then have o: "sq_contents (sq_open q r) j = sq_contents q j" if "j \<noteq> r" for j
    using that fresh by (auto simp: sq_open_def sq_has_def Let_def sq_contents_def cell_def map_option_case split: option.splits)
  from sqc.fifo [OF sq_inv_open [OF inv] c, of xs] o show ?thesis by auto
qed

theorem stream_fifo_witness:
  "\<exists>q'. take_n get_with_source 2 (put_all sq_put (sq_open (sq_init :: (nat, nat) stream_queue) ''r'') ''r''
     [StreamItem 0 7 ''a'', StreamSignal None True None]) ''r'' = Some ([StreamItem 0 7 ''a'', StreamSignal None True None], q')"
  using stream_fifo [OF sq_inv_init, of "''r''" "[StreamItem 0 7 ''a'', StreamSignal None True None]"]
  by (auto simp: sq_has_def sq_init_def numeral_2_eq_2)

text \<open>
  Closing a request wakes a consumer blocked on its queue object and loses nothing:
  the entries still queued come first, then the end-of-stream sentinel. A later \<open>get\<close> by
  request id returns end of stream instead of failing, as long as the id has not been
  trimmed from the record of closed ids, and a late \<open>put\<close> is ignored.
\<close>

theorem close_wakes_blocked_consumer:
  assumes inv: "sq_inv q" and a: "get_start q r = Inr (Some a)" and small: "length (closed q) < CLOSED_LIMIT"
  shows "cell (sq_close iter q r) a = cell q a @ [StreamSignal None True None] \<and>
    get_resume (sq_close iter q r) a \<noteq> None \<and>
    get_start (sq_close iter q r) r = Inr None \<and>
    sq_put (sq_close iter q r) r x = sq_close iter q r"
proof -
  have g: "dget (queues q) r = Some a"
    using a by (auto simp: get_start_def split: option.splits if_splits)
  let ?cl = "if r \<in> set (closed q) then closed q else closed q @ [r]"
  have "length ?cl \<le> CLOSED_LIMIT" using small by simp
  then have tr: "trim_closed iter ?cl = ?cl" by (simp add: trim_closed_def)
  have cl: "sq_close iter q r = put_nowait (q\<lparr>queues := ddel (queues q) r, closed := ?cl\<rparr>) a (StreamSignal None True None)"
    using g by (simp add: sq_close_def Let_def tr)
  have cell: "cell (sq_close iter q r) a = cell q a @ [StreamSignal None True None]"
    by (simp add: cl cell_put_nowait) (simp add: cell_def)
  then have "get_resume (sq_close iter q r) a \<noteq> None"
    by (simp add: get_resume_def split: list.splits)
  moreover have "get_start (sq_close iter q r) r = Inr None"
    by (simp add: cl get_start_def put_nowait_def)
  moreover have "sq_put (sq_close iter q r) r x = sq_close iter q r"
    by (simp add: cl sq_put_def put_nowait_def)
  ultimately show ?thesis using cell by blast
qed

theorem close_wakes_blocked_consumer_witness:
  "get_resume (sq_close (\<lambda>xs. xs) (sq_open (sq_init :: (nat, nat) stream_queue) ''r'') ''r'') 0 \<noteq> None"
proof -
  let ?q = "sq_open (sq_init :: (nat, nat) stream_queue) ''r''"
  have "sq_inv ?q" by (rule sq_inv_open [OF sq_inv_init])
  moreover have "get_start ?q ''r'' = Inr (Some 0)" "length (closed ?q) < CLOSED_LIMIT"
    by (simp_all add: sq_open_def sq_init_def get_start_def CLOSED_LIMIT_def)
  ultimately show ?thesis using close_wakes_blocked_consumer [of ?q "''r''" 0 "\<lambda>xs. xs"] by blast
qed

text \<open>
  The record of closed requests stays bounded: whatever order Python iterates the set
  in, it never holds more than 10000 ids after a close, however many requests are closed.
\<close>

theorem closed_record_bounded:
  assumes iter: "\<And>cs. mset (iter cs) = mset cs"
  shows "length (closed (run (sq_step iter) sq_init ops)) \<le> CLOSED_LIMIT"
proof -
  have "sq_inv (run (sq_step iter) sq_init ops) \<and> length (closed (run (sq_step iter) sq_init ops)) \<le> CLOSED_LIMIT"
  proof (induction ops rule: rev_induct)
    case Nil
    show ?case by (simp add: sq_inv_init) (simp add: sq_init_def)
  next
    case (snoc op ops)
    then show ?case by (simp add: run_append sq_inv_step closed_step_bound [OF iter])
  qed
  then show ?thesis by blast
qed

theorem closed_record_bounded_witness:
  "length (closed (run (sq_step rev) (sq_init :: (nat, nat) stream_queue) [Open ''a'', Close ''a''])) \<le> CLOSED_LIMIT"
  by (rule closed_record_bounded) simp

end
