(* ===== verification/Stage_Input.thy ===== *)
theory Stage_Input
  imports Prelude
begin

text \<open>
  The input handlers of a stage, \<^verbatim>\<open>sglang_omni/pipeline/stage/input.py\<close>: the direct
  pass-through and the fan-in that waits for one payload of every expected source and
  merges them. The \<^verbatim>\<open>merge\<close> callable and the optional resolver \<^verbatim>\<open>expected_sources_fn\<close> are
  supplied by model code and may raise, so they are parameters returning a sum.
  A call that raises still leaves the state it had reached, so \<open>receive\<close> returns the
  outcome paired with the new state in every case.
\<close>

section \<open>Data\<close>

text \<open>
  What a resolver may return: one name, an iterable of hashable values (not all of them
  strings), or a value \<^verbatim>\<open>set()\<close> rejects with a \<^verbatim>\<open>TypeError\<close>.
\<close>

datatype resolved = RStr string | RIter "py_name list" | RUnsupported

datatype 'x agg_error =
    UnsupportedSources string
  | NoSources string
  | NonStringSources string "py_name list"
  | OutsideWaitFor string "string list"
  | OutsideFanIn string "string list"
  | ResolverRaised 'x
  | MergeRaised 'x

record 'd agg_input =
  sources :: "string list"
  pending :: "(string, (string, 'd) dict) dict"
  expected :: "(string, string list) dict"

type_synonym ('d, 'x) resolver = "string \<Rightarrow> string \<Rightarrow> 'd \<Rightarrow> 'x + resolved option"
type_synonym ('d, 'x) merger = "(string, 'd) dict \<Rightarrow> 'x + 'd"

definition agg_init :: "string list \<Rightarrow> 'd agg_input" where
  "agg_init srcs = \<lparr>sources = srcs, pending = [], expected = []\<rparr>"

section \<open>Direct input\<close>

definition direct_receive :: "string \<Rightarrow> string \<Rightarrow> 'd \<Rightarrow> 'x agg_error + 'd option" where
  "direct_receive request_id from_stage data = Inr (Some data)"

section \<open>Aggregated input\<close>

definition normalize_expected_sources :: "string list \<Rightarrow> string \<Rightarrow> resolved \<Rightarrow> 'x agg_error + string list" where
  "normalize_expected_sources srcs request_id res =
     rbind (case res of
              RStr s \<Rightarrow> Inr [PStr s]
            | RIter ns \<Rightarrow> Inr (remdups ns)
            | RUnsupported \<Rightarrow> Inl (UnsupportedSources request_id))
       (\<lambda>exp.
          if exp = [] then Inl (NoSources request_id)
          else if filter (\<lambda>n. \<not> is_pstr n) exp \<noteq> [] then Inl (NonStringSources request_id (filter (\<lambda>n. \<not> is_pstr n) exp))
          else let names = map pstr exp; unknown = filter (\<lambda>n. n \<notin> set srcs) names in
            if unknown \<noteq> [] then Inl (OutsideWaitFor request_id unknown) else Inr names)"

text \<open>
  What \<^verbatim>\<open>receive\<close> takes as the expected fan-in when none is recorded yet: the static sources
  without a resolver, otherwise whatever the resolver decides, \<open>None\<close> meaning not yet.
\<close>

definition resolve_sources ::
  "('d, 'x) resolver option \<Rightarrow> string list \<Rightarrow> string \<Rightarrow> string \<Rightarrow> 'd \<Rightarrow> 'x agg_error + string list option" where
  "resolve_sources fn srcs r f d =
     (case fn of
        None \<Rightarrow> Inr (Some srcs)
      | Some g \<Rightarrow>
          (case g r f d of
             Inl x \<Rightarrow> Inl (ResolverRaised x)
           | Inr None \<Rightarrow> Inr None
           | Inr (Some res) \<Rightarrow> rbind (normalize_expected_sources srcs r res) (\<lambda>e. Inr (Some e))))"

definition slot :: "'d agg_input \<Rightarrow> string \<Rightarrow> (string, 'd) dict" where
  "slot s r = (case dget (pending s) r of None \<Rightarrow> [] | Some p \<Rightarrow> p)"

text \<open>The tail of \<^verbatim>\<open>receive\<close>, once the expected sources are known.\<close>

definition try_merge ::
  "('d, 'x) merger \<Rightarrow> 'd agg_input \<Rightarrow> string \<Rightarrow> string list \<Rightarrow> ('x agg_error + 'd option) \<times> 'd agg_input" where
  "try_merge merge s r exp =
     (let got = map fst (slot s r); unexpected = filter (\<lambda>n. n \<notin> set exp) got in
      if unexpected \<noteq> [] then (Inl (OutsideFanIn r unexpected), s)
      else if sub_keys exp got then
        (case merge (slot s r) of Inl x \<Rightarrow> Inl (MergeRaised x) | Inr d \<Rightarrow> Inr (Some d),
         s\<lparr>pending := ddel (pending s) r, expected := ddel (expected s) r\<rparr>)
      else (Inr None, s))"

definition receive ::
  "('d, 'x) merger \<Rightarrow> ('d, 'x) resolver option \<Rightarrow> 'd agg_input \<Rightarrow> string \<Rightarrow> string \<Rightarrow> 'd \<Rightarrow>
   ('x agg_error + 'd option) \<times> 'd agg_input" where
  "receive merge fn s r f d =
     (if f \<notin> set (sources s) then (Inr None, s)
      else let s1 = s\<lparr>pending := dset (pending s) r (dset (slot s r) f d)\<rparr> in
        case dget (expected s) r of
          Some exp \<Rightarrow> try_merge merge s1 r exp
        | None \<Rightarrow>
            (case resolve_sources fn (sources s) r f d of
               Inl e \<Rightarrow> (Inl e, s1)
             | Inr None \<Rightarrow> (Inr None, s1)
             | Inr (Some exp) \<Rightarrow>
                 try_merge merge (if fn = None then s1 else s1\<lparr>expected := dset (expected s) r exp\<rparr>) r exp))"

definition agg_cancel :: "'d agg_input \<Rightarrow> string \<Rightarrow> 'd agg_input" where
  "agg_cancel s r = s\<lparr>pending := ddel (pending s) r, expected := ddel (expected s) r\<rparr>"

section \<open>Handlers as keyed components\<close>

datatype 'd in_msg = Recv string string 'd | Cancel string

fun msg_request :: "'d in_msg \<Rightarrow> string" where
  "msg_request (Recv r f d) = r"
| "msg_request (Cancel r) = r"

fun agg_step ::
  "('d, 'x) merger \<Rightarrow> ('d, 'x) resolver option \<Rightarrow> 'd agg_input \<Rightarrow> 'd in_msg \<Rightarrow> ('x agg_error + 'd option) \<times> 'd agg_input" where
  "agg_step merge fn s (Recv r f d) = receive merge fn s r f d"
| "agg_step merge fn s (Cancel r) = (Inr None, agg_cancel s r)"

fun direct_step :: "unit \<Rightarrow> 'd in_msg \<Rightarrow> ('x agg_error + 'd option) \<times> unit" where
  "direct_step s (Recv r f d) = (direct_receive r f d, s)"
| "direct_step s (Cancel r) = (Inr None, s)"

definition agg_view :: "'d agg_input \<Rightarrow> string \<Rightarrow> string list \<times> (string, 'd) dict option \<times> string list option" where
  "agg_view s r = (sources s, dget (pending s) r, dget (expected s) r)"

lemma try_merge_view:
  assumes "agg_view s r = agg_view t r"
  shows "fst (try_merge merge s r exp) = fst (try_merge merge t r exp)"
    "agg_view (snd (try_merge merge s r exp)) r = agg_view (snd (try_merge merge t r exp)) r"
  using assms by (simp_all add: agg_view_def try_merge_def slot_def Let_def dget_ddel)

lemma try_merge_frame: "j \<noteq> r \<Longrightarrow> agg_view (snd (try_merge merge s r exp)) j = agg_view s j"
  by (simp add: agg_view_def try_merge_def Let_def dget_ddel)

lemma receive_frame: "j \<noteq> r \<Longrightarrow> agg_view (snd (receive merge fn s r f d)) j = agg_view s j"
  by (simp add: receive_def Let_def try_merge_frame split: option.split sum.split)
    (simp add: agg_view_def dget_dset)

lemma receive_view:
  assumes v: "agg_view s r = agg_view t r"
  shows "fst (receive merge fn s r f d) = fst (receive merge fn t r f d)"
    "agg_view (snd (receive merge fn s r f d)) r = agg_view (snd (receive merge fn t r f d)) r"
proof -
  let ?s = "s\<lparr>pending := dset (pending s) r (dset (slot s r) f d)\<rparr>"
    and ?t = "t\<lparr>pending := dset (pending t) r (dset (slot t r) f d)\<rparr>"
  have same: "sources s = sources t" "dget (expected s) r = dget (expected t) r" "agg_view ?s r = agg_view ?t r"
    using v by (simp_all add: agg_view_def slot_def)
  have "agg_view (?s\<lparr>expected := dset (expected s) r e\<rparr>) r = agg_view (?t\<lparr>expected := dset (expected t) r e\<rparr>) r" for e
    using same(3) by (simp add: agg_view_def)
  note tm = try_merge_view [OF same(3)] try_merge_view [OF this]
  show "fst (receive merge fn s r f d) = fst (receive merge fn t r f d)"
    by (cases fn) (simp_all add: receive_def Let_def same(1,2) tm split: option.split sum.split)
  show "agg_view (snd (receive merge fn s r f d)) r = agg_view (snd (receive merge fn t r f d)) r"
    using v same(3) by (cases fn) (simp_all add: receive_def Let_def same(1,2) tm split: option.split sum.split)
qed

lemma cancel_view:
  "agg_view (agg_cancel s r) j = (if j = r then (sources s, None, None) else agg_view s j)"
  by (simp add: agg_cancel_def agg_view_def dget_ddel)

interpretation agg: keyed "agg_step merge fn" msg_request agg_view
proof
  fix m :: "'a in_msg" and k s
  assume "msg_request m \<noteq> k"
  then show "agg_view (snd (agg_step merge fn s m)) k = agg_view s k"
    by (cases m) (simp_all add: receive_frame cancel_view)
next
  fix m :: "'a in_msg" and s t :: "'a agg_input"
  assume v: "agg_view s (msg_request m) = agg_view t (msg_request m)"
  then show "fst (agg_step merge fn s m) = fst (agg_step merge fn t m)"
    using receive_view(1) by (cases m) auto
  show "agg_view (snd (agg_step merge fn s m)) (msg_request m) = agg_view (snd (agg_step merge fn t m)) (msg_request m)"
  proof (cases m)
    case (Recv r f d)
    with v receive_view(2) show ?thesis by auto
  next
    case (Cancel r)
    with v have "sources s = sources t" by (simp add: agg_view_def)
    with Cancel show ?thesis by (simp add: cancel_view)
  qed
qed

interpretation dir: keyed direct_step msg_request "\<lambda>_ _. ()"
proof
  fix m :: "'a in_msg" and s t
  show "fst (direct_step s m :: ('b agg_error + 'a option) \<times> unit) = fst (direct_step t m)" by (cases m) simp_all
qed simp_all

section \<open>Invariant\<close>

text \<open>
  Only known sources are stored, a recorded fan-in is a non-empty set of known sources of
  a request that waits, and a request whose fan-in is complete is never left waiting.
\<close>

fun view_ok :: "('d, 'x) resolver option \<Rightarrow> string list \<times> (string, 'd) dict option \<times> string list option \<Rightarrow> bool" where
  "view_ok fn (srcs, p, e) \<longleftrightarrow>
     (case p of None \<Rightarrow> e = None
      | Some q \<Rightarrow> dict_ok q \<and> q \<noteq> [] \<and> fst ` set q \<subseteq> set srcs \<and> (fn = None \<longrightarrow> fst ` set q \<noteq> set srcs) \<and>
          (\<forall>x. e = Some x \<longrightarrow> fn \<noteq> None \<and> x \<noteq> [] \<and> distinct x \<and> set x \<subseteq> set srcs \<and> fst ` set q \<noteq> set x))"

definition agg_inv :: "('d, 'x) resolver option \<Rightarrow> 'd agg_input \<Rightarrow> bool" where
  "agg_inv fn s \<longleftrightarrow> dict_ok (pending s) \<and> dict_ok (expected s) \<and> (\<forall>r. view_ok fn (agg_view s r))"

lemma normalize_Inr:
  assumes "normalize_expected_sources srcs r res = Inr e"
  shows "e \<noteq> []" "distinct e" "set e \<subseteq> set srcs"
proof -
  obtain ns where ns: "distinct ns" "ns \<noteq> []" "filter (\<lambda>n. \<not> is_pstr n) ns = []"
    "filter (\<lambda>n. n \<notin> set srcs) (map pstr ns) = []" "e = map pstr ns"
  proof (cases res)
    case (RStr x)
    with assms that [of "[PStr x]"] show ?thesis
      by (simp add: normalize_expected_sources_def Let_def split: if_splits)
  next
    case (RIter ns)
    with assms that [of "remdups ns"] show ?thesis
      by (simp add: normalize_expected_sources_def Let_def split: if_splits)
  qed (use assms in \<open>simp add: normalize_expected_sources_def\<close>)
  have "inj_on pstr (set ns)"
    using ns(3) by (auto simp: inj_on_def is_pstr_def pstr_def filter_empty_conv split: py_name.splits)
  then show "distinct e" using ns by (simp add: distinct_map)
  show "e \<noteq> []" "set e \<subseteq> set srcs" using ns by (auto simp: filter_empty_conv)
qed

lemma resolve_sources_Inr:
  assumes "resolve_sources fn srcs r f d = Inr (Some e)"
  shows "fn \<noteq> None \<Longrightarrow> e \<noteq> [] \<and> distinct e" "set e \<subseteq> set srcs" "fn = None \<Longrightarrow> e = srcs"
  using assms by (auto simp: resolve_sources_def rbind_eq_Inr dest: normalize_Inr split: option.splits sum.splits)

lemma try_merge_result:
  "agg_view (snd (try_merge merge s r exp)) r =
     (if fst ` set (slot s r) = set exp then (sources s, None, None) else agg_view s r)"
  by (auto simp: try_merge_def Let_def agg_view_def dget_ddel filter_empty_conv)

lemma try_merge_dict_ok:
  "dict_ok (pending s) \<Longrightarrow> dict_ok (pending (snd (try_merge merge s r exp)))"
  "dict_ok (expected s) \<Longrightarrow> dict_ok (expected (snd (try_merge merge s r exp)))"
  by (simp_all add: try_merge_def Let_def)

lemma receive_dict_ok:
  assumes "dict_ok (pending s)" "dict_ok (expected s)"
  shows "dict_ok (pending (snd (receive merge fn s r f d)))" "dict_ok (expected (snd (receive merge fn s r f d)))"
  using assms by (simp_all add: receive_def Let_def try_merge_dict_ok split: option.split sum.split)

lemma view_ok_slot:
  assumes "view_ok fn (agg_view s r)"
  shows "dict_ok (slot s r)" "fst ` set (slot s r) \<subseteq> set (sources s)"
proof -
  have "dict_ok (slot s r) \<and> fst ` set (slot s r) \<subseteq> set (sources s)"
  proof (cases "dget (pending s) r")
    case (Some q)
    then have "view_ok fn (sources s, Some q, dget (expected s) r)" using assms by (simp only: agg_view_def)
    then have "dict_ok q \<and> fst ` set q \<subseteq> set (sources s)" by (simp only: view_ok.simps option.case)
    with Some show ?thesis by (simp only: slot_def option.case)
  qed (simp add: slot_def)
  then show "dict_ok (slot s r)" "fst ` set (slot s r) \<subseteq> set (sources s)" by blast+
qed

lemma agg_inv_receive:
  assumes inv: "agg_inv fn s"
  shows "agg_inv fn (snd (receive merge fn s r f d))"
proof -
  let ?q = "dset (slot s r) f d" and ?s = "snd (receive merge fn s r f d)"
  have r_ok: "view_ok fn (agg_view s r)" using inv by (simp add: agg_inv_def)
  have "view_ok fn (agg_view ?s r)"
  proof (cases "f \<in> set (sources s)")
    case True
    have q: "dict_ok ?q" "?q \<noteq> []" "fst ` set ?q \<subseteq> set (sources s)"
      using view_ok_slot [OF r_ok] True by simp_all
    let ?s1 = "s\<lparr>pending := dset (pending s) r ?q\<rparr>"
    show ?thesis
    proof (cases "dget (expected s) r")
      case (Some e)
      with r_ok have e: "fn \<noteq> None" "e \<noteq> []" "distinct e" "set e \<subseteq> set (sources s)"
        by (auto simp: agg_view_def split: option.splits)
      have "?s = snd (try_merge merge ?s1 r e)" using True Some by (simp add: receive_def Let_def)
      moreover have "agg_view ?s1 r = (sources s, Some ?q, Some e)" using Some by (simp add: agg_view_def)
      ultimately show ?thesis using q e by (auto simp: try_merge_result slot_def simp del: keys_dset)
    next
      case None
      have v1: "agg_view ?s1 r = (sources s, Some ?q, None)" using None by (simp add: agg_view_def)
      show ?thesis
      proof (cases "\<exists>e. resolve_sources fn (sources s) r f d = Inr (Some e)")
        case res: True
        then obtain e where e: "resolve_sources fn (sources s) r f d = Inr (Some e)" by blast
        note er = resolve_sources_Inr [OF e]
        let ?s2 = "if fn = None then ?s1 else ?s1\<lparr>expected := dset (expected s) r e\<rparr>"
        have "?s = snd (try_merge merge ?s2 r e)" using True None e by (simp add: receive_def Let_def)
        moreover have "agg_view ?s2 r = (sources s, Some ?q, if fn = None then None else Some e)"
          using None by (simp add: agg_view_def)
        ultimately show ?thesis using q er by (auto simp: try_merge_result slot_def simp del: keys_dset)
      next
        case False
        then have "fn \<noteq> None" by (cases fn) (simp_all add: resolve_sources_def)
        moreover have "?s = ?s1"
          using True None False by (auto simp: receive_def Let_def split: sum.splits option.splits)
        ultimately show ?thesis using q v1 by auto
      qed
    qed
  qed (simp add: receive_def r_ok)
  with inv receive_dict_ok [of s merge fn r f d] receive_frame [of _ r merge fn s f d] show ?thesis
    unfolding agg_inv_def by metis
qed

definition agg_next :: "('d, 'x) merger \<Rightarrow> ('d, 'x) resolver option \<Rightarrow> 'd agg_input \<Rightarrow> 'd in_msg \<Rightarrow> 'd agg_input" where
  "agg_next merge fn s m = snd (agg_step merge fn s m)"

lemma agg_inv_init: "agg_inv fn (agg_init srcs)"
  by (simp add: agg_inv_def agg_init_def agg_view_def)

lemma agg_inv_cancel: "agg_inv fn s \<Longrightarrow> agg_inv fn (agg_cancel s r)"
  unfolding agg_inv_def cancel_view by (simp add: agg_cancel_def)

interpretation aggm: machine "agg_next merge fn" "agg_inv fn"
proof
  fix s :: "'a agg_input" and m
  assume "agg_inv fn s"
  then show "agg_inv fn (agg_next merge fn s m)"
    by (cases m) (simp_all add: agg_next_def agg_inv_receive agg_inv_cancel)
qed

section \<open>Fan-in\<close>

definition merged :: "('d, 'x) merger \<Rightarrow> (string, 'd) dict \<Rightarrow> 'x agg_error + 'd option" where
  "merged merge p = (case merge p of Inl x \<Rightarrow> Inl (MergeRaised x) | Inr d \<Rightarrow> Inr (Some d))"

lemma receive_progress:
  assumes e: "dget (expected s) r \<in> {None, Some exp}" and f: "f \<in> set exp" "dget (slot s r) f = None"
    and exp: "set exp \<subseteq> set (sources s)" and sl: "fst ` set (slot s r) \<subseteq> set exp"
    and res: "resolve_sources fn (sources s) r f d = Inr (Some exp)"
  shows "fst (receive merge fn s r f d) =
      (if insert f (fst ` set (slot s r)) = set exp then merged merge (slot s r @ [(f, d)]) else Inr None)"
    and "insert f (fst ` set (slot s r)) \<noteq> set exp \<Longrightarrow>
      slot (snd (receive merge fn s r f d)) r = slot s r @ [(f, d)] \<and>
      sources (snd (receive merge fn s r f d)) = sources s \<and>
      dget (expected (snd (receive merge fn s r f d))) r \<in> {None, Some exp}"
proof -
  let ?s1 = "s\<lparr>pending := dset (pending s) r (dset (slot s r) f d)\<rparr>"
  let ?s2 = "if fn = None \<or> dget (expected s) r \<noteq> None then ?s1 else ?s1\<lparr>expected := dset (expected s) r exp\<rparr>"
  have rcv: "receive merge fn s r f d = try_merge merge ?s2 r exp"
    using e f(1) exp res by (auto simp: receive_def Let_def)
  have sl2: "slot ?s2 r = slot s r @ [(f, d)]" using f(2) by (simp add: slot_def dset_fresh)
  have sub: "set exp \<subseteq> insert f (fst ` set (slot s r)) \<longleftrightarrow> insert f (fst ` set (slot s r)) = set exp"
    using sl f(1) by auto
  have none: "filter (\<lambda>n. n \<notin> set exp) (map fst (slot s r @ [(f, d)])) = []"
    using sl f(1) by (auto simp: filter_empty_conv)
  show "fst (receive merge fn s r f d) =
      (if insert f (fst ` set (slot s r)) = set exp then merged merge (slot s r @ [(f, d)]) else Inr None)"
    unfolding rcv try_merge_def sl2 none Let_def merged_def using sub by simp
  assume "insert f (fst ` set (slot s r)) \<noteq> set exp"
  then have "snd (try_merge merge ?s2 r exp) = ?s2"
    unfolding try_merge_def sl2 none Let_def using sub by simp
  with e sl2 show "slot (snd (receive merge fn s r f d)) r = slot s r @ [(f, d)] \<and>
      sources (snd (receive merge fn s r f d)) = sources s \<and>
      dget (expected (snd (receive merge fn s r f d))) r \<in> {None, Some exp}"
    unfolding rcv by auto
qed

lemma fan_in_run:
  assumes "dget (expected s) r \<in> {None, Some exp}" "set exp \<subseteq> set (sources s)" "xs \<noteq> []"
    and "distinct (map fst (slot s r @ xs))" "set (map fst (slot s r @ xs)) = set exp"
    and "\<And>f d. (f, d) \<in> set xs \<Longrightarrow> resolve_sources fn (sources s) r f d = Inr (Some exp)"
  shows "outs (agg_step merge fn) s (map (\<lambda>(f, d). Recv r f d) xs) =
     replicate (length xs - 1) (Inr None) @ [merged merge (slot s r @ xs)]"
  using assms
proof (induction xs arbitrary: s)
  case (Cons p xs)
  obtain f d where p: "p = (f, d)" by (cases p)
  let ?s' = "snd (receive merge fn s r f d)"
  have new: "dget (slot s r) f = None" using Cons.prems(4) p by (auto simp: map_of_eq_None_iff)
  have sub: "f \<in> set exp" "fst ` set (slot s r) \<subseteq> set exp" using Cons.prems(5) p by auto
  have res: "resolve_sources fn (sources s) r f d = Inr (Some exp)" using Cons.prems(6) p by simp
  note pr = receive_progress [OF Cons.prems(1) sub(1) new Cons.prems(2) sub(2) res, of merge]
  show ?case
  proof (cases "xs = []")
    case True
    with Cons.prems(5) p have "insert f (fst ` set (slot s r)) = set exp" by auto
    with pr(1) p True show ?thesis by simp
  next
    case False
    then obtain g where g: "g \<in> fst ` set xs" by (cases xs) auto
    with Cons.prems(4) p have "g \<notin> insert f (fst ` set (slot s r))" by auto
    moreover have "g \<in> set exp" using g Cons.prems(5) by auto
    ultimately have more: "insert f (fst ` set (slot s r)) \<noteq> set exp" by auto
    have "outs (agg_step merge fn) ?s' (map (\<lambda>(f, d). Recv r f d) xs) =
        replicate (length xs - 1) (Inr None) @ [merged merge (slot ?s' r @ xs)]"
      by (rule Cons.IH) (use pr(2) [OF more] Cons.prems p False in auto)
    with pr(1) pr(2) [OF more] more p False show ?thesis by (cases xs) auto
  qed
qed simp

section \<open>Properties\<close>

text \<open>
  C18: fan-in completeness. Let one message of every expected source of a request arrive, in
  any order and interleaved in any way with messages and cancellations of other requests.
  Then the handler answers nothing to all but the last of them and the merge of all
  payloads, in arrival order, to the last one. The expected sources are those the code
  resolves: the static \<^verbatim>\<open>wait_for\<close> set without a resolver, the resolver's set with one.
\<close>

theorem fan_in_exactly_once:
  assumes fresh: "dget (pending s) r = None" "dget (expected s) r = None"
    and own: "filter (\<lambda>m. msg_request m = r) ms = map (\<lambda>(f, d). Recv r f d) xs"
    and all: "xs \<noteq> []" "distinct (map fst xs)" "set (map fst xs) = set exp" "set exp \<subseteq> set (sources s)"
    and res: "\<And>f d. (f, d) \<in> set xs \<Longrightarrow> resolve_sources fn (sources s) r f d = Inr (Some exp)"
  shows "map snd (filter (\<lambda>p. msg_request (fst p) = r) (zip ms (outs (agg_step merge fn) s ms))) =
     replicate (length xs - 1) (Inr None) @ [merged merge xs]"
proof -
  have sl: "slot s r = []" using fresh by (simp add: slot_def)
  have "outs (agg_step merge fn) s (map (\<lambda>(f, d). Recv r f d) xs) =
      replicate (length xs - 1) (Inr None) @ [merged merge (slot s r @ xs)]"
    by (rule fan_in_run) (use fresh all res sl in auto)
  with agg.isolated [where s = s and t = s and k = r and ms = ms and merge = merge and fn = fn] sl own show ?thesis by simp
qed

theorem fan_in_exactly_once_witness:
  "map snd (filter (\<lambda>p. msg_request (fst p) = ''r'')
     (zip [Recv ''r'' ''audio'' 1, Recv ''q'' ''audio'' 9, Recv ''r'' ''text'' (2::nat)]
       (outs (agg_step (\<lambda>p. (Inr (sum_list (map snd p)) :: unit + nat)) None) (agg_init [''text'', ''audio''])
          [Recv ''r'' ''audio'' 1, Recv ''q'' ''audio'' 9, Recv ''r'' ''text'' 2]))) = [Inr None, Inr (Some 3)]"
  using fan_in_exactly_once [where s = "agg_init [''text'', ''audio'']" and r = "''r''" and fn = None
      and ms = "[Recv ''r'' ''audio'' 1, Recv ''q'' ''audio'' 9, Recv ''r'' ''text'' (2::nat)]"
      and xs = "[(''audio'', 1), (''text'', 2)]" and exp = "[''text'', ''audio'']"
      and merge = "\<lambda>p. (Inr (sum_list (map snd p)) :: unit + nat)"]
  by (simp add: agg_init_def resolve_sources_def merged_def insert_commute)

text \<open>
  Over every sequence of messages and cancellations the handler stores payloads of
  declared sources only, a recorded fan-in is a non-empty set of declared sources of a
  waiting request, and no request whose fan-in is complete is left waiting.
\<close>

theorem agg_invariant: "agg_inv fn (run (agg_next merge fn) (agg_init srcs) ms)"
  by (rule aggm.inv_run) (rule agg_inv_init)

text \<open>
  A source outside the fan-in the resolver fixed for the request is rejected with an
  error that names it, and nothing is merged, whatever arrived before.
\<close>

theorem outside_fan_in_rejected:
  assumes "dget (expected s) r = Some exp" "f \<in> set (sources s)" "f \<notin> set exp" "agg_inv fn s"
  shows "\<exists>us. fst (receive merge fn s r f d) = Inl (OutsideFanIn r us) \<and> f \<in> set us \<and> set us \<inter> set exp = {}"
proof -
  have "f \<in> set (filter (\<lambda>n. n \<notin> set exp) (map fst (dset (slot s r) f d)))" using assms(3) by auto
  moreover from this have "filter (\<lambda>n. n \<notin> set exp) (map fst (dset (slot s r) f d)) \<noteq> []" by (metis empty_iff list.set(1))
  ultimately show ?thesis using assms(1,2)
    by (auto simp: receive_def try_merge_def Let_def slot_def simp del: filter_set)
qed

theorem outside_fan_in_rejected_witness:
  "\<exists>us. fst (receive (\<lambda>p. Inr 0 :: unit + nat) (Some (\<lambda>_ _ _. Inr (Some (RStr ''a''))))
      \<lparr>sources = [''a'', ''b'', ''c''], pending = [(''r'', [(''c'', 1)])], expected = [(''r'', [''a''])]\<rparr> ''r'' ''b'' 2)
     = Inl (OutsideFanIn ''r'' us) \<and> ''b'' \<in> set us \<and> set us \<inter> set [''a''] = {}"
  by (rule outside_fan_in_rejected) (auto simp: agg_inv_def agg_view_def dict_ok_def)

end
