(* ===== verification/Prepared_Queue.thy ===== *)
theory Prepared_Queue
  imports Prelude
begin

text \<open>
  The handoff registry between preprocessing and the autoregressive scheduler,
  \<^verbatim>\<open>sglang_omni/scheduling/prepared_request_queue.py\<close>. Every method holds the one lock for
  its whole body, so each is one atomic step on the record below. The context and the
  payload types stay abstract; a published payload is an object, never Python's \<^verbatim>\<open>None\<close>.
\<close>

section \<open>State and transitions\<close>

record ('c, 'p) prep_queue =
  context_of :: "'c option"
  prepared :: "(string, 'p) dict"
  inflight :: "string set"
  aborted :: "string set"

definition pq_init :: "('c, 'p) prep_queue" where
  "pq_init = \<lparr>context_of = None, prepared = [], inflight = {}, aborted = {}\<rparr>"

definition pq_snapshot :: "('c, 'p) prep_queue \<Rightarrow> 'c option \<times> string set \<times> string set \<times> string set" where
  "pq_snapshot q = (context_of q, fst ` set (prepared q), inflight q, aborted q)"

definition set_context :: "('c, 'p) prep_queue \<Rightarrow> 'c \<Rightarrow> ('c, 'p) prep_queue" where
  "set_context q c = q\<lparr>context_of := Some c, prepared := [], inflight := {}, aborted := {}\<rparr>"

definition clear_context :: "('c, 'p) prep_queue \<Rightarrow> ('c, 'p) prep_queue" where
  "clear_context q = q\<lparr>context_of := None, prepared := [], inflight := {}, aborted := {}\<rparr>"

definition pq_begin :: "('c, 'p) prep_queue \<Rightarrow> string \<Rightarrow> 'c option \<times> ('c, 'p) prep_queue" where
  "pq_begin q r =
     (case context_of q of
        None \<Rightarrow> (None, q)
      | Some c \<Rightarrow> (Some c, q\<lparr>inflight := insert r (inflight q)\<rparr>))"

definition fail_inflight :: "('c, 'p) prep_queue \<Rightarrow> string \<Rightarrow> ('c, 'p) prep_queue" where
  "fail_inflight q r = q\<lparr>inflight := inflight q - {r}, aborted := aborted q - {r}\<rparr>"

definition publish :: "('c, 'p) prep_queue \<Rightarrow> string \<Rightarrow> 'p \<Rightarrow> bool \<times> ('c, 'p) prep_queue" where
  "publish q r v =
     (let q' = q\<lparr>inflight := inflight q - {r}, aborted := aborted q - {r}\<rparr> in
      if r \<in> inflight q \<and> r \<notin> aborted q then (True, q'\<lparr>prepared := dset (prepared q) r v\<rparr>) else (False, q'))"

definition pq_abort :: "('c, 'p) prep_queue \<Rightarrow> string \<Rightarrow> ('c, 'p) prep_queue" where
  "pq_abort q r =
     (if dhas (prepared q) r then q\<lparr>prepared := ddel (prepared q) r\<rparr>
      else if r \<in> inflight q then q\<lparr>aborted := insert r (aborted q)\<rparr>
      else q)"

definition pq_pop :: "('c, 'p) prep_queue \<Rightarrow> string \<Rightarrow> 'p option \<times> ('c, 'p) prep_queue" where
  "pq_pop q r = (dget (prepared q) r, q\<lparr>prepared := ddel (prepared q) r\<rparr>)"

section \<open>As a state machine\<close>

datatype ('c, 'p) pq_op =
    SetContext 'c
  | ClearContext
  | Begin string
  | FailInflight string
  | Publish string 'p
  | Abort string
  | Pop string

fun pq_step :: "('c, 'p) prep_queue \<Rightarrow> ('c, 'p) pq_op \<Rightarrow> ('c, 'p) prep_queue" where
  "pq_step q (SetContext c) = set_context q c"
| "pq_step q ClearContext = clear_context q"
| "pq_step q (Begin r) = snd (pq_begin q r)"
| "pq_step q (FailInflight r) = fail_inflight q r"
| "pq_step q (Publish r v) = snd (publish q r v)"
| "pq_step q (Abort r) = pq_abort q r"
| "pq_step q (Pop r) = snd (pq_pop q r)"

lemmas pq_defs = set_context_def clear_context_def pq_begin_def fail_inflight_def publish_def pq_abort_def pq_pop_def

definition pq_inv :: "('c, 'p) prep_queue \<Rightarrow> bool" where
  "pq_inv q \<longleftrightarrow> dict_ok (prepared q) \<and> finite (inflight q) \<and> aborted q \<subseteq> inflight q \<and>
     (context_of q = None \<longrightarrow> prepared q = [] \<and> inflight q = {})"

text \<open>A request is dead when no payload of it is waiting and none can be published before a new \<open>begin\<close>.\<close>

definition dead :: "string \<Rightarrow> ('c, 'p) prep_queue \<Rightarrow> bool" where
  "dead r q \<longleftrightarrow> \<not> dhas (prepared q) r \<and> (r \<in> inflight q \<longrightarrow> r \<in> aborted q)"

text \<open>A payload is held for a request while no other operation concerns the request or resets the registry.\<close>

fun concerns :: "string \<Rightarrow> ('c, 'p) pq_op \<Rightarrow> bool" where
  "concerns r (SetContext c) = True"
| "concerns r ClearContext = True"
| "concerns r (Begin j) = False"
| "concerns r (FailInflight j) = False"
| "concerns r (Publish j v) = (j = r)"
| "concerns r (Abort j) = (j = r)"
| "concerns r (Pop j) = (j = r)"

lemma pq_inv_step: "pq_inv q \<Longrightarrow> pq_inv (pq_step q op)"
  by (cases op) (auto simp: pq_inv_def pq_defs Let_def split: option.splits if_splits)

lemma dead_step: "dead r q \<Longrightarrow> op \<noteq> Begin r \<Longrightarrow> dead r (pq_step q op)"
  by (cases op) (auto simp: dead_def pq_defs Let_def split: option.splits if_splits)

lemma dead_run: "dead r q \<Longrightarrow> Begin r \<notin> set ops \<Longrightarrow> dead r (run pq_step q ops)"
  by (induction ops arbitrary: q) (auto simp: dead_step)

lemma held_step: "\<not> concerns r op \<Longrightarrow> dget (prepared (pq_step q op)) r = dget (prepared q) r"
  by (cases op) (auto simp: pq_defs Let_def split: option.splits)

lemma held_run: "\<not> list_ex (concerns r) ops \<Longrightarrow> dget (prepared (run pq_step q ops)) r = dget (prepared q) r"
  by (induction ops arbitrary: q) (auto simp: held_step)

interpretation pqm: machine pq_step pq_inv
  by unfold_locales (rule pq_inv_step)

section \<open>Properties\<close>

text \<open>
  At every moment a tombstone belongs to a request in flight, and without a context the
  registry holds nothing, so a reset leaves no stale handoff behind.
\<close>

theorem prepared_queue_invariant: "pq_inv (run pq_step pq_init ops)"
  by (rule pqm.inv_run) (simp add: pq_inv_def pq_init_def)

text \<open>
  An aborted request is never handed to the scheduler. After an abort of a request that
  is not both published and being preprocessed again, no sequence of operations short of a
  new \<open>begin\<close> of it makes \<open>pop\<close> return a payload, and a publish still in flight answers \<open>False\<close>.
\<close>

theorem abort_suppresses_handoff:
  assumes "\<not> (dhas (prepared q) r \<and> r \<in> inflight q)" and "Begin r \<notin> set ops"
  shows "fst (pq_pop (run pq_step (pq_abort q r) ops) r) = None \<and>
    \<not> fst (publish (run pq_step (pq_abort q r) ops) r v)"
proof -
  have "dead r (pq_abort q r)" using assms(1) by (auto simp: dead_def pq_abort_def)
  from dead_run [OF this assms(2)] show ?thesis
    by (auto simp: dead_def pq_pop_def publish_def Let_def dhas_dget)
qed

theorem abort_suppresses_handoff_witness:
  "fst (pq_pop (run pq_step (pq_abort (run pq_step pq_init [SetContext (0::nat), Begin ''r'']) ''r'') [Publish ''r'' (7::nat)]) ''r'') = None
   \<and> \<not> fst (publish (run pq_step (pq_abort (run pq_step pq_init [SetContext (0::nat), Begin ''r'']) ''r'') [Publish ''r'' (7::nat)]) ''r'' 8)"
  by (rule abort_suppresses_handoff) (simp_all add: pq_defs pq_init_def)

text \<open>
  A payload published for a request in flight is popped exactly once, however the
  operations of other requests are interleaved with it.
\<close>

theorem publish_pop_exactly_once:
  assumes "r \<in> inflight q" "r \<notin> aborted q" "\<not> list_ex (concerns r) ops"
  shows "fst (publish q r v) \<and>
    (let q1 = run pq_step (snd (publish q r v)) ops in
     fst (pq_pop q1 r) = Some v \<and> fst (pq_pop (snd (pq_pop q1 r)) r) = None)"
proof -
  have "dget (prepared (snd (publish q r v))) r = Some v" using assms(1,2) by (simp add: publish_def Let_def)
  with held_run [OF assms(3), of "snd (publish q r v)"] assms(1,2) show ?thesis
    by (simp add: pq_pop_def publish_def Let_def)
qed

theorem publish_pop_exactly_once_witness:
  "let q = run pq_step pq_init [SetContext (0::nat), Begin ''r''] in
   fst (publish q ''r'' (7::nat)) \<and>
   (let q1 = run pq_step (snd (publish q ''r'' 7)) [Begin ''q'', Abort ''q''] in
    fst (pq_pop q1 ''r'') = Some 7 \<and> fst (pq_pop (snd (pq_pop q1 ''r'')) ''r'') = None)"
  unfolding Let_def [of "run pq_step pq_init [SetContext (0::nat), Begin ''r'']"]
  by (rule publish_pop_exactly_once) (simp_all add: pq_defs pq_init_def)

text \<open>
  The guard of \<open>abort_suppresses_handoff\<close> is needed. When a request is published and begun
  again before it is popped, an abort drops the published payload but sets no tombstone, and
  the second preprocessing run is handed over although the request was aborted.
\<close>

lemma abort_of_restarted_request_leaks:
  "fst (pq_pop (run pq_step pq_init
     [SetContext (0::nat), Begin ''r'', Publish ''r'' (1::nat), Begin ''r'', Abort ''r'', Publish ''r'' 2]) ''r'') = Some 2"
  by (simp add: pq_defs pq_init_def dhas_Cons)

end
