(* ===== verification/Stage_Cache.thy ===== *)
theory Stage_Cache
  imports Prelude
begin

text \<open>
  The LRU cache of stage outputs, \<^verbatim>\<open>sglang_omni/scheduling/stage_cache.py\<close>. The ordered
  dictionary is the list of its items, oldest first. Every method body under the lock is
  one atomic step; \<open>remove_if\<close> has two such sections, the snapshot of the keys and the
  removal, with the caller's predicate evaluated in between. Tensors belong to torch:
  their size and the operations that move them are the fields of the parameter \<open>torch\<close>.
\<close>

section \<open>Cached values\<close>

datatype 't pyval =
    VTensor 't
  | VBytes nat
  | VDict "(string \<times> 't pyval) list"
  | VSeq bool "'t pyval list"
  | VOther nat

text \<open>
  What the cache uses of torch: \<^verbatim>\<open>numel() * element_size()\<close>, \<^verbatim>\<open>detach\<close>, whether a tensor is
  pinned host memory, the pinned copy (\<open>None\<close> when torch raises \<^verbatim>\<open>RuntimeError\<close>) and \<^verbatim>\<open>to(device)\<close>.
\<close>

record 't torch =
  t_bytes :: "'t \<Rightarrow> nat"
  t_detach :: "'t \<Rightarrow> 't"
  t_is_pinned :: "'t \<Rightarrow> bool"
  t_pin_copy :: "'t \<Rightarrow> 't option"
  t_to :: "string \<Rightarrow> 't \<Rightarrow> 't"

definition to_pinned_host :: "'t torch \<Rightarrow> 't \<Rightarrow> 't option" where
  "to_pinned_host T v = (if t_is_pinned T v then Some v else t_pin_copy T v)"

definition detach_tensor :: "'t torch \<Rightarrow> string option \<Rightarrow> bool \<Rightarrow> 't \<Rightarrow> 't" where
  "detach_tensor T device pin v =
     (let v = t_detach T v in
      case device of
        None \<Rightarrow> v
      | Some dev \<Rightarrow>
          if pin \<and> dev = ''cpu'' then
            (case to_pinned_host T v of Some h \<Rightarrow> h | None \<Rightarrow> t_to T dev v)
          else t_to T dev v)"

primrec detach_value :: "'t torch \<Rightarrow> string option \<Rightarrow> bool \<Rightarrow> 't pyval \<Rightarrow> 't pyval" where
  "detach_value T device pin (VTensor t) = VTensor (detach_tensor T device pin t)"
| "detach_value T device pin (VBytes n) = VBytes n"
| "detach_value T device pin (VDict kvs) = VDict (map (map_prod id (detach_value T device pin)) kvs)"
| "detach_value T device pin (VSeq tup vs) = VSeq tup (map (detach_value T device pin) vs)"
| "detach_value T device pin (VOther n) = VOther n"

primrec value_size_bytes :: "'t torch \<Rightarrow> 't pyval \<Rightarrow> int" where
  "value_size_bytes T (VTensor t) = int (t_bytes T t)"
| "value_size_bytes T (VBytes n) = int n"
| "value_size_bytes T (VDict kvs) = sum_list (map snd (map (map_prod id (value_size_bytes T)) kvs))"
| "value_size_bytes T (VSeq tup vs) = sum_list (map (value_size_bytes T) vs)"
| "value_size_bytes T (VOther n) = 0"

section \<open>The cache\<close>

record 'd cache_entry =
  entry_data :: 'd
  size_bytes :: int

record 'd stage_cache =
  items :: "(string, 'd cache_entry) dict"
  max_size :: "int option"
  max_bytes :: "int option"
  current_bytes :: int
  eviction_count :: nat

datatype cache_error = MaxSizeNegative | MaxBytesNegative | PinNeedsCpu

definition cache_init :: "int option \<Rightarrow> int option \<Rightarrow> string option \<Rightarrow> bool \<Rightarrow> cache_error + 'd stage_cache" where
  "cache_init msize mbytes device pin =
     (if (case msize of None \<Rightarrow> False | Some m \<Rightarrow> m < 0) then Inl MaxSizeNegative
      else if (case mbytes of None \<Rightarrow> False | Some m \<Rightarrow> m < 0) then Inl MaxBytesNegative
      else if pin \<and> device \<noteq> Some ''cpu'' then Inl PinNeedsCpu
      else Inr \<lparr>items = [], max_size = msize, max_bytes = mbytes, current_bytes = 0, eviction_count = 0\<rparr>)"

definition cache_get :: "'d stage_cache \<Rightarrow> string option \<Rightarrow> 'd option \<times> 'd stage_cache" where
  "cache_get c key =
     (case key of
        None \<Rightarrow> (None, c)
      | Some k \<Rightarrow>
          (case dget (items c) k of
             None \<Rightarrow> (None, c)
           | Some e \<Rightarrow> (Some (entry_data e), c\<lparr>items := ddel (items c) k @ [(k, e)]\<rparr>)))"

text \<open>
  The two loops of \<^verbatim>\<open>_evict_over_budget\<close>, each popping the oldest item while its budget is
  exceeded; the state is the items, the byte counter and the eviction counter.
\<close>

fun evict_count :: "int \<Rightarrow> (string, 'd cache_entry) dict \<Rightarrow> int \<Rightarrow> nat \<Rightarrow> (string, 'd cache_entry) dict \<times> int \<times> nat" where
  "evict_count m [] cur ev = ([], cur, ev)"
| "evict_count m (p # ps) cur ev =
     (if m < int (length (p # ps)) then evict_count m ps (cur - size_bytes (snd p)) (Suc ev) else (p # ps, cur, ev))"

fun evict_bytes :: "int \<Rightarrow> (string, 'd cache_entry) dict \<Rightarrow> int \<Rightarrow> nat \<Rightarrow> (string, 'd cache_entry) dict \<times> int \<times> nat" where
  "evict_bytes m [] cur ev = ([], if m < cur then 0 else cur, ev)"
| "evict_bytes m (p # ps) cur ev =
     (if m < cur then evict_bytes m ps (cur - size_bytes (snd p)) (Suc ev) else (p # ps, cur, ev))"

definition evict_over_budget :: "'d stage_cache \<Rightarrow> 'd stage_cache" where
  "evict_over_budget c =
     (let (ps, cur, ev) =
            (case max_size c of None \<Rightarrow> (items c, current_bytes c, eviction_count c)
             | Some m \<Rightarrow> evict_count m (items c) (current_bytes c) (eviction_count c));
          (ps, cur, ev) =
            (case max_bytes c of None \<Rightarrow> (ps, cur, ev) | Some m \<Rightarrow> evict_bytes m ps cur ev)
      in c\<lparr>items := ps, current_bytes := cur, eviction_count := ev\<rparr>)"

text \<open>\<^verbatim>\<open>self._cache.pop(key, None)\<close> with the byte counter kept in step.\<close>

definition pop_item :: "'d stage_cache \<Rightarrow> string \<Rightarrow> 'd stage_cache" where
  "pop_item c k =
     (case dget (items c) k of
        None \<Rightarrow> c
      | Some e \<Rightarrow> c\<lparr>items := ddel (items c) k, current_bytes := current_bytes c - size_bytes e\<rparr>)"

definition cache_put :: "('d \<Rightarrow> int) \<Rightarrow> ('d \<Rightarrow> 'd) \<Rightarrow> 'd stage_cache \<Rightarrow> string option \<Rightarrow> 'd \<Rightarrow> 'd stage_cache" where
  "cache_put size_fn detach c key d =
     (case key of
        None \<Rightarrow> c
      | Some k \<Rightarrow>
          (let sz = size_fn d; c1 = pop_item c k in
           if (case max_bytes c1 of None \<Rightarrow> False | Some m \<Rightarrow> m < sz) then c1
           else evict_over_budget
             (c1\<lparr>items := items c1 @ [(k, \<lparr>entry_data = detach d, size_bytes = sz\<rparr>)],
                 current_bytes := current_bytes c1 + sz\<rparr>)))"

definition cache_clear :: "'d stage_cache \<Rightarrow> 'd stage_cache" where
  "cache_clear c = c\<lparr>items := [], current_bytes := 0\<rparr>"

text \<open>The identity test \<^verbatim>\<open>entry.data is not expected_data\<close> is equality of object references.\<close>

definition remove_if_same :: "'d stage_cache \<Rightarrow> string option \<Rightarrow> 'd \<Rightarrow> bool \<times> 'd stage_cache" where
  "remove_if_same c key d =
     (case key of
        None \<Rightarrow> (False, c)
      | Some k \<Rightarrow>
          (case dget (items c) k of
             None \<Rightarrow> (False, c)
           | Some e \<Rightarrow> if entry_data e \<noteq> d then (False, c) else (True, pop_item c k)))"

fun remove_keys :: "'d stage_cache \<Rightarrow> string list \<Rightarrow> nat \<times> 'd stage_cache" where
  "remove_keys c [] = (0, c)"
| "remove_keys c (k # ks) =
     (let (n, c') = remove_keys (pop_item c k) ks in (if dhas (items c) k then Suc n else n, c'))"

definition remove_if :: "'d stage_cache \<Rightarrow> (string \<Rightarrow> bool) \<Rightarrow> nat \<times> 'd stage_cache" where
  "remove_if c predicate = remove_keys c (filter predicate (map fst (items c)))"

definition cache_len :: "'d stage_cache \<Rightarrow> nat" where
  "cache_len c = length (items c)"

section \<open>Invariant\<close>

text \<open>
  Keys are distinct, the byte counter is the sum of the recorded sizes, sizes are not
  negative and both budgets hold.
\<close>

definition total_bytes :: "(string, 'd cache_entry) dict \<Rightarrow> int" where
  "total_bytes ps = sum_list (map (\<lambda>p. size_bytes (snd p)) ps)"

definition sizes_ok :: "(string, 'd cache_entry) dict \<Rightarrow> bool" where
  "sizes_ok ps = list_all (\<lambda>p. 0 \<le> size_bytes (snd p)) ps"

definition within :: "int option \<Rightarrow> int \<Rightarrow> bool" where
  "within lim n = (case lim of None \<Rightarrow> True | Some m \<Rightarrow> n \<le> m)"

definition cache_inv :: "'d stage_cache \<Rightarrow> bool" where
  "cache_inv c \<longleftrightarrow>
     dict_ok (items c) \<and> current_bytes c = total_bytes (items c) \<and> sizes_ok (items c) \<and>
     within (max_size c) (int (length (items c))) \<and> within (max_bytes c) (current_bytes c) \<and>
     (case max_size c of None \<Rightarrow> True | Some m \<Rightarrow> 0 \<le> m) \<and> (case max_bytes c of None \<Rightarrow> True | Some m \<Rightarrow> 0 \<le> m)"

text \<open>
  Budgets as a predicate on item lists, and the declarative form of eviction: drop the
  oldest items, as few as the budgets allow.
\<close>

definition fits :: "int option \<Rightarrow> int option \<Rightarrow> (string, 'd cache_entry) dict \<Rightarrow> bool" where
  "fits msize mbytes ps \<longleftrightarrow> within msize (int (length ps)) \<and> within mbytes (total_bytes ps)"

fun lru_trim :: "int option \<Rightarrow> int option \<Rightarrow> (string, 'd cache_entry) dict \<Rightarrow> (string, 'd cache_entry) dict" where
  "lru_trim msize mbytes [] = []"
| "lru_trim msize mbytes (p # ps) = (if fits msize mbytes (p # ps) then p # ps else lru_trim msize mbytes ps)"

lemma total_bytes_simps [simp]:
  "total_bytes [] = 0"
  "total_bytes (p # ps) = size_bytes (snd p) + total_bytes ps"
  "total_bytes (ps @ qs) = total_bytes ps + total_bytes qs"
  by (simp_all add: total_bytes_def)

lemma sizes_ok_simps [simp]:
  "sizes_ok []" "sizes_ok (p # ps) \<longleftrightarrow> 0 \<le> size_bytes (snd p) \<and> sizes_ok ps"
  "sizes_ok (ps @ qs) \<longleftrightarrow> sizes_ok ps \<and> sizes_ok qs"
  by (simp_all add: sizes_ok_def)

lemma within_simps [simp]: "within None n" "within (Some m) n \<longleftrightarrow> n \<le> m"
  by (simp_all add: within_def)

lemma total_bytes_nonneg: "sizes_ok ps \<Longrightarrow> 0 \<le> total_bytes ps"
  by (induction ps) auto

lemma total_bytes_ddel:
  "dict_ok ps \<Longrightarrow> dget ps k = Some e \<Longrightarrow> total_bytes (ddel ps k) = total_bytes ps - size_bytes e"
  by (induction ps) (auto simp: dict_ok_def map_of_eq_None_iff [symmetric] split: if_splits)

lemma sizes_ok_ddel: "sizes_ok ps \<Longrightarrow> sizes_ok (ddel ps k)"
  by (induction ps) auto

section \<open>Eviction is least-recently-used trimming\<close>

lemma evict_count_trim:
  "0 \<le> m \<Longrightarrow> evict_count m ps (total_bytes ps) ev =
     (let qs = lru_trim (Some m) None ps in (qs, total_bytes qs, ev + (length ps - length qs)))"
proof (induction ps arbitrary: ev)
  case (Cons p ps)
  have "length (lru_trim (Some m) None ps) \<le> length ps" by (induction ps) auto
  with Cons show ?case by (auto simp: Let_def fits_def)
qed simp

lemma evict_bytes_trim:
  "0 \<le> m \<Longrightarrow> evict_bytes m ps (total_bytes ps) ev =
     (let qs = lru_trim None (Some m) ps in (qs, total_bytes qs, ev + (length ps - length qs)))"
proof (induction ps arbitrary: ev)
  case (Cons p ps)
  have "length (lru_trim None (Some m) ps) \<le> length ps" by (induction ps) auto
  with Cons show ?case by (auto simp: Let_def fits_def)
qed simp

lemma lru_trim_none [simp]: "lru_trim None None ps = ps"
  by (cases ps) (auto simp: fits_def)

lemma lru_trim_within: "within a (int (length ps)) \<Longrightarrow> lru_trim a b ps = lru_trim None b ps"
  by (induction ps) (auto simp: fits_def within_def split: option.splits)

lemma lru_trim_both: "lru_trim None b (lru_trim a None ps) = lru_trim a b ps"
proof (induction ps)
  case (Cons p ps)
  show ?case
  proof (cases "within a (int (length (p # ps)))")
    case True
    then show ?thesis using lru_trim_within [of a "p # ps"] by (simp add: fits_def)
  next
    case False
    with Cons show ?thesis by (simp add: fits_def)
  qed
qed simp

lemma lru_trim_drop:
  "\<exists>n\<le>length ps. lru_trim a b ps = drop n ps \<and> (\<forall>i<n. \<not> fits a b (drop i ps))"
proof (induction ps)
  case (Cons p ps)
  then obtain n where n: "n \<le> length ps" "lru_trim a b ps = drop n ps" "\<forall>i<n. \<not> fits a b (drop i ps)" by blast
  show ?case
  proof (cases "fits a b (p # ps)")
    case True
    then show ?thesis by (intro exI [where x = 0]) simp
  next
    case False
    with n show ?thesis by (intro exI [where x = "Suc n"]) (auto simp: less_Suc_eq_0_disj)
  qed
qed simp

lemma lru_trim_fits:
  "(case a of None \<Rightarrow> True | Some m \<Rightarrow> 0 \<le> m) \<Longrightarrow> (case b of None \<Rightarrow> True | Some m \<Rightarrow> 0 \<le> m) \<Longrightarrow>
   fits a b (lru_trim a b ps)"
  by (induction ps) (auto simp: fits_def within_def split: option.splits)

lemma length_lru_trim: "length (lru_trim a b ps) \<le> length ps"
  by (induction ps) auto

lemma sizes_ok_trim: "sizes_ok ps \<Longrightarrow> sizes_ok (lru_trim a b ps)"
  by (induction ps) auto

lemma dict_ok_trim: "dict_ok ps \<Longrightarrow> dict_ok (lru_trim a b ps)"
  using lru_trim_drop [of ps a b] by (auto simp: dict_ok_def drop_map [symmetric])

lemma dget_trim: "dict_ok ps \<Longrightarrow> dget (lru_trim a b ps) k = Some e \<Longrightarrow> dget ps k = Some e"
  by (metis dict_ok_in_set dict_ok_trim in_set_dropD lru_trim_drop)

lemma evict_over_budget_trim:
  assumes "current_bytes c = total_bytes (items c)"
    and "case max_size c of None \<Rightarrow> True | Some m \<Rightarrow> 0 \<le> m" "case max_bytes c of None \<Rightarrow> True | Some m \<Rightarrow> 0 \<le> m"
  shows "evict_over_budget c = (let qs = lru_trim (max_size c) (max_bytes c) (items c) in
     c\<lparr>items := qs, current_bytes := total_bytes qs, eviction_count := eviction_count c + (length (items c) - length qs)\<rparr>)"
proof -
  let ?ps = "items c" and ?q = "lru_trim (max_size c) None (items c)"
  have both: "lru_trim None b ?q = lru_trim (max_size c) b ?ps" for b by (rule lru_trim_both)
  have len: "length (lru_trim (max_size c) b ?ps) \<le> length ?q" "length ?q \<le> length ?ps" for b
    using length_lru_trim [of None b ?q] length_lru_trim [of "max_size c" None ?ps] both by simp_all
  have ev: "n + length ?ps - length (lru_trim (max_size c) b ?ps) = n + (length ?ps - length (lru_trim (max_size c) b ?ps))" for n b
    using len(1) [of b] len(2) by linarith
  show ?thesis
  proof (cases "max_size c")
    case None
    with assms show ?thesis
      by (cases "max_bytes c") (simp_all add: evict_over_budget_def evict_bytes_trim Let_def)
  next
    case (Some m)
    with assms both [of "max_bytes c"] len(2) ev [of _ "max_bytes c"] len(1) [of "max_bytes c"] show ?thesis
      by (cases "max_bytes c") (simp_all add: evict_over_budget_def evict_count_trim evict_bytes_trim Let_def)
  qed
qed

section \<open>Every operation keeps the invariant\<close>

lemma fits_mono: "fits a b qs \<Longrightarrow> length ps \<le> length qs \<Longrightarrow> total_bytes ps \<le> total_bytes qs \<Longrightarrow> fits a b ps"
  by (auto simp: fits_def within_def split: option.splits)

lemma cache_inv_fits: "cache_inv c \<Longrightarrow> fits (max_size c) (max_bytes c) (items c)"
  by (auto simp: cache_inv_def fits_def)

lemma pop_item_fields [simp]:
  "max_size (pop_item c k) = max_size c" "max_bytes (pop_item c k) = max_bytes c"
  "items (pop_item c k) = ddel (items c) k" "eviction_count (pop_item c k) = eviction_count c"
  by (simp_all add: pop_item_def split: option.splits)

lemma entry_size_nonneg:
  "dict_ok ps \<Longrightarrow> sizes_ok ps \<Longrightarrow> dget ps k = Some e \<Longrightarrow> 0 \<le> size_bytes e"
  by (auto simp: sizes_ok_def list_all_iff dict_ok_in_set [symmetric])

lemma cache_inv_pop_item [inv_rules]:
  assumes inv: "cache_inv c" shows "cache_inv (pop_item c k)"
proof (cases "dget (items c) k")
  case (Some e)
  have ok: "dict_ok (items c)" "sizes_ok (items c)" using inv by (simp_all add: cache_inv_def)
  have "0 \<le> size_bytes e" using ok Some by (rule entry_size_nonneg)
  then have "fits (max_size c) (max_bytes c) (ddel (items c) k)"
    by (intro fits_mono [OF cache_inv_fits [OF inv]])
      (use ok Some in \<open>auto simp: total_bytes_ddel length_ddel\<close>)
  with inv ok Some show ?thesis
    by (simp add: cache_inv_def pop_item_def total_bytes_ddel sizes_ok_ddel fits_def)
qed (simp add: inv pop_item_def)

lemma cache_put_result:
  assumes inv: "cache_inv c" and sz: "within (max_bytes c) (size_fn d)"
  shows "items (cache_put size_fn detach c (Some k) d) =
      lru_trim (max_size c) (max_bytes c) (ddel (items c) k @ [(k, \<lparr>entry_data = detach d, size_bytes = size_fn d\<rparr>)])"
    and "current_bytes (cache_put size_fn detach c (Some k) d) = total_bytes (items (cache_put size_fn detach c (Some k) d))"
    and "max_size (cache_put size_fn detach c (Some k) d) = max_size c"
    and "max_bytes (cache_put size_fn detach c (Some k) d) = max_bytes c"
proof -
  let ?c1 = "pop_item c k" and ?e = "\<lparr>entry_data = detach d, size_bytes = size_fn d\<rparr>"
  let ?c2 = "?c1\<lparr>items := items ?c1 @ [(k, ?e)], current_bytes := current_bytes ?c1 + size_fn d\<rparr>"
  have "current_bytes ?c1 = total_bytes (items ?c1)" using cache_inv_pop_item [OF inv, of k] by (simp add: cache_inv_def)
  then have "evict_over_budget ?c2 = (let qs = lru_trim (max_size c) (max_bytes c) (items ?c2) in
      ?c2\<lparr>items := qs, current_bytes := total_bytes qs, eviction_count := eviction_count ?c2 + (length (items ?c2) - length qs)\<rparr>)"
    using inv by (subst evict_over_budget_trim) (simp_all add: cache_inv_def)
  moreover have "cache_put size_fn detach c (Some k) d = evict_over_budget ?c2"
    using sz by (simp add: cache_put_def Let_def within_def split: option.splits)
  ultimately show "items (cache_put size_fn detach c (Some k) d) = lru_trim (max_size c) (max_bytes c) (ddel (items c) k @ [(k, ?e)])"
    "current_bytes (cache_put size_fn detach c (Some k) d) = total_bytes (items (cache_put size_fn detach c (Some k) d))"
    "max_size (cache_put size_fn detach c (Some k) d) = max_size c"
    "max_bytes (cache_put size_fn detach c (Some k) d) = max_bytes c"
    by (simp_all add: Let_def)
qed

lemma cache_put_oversized:
  "\<not> within (max_bytes c) (size_fn d) \<Longrightarrow> cache_put size_fn detach c (Some k) d = pop_item c k"
  by (simp add: cache_put_def Let_def within_def split: option.splits)

lemma dict_ok_move_to_end: "dict_ok ps \<Longrightarrow> dict_ok (ddel ps k @ [(k, e)])"
  using dict_ok_ddel [of ps k] by (auto simp: dict_ok_def AList.delete_keys)

lemma cache_inv_put [inv_rules]:
  assumes inv: "cache_inv c" and pos: "\<And>d. 0 \<le> size_fn d"
  shows "cache_inv (cache_put size_fn detach c key d)"
proof (cases key)
  case (Some k)
  show ?thesis
  proof (cases "within (max_bytes c) (size_fn d)")
    case True
    note put = cache_put_result [where size_fn = size_fn and d = d and detach = detach, OF inv True, of k]
    have lim: "case max_size c of None \<Rightarrow> True | Some m \<Rightarrow> 0 \<le> m" "case max_bytes c of None \<Rightarrow> True | Some m \<Rightarrow> 0 \<le> m"
      using inv by (simp_all add: cache_inv_def)
    have "dict_ok (items c)" "sizes_ok (items c)" using inv by (simp_all add: cache_inv_def)
    then show ?thesis unfolding Some cache_inv_def put(2-4) using lim lru_trim_fits [OF lim] put(1) pos
      by (simp add: fits_def dict_ok_trim sizes_ok_trim sizes_ok_ddel dict_ok_move_to_end)
  qed (simp add: Some cache_put_oversized cache_inv_pop_item inv)
qed (simp add: cache_put_def inv)

lemma cache_inv_get [inv_rules]:
  assumes inv: "cache_inv c" shows "cache_inv (snd (cache_get c key))"
proof (cases "key = None \<or> dget (items c) (the key) = None")
  case True
  with inv show ?thesis by (auto simp: cache_get_def split: option.splits)
next
  case False
  then obtain k e where k: "key = Some k" "dget (items c) k = Some e" by auto
  have ok: "dict_ok (items c)" "sizes_ok (items c)" using inv by (auto simp: cache_inv_def)
  let ?ps = "ddel (items c) k @ [(k, e)]"
  have "items c \<noteq> []" using k by auto
  then have "length ?ps = length (items c)" "total_bytes ?ps = total_bytes (items c)" "sizes_ok ?ps" "dict_ok ?ps"
    using ok k entry_size_nonneg [OF ok k(2)]
    by (simp_all add: length_ddel dhas_dget total_bytes_ddel sizes_ok_ddel dict_ok_move_to_end)
  moreover have "snd (cache_get c key) = c\<lparr>items := ?ps\<rparr>" using k by (simp add: cache_get_def)
  ultimately show ?thesis using inv by (auto simp: cache_inv_def)
qed

lemma cache_inv_clear [inv_rules]: "cache_inv c \<Longrightarrow> cache_inv (cache_clear c)"
  by (auto simp: cache_inv_def cache_clear_def within_def split: option.splits)

lemma cache_inv_remove_if_same [inv_rules]: "cache_inv c \<Longrightarrow> cache_inv (snd (remove_if_same c key d))"
  by (auto simp: remove_if_same_def inv_rules split: option.splits)

lemma cache_inv_remove_keys [inv_rules]: "cache_inv c \<Longrightarrow> cache_inv (snd (remove_keys c ks))"
  by (induction ks arbitrary: c) (auto simp: inv_rules case_prod_unfold Let_def)

lemma cache_init_inv: "cache_init msize mbytes device pin = Inr c \<Longrightarrow> cache_inv c"
  by (auto simp: cache_init_def cache_inv_def within_def split: if_splits option.splits)

section \<open>As a state machine\<close>

text \<open>\<open>RemoveKeys\<close> is the second section of \<open>remove_if\<close>, for keys a snapshot of any age selected.\<close>

datatype 'd cache_op =
    CGet "string option"
  | CPut "string option" 'd
  | CClear
  | CRemoveIfSame "string option" 'd
  | CRemoveKeys "string list"

fun cache_step :: "('d \<Rightarrow> int) \<Rightarrow> ('d \<Rightarrow> 'd) \<Rightarrow> 'd stage_cache \<Rightarrow> 'd cache_op \<Rightarrow> 'd stage_cache" where
  "cache_step size_fn detach c (CGet k) = snd (cache_get c k)"
| "cache_step size_fn detach c (CPut k d) = cache_put size_fn detach c k d"
| "cache_step size_fn detach c CClear = cache_clear c"
| "cache_step size_fn detach c (CRemoveIfSame k d) = snd (remove_if_same c k d)"
| "cache_step size_fn detach c (CRemoveKeys ks) = snd (remove_keys c ks)"

text \<open>Entries record the size of the value handed in, under the key it was handed in with.\<close>

definition true_sizes :: "('d \<Rightarrow> int) \<Rightarrow> ('d \<Rightarrow> 'd) \<Rightarrow> 'd stage_cache \<Rightarrow> bool" where
  "true_sizes size_fn detach c \<longleftrightarrow>
     (\<forall>k e. dget (items c) k = Some e \<longrightarrow> (\<exists>d. entry_data e = detach d \<and> size_bytes e = size_fn d))"

locale sized_cache =
  fixes size_fn :: "'d \<Rightarrow> int" and detach :: "'d \<Rightarrow> 'd"
  assumes size_nonneg: "0 \<le> size_fn d"
begin

lemma true_sizes_sub:
  "true_sizes size_fn detach c \<Longrightarrow> (\<And>k e. dget (items c') k = Some e \<Longrightarrow> dget (items c) k = Some e) \<Longrightarrow> true_sizes size_fn detach c'"
  unfolding true_sizes_def by blast

lemma true_sizes_put:
  assumes "cache_inv c" "true_sizes size_fn detach c"
  shows "true_sizes size_fn detach (cache_put size_fn detach c key d)"
proof (cases key)
  case (Some k)
  show ?thesis
  proof (cases "within (max_bytes c) (size_fn d)")
    case True
    have ok: "dict_ok (ddel (items c) k @ [(k, \<lparr>entry_data = detach d, size_bytes = size_fn d\<rparr>)])"
      using assms(1) by (intro dict_ok_move_to_end) (simp add: cache_inv_def)
    show ?thesis unfolding true_sizes_def Some cache_put_result(1) [where size_fn = size_fn and d = d, OF assms(1) True]
    proof (intro allI impI)
      fix j e
      assume "dget (lru_trim (max_size c) (max_bytes c) (ddel (items c) k @ [(k, \<lparr>entry_data = detach d, size_bytes = size_fn d\<rparr>)])) j = Some e"
      from dget_trim [OF ok this] assms(2) show "\<exists>d. entry_data e = detach d \<and> size_bytes e = size_fn d"
        by (auto simp: true_sizes_def map_add_def split: if_splits option.splits)
    qed
  next
    case False
    show ?thesis unfolding Some cache_put_oversized [where size_fn = size_fn and d = d, OF False]
      by (rule true_sizes_sub [OF assms(2)]) (auto split: if_splits)
  qed
qed (simp add: cache_put_def assms(2))

lemma true_sizes_remove_keys: "true_sizes size_fn detach c \<Longrightarrow> true_sizes size_fn detach (snd (remove_keys c ks))"
proof (induction ks arbitrary: c)
  case (Cons k ks)
  have "true_sizes size_fn detach (pop_item c k)" by (rule true_sizes_sub [OF Cons.prems]) (auto split: if_splits)
  from Cons.IH [OF this] show ?case by (simp add: case_prod_unfold Let_def)
qed simp

lemma true_sizes_get: "true_sizes size_fn detach c \<Longrightarrow> true_sizes size_fn detach (snd (cache_get c key))"
  by (auto simp: true_sizes_def cache_get_def map_add_def split: option.splits if_splits)

lemma true_sizes_remove_if_same: "true_sizes size_fn detach c \<Longrightarrow> true_sizes size_fn detach (snd (remove_if_same c key d))"
  by (auto simp: true_sizes_def remove_if_same_def split: option.splits if_splits)

lemma cache_step_inv:
  "cache_inv c \<and> true_sizes size_fn detach c \<Longrightarrow>
   cache_inv (cache_step size_fn detach c op) \<and> true_sizes size_fn detach (cache_step size_fn detach c op)"
  by (cases op) (auto simp: inv_rules size_nonneg true_sizes_put true_sizes_get true_sizes_remove_if_same
      true_sizes_remove_keys, simp_all add: cache_clear_def true_sizes_def)

end

sublocale sized_cache \<subseteq> cm: machine "cache_step size_fn detach" "\<lambda>c. cache_inv c \<and> true_sizes size_fn detach c"
  by unfold_locales (rule cache_step_inv)

lemma value_size_nonneg: "0 \<le> value_size_bytes T v"
  by (induction v) (auto intro!: sum_list_nonneg)

interpretation stc: sized_cache "value_size_bytes T" "detach_value T device pin" for T device pin
  by unfold_locales (rule value_size_nonneg)

section \<open>The store contract\<close>

text \<open>
  What a client of the cache relies on: a lookup never invents a value, a put can change
  other keys only by dropping them, and \<open>remove_if\<close> drops exactly the selected keys.
\<close>

locale lossy_store =
  fixes lookup :: "'s \<Rightarrow> string \<Rightarrow> 'd option"
    and get :: "'s \<Rightarrow> string \<Rightarrow> 'd option \<times> 's"
    and put :: "'s \<Rightarrow> string \<Rightarrow> 'd \<Rightarrow> 's"
    and remove :: "'s \<Rightarrow> (string \<Rightarrow> bool) \<Rightarrow> 's"
    and stored :: "'d \<Rightarrow> 'd"
    and inv :: "'s \<Rightarrow> bool"
  assumes get_value: "inv s \<Longrightarrow> fst (get s k) = lookup s k"
    and get_lookup: "inv s \<Longrightarrow> lookup (snd (get s k)) j = lookup s j"
    and put_lookup: "inv s \<Longrightarrow> lookup (put s k d) j = Some x \<Longrightarrow> if j = k then x = stored d else lookup s j = Some x"
    and remove_lookup: "inv s \<Longrightarrow> lookup (remove s P) j = (if P j then None else lookup s j)"
    and inv_get: "inv s \<Longrightarrow> inv (snd (get s k))"
    and inv_put: "inv s \<Longrightarrow> inv (put s k d)"
    and inv_remove: "inv s \<Longrightarrow> inv (remove s P)"
begin

lemma put_absent: "inv s \<Longrightarrow> lookup s j = None \<Longrightarrow> k \<noteq> j \<Longrightarrow> lookup (put s k d) j = None"
  by (cases "lookup (put s k d) j") (auto dest: put_lookup)

lemma remove_absent: "inv s \<Longrightarrow> lookup s j = None \<Longrightarrow> lookup (remove s P) j = None"
  by (simp add: remove_lookup)

end

definition cache_lookup :: "'d stage_cache \<Rightarrow> string \<Rightarrow> 'd option" where
  "cache_lookup c k = map_option entry_data (dget (items c) k)"

lemma remove_keys_items:
  "dget (items (snd (remove_keys c ks))) j = (if j \<in> set ks then None else dget (items c) j)"
  by (induction ks arbitrary: c) (auto simp: case_prod_unfold Let_def)

lemma remove_if_items:
  "dget (items (snd (remove_if c P))) j = (if P j then None else dget (items c) j)"
  by (auto simp: remove_if_def remove_keys_items map_of_eq_None_iff image_iff split: if_splits)

lemma cache_put_lookup:
  assumes inv: "cache_inv c" and l: "cache_lookup (cache_put size_fn detach c (Some k) d) j = Some x"
  shows "if j = k then x = detach d else cache_lookup c j = Some x"
proof (cases "within (max_bytes c) (size_fn d)")
  case True
  have ok: "dict_ok (ddel (items c) k @ [(k, \<lparr>entry_data = detach d, size_bytes = size_fn d\<rparr>)])"
    using inv by (intro dict_ok_move_to_end) (simp add: cache_inv_def)
  from l obtain e where e: "dget (items (cache_put size_fn detach c (Some k) d)) j = Some e" "x = entry_data e"
    by (auto simp: cache_lookup_def)
  from dget_trim [OF ok e(1) [unfolded cache_put_result(1) [where size_fn = size_fn and d = d, OF inv True]]] e(2) show ?thesis
    by (auto simp: cache_lookup_def map_add_def split: option.splits if_splits)
next
  case False
  show ?thesis using l unfolding cache_put_oversized [where size_fn = size_fn and d = d, OF False]
    by (auto simp: cache_lookup_def split: if_splits)
qed

lemma cache_get_lookup: "cache_lookup (snd (cache_get c (Some k))) j = cache_lookup c j"
  by (auto simp: cache_lookup_def cache_get_def map_add_def split: option.splits)

sublocale sized_cache \<subseteq> store: lossy_store cache_lookup "\<lambda>c k. cache_get c (Some k)" "\<lambda>c k. cache_put size_fn detach c (Some k)"
  "\<lambda>c P. snd (remove_if c P)" detach cache_inv
  by unfold_locales
    (auto simp: cache_get_lookup inv_rules size_nonneg remove_if_def dest: cache_put_lookup,
     auto simp: cache_lookup_def cache_get_def remove_if_items [unfolded remove_if_def] split: option.splits)

lemma remove_keys_limits: "max_size (snd (remove_keys c ks)) = max_size c \<and> max_bytes (snd (remove_keys c ks)) = max_bytes c"
  by (induction ks arbitrary: c) (auto simp: case_prod_unfold Let_def)

lemma cache_step_limits:
  "max_size (cache_step size_fn detach c op) = max_size c" "max_bytes (cache_step size_fn detach c op) = max_bytes c"
  by (cases op; simp add: cache_get_def cache_put_def cache_clear_def remove_if_same_def evict_over_budget_def Let_def
      remove_keys_limits case_prod_unfold split: option.split)+

lemma run_limits:
  "max_size (run (cache_step size_fn detach) c ops) = max_size c" "max_bytes (run (cache_step size_fn detach) c ops) = max_bytes c"
  by (induction ops arbitrary: c) (simp_all add: cache_step_limits)

section \<open>Properties\<close>

definition torch_keeps_size :: "'t torch \<Rightarrow> bool" where
  "torch_keeps_size T \<longleftrightarrow>
     (\<forall>t. t_bytes T (t_detach T t) = t_bytes T t) \<and>
     (\<forall>t h. t_pin_copy T t = Some h \<longrightarrow> t_bytes T h = t_bytes T t) \<and>
     (\<forall>dev t. t_bytes T (t_to T dev t) = t_bytes T t)"

lemma detach_tensor_bytes: "torch_keeps_size T \<Longrightarrow> t_bytes T (detach_tensor T device pin t) = t_bytes T t"
  by (auto simp: torch_keeps_size_def detach_tensor_def to_pinned_host_def Let_def split: option.splits)

lemma detach_value_bytes:
  assumes T: "torch_keeps_size T"
  shows "value_size_bytes T (detach_value T device pin v) = value_size_bytes T v"
proof (induction v)
  case (VDict kvs)
  then show ?case by (auto intro!: arg_cong [where f = sum_list] simp: snd_map_prod)
next
  case (VSeq tup vs)
  then show ?case by (auto intro!: arg_cong [where f = sum_list])
qed (simp_all add: detach_tensor_bytes [OF T])

text \<open>
  C19: over every sequence of operations of a cache that was created with valid limits, the
  number of entries stays within \<^verbatim>\<open>max_size\<close>, and \<^verbatim>\<open>current_bytes\<close> is exactly the total size of
  the values that are stored and stays within \<^verbatim>\<open>max_bytes\<close>. The hypothesis on torch is that
  detaching, pinning and moving a tensor keep its number of bytes.
\<close>

theorem stage_cache_within_budget:
  assumes init: "cache_init msize mbytes device pin = Inr c0" and T: "torch_keeps_size T"
  shows "let c = run (cache_step (value_size_bytes T) (detach_value T device pin)) c0 ops in
    within msize (int (cache_len c)) \<and> within mbytes (current_bytes c) \<and>
    current_bytes c = sum_list (map (\<lambda>(k, e). value_size_bytes T (entry_data e)) (items c))"
proof -
  let ?step = "cache_step (value_size_bytes T) (detach_value T device pin)"
  let ?c = "run ?step c0 ops"
  have "items c0 = []" "max_size c0 = msize" "max_bytes c0 = mbytes"
    using init by (auto simp: cache_init_def split: if_splits)
  then have inv: "cache_inv ?c" and tr: "true_sizes (value_size_bytes T) (detach_value T device pin) ?c"
    and lim: "max_size ?c = msize" "max_bytes ?c = mbytes"
    using stc.cm.inv_run [of c0 T device pin ops] cache_init_inv [OF init]
    by (simp_all add: true_sizes_def run_limits)
  have "size_bytes e = value_size_bytes T (entry_data e)" if "(k, e) \<in> set (items ?c)" for k e
  proof -
    have "dict_ok (items ?c)" using inv by (simp only: cache_inv_def)
    with that have "dget (items ?c) k = Some e" by (simp only: dict_ok_in_set)
    then obtain d where "entry_data e = detach_value T device pin d" "size_bytes e = value_size_bytes T d"
      using tr unfolding true_sizes_def by blast
    then show ?thesis using detach_value_bytes [OF T] by simp
  qed
  then have "total_bytes (items ?c) = sum_list (map (\<lambda>(k, e). value_size_bytes T (entry_data e)) (items ?c))"
    unfolding total_bytes_def by (intro arg_cong [where f = sum_list]) (auto intro: map_cong)
  with inv lim show ?thesis by (auto simp: Let_def cache_inv_def cache_len_def)
qed

theorem stage_cache_within_budget_witness:
  "let c = run (cache_step (value_size_bytes \<lparr>t_bytes = \<lambda>n. n, t_detach = \<lambda>n. n, t_is_pinned = \<lambda>_. False, t_pin_copy = \<lambda>_. None, t_to = \<lambda>_ n. n\<rparr>)
        (detach_value \<lparr>t_bytes = \<lambda>n. n, t_detach = \<lambda>n. n, t_is_pinned = \<lambda>_. False, t_pin_copy = \<lambda>_. None, t_to = \<lambda>_ n. n\<rparr> (Some ''cpu'') True))
        \<lparr>items = [], max_size = Some 2, max_bytes = Some 10, current_bytes = 0, eviction_count = 0\<rparr>
        [CPut (Some ''a'') (VTensor 4), CPut (Some ''b'') (VBytes 7)] in
    within (Some 2) (int (cache_len c)) \<and> within (Some 10) (current_bytes c) \<and>
    current_bytes c = sum_list (map (\<lambda>(k, e). value_size_bytes \<lparr>t_bytes = \<lambda>n. n, t_detach = \<lambda>n. n, t_is_pinned = \<lambda>_. False, t_pin_copy = \<lambda>_. None, t_to = \<lambda>_ n. n\<rparr> (entry_data e)) (items c))"
  by (rule stage_cache_within_budget) (simp_all add: cache_init_def torch_keeps_size_def)

text \<open>
  A put that fits the byte budget evicts by least recent use and no more than needed: the
  resulting items are the items without the key, in order of use, with the new entry last,
  less a prefix; they fit both limits, and no shorter prefix would have done.
\<close>

theorem put_evicts_least_recent:
  assumes inv: "cache_inv c" and sz: "within (max_bytes c) (size_fn d)"
  shows "\<exists>n. items (cache_put size_fn detach c (Some k) d) =
        drop n (ddel (items c) k @ [(k, \<lparr>entry_data = detach d, size_bytes = size_fn d\<rparr>)]) \<and>
      fits (max_size c) (max_bytes c) (items (cache_put size_fn detach c (Some k) d)) \<and>
      (\<forall>i<n. \<not> fits (max_size c) (max_bytes c)
         (drop i (ddel (items c) k @ [(k, \<lparr>entry_data = detach d, size_bytes = size_fn d\<rparr>)])))"
proof -
  have lim: "case max_size c of None \<Rightarrow> True | Some m \<Rightarrow> 0 \<le> m" "case max_bytes c of None \<Rightarrow> True | Some m \<Rightarrow> 0 \<le> m"
    using inv by (auto simp: cache_inv_def)
  show ?thesis unfolding cache_put_result(1) [where size_fn = size_fn and d = d, OF inv sz]
    using lru_trim_drop lru_trim_fits [OF lim] by blast
qed

definition demo_cache :: "nat stage_cache" where
  "demo_cache = \<lparr>items = [(''a'', \<lparr>entry_data = 1, size_bytes = 4\<rparr>), (''b'', \<lparr>entry_data = 2, size_bytes = 5\<rparr>)],
     max_size = Some 3, max_bytes = Some 10, current_bytes = 9, eviction_count = 0\<rparr>"

lemma demo_cache_inv: "cache_inv demo_cache"
  by (simp add: demo_cache_def cache_inv_def dict_ok_def)

theorem put_evicts_least_recent_witness:
  "\<exists>n. items (cache_put int id demo_cache (Some ''c'') 3) =
        drop n (ddel (items demo_cache) ''c'' @ [(''c'', \<lparr>entry_data = id 3, size_bytes = int 3\<rparr>)]) \<and>
      fits (max_size demo_cache) (max_bytes demo_cache) (items (cache_put int id demo_cache (Some ''c'') 3)) \<and>
      (\<forall>i<n. \<not> fits (max_size demo_cache) (max_bytes demo_cache)
         (drop i (ddel (items demo_cache) ''c'' @ [(''c'', \<lparr>entry_data = id 3, size_bytes = int 3\<rparr>)])))"
  by (rule put_evicts_least_recent) (simp_all add: demo_cache_inv, simp add: demo_cache_def)

text \<open>
  What was put is what is got: when the value fits the byte budget and the cache may hold
  an entry at all, the entry just put survives the eviction, so a get of its key returns the
  detached value; a value too large is not stored and the stale value of its key is gone.
\<close>

theorem put_then_get:
  assumes inv: "cache_inv c" and room: "max_size c \<noteq> Some 0"
  shows "fst (cache_get (cache_put size_fn detach c (Some k) d) (Some k)) =
    (if within (max_bytes c) (size_fn d) then Some (detach d) else None)"
proof (cases "within (max_bytes c) (size_fn d)")
  case True
  let ?e = "\<lparr>entry_data = detach d, size_bytes = size_fn d\<rparr>"
  have "within (max_size c) 1" using inv room by (auto simp: cache_inv_def within_def split: option.splits)
  then have "lru_trim (max_size c) (max_bytes c) (ps @ [(k, ?e)]) \<noteq> []" for ps
    by (induction ps) (auto simp: fits_def True)
  then obtain n where n: "items (cache_put size_fn detach c (Some k) d) = drop n (ddel (items c) k) @ [(k, ?e)]"
    using lru_trim_drop [of "ddel (items c) k @ [(k, ?e)]" "max_size c" "max_bytes c"]
    unfolding cache_put_result(1) [where size_fn = size_fn and d = d, OF inv True]
    by (metis append_Nil2 diff_is_0_eq drop_append drop_eq_Nil length_append_singleton not_less_eq_eq self_append_conv2 diff_is_0_eq drop0)
  have "k \<notin> fst ` set (drop n (ddel (items c) k))" 
    by (auto dest: in_set_dropD simp: AList.delete_eq)
  then have "dget (items (cache_put size_fn detach c (Some k) d)) k = Some ?e"
    unfolding n by (simp add: map_add_def map_of_eq_None_iff [symmetric])
  with True show ?thesis by (simp add: cache_get_def)
next
  case False
  then show ?thesis by (simp add: cache_put_oversized cache_get_def)
qed

theorem put_then_get_witness:
  "fst (cache_get (cache_put int id demo_cache (Some ''c'') 3) (Some ''c'')) =
     (if within (max_bytes demo_cache) (int 3) then Some (id 3) else None)"
  by (rule put_then_get [OF demo_cache_inv]) (simp add: demo_cache_def)

end
