(* ===== verification/Speaker_Cache.thy ===== *)
theory Speaker_Cache
  imports Stage_Cache Py_Strings
begin

text \<open>
  The cache of uploaded-speaker artifacts, \<^verbatim>\<open>sglang_omni/scheduling/speaker_cache.py\<close>: a
  client of the stage cache that encodes a structured key into one string and clears all
  artifacts of a voice by decoding the stored keys. Every method holds the cache's own
  re-entrant lock, so the two sections of \<open>remove_if\<close> are never separated here.
\<close>

section \<open>Keys\<close>

record speaker_key =
  model_type :: string
  voice_name :: string
  voice_version :: int
  artifact_kind :: string

definition KEY_SEPARATOR :: char where
  "KEY_SEPARATOR = CHR 0x1F"

definition encode_key :: "speaker_key \<Rightarrow> string" where
  "encode_key k =
     model_type k @ KEY_SEPARATOR # voice_name k @ KEY_SEPARATOR # show_int (voice_version k) @
     KEY_SEPARATOR # artifact_kind k"

text \<open>\<^verbatim>\<open>key.split(sep, n)\<close> for a one-character separator.\<close>

fun split_max :: "char \<Rightarrow> nat \<Rightarrow> string \<Rightarrow> string list" where
  "split_max c 0 s = [s]"
| "split_max c (Suc n) s =
     (let a = takeWhile (\<lambda>x. x \<noteq> c) s; b = dropWhile (\<lambda>x. x \<noteq> c) s in
      case b of [] \<Rightarrow> [a] | _ # rest \<Rightarrow> a # split_max c n rest)"

definition encoded_key_voice_name :: "string \<Rightarrow> string" where
  "encoded_key_voice_name key =
     (let parts = split_max KEY_SEPARATOR 3 key in if length parts = 4 then parts ! 1 else [])"

section \<open>Size estimate\<close>

text \<open>
  \<^verbatim>\<open>estimate_cache_bytes\<close> on the artifacts voices have: missing values, byte and text strings,
  arrays and tensors (their \<^verbatim>\<open>nbytes\<close>), dictionaries, sequences and other objects. The
  interpreter's \<^verbatim>\<open>sys.getsizeof\<close> is the parameter \<open>sizeof\<close>; \<open>AOpaque\<close> is a tensor-like object
  whose size query raises.
\<close>

datatype artifact =
    ANone
  | ABytes nat
  | AText nat
  | AArray nat
  | AOpaque nat
  | ADict "(artifact \<times> artifact) list"
  | ASeq "artifact list"
  | AObject nat

fun estimate_cache_bytes :: "(artifact \<Rightarrow> nat) \<Rightarrow> artifact \<Rightarrow> int" where
  "estimate_cache_bytes sizeof ANone = 0"
| "estimate_cache_bytes sizeof (ABytes n) = int n"
| "estimate_cache_bytes sizeof (AText n) = int n"
| "estimate_cache_bytes sizeof (AArray n) = int n"
| "estimate_cache_bytes sizeof (AOpaque n) = int (sizeof (AOpaque n))"
| "estimate_cache_bytes sizeof (ADict kvs) =
     int (sizeof (ADict kvs)) + sum_list (map (\<lambda>(k, v). estimate_cache_bytes sizeof k + estimate_cache_bytes sizeof v) kvs)"
| "estimate_cache_bytes sizeof (ASeq vs) =
     int (sizeof (ASeq vs)) + sum_list (map (estimate_cache_bytes sizeof) vs)"
| "estimate_cache_bytes sizeof (AObject n) = int (sizeof (AObject n))"

section \<open>The cache\<close>

record 'd speaker_cache =
  inner :: "'d stage_cache"
  hit_count :: nat
  miss_count :: nat
  delete_invalidation_counter :: nat

datatype speaker_error = MaxBytesNotPositive

definition sp_init :: "int \<Rightarrow> speaker_error + 'd speaker_cache" where
  "sp_init mbytes =
     (if mbytes \<le> 0 then Inl MaxBytesNotPositive
      else Inr \<lparr>inner = \<lparr>items = [], max_size = None, max_bytes = Some mbytes, current_bytes = 0, eviction_count = 0\<rparr>,
                hit_count = 0, miss_count = 0, delete_invalidation_counter = 0\<rparr>)"

definition sp_get :: "'d speaker_cache \<Rightarrow> speaker_key \<Rightarrow> 'd option \<times> 'd speaker_cache" where
  "sp_get c key =
     (case cache_get (inner c) (Some (encode_key key)) of
        (None, i) \<Rightarrow> (None, c\<lparr>inner := i, miss_count := Suc (miss_count c)\<rparr>)
      | (Some v, i) \<Rightarrow> (Some v, c\<lparr>inner := i, hit_count := Suc (hit_count c)\<rparr>))"

definition sp_put :: "('d \<Rightarrow> int) \<Rightarrow> ('d \<Rightarrow> 'd) \<Rightarrow> 'd speaker_cache \<Rightarrow> speaker_key \<Rightarrow> 'd \<Rightarrow> 'd speaker_cache" where
  "sp_put size_fn detach c key v = c\<lparr>inner := cache_put size_fn detach (inner c) (Some (encode_key key)) v\<rparr>"

definition clear_voice :: "'d speaker_cache \<Rightarrow> string \<Rightarrow> 'd speaker_cache" where
  "clear_voice c voice =
     (let (n, i) = remove_if (inner c) (\<lambda>key. py_lower (encoded_key_voice_name key) = py_lower voice) in
      c\<lparr>inner := i, delete_invalidation_counter := delete_invalidation_counter c + n\<rparr>)"

definition sp_clear :: "'d speaker_cache \<Rightarrow> 'd speaker_cache" where
  "sp_clear c = c\<lparr>inner := cache_clear (inner c)\<rparr>"

text \<open>The fields of \<^verbatim>\<open>stats\<close> in the order of the dictionary the code returns.\<close>

definition sp_stats :: "'d speaker_cache \<Rightarrow> (string \<times> int) list" where
  "sp_stats c =
     [(''entries'', int (cache_len (inner c))),
      (''memory_bytes'', current_bytes (inner c)),
      (''max_bytes'', (case max_bytes (inner c) of None \<Rightarrow> 0 | Some m \<Rightarrow> m)),
      (''hit_count'', int (hit_count c)),
      (''miss_count'', int (miss_count c)),
      (''eviction_count'', int (eviction_count (inner c))),
      (''delete_invalidation_counter'', int (delete_invalidation_counter c))]"

section \<open>Key encoding\<close>

definition key_ok :: "speaker_key \<Rightarrow> bool" where
  "key_ok k \<longleftrightarrow> KEY_SEPARATOR \<notin> set (model_type k) \<and> KEY_SEPARATOR \<notin> set (voice_name k)"

lemma split_max_sep:
  assumes "c \<notin> set a" shows "split_max c (Suc n) (a @ c # b) = a # split_max c n b"
proof -
  have "takeWhile (\<lambda>x. x \<noteq> c) (a @ c # b) = a" "dropWhile (\<lambda>x. x \<noteq> c) (a @ c # b) = c # b"
    using assms by (induction a) auto
  then show ?thesis by (simp add: Let_def)
qed

lemma show_int_no_sep: "KEY_SEPARATOR \<notin> set (show_int i)"
proof -
  have "c \<noteq> KEY_SEPARATOR" if "dec_digit c" for c using that by (auto simp: KEY_SEPARATOR_def dec_digit_def)
  then show ?thesis using show_nat_digits by (auto simp: show_int_def list_all_iff KEY_SEPARATOR_def)
qed

lemma split_encode_key:
  assumes "key_ok k"
  shows "split_max KEY_SEPARATOR 3 (encode_key k) = [model_type k, voice_name k, show_int (voice_version k), artifact_kind k]"
  using assms split_max_sep show_int_no_sep by (simp add: key_ok_def encode_key_def numeral_3_eq_3 del: split_max.simps(2))

lemma encoded_voice: "key_ok k \<Longrightarrow> encoded_key_voice_name (encode_key k) = voice_name k"
  by (simp add: encoded_key_voice_name_def split_encode_key)

section \<open>As a client of the store\<close>

lemma estimate_nonneg: "0 \<le> estimate_cache_bytes sizeof a"
  by (induction sizeof a rule: estimate_cache_bytes.induct) (auto intro!: add_nonneg_nonneg sum_list_nonneg)

interpretation spc: sized_cache "estimate_cache_bytes sizeof" detach for sizeof detach
  by unfold_locales (rule estimate_nonneg)

datatype 'd sp_op =
    SpGet speaker_key
  | SpPut speaker_key 'd
  | SpClearVoice string
  | SpClear

fun sp_step :: "('d \<Rightarrow> int) \<Rightarrow> ('d \<Rightarrow> 'd) \<Rightarrow> 'd speaker_cache \<Rightarrow> 'd sp_op \<Rightarrow> 'd speaker_cache" where
  "sp_step size_fn detach c (SpGet k) = snd (sp_get c k)"
| "sp_step size_fn detach c (SpPut k v) = sp_put size_fn detach c k v"
| "sp_step size_fn detach c (SpClearVoice v) = clear_voice c v"
| "sp_step size_fn detach c SpClear = sp_clear c"

lemma sp_get_inner [simp]: "inner (snd (sp_get c k)) = snd (cache_get (inner c) (Some (encode_key k)))"
  by (simp add: sp_get_def split: prod.split option.split)

lemma sp_get_fst: "fst (sp_get c k) = fst (cache_get (inner c) (Some (encode_key k)))"
  by (simp add: sp_get_def split: prod.split option.split)

lemma clear_voice_inner [simp]:
  "inner (clear_voice c v) = snd (remove_if (inner c) (\<lambda>key. py_lower (encoded_key_voice_name key) = py_lower v))"
  by (simp add: clear_voice_def case_prod_unfold Let_def)

lemma sp_inv_step:
  "cache_inv (inner c) \<Longrightarrow> cache_inv (inner (sp_step (estimate_cache_bytes sizeof) detach c op))"
  by (cases op) (simp_all add: inv_rules sp_put_def sp_clear_def spc.store.inv_put spc.store.inv_remove)

interpretation spm: machine "sp_step (estimate_cache_bytes sizeof) detach" "\<lambda>c. cache_inv (inner c)" for sizeof detach
  by unfold_locales (rule sp_inv_step)

lemma sp_absent_step:
  assumes inv: "cache_inv (inner c)" and none: "cache_lookup (inner c) e = None"
    and op: "\<And>k v. op = SpPut k v \<Longrightarrow> encode_key k \<noteq> e"
  shows "cache_lookup (inner (sp_step (estimate_cache_bytes sizeof) detach c op)) e = None"
proof (cases op)
  case (SpPut k v)
  with op have "encode_key k \<noteq> e" by blast
  with SpPut inv none show ?thesis by (simp add: sp_put_def spc.store.put_absent)
next
  case SpClear
  then show ?thesis by (simp add: sp_clear_def cache_clear_def cache_lookup_def)
qed (simp_all add: cache_get_lookup none spc.store.remove_absent [OF inv none])

lemma sp_absent_run:
  assumes "cache_inv (inner c)" "cache_lookup (inner c) e = None"
    and "\<forall>op\<in>set ops. \<forall>k v. op = SpPut k v \<longrightarrow> encode_key k \<noteq> e"
  shows "cache_lookup (inner (run (sp_step (estimate_cache_bytes sizeof) detach) c ops)) e = None"
  using assms
proof (induction ops arbitrary: c)
  case (Cons op ops)
  have "cache_lookup (inner (sp_step (estimate_cache_bytes sizeof) detach c op)) e = None"
    by (rule sp_absent_step) (use Cons.prems in auto)
  with Cons sp_inv_step [OF Cons.prems(1)] show ?case by simp
qed simp

section \<open>Properties\<close>

text \<open>
  The key encoding loses nothing: for keys whose model type and voice name are free of
  the separator character the encoding is injective and the voice name is recovered from it.
\<close>

theorem speaker_key_roundtrip:
  assumes "key_ok k" "key_ok k'"
  shows "encoded_key_voice_name (encode_key k) = voice_name k \<and> (encode_key k = encode_key k' \<longrightarrow> k = k')"
proof -
  have "k = k'" if "encode_key k = encode_key k'"
  proof -
    have "[model_type k, voice_name k, show_int (voice_version k), artifact_kind k] =
        [model_type k', voice_name k', show_int (voice_version k'), artifact_kind k']"
      using split_encode_key [OF assms(1)] split_encode_key [OF assms(2)] that by metis
    then show ?thesis by (intro speaker_key.equality) (simp_all add: show_int_inj)
  qed
  with encoded_voice [OF assms(1)] show ?thesis by blast
qed

theorem speaker_key_roundtrip_witness:
  "let k = \<lparr>model_type = ''tts'', voice_name = ''Ann'', voice_version = 3, artifact_kind = ''emb''\<rparr>;
       k' = \<lparr>model_type = ''tts'', voice_name = ''Ann'', voice_version = 4, artifact_kind = ''emb''\<rparr> in
   encoded_key_voice_name (encode_key k) = voice_name k \<and> (encode_key k = encode_key k' \<longrightarrow> k = k')"
  unfolding Let_def by (rule speaker_key_roundtrip) (simp_all add: key_ok_def KEY_SEPARATOR_def)

text \<open>
  C20: once a voice is cleared none of its artifacts is served. After \<open>clear_voice\<close>, for every
  key of that voice, whatever the case of the name, and every sequence of operations that
  does not put a value under that very key, \<open>get\<close> answers \<open>None\<close>; all other voices' artifacts
  are left as they were by the clearing.
\<close>

theorem cleared_voice_not_served:
  assumes inv: "cache_inv (inner c)" and k: "key_ok k" "py_lower (voice_name k) = py_lower v"
    and ops: "\<forall>op\<in>set ops. \<forall>j d. op = SpPut j d \<longrightarrow> encode_key j \<noteq> encode_key k"
  shows "fst (sp_get (run (sp_step (estimate_cache_bytes sizeof) detach) (clear_voice c v) ops) k) = None \<and>
    (\<forall>j. key_ok j \<longrightarrow> py_lower (voice_name j) \<noteq> py_lower v \<longrightarrow>
       fst (sp_get (clear_voice c v) j) = fst (sp_get c j))"
proof -
  let ?c = "clear_voice c v"
  have inv': "cache_inv (inner ?c)" using sp_inv_step [OF inv, of undefined undefined "SpClearVoice v"] by simp
  have look: "cache_lookup (inner ?c) (encode_key j) =
      (if py_lower (voice_name j) = py_lower v then None else cache_lookup (inner c) (encode_key j))" if "key_ok j" for j
    using spc.store.remove_lookup [OF inv] encoded_voice [OF that] by simp
  have "cache_lookup (inner ?c) (encode_key k) = None" using look k by simp
  from sp_absent_run [OF inv' this ops, of sizeof detach] look spm.inv_run [OF inv', of sizeof detach ops]
  show ?thesis using inv inv' by (simp add: sp_get_fst spc.store.get_value)
qed

theorem cleared_voice_not_served_witness:
  "let k = \<lparr>model_type = ''tts'', voice_name = ''Ann'', voice_version = 3, artifact_kind = ''emb''\<rparr>;
       c = \<lparr>inner = \<lparr>items = [(encode_key k, \<lparr>entry_data = ABytes 4, size_bytes = 4\<rparr>)], max_size = None, max_bytes = Some 10,
              current_bytes = 4, eviction_count = 0\<rparr>, hit_count = 0, miss_count = 0, delete_invalidation_counter = 0\<rparr> in
   fst (sp_get (run (sp_step (estimate_cache_bytes (\<lambda>_. 8)) id) (clear_voice c ''ANN'') [SpClear]) k) = None \<and>
    (\<forall>j. key_ok j \<longrightarrow> py_lower (voice_name j) \<noteq> py_lower ''ANN'' \<longrightarrow>
       fst (sp_get (clear_voice c ''ANN'') j) = fst (sp_get c j))"
  unfolding Let_def
proof (rule cleared_voice_not_served)
  show "py_lower (voice_name \<lparr>model_type = ''tts'', voice_name = ''Ann'', voice_version = 3, artifact_kind = ''emb''\<rparr>) = py_lower ''ANN''"
    by code_simp
qed (simp_all add: cache_inv_def dict_ok_def key_ok_def KEY_SEPARATOR_def)

end
