(* ===== verification/Coordinator.thy ===== *)
theory Coordinator
  imports Replicas
begin

text \<open>
  The pipeline coordinator, \<^verbatim>\<open>sglang_omni/pipeline/coordinator.py\<close>, with the request states of
  \<^verbatim>\<open>proto/request.py\<close>, the admin actions of \<^verbatim>\<open>proto/admin.py\<close> and the queue-full error of
  \<^verbatim>\<open>admission.py\<close>. The coordinator runs on one event loop, so a method is a sequence of atomic
  sections that end where it awaits something that can suspend: a message sent on the
  control plane, a future, a queue to fill. (Putting into the unbounded stream queues and
  setting futures never suspends.) Each section is one definition; the messages handed to
  the control plane are logged in \<open>sent\<close>.
\<close>

section \<open>Data\<close>

datatype request_state = PENDING | RUNNING | COMPLETED | FAILED | ABORTED

text \<open>A stage's result is a value or Python's \<^verbatim>\<open>None\<close>; several terminal stages give a dictionary.\<close>

datatype 'v result = Single "'v option" | Merged "(string, 'v option) dict"

datatype exn = RuntimeExn string | QueueFullExn | CancelledExn string

datatype 'v future = FPending | FResult "'v result" | FException exn | FCancelled

record 'v request_info =
  ri_state :: request_state
  ri_current_stage :: string
  ri_terminal_stages :: "string list option"
  ri_result :: "'v result option"
  ri_error :: "string option"

record 'v complete_msg =
  cm_request_id :: string
  cm_from_stage :: string
  cm_success :: bool
  cm_result :: "'v option"
  cm_error :: "string option"

text \<open>The chunk of a stream message stands for its payload and its stage id, modality and chunk id.\<close>

record 'c stream_msg =
  sm_request_id :: string
  sm_from_stage :: string
  sm_stage_name :: "string option"
  sm_chunk :: 'c

datatype ('v, 'c) queue_msg = QComplete "'v complete_msg" | QStream "'c stream_msg"

record admin_result =
  ar_op_id :: string
  ar_stage :: string
  ar_success :: bool
  ar_skipped :: bool
  ar_unsupported :: bool
  ar_error :: "string option"

record admin_pending =
  ap_expected_stages :: "string list"
  ap_action :: string
  ap_results :: "(string, admin_result) dict"
  ap_future :: "(string, admin_result) dict option"

datatype ctl =
    SubmitTo string string string "(string, int) dict option"
  | AbortBroadcast string
  | AdminTo string string string
  | ShutdownTo string string

record ('v, 'c, 'p) coordinator =
  entry_stage_name :: string
  static_terminals :: "string list"
  topology :: replica_topology
  process_plan :: logical_process_plan
  policy :: 'p
  max_in_flight :: "int option"
  stages :: "(string, string) dict"
  requests :: "(string, 'v request_info) dict"
  completion_futures :: "(string, 'v future) dict"
  stream_queues :: "(string, nat \<times> ('v, 'c) queue_msg list) dict"
  abort_tasks :: "(string, nat) dict"
  admin_ops :: "(string, admin_pending) dict"
  partial_results :: "(string, (string, 'v option) dict) dict"
  running :: bool
  fatal_error :: "string option"
  sent :: "ctl list"

datatype coord_error =
    NegativeMaxInFlight
  | Fatal string
  | AlreadyExists string
  | QueueFullError
  | Replica replica_error
  | NoBinding string
  | EntryNotRegistered string
  | ResolverNotSequence
  | ResolverNotNames
  | ResolverEmpty
  | ResolverUnknown "string list"
  | NotRunning
  | NoAdminStages
  | UnknownAdminStages "string list"
  | UnsetStage string

definition coord_init ::
  "string \<Rightarrow> string list option \<Rightarrow> replica_topology \<Rightarrow> logical_process_plan \<Rightarrow> 'p \<Rightarrow> int option \<Rightarrow>
   coord_error + ('v, 'c, 'p) coordinator" where
  "coord_init entry terminals topo plan pol cap =
     (if (case cap of None \<Rightarrow> False | Some n \<Rightarrow> n < 0) then Inl NegativeMaxInFlight
      else Inr \<lparr>entry_stage_name = entry,
        static_terminals = (case terminals of None \<Rightarrow> [] | Some ts \<Rightarrow> remdups ts),
        topology = topo, process_plan = plan, policy = pol, max_in_flight = cap, stages = [], requests = [],
        completion_futures = [], stream_queues = [], abort_tasks = [], admin_ops = [], partial_results = [],
        running = False, fatal_error = None, sent = []\<rparr>)"

section \<open>Errors of admission\<close>

definition QUEUE_FULL_MESSAGE :: string where
  "QUEUE_FULL_MESSAGE = ''The request queue is full.''"

text \<open>\<^verbatim>\<open>needle in hay\<close> on strings.\<close>

fun py_contains :: "string \<Rightarrow> string \<Rightarrow> bool" where
  "py_contains needle [] = (needle = [])"
| "py_contains needle (c # cs) = (take (length needle) (c # cs) = needle \<or> py_contains needle cs)"

definition queue_full_from_message :: "string option \<Rightarrow> exn" where
  "queue_full_from_message m =
     (case m of
        None \<Rightarrow> RuntimeExn ''Unknown error''
      | Some s \<Rightarrow>
          if py_contains QUEUE_FULL_MESSAGE s then QueueFullExn
          else RuntimeExn (if s = [] then ''Unknown error'' else s))"

section \<open>Registry and lifecycle\<close>

definition register_stage :: "('v, 'c, 'p) coordinator \<Rightarrow> string \<Rightarrow> string \<Rightarrow> ('v, 'c, 'p) coordinator" where
  "register_stage s name ep = s\<lparr>stages := dset (stages s) name ep\<rparr>"

definition coord_start :: "('v, 'c, 'p) coordinator \<Rightarrow> ('v, 'c, 'p) coordinator" where
  "coord_start s = s\<lparr>running := True\<rparr>"

definition coord_stop :: "('v, 'c, 'p) coordinator \<Rightarrow> ('v, 'c, 'p) coordinator" where
  "coord_stop s = s\<lparr>running := False\<rparr>"

definition shutdown_stages :: "('v, 'c, 'p) coordinator \<Rightarrow> ('v, 'c, 'p) coordinator" where
  "shutdown_stages s = s\<lparr>sent := sent s @ map (\<lambda>(n, ep). ShutdownTo n ep) (stages s)\<rparr>"

section \<open>Futures and queues\<close>

definition reject_completion_future :: "('v, 'c, 'p) coordinator \<Rightarrow> string \<Rightarrow> exn \<Rightarrow> ('v, 'c, 'p) coordinator" where
  "reject_completion_future s r e =
     (case dget (completion_futures s) r of
        Some FPending \<Rightarrow>
          s\<lparr>completion_futures := dset (completion_futures s) r
              (if dhas (stream_queues s) r then FCancelled else FException e)\<rparr>
      | _ \<Rightarrow> s)"

definition set_result :: "('v, 'c, 'p) coordinator \<Rightarrow> string \<Rightarrow> 'v result \<Rightarrow> ('v, 'c, 'p) coordinator" where
  "set_result s r v =
     (case dget (completion_futures s) r of
        Some FPending \<Rightarrow> s\<lparr>completion_futures := dset (completion_futures s) r (FResult v)\<rparr>
      | _ \<Rightarrow> s)"

definition put_stream :: "('v, 'c, 'p) coordinator \<Rightarrow> string \<Rightarrow> ('v, 'c) queue_msg \<Rightarrow> ('v, 'c, 'p) coordinator" where
  "put_stream s r m =
     (case dget (stream_queues s) r of
        None \<Rightarrow> s
      | Some (a, ms) \<Rightarrow> s\<lparr>stream_queues := dset (stream_queues s) r (a, ms @ [m])\<rparr>)"

text \<open>The message the coordinator itself queues for a stream whose request it gives up.\<close>

definition coordinator_failure :: "string \<Rightarrow> string \<Rightarrow> ('v, 'c) queue_msg" where
  "coordinator_failure r err =
     QComplete \<lparr>cm_request_id = r, cm_from_stage = ''coordinator'', cm_success = False, cm_result = None, cm_error = Some err\<rparr>"

definition set_info :: "('v, 'c, 'p) coordinator \<Rightarrow> string \<Rightarrow> ('v request_info \<Rightarrow> 'v request_info) \<Rightarrow> ('v, 'c, 'p) coordinator" where
  "set_info s r f =
     (case dget (requests s) r of None \<Rightarrow> s | Some i \<Rightarrow> s\<lparr>requests := dset (requests s) r (f i)\<rparr>)"

definition drop_request :: "('v, 'c, 'p) coordinator \<Rightarrow> string \<Rightarrow> ('v, 'c, 'p) coordinator" where
  "drop_request s r = s\<lparr>requests := ddel (requests s) r\<rparr>"

definition drop_partials :: "('v, 'c, 'p) coordinator \<Rightarrow> string \<Rightarrow> ('v, 'c, 'p) coordinator" where
  "drop_partials s r = s\<lparr>partial_results := ddel (partial_results s) r\<rparr>"

text \<open>One round of the loop of \<^verbatim>\<open>fail_pending_requests\<close>, then the method.\<close>

definition fail_one :: "string \<Rightarrow> string \<Rightarrow> ('v, 'c, 'p) coordinator \<Rightarrow> ('v, 'c, 'p) coordinator" where
  "fail_one message r s =
     (let s1 = set_info s r (\<lambda>i. i\<lparr>ri_state := FAILED, ri_error := Some message\<rparr>);
          s2 = reject_completion_future s1 r (RuntimeExn message) in
      put_stream s2 r (coordinator_failure r message))"

definition fail_pending_requests :: "('v, 'c, 'p) coordinator \<Rightarrow> string \<Rightarrow> ('v, 'c, 'p) coordinator" where
  "fail_pending_requests s message =
     (let s1 = s\<lparr>running := False, fatal_error := Some message\<rparr>;
          s2 = fold (fail_one message) (map fst (requests s)) s1 in
      s2\<lparr>requests := [], partial_results := []\<rparr>)"

section \<open>Submission\<close>

datatype resolver_answer = ANoAnswer | ANotSequence | ASequence "py_name list"

definition resolve_terminal_stages :: "('q \<Rightarrow> resolver_answer) option \<Rightarrow> string list \<Rightarrow> 'q \<Rightarrow> coord_error + string list" where
  "resolve_terminal_stages resolver static q =
     (case resolver of
        None \<Rightarrow> Inr static
      | Some f \<Rightarrow>
          (case f q of
             ANoAnswer \<Rightarrow> Inr static
           | ANotSequence \<Rightarrow> Inl ResolverNotSequence
           | ASequence ns \<Rightarrow>
               if \<not> list_all is_pstr ns then Inl ResolverNotNames
               else let names = remdups (map pstr ns); unknown = filter (\<lambda>n. n \<notin> set static) names in
                 if names = [] then Inl ResolverEmpty
                 else if unknown \<noteq> [] then Inl (ResolverUnknown (sort unknown))
                 else Inr names))"

definition request_id_is_reserved :: "('v, 'c, 'p) coordinator \<Rightarrow> string \<Rightarrow> bool" where
  "request_id_is_reserved s r \<longleftrightarrow>
     dhas (requests s) r \<or> dhas (completion_futures s) r \<or> dhas (stream_queues s) r \<or> dhas (abort_tasks s) r"

definition entry_instance :: "('v, 'c, 'p) coordinator \<Rightarrow> (string, int) dict \<Rightarrow> coord_error + string" where
  "entry_instance s bindings =
     (if is_replicated (topology s) (entry_stage_name s) then
        (case dget bindings (entry_stage_name s) of
           None \<Rightarrow> Inl (NoBinding (entry_stage_name s))
         | Some i \<Rightarrow>
             (case resolve (topology s) (entry_stage_name s) i of Inl e \<Rightarrow> Inl (Replica e) | Inr n \<Rightarrow> Inr n))
      else Inr (entry_stage_name s))"

text \<open>The guards of \<^verbatim>\<open>_submit_request\<close>, in the order of the code.\<close>

definition admission_error :: "('v, 'c, 'p) coordinator \<Rightarrow> string \<Rightarrow> coord_error option" where
  "admission_error s r =
     (case fatal_error s of
        Some m \<Rightarrow> Some (Fatal m)
      | None \<Rightarrow>
          if request_id_is_reserved s r then Some (AlreadyExists r)
          else if (case max_in_flight s of None \<Rightarrow> False | Some n \<Rightarrow> n \<le> int (length (requests s))) then Some QueueFullError
          else None)"

text \<open>Where the request goes and which stages end it: the entry instance, its endpoint and the terminal stages.\<close>

definition submit_target ::
  "('q \<Rightarrow> resolver_answer) option \<Rightarrow> ('v, 'c, 'p) coordinator \<Rightarrow> 'q \<Rightarrow> (string, int) dict option \<Rightarrow>
   coord_error + string \<times> string \<times> string list" where
  "submit_target resolver s q bs =
     rbind (entry_instance s (case bs of None \<Rightarrow> [] | Some d \<Rightarrow> d)) (\<lambda>inst.
       case dget (stages s) inst of
         None \<Rightarrow> Inl (EntryNotRegistered inst)
       | Some ep \<Rightarrow> rbind (resolve_terminal_stages resolver (static_terminals s) q) (\<lambda>ts. Inr (inst, ep, ts)))"

text \<open>
  The part of \<^verbatim>\<open>_submit_request\<close> up to the send. The queue is the address of the stream's queue
  object, if the caller streams. The policy's state advances even when a later check fails.
\<close>

definition submit_begin ::
  "'p bind_fn \<Rightarrow> ('q \<Rightarrow> resolver_answer) option \<Rightarrow> ('v, 'c, 'p) coordinator \<Rightarrow> string \<Rightarrow> 'q \<Rightarrow> nat option \<Rightarrow>
   (coord_error + string) \<times> ('v, 'c, 'p) coordinator" where
  "submit_begin bind resolver s r q queue =
     (case admission_error s r of
        Some e \<Rightarrow> (Inl e, s)
      | None \<Rightarrow>
          (let (b, pol) = assign_replica_bindings bind (process_plan s) (policy s) r; s1 = s\<lparr>policy := pol\<rparr> in
           case b of
             Inl e \<Rightarrow> (Inl (Replica e), s1)
           | Inr bs \<Rightarrow>
               (case submit_target resolver s1 q bs of
                  Inl e \<Rightarrow> (Inl e, s1)
                | Inr (inst, ep, ts) \<Rightarrow>
                    (Inr inst,
                     s1\<lparr>requests := dset (requests s1) r
                            \<lparr>ri_state = PENDING, ri_current_stage = entry_stage_name s1, ri_terminal_stages = Some ts,
                             ri_result = None, ri_error = None\<rparr>,
                         completion_futures := dset (completion_futures s1) r FPending,
                         stream_queues := (case queue of None \<Rightarrow> stream_queues s1 | Some a \<Rightarrow> dset (stream_queues s1) r (a, [])),
                         sent := sent s1 @ [SubmitTo inst ep r bs]\<rparr>))))"

text \<open>The part after the send.\<close>

definition submit_sent :: "('v, 'c, 'p) coordinator \<Rightarrow> string \<Rightarrow> ('v, 'c, 'p) coordinator" where
  "submit_sent s r = set_info s r (\<lambda>i. i\<lparr>ri_state := RUNNING\<rparr>)"

text \<open>The \<^verbatim>\<open>finally\<close> of \<^verbatim>\<open>submit\<close>, run when the future is done or the caller is cancelled.\<close>

definition submit_finally :: "('v, 'c, 'p) coordinator \<Rightarrow> string \<Rightarrow> ('v, 'c, 'p) coordinator" where
  "submit_finally s r = s\<lparr>completion_futures := ddel (completion_futures s) r\<rparr>"

section \<open>Abort\<close>

text \<open>
  First section of \<^verbatim>\<open>abort\<close>: join the running abort task, answer \<open>False\<close>, or start a task (named
  by a fresh \<open>tid\<close>) whose first action is the broadcast.
\<close>

datatype abort_answer = JoinTask nat | AbortFalse | AbortStarted

definition abort_begin :: "('v, 'c, 'p) coordinator \<Rightarrow> string \<Rightarrow> nat \<Rightarrow> abort_answer \<times> ('v, 'c, 'p) coordinator" where
  "abort_begin s r tid =
     (case dget (abort_tasks s) r of
        Some t \<Rightarrow> (JoinTask t, s)
      | None \<Rightarrow>
        (case dget (requests s) r of
           None \<Rightarrow> (AbortFalse, s)
         | Some i \<Rightarrow>
             if ri_state i \<in> {COMPLETED, FAILED, ABORTED} then (AbortFalse, s)
             else (AbortStarted, s\<lparr>abort_tasks := dset (abort_tasks s) r tid, sent := sent s @ [AbortBroadcast r]\<rparr>)))"

text \<open>\<^verbatim>\<open>_run_abort\<close> after the broadcast.\<close>

definition run_abort :: "('v, 'c, 'p) coordinator \<Rightarrow> string \<Rightarrow> bool \<times> ('v, 'c, 'p) coordinator" where
  "run_abort s r =
     (case dget (requests s) r of
        None \<Rightarrow> (False, s)
      | Some _ \<Rightarrow>
          (let s1 = set_info s r (\<lambda>i. i\<lparr>ri_state := ABORTED\<rparr>);
               s2 = reject_completion_future s1 r (CancelledExn (''Request '' @ r @ '' aborted''));
               s3 = put_stream s2 r (coordinator_failure r ''aborted'') in
           (True, drop_partials (drop_request s3 r) r)))"

definition on_abort_task_done :: "('v, 'c, 'p) coordinator \<Rightarrow> string \<Rightarrow> nat \<Rightarrow> ('v, 'c, 'p) coordinator" where
  "on_abort_task_done s r tid =
     (if dget (abort_tasks s) r = Some tid then s\<lparr>abort_tasks := ddel (abort_tasks s) r\<rparr> else s)"

section \<open>Completion\<close>

definition expected_terminal_stages :: "('v, 'c, 'p) coordinator \<Rightarrow> string \<Rightarrow> string list" where
  "expected_terminal_stages s r =
     (case dget (requests s) r of
        None \<Rightarrow> static_terminals s
      | Some i \<Rightarrow> (case ri_terminal_stages i of None \<Rightarrow> static_terminals s | Some ts \<Rightarrow> ts))"

text \<open>
  \<^verbatim>\<open>_handle_completion\<close> of a success, from the computation of the expected stages on. The
  logical name of the stage is already in the message.
\<close>

definition complete_single :: "('v, 'c, 'p) coordinator \<Rightarrow> 'v complete_msg \<Rightarrow> ('v, 'c, 'p) coordinator" where
  "complete_single s m =
     (let r = cm_request_id m;
          s1 = set_info s r (\<lambda>i. i\<lparr>ri_state := COMPLETED, ri_result := Some (Single (cm_result m))\<rparr>);
          s2 = set_result s1 r (Single (cm_result m));
          s3 = put_stream s2 r (QComplete m) in
      drop_request s3 r)"

definition complete_multi :: "('v, 'c, 'p) coordinator \<Rightarrow> 'v complete_msg \<Rightarrow> string list \<Rightarrow> ('v, 'c, 'p) coordinator" where
  "complete_multi s m expected =
     (let r = cm_request_id m;
          partials = dset (case dget (partial_results s) r of None \<Rightarrow> [] | Some p \<Rightarrow> p) (cm_from_stage m) (cm_result m);
          s1 = s\<lparr>partial_results := dset (partial_results s) r partials\<rparr>;
          s2 = put_stream s1 r (QComplete m) in
      if psub_keys (map fst partials) expected then s2
      else
        (let s3 = drop_partials s2 r;
             s4 = set_info s3 r (\<lambda>i. i\<lparr>ri_state := COMPLETED, ri_result := Some (Merged partials)\<rparr>);
             s5 = set_result s4 r (Merged partials) in
         drop_request s5 r))"

definition complete_success :: "('v, 'c, 'p) coordinator \<Rightarrow> 'v complete_msg \<Rightarrow> ('v, 'c, 'p) coordinator" where
  "complete_success s m =
     (let expected = expected_terminal_stages s (cm_request_id m) in
      if expected \<noteq> [] \<and> cm_from_stage m \<notin> set expected then s
      else if length (remdups expected) \<le> 1 then complete_single s m
      else complete_multi s m expected)"

text \<open>
  First section of \<^verbatim>\<open>_handle_completion\<close>: \<open>Some m\<close> says that the failure \<open>m\<close> was broadcast and the
  second section \<open>completion_failed\<close> has to run after it.
\<close>

definition completion_begin ::
  "('v, 'c, 'p) coordinator \<Rightarrow> 'v complete_msg \<Rightarrow> (coord_error + 'v complete_msg option) \<times> ('v, 'c, 'p) coordinator" where
  "completion_begin s m =
     (let r = cm_request_id m in
      if \<not> dhas (requests s) r then (Inr None, s)
      else case logical_name (topology s) (cm_from_stage m) of
        Inl e \<Rightarrow> (Inl (Replica e), s)
      | Inr from_stage \<Rightarrow>
          (let m' = m\<lparr>cm_from_stage := from_stage\<rparr> in
           if \<not> cm_success m then
             (Inr (Some m'),
              (set_info s r (\<lambda>i. i\<lparr>ri_state := FAILED, ri_error := cm_error m\<rparr>))\<lparr>sent := sent s @ [AbortBroadcast r]\<rparr>)
           else (Inr None, complete_success s m')))"

definition completion_failed :: "('v, 'c, 'p) coordinator \<Rightarrow> 'v complete_msg \<Rightarrow> ('v, 'c, 'p) coordinator" where
  "completion_failed s m =
     (let r = cm_request_id m;
          s1 = reject_completion_future (drop_partials s r) r (queue_full_from_message (cm_error m));
          s2 = put_stream s1 r (QComplete m) in
      drop_request s2 r)"

text \<open>The whole handler when the broadcast does not suspend.\<close>

definition handle_completion :: "('v, 'c, 'p) coordinator \<Rightarrow> 'v complete_msg \<Rightarrow> ('v, 'c, 'p) coordinator" where
  "handle_completion s m =
     (case completion_begin s m of
        (Inr (Some m'), s') \<Rightarrow> completion_failed s' m'
      | (_, s') \<Rightarrow> s')"

section \<open>Streams\<close>

definition handle_stream :: "('v, 'c, 'p) coordinator \<Rightarrow> 'c stream_msg \<Rightarrow> (coord_error + unit) \<times> ('v, 'c, 'p) coordinator" where
  "handle_stream s m =
     (if \<not> dhas (stream_queues s) (sm_request_id m) then (Inr (), s)
      else case logical_name (topology s) (sm_from_stage m) of
        Inl e \<Rightarrow> (Inl (Replica e), s)
      | Inr logical \<Rightarrow>
          (case (case sm_stage_name m of
                   None \<Rightarrow> Inr None
                 | Some n \<Rightarrow> (case logical_name (topology s) n of Inl e \<Rightarrow> Inl e | Inr n' \<Rightarrow> Inr (Some n'))) of
             Inl e \<Rightarrow> (Inl (Replica e), s)
           | Inr stage_name \<Rightarrow>
               (Inr (), put_stream s (sm_request_id m) (QStream (m\<lparr>sm_from_stage := logical, sm_stage_name := stage_name\<rparr>)))))"

text \<open>
  One round of the loop of \<^verbatim>\<open>stream\<close> on the queue object at \<open>a\<close>: \<open>completed\<close> is the generator's set
  of completed stages and \<open>expected\<close> what it read after the submission.
\<close>

datatype ('v, 'c) stream_turn =
    StreamBlocked
  | StreamRaise exn
  | StreamNameError replica_error
  | StreamYield "('v, 'c) queue_msg" "string list" bool

definition stream_take ::
  "('v, 'c, 'p) coordinator \<Rightarrow> string \<Rightarrow> nat \<Rightarrow> string list \<Rightarrow> string list \<Rightarrow>
   ('v, 'c) stream_turn \<times> ('v, 'c, 'p) coordinator" where
  "stream_take s r a expected completed =
     (case dget (stream_queues s) r of
        Some (b, m # ms) \<Rightarrow>
          if b \<noteq> a then (StreamBlocked, s)
          else let s' = s\<lparr>stream_queues := dset (stream_queues s) r (b, ms)\<rparr> in
            (case m of
               QStream _ \<Rightarrow> (StreamYield m completed False, s')
             | QComplete c \<Rightarrow>
                 if \<not> cm_success c then (StreamRaise (queue_full_from_message (cm_error c)), s')
                 else (case logical_name (topology s) (cm_from_stage c) of
                         Inl e \<Rightarrow> (StreamNameError e, s')
                       | Inr n \<Rightarrow>
                           let done = List.insert n completed in
                           (StreamYield m done (expected = [] \<or> sub_keys expected done), s')))
      | _ \<Rightarrow> (StreamBlocked, s))"

text \<open>
  The \<^verbatim>\<open>finally\<close> of \<^verbatim>\<open>stream\<close>: whether it has to await an abort of the request first, and the
  cleanup after it.
\<close>

definition stream_must_abort :: "('v, 'c, 'p) coordinator \<Rightarrow> string \<Rightarrow> nat \<Rightarrow> bool" where
  "stream_must_abort s r a \<longleftrightarrow> map_option fst (dget (stream_queues s) r) = Some a \<and> dhas (requests s) r"

definition stream_finally :: "('v, 'c, 'p) coordinator \<Rightarrow> string \<Rightarrow> nat \<Rightarrow> ('v, 'c, 'p) coordinator" where
  "stream_finally s r a =
     (if map_option fst (dget (stream_queues s) r) = Some a
      then s\<lparr>stream_queues := ddel (stream_queues s) r, completion_futures := ddel (completion_futures s) r\<rparr>
      else s)"

section \<open>Administration\<close>

definition is_update_action :: "string \<Rightarrow> bool" where
  "is_update_action action \<longleftrightarrow>
     action \<in> {''init_weights_update_group'', ''destroy_weights_update_group'', ''update_weights_from_disk'',
               ''update_weights_from_tensor'', ''update_weights_from_distributed''}"

definition resolve_admin_stages :: "('v, 'c, 'p) coordinator \<Rightarrow> string list option \<Rightarrow> coord_error + string list" where
  "resolve_admin_stages s names =
     (case names of
        None \<Rightarrow> Inr (sort (map fst (stages s)))
      | Some ns \<Rightarrow>
          (let resolved = rev (remdups (rev (concat (map (instances (topology s)) ns))));
               unknown = filter (\<lambda>n. \<not> dhas (stages s) n) resolved in
           if unknown \<noteq> [] then Inl (UnknownAdminStages (sort unknown)) else Inr resolved))"

definition admin_begin ::
  "('v, 'c, 'p) coordinator \<Rightarrow> string \<Rightarrow> string \<Rightarrow> string list option \<Rightarrow> (coord_error + unit) \<times> ('v, 'c, 'p) coordinator" where
  "admin_begin s op_id action names =
     (if \<not> running s then (Inl NotRunning, s)
      else case resolve_admin_stages s names of
        Inl e \<Rightarrow> (Inl e, s)
      | Inr targets \<Rightarrow>
          if targets = [] then (Inl NoAdminStages, s)
          else (Inr (), s\<lparr>admin_ops := dset (admin_ops s) op_id
                          \<lparr>ap_expected_stages = targets, ap_action = action, ap_results = [], ap_future = None\<rparr>,
                        sent := sent s @ map (\<lambda>n. AdminTo n (case dget (stages s) n of None \<Rightarrow> [] | Some ep \<Rightarrow> ep) op_id) targets\<rparr>))"

definition handle_admin_result :: "('v, 'c, 'p) coordinator \<Rightarrow> admin_result \<Rightarrow> ('v, 'c, 'p) coordinator" where
  "handle_admin_result s res =
     (case dget (admin_ops s) (ar_op_id res) of
        None \<Rightarrow> s
      | Some p \<Rightarrow>
          (let results = dset (ap_results p) (ar_stage res) res;
               fut = (if ap_future p = None \<and> sub_keys (ap_expected_stages p) (map fst results)
                      then Some results else ap_future p) in
           s\<lparr>admin_ops := dset (admin_ops s) (ar_op_id res) (p\<lparr>ap_results := results, ap_future := fut\<rparr>)\<rparr>))"

definition admin_finally :: "('v, 'c, 'p) coordinator \<Rightarrow> string \<Rightarrow> ('v, 'c, 'p) coordinator" where
  "admin_finally s op_id = s\<lparr>admin_ops := ddel (admin_ops s) op_id\<rparr>"

text \<open>The success flag and the message of \<^verbatim>\<open>_aggregate_admin_results\<close>.\<close>

fun join_semi :: "string list \<Rightarrow> string" where
  "join_semi [] = []"
| "join_semi [x] = x"
| "join_semi (x # y # xs) = x @ ''; '' @ join_semi (y # xs)"

definition aggregate_admin_results :: "string \<Rightarrow> admin_result list \<Rightarrow> bool \<times> string" where
  "aggregate_admin_results action results =
     (let updated = filter (\<lambda>i. \<not> ar_skipped i \<and> \<not> ar_unsupported i) results;
          success = (if is_update_action action then updated \<noteq> [] \<and> list_all ar_success updated
                     else list_all ar_success results);
          errors = filter (\<lambda>e. e \<noteq> []) (map (\<lambda>i. case ar_error i of None \<Rightarrow> [] | Some e \<Rightarrow> e) results) in
      (success,
       if success then ''ok'' else if errors \<noteq> [] then join_semi errors
       else ''admin operation did not complete successfully''))"

section \<open>Health\<close>

definition state_value :: "request_state \<Rightarrow> string" where
  "state_value st =
     (case st of PENDING \<Rightarrow> ''pending'' | RUNNING \<Rightarrow> ''running'' | COMPLETED \<Rightarrow> ''completed'' | FAILED \<Rightarrow> ''failed''
      | ABORTED \<Rightarrow> ''aborted'')"

definition count_states :: "'v request_info list \<Rightarrow> (string, nat) dict" where
  "count_states is =
     fold (\<lambda>i d. let k = state_value (ri_state i) in
              dset d k ((case dget d k of None \<Rightarrow> 0 | Some n \<Rightarrow> n) + 1)) is []"

record health_report =
  hr_running :: bool
  hr_stages :: "string list"
  hr_entry_stage :: string
  hr_total_requests :: nat
  hr_pending_completions :: nat
  hr_request_states :: "(string, nat) dict"

definition coord_health :: "('v, 'c, 'p) coordinator \<Rightarrow> health_report" where
  "coord_health s =
     \<lparr>hr_running = running s, hr_stages = map fst (stages s), hr_entry_stage = entry_stage_name s,
      hr_total_requests = length (requests s), hr_pending_completions = length (completion_futures s),
      hr_request_states = count_states (map snd (requests s))\<rparr>"

end
