(* ===== verification/Coordinator_Properties.thy ===== *)
theory Coordinator_Properties
  imports Coordinator
begin

text \<open>
  The coordinator as a state machine over its atomic sections, its invariant, and what
  callers may rely on: admission, settlement of every accepted request, the merge of
  several terminal stages, and the behaviours of aborts and failed sends.
\<close>

section \<open>Effect of the primitives\<close>

lemma reject_simps [simp]:
  "requests (reject_completion_future s r e) = requests s"
  "stream_queues (reject_completion_future s r e) = stream_queues s"
  "partial_results (reject_completion_future s r e) = partial_results s"
  "static_terminals (reject_completion_future s r e) = static_terminals s"
  "max_in_flight (reject_completion_future s r e) = max_in_flight s"
  "abort_tasks (reject_completion_future s r e) = abort_tasks s"
  "topology (reject_completion_future s r e) = topology s"
  "dget (completion_futures (reject_completion_future s r e)) k =
     (if k = r \<and> dget (completion_futures s) r = Some FPending
      then Some (if dhas (stream_queues s) r then FCancelled else FException e) else dget (completion_futures s) k)"
  "dict_ok (completion_futures s) \<Longrightarrow> dict_ok (completion_futures (reject_completion_future s r e))"
  by (simp_all add: reject_completion_future_def split: option.split future.split)

lemma set_result_simps [simp]:
  "requests (set_result s r v) = requests s" "stream_queues (set_result s r v) = stream_queues s"
  "partial_results (set_result s r v) = partial_results s" "static_terminals (set_result s r v) = static_terminals s"
  "max_in_flight (set_result s r v) = max_in_flight s" "abort_tasks (set_result s r v) = abort_tasks s"
  "topology (set_result s r v) = topology s"
  "dget (completion_futures (set_result s r v)) k =
     (if k = r \<and> dget (completion_futures s) r = Some FPending then Some (FResult v) else dget (completion_futures s) k)"
  "dict_ok (completion_futures s) \<Longrightarrow> dict_ok (completion_futures (set_result s r v))"
  by (simp_all add: set_result_def split: option.split future.split)

lemma put_stream_simps [simp]:
  "requests (put_stream s r m) = requests s" "completion_futures (put_stream s r m) = completion_futures s"
  "partial_results (put_stream s r m) = partial_results s" "static_terminals (put_stream s r m) = static_terminals s"
  "max_in_flight (put_stream s r m) = max_in_flight s" "abort_tasks (put_stream s r m) = abort_tasks s"
  "topology (put_stream s r m) = topology s"
  "dget (stream_queues (put_stream s r m)) k =
     (if k = r then map_option (\<lambda>(a, ms). (a, ms @ [m])) (dget (stream_queues s) r) else dget (stream_queues s) k)"
  "dict_ok (stream_queues s) \<Longrightarrow> dict_ok (stream_queues (put_stream s r m))"
  "dhas (stream_queues (put_stream s r m)) k = dhas (stream_queues s) k"
  by (auto simp: put_stream_def dhas_dget split: option.split)

lemma set_info_simps [simp]:
  "stream_queues (set_info s r f) = stream_queues s" "completion_futures (set_info s r f) = completion_futures s"
  "partial_results (set_info s r f) = partial_results s" "static_terminals (set_info s r f) = static_terminals s"
  "max_in_flight (set_info s r f) = max_in_flight s" "abort_tasks (set_info s r f) = abort_tasks s"
  "topology (set_info s r f) = topology s"
  "dget (requests (set_info s r f)) k = (if k = r then map_option f (dget (requests s) r) else dget (requests s) k)"
  "dhas (requests (set_info s r f)) k = dhas (requests s) k"
  "length (requests (set_info s r f)) = length (requests s)"
  "dict_ok (requests s) \<Longrightarrow> dict_ok (requests (set_info s r f))"
  by (auto simp: set_info_def dhas_dget length_dset split: option.split)

lemma drop_simps [simp]:
  "stream_queues (drop_request s r) = stream_queues s" "completion_futures (drop_request s r) = completion_futures s"
  "partial_results (drop_request s r) = partial_results s" "static_terminals (drop_request s r) = static_terminals s"
  "max_in_flight (drop_request s r) = max_in_flight s" "requests (drop_request s r) = ddel (requests s) r"
  "topology (drop_request s r) = topology s" "abort_tasks (drop_request s r) = abort_tasks s"
  "stream_queues (drop_partials s r) = stream_queues s" "completion_futures (drop_partials s r) = completion_futures s"
  "partial_results (drop_partials s r) = ddel (partial_results s) r" "static_terminals (drop_partials s r) = static_terminals s"
  "max_in_flight (drop_partials s r) = max_in_flight s" "requests (drop_partials s r) = requests s"
  "topology (drop_partials s r) = topology s" "abort_tasks (drop_partials s r) = abort_tasks s"
  by (simp_all add: drop_request_def drop_partials_def)

section \<open>Invariant\<close>

text \<open>The stages whose results a tracked request waits for.\<close>

definition terminals_of :: "('v, 'c, 'p) coordinator \<Rightarrow> string \<Rightarrow> string list" where
  "terminals_of s r = expected_terminal_stages s r"

definition dicts_ok :: "('v, 'c, 'p) coordinator \<Rightarrow> bool" where
  "dicts_ok s \<longleftrightarrow> dict_ok (requests s) \<and> dict_ok (completion_futures s) \<and> dict_ok (stream_queues s) \<and> dict_ok (partial_results s)"

text \<open>The number of tracked requests respects the cap.\<close>

definition cap_ok :: "('v, 'c, 'p) coordinator \<Rightarrow> bool" where
  "cap_ok s \<longleftrightarrow> (case max_in_flight s of None \<Rightarrow> True | Some n \<Rightarrow> int (length (requests s)) \<le> n)"

text \<open>A caller that waits on an unsettled future waits for a request that is still tracked.\<close>

definition waiters_ok :: "('v, 'c, 'p) coordinator \<Rightarrow> bool" where
  "waiters_ok s \<longleftrightarrow> (\<forall>r. dget (completion_futures s) r = Some FPending \<longrightarrow> dhas (requests s) r)"

text \<open>Partial results belong to tracked requests and cover some but not all of the expected stages.\<close>

definition partials_ok :: "('v, 'c, 'p) coordinator \<Rightarrow> bool" where
  "partials_ok s \<longleftrightarrow> (\<forall>r p. dget (partial_results s) r = Some p \<longrightarrow>
     dhas (requests s) r \<and> p \<noteq> [] \<and> dict_ok p \<and> set (map fst p) \<subset> set (expected_terminal_stages s r))"

definition coord_inv :: "('v, 'c, 'p) coordinator \<Rightarrow> bool" where
  "coord_inv s \<longleftrightarrow> dicts_ok s \<and> cap_ok s \<and> waiters_ok s \<and> partials_ok s"

lemmas coord_inv_defs = coord_inv_def dicts_ok_def cap_ok_def waiters_ok_def partials_ok_def

lemma expected_cong:
  assumes "map_option ri_terminal_stages (dget (requests t) r) = map_option ri_terminal_stages (dget (requests s) r)"
    "static_terminals t = static_terminals s"
  shows "expected_terminal_stages t r = expected_terminal_stages s r"
  using assms by (cases "dget (requests s) r"; cases "dget (requests t) r") (simp_all add: expected_terminal_stages_def split: option.split)

text \<open>
  Steps that change request records without changing their expected stages keep the
  invariant as soon as every pending future stays tracked and the partial results shrink.
\<close>

lemma coord_inv_shrink:
  assumes inv: "coord_inv s" and d: "dicts_ok t"
    and lim: "max_in_flight t = max_in_flight s" "length (requests t) \<le> length (requests s)"
    and st: "static_terminals t = static_terminals s"
    and w: "\<And>k. dget (completion_futures t) k = Some FPending \<Longrightarrow> dget (completion_futures s) k = Some FPending \<and> dhas (requests t) k"
    and p: "\<And>k q. dget (partial_results t) k = Some q \<Longrightarrow> dget (partial_results s) k = Some q \<and>
       map_option ri_terminal_stages (dget (requests t) k) = map_option ri_terminal_stages (dget (requests s) k)"
  shows "coord_inv t"
proof -
  have "partials_ok t" unfolding partials_ok_def
  proof (intro allI impI)
    fix k q assume "dget (partial_results t) k = Some q"
    from p [OF this] have eq: "dget (partial_results s) k = Some q"
      "map_option ri_terminal_stages (dget (requests t) k) = map_option ri_terminal_stages (dget (requests s) k)" by auto
    have "dhas (requests s) k \<and> q \<noteq> [] \<and> dict_ok q \<and> set (map fst q) \<subset> set (expected_terminal_stages s k)"
      using inv eq(1) by (auto simp: coord_inv_def partials_ok_def)
    with expected_cong [OF eq(2) st] eq(2) show "dhas (requests t) k \<and> q \<noteq> [] \<and> dict_ok q \<and> set (map fst q) \<subset> set (expected_terminal_stages t k)"
      by (auto simp: dhas_dget)
  qed
  moreover have "cap_ok t" using inv lim by (auto simp: coord_inv_def cap_ok_def split: option.splits)
  moreover have "waiters_ok t" using w by (auto simp: waiters_ok_def)
  ultimately show ?thesis using d by (simp add: coord_inv_def)
qed

lemma coord_inv_dicts:
  assumes "coord_inv s"
  shows "dict_ok (requests s)" "dict_ok (completion_futures s)" "dict_ok (stream_queues s)" "dict_ok (partial_results s)"
  using assms by (simp_all add: coord_inv_def dicts_ok_def)

lemma partialsD:
  assumes "coord_inv s" "dget (partial_results s) r = Some p"
  shows "dhas (requests s) r" "p \<noteq> []" "dict_ok p" "set (map fst p) \<subset> set (expected_terminal_stages s r)"
  using assms unfolding coord_inv_def partials_ok_def by blast+

section \<open>Every section keeps the invariant\<close>

definition track :: "('v, 'c, 'p) coordinator \<Rightarrow> string \<Rightarrow> 'v request_info \<Rightarrow> ('v, 'c, 'p) coordinator \<Rightarrow> bool" where
  "track s r i t \<longleftrightarrow>
     requests t = dset (requests s) r i \<and> completion_futures t = dset (completion_futures s) r FPending \<and>
     (stream_queues t = stream_queues s \<or> (\<exists>a. stream_queues t = dset (stream_queues s) r (a, []))) \<and>
     partial_results t = partial_results s \<and> static_terminals t = static_terminals s \<and> max_in_flight t = max_in_flight s \<and>
     fatal_error t = fatal_error s \<and> topology t = topology s"

text \<open>What \<open>submit_begin\<close> does: it fails without touching any request, or tracks a request of a free id under the cap.\<close>

lemma submit_begin_cases:
  obtains
    (refused) e where "fst (submit_begin bind resolver s r q queue) = Inl e"
      "\<exists>pol. snd (submit_begin bind resolver s r q queue) = s\<lparr>policy := pol\<rparr>"
  | (tracked) inst i where "fst (submit_begin bind resolver s r q queue) = Inr inst"
      "track s r i (snd (submit_begin bind resolver s r q queue))"
      "\<not> request_id_is_reserved s r" "ri_state i = PENDING"
      "case max_in_flight s of None \<Rightarrow> True | Some n \<Rightarrow> int (length (requests s)) < n"
proof (cases "admission_error s r")
  case (Some e)
  then have "submit_begin bind resolver s r q queue = (Inl e, s)" by (simp add: submit_begin_def)
  moreover have "s = s\<lparr>policy := policy s\<rparr>" by simp
  ultimately show thesis by (metis refused fst_conv snd_conv)
next
  case None
  then have ok: "\<not> request_id_is_reserved s r" "case max_in_flight s of None \<Rightarrow> True | Some n \<Rightarrow> int (length (requests s)) < n"
    by (auto simp: admission_error_def split: option.splits if_splits)
  obtain b pol where b: "assign_replica_bindings bind (process_plan s) (policy s) r = (b, pol)" by force
  show thesis
  proof (cases "\<exists>bs tgt. b = Inr bs \<and> submit_target resolver (s\<lparr>policy := pol\<rparr>) q bs = Inr tgt")
    case True
    then obtain bs inst ep ts where "b = Inr bs" "submit_target resolver (s\<lparr>policy := pol\<rparr>) q bs = Inr (inst, ep, ts)" by force
    then have "submit_begin bind resolver s r q queue =
        (Inr inst, s\<lparr>policy := pol,
           requests := dset (requests s) r \<lparr>ri_state = PENDING, ri_current_stage = entry_stage_name s, ri_terminal_stages = Some ts,
             ri_result = None, ri_error = None\<rparr>,
           completion_futures := dset (completion_futures s) r FPending,
           stream_queues := (case queue of None \<Rightarrow> stream_queues s | Some a \<Rightarrow> dset (stream_queues s) r (a, [])),
           sent := sent s @ [SubmitTo inst ep r bs]\<rparr>)"
      using None b by (simp add: submit_begin_def Let_def cong: option.case_cong)
    then show thesis using ok
      by (intro tracked [of inst "\<lparr>ri_state = PENDING, ri_current_stage = entry_stage_name s, ri_terminal_stages = Some ts,
             ri_result = None, ri_error = None\<rparr>"]) (auto simp: track_def split: option.split)
  next
    case False
    have "\<exists>e. submit_begin bind resolver s r q queue = (Inl e, s\<lparr>policy := pol\<rparr>)"
    proof (cases b)
      case (Inr bs)
      with False show ?thesis using None b
        by (cases "submit_target resolver (s\<lparr>policy := pol\<rparr>) q bs") (auto simp: submit_begin_def Let_def)
    qed (use None b in \<open>simp add: submit_begin_def Let_def\<close>)
    then show thesis by (metis refused fst_conv snd_conv)
  qed
qed

text \<open>The invariant reads six fields only.\<close>

lemma coord_inv_same:
  assumes "coord_inv s" "requests t = requests s" "completion_futures t = completion_futures s"
    "dict_ok (stream_queues t)" "partial_results t = partial_results s" "static_terminals t = static_terminals s"
    "max_in_flight t = max_in_flight s"
  shows "coord_inv t"
  by (rule coord_inv_shrink [OF assms(1)]) (use assms in \<open>auto simp: coord_inv_def dicts_ok_def waiters_ok_def\<close>)

lemma coord_inv_policy: "coord_inv s \<Longrightarrow> coord_inv (s\<lparr>policy := pol\<rparr>)"
  by (rule coord_inv_same [of s]) (simp_all add: coord_inv_def dicts_ok_def)

lemma coord_inv_track:
  assumes inv: "coord_inv s" and t: "track s r i t" and free: "\<not> request_id_is_reserved s r"
    and lt: "case max_in_flight s of None \<Rightarrow> True | Some n \<Rightarrow> int (length (requests s)) < n"
  shows "coord_inv t"
proof -
  have new: "\<not> dhas (requests s) r" using free by (simp add: request_id_is_reserved_def)
  have "partials_ok t" unfolding partials_ok_def
  proof (intro allI impI)
    fix k q assume "dget (partial_results t) k = Some q"
    then have k: "dget (partial_results s) k = Some q" using t by (simp add: track_def)
    then have old: "dhas (requests s) k" "q \<noteq> [] \<and> dict_ok q \<and> set (map fst q) \<subset> set (expected_terminal_stages s k)"
      using inv by (auto simp: coord_inv_def partials_ok_def)
    then have "k \<noteq> r" using new by auto
    then have "expected_terminal_stages t k = expected_terminal_stages s k"
      using t by (intro expected_cong) (simp_all add: track_def)
    with old t show "dhas (requests t) k \<and> q \<noteq> [] \<and> dict_ok q \<and> set (map fst q) \<subset> set (expected_terminal_stages t k)"
      by (simp add: track_def)
  qed
  moreover have "dicts_ok t" using inv t by (auto simp: coord_inv_def dicts_ok_def track_def)
  moreover have "cap_ok t" using lt t new by (auto simp: cap_ok_def track_def length_dset split: option.splits)
  moreover have "waiters_ok t" using inv t by (auto simp: coord_inv_def waiters_ok_def track_def)
  ultimately show ?thesis by (simp add: coord_inv_def)
qed

lemma coord_inv_submit_begin [inv_rules]:
  assumes "coord_inv s" shows "coord_inv (snd (submit_begin bind resolver s r q queue))"
  by (rule submit_begin_cases [of bind resolver s r q queue])
    (use assms coord_inv_track coord_inv_policy in \<open>metis+\<close>)

lemma coord_inv_set_info [inv_rules]:
  assumes "coord_inv s" "\<And>i. ri_terminal_stages (f i) = ri_terminal_stages i"
  shows "coord_inv (set_info s r f)"
  by (rule coord_inv_shrink [OF assms(1)])
    (use assms in \<open>auto simp: coord_inv_defs option.map_comp comp_def map_option_case dhas_dget split: option.splits\<close>)

lemma coord_inv_run_abort [inv_rules]:
  assumes inv: "coord_inv s" shows "coord_inv (snd (run_abort s r))"
proof (cases "dget (requests s) r")
  case (Some i)
  show ?thesis
    by (rule coord_inv_shrink [OF inv])
      (use inv coord_inv_dicts [OF inv] Some length_ddel_le [of r "requests (set_info s r (\<lambda>i. i\<lparr>ri_state := ABORTED\<rparr>))"] in
        \<open>auto simp: run_abort_def Let_def dicts_ok_def coord_inv_def waiters_ok_def split: if_splits\<close>)
qed (simp add: run_abort_def inv)

lemma coord_inv_completion_failed [inv_rules]:
  assumes inv: "coord_inv s" shows "coord_inv (completion_failed s m)"
  by (rule coord_inv_shrink [OF inv])
    (use inv coord_inv_dicts [OF inv] length_ddel_le [where d = "requests s"] in
      \<open>auto simp: completion_failed_def Let_def dicts_ok_def coord_inv_def waiters_ok_def split: if_splits\<close>)

lemma coord_inv_complete_single:
  assumes inv: "coord_inv s" and none: "dget (partial_results s) (cm_request_id m) = None"
  shows "coord_inv (complete_single s m)"
  by (rule coord_inv_shrink [OF inv])
    (use inv none coord_inv_dicts [OF inv] length_ddel_le in
      \<open>auto simp: complete_single_def Let_def dicts_ok_def coord_inv_def waiters_ok_def split: if_splits intro: order_trans [OF length_ddel_le]\<close>)

text \<open>The dictionary of partial results after a message, and the two ways \<open>complete_multi\<close> ends.\<close>

definition new_partials :: "('v, 'c, 'p) coordinator \<Rightarrow> 'v complete_msg \<Rightarrow> (string, 'v option) dict" where
  "new_partials s m =
     dset (case dget (partial_results s) (cm_request_id m) of None \<Rightarrow> [] | Some p \<Rightarrow> p) (cm_from_stage m) (cm_result m)"

lemma complete_multi_partials:
  "complete_multi s m expected =
     (let r = cm_request_id m; p = new_partials s m;
          s2 = put_stream (s\<lparr>partial_results := dset (partial_results s) r p\<rparr>) r (QComplete m) in
      if set (map fst p) \<subset> set expected then s2
      else drop_request (set_result (set_info (drop_partials s2 r) r
        (\<lambda>i. i\<lparr>ri_state := COMPLETED, ri_result := Some (Merged p)\<rparr>)) r (Merged p)) r)"
  by (simp add: complete_multi_def new_partials_def Let_def del: set_map)

lemma coord_inv_complete_multi:
  assumes inv: "coord_inv s" and tr: "dhas (requests s) (cm_request_id m)"
    and exp: "cm_from_stage m \<in> set expected" "expected = expected_terminal_stages s (cm_request_id m)"
  shows "coord_inv (complete_multi s m expected)"
proof (cases "fst ` set (new_partials s m) \<subset> set expected")
  case True
  let ?t = "complete_multi s m expected" and ?r = "cm_request_id m"
  have t: "?t = put_stream (s\<lparr>partial_results := dset (partial_results s) ?r (new_partials s m)\<rparr>) ?r (QComplete m)"
    using True by (simp add: complete_multi_def Let_def new_partials_def)
  have e: "expected_terminal_stages ?t k = expected_terminal_stages s k" for k
    by (rule expected_cong) (simp_all add: t)
  have ok: "dict_ok (new_partials s m)"
    using partialsD(3) [OF inv] by (auto simp: new_partials_def split: option.split)
  have "partials_ok ?t" unfolding partials_ok_def e
  proof (intro allI impI)
    fix k q assume q: "dget (partial_results ?t) k = Some q"
    have pr: "partial_results ?t = dset (partial_results s) ?r (new_partials s m)" "requests ?t = requests s" by (simp_all add: t)
    show "dhas (requests ?t) k \<and> q \<noteq> [] \<and> dict_ok q \<and> set (map fst q) \<subset> set (expected_terminal_stages s k)"
    proof (cases "k = ?r")
      case k: True
      then have "q = new_partials s m" using q by (simp add: pr)
      moreover have "new_partials s m \<noteq> []" by (simp add: new_partials_def)
      ultimately show ?thesis using k True ok tr exp(2) pr(2) by simp
    next
      case False
      then have "dget (partial_results s) k = Some q" using q by (simp add: pr)
      from partialsD [OF inv this] show ?thesis by (simp add: pr)
    qed
  qed
  moreover have "dicts_ok ?t" "waiters_ok ?t" using inv by (simp_all add: t coord_inv_def dicts_ok_def waiters_ok_def)
  moreover have "cap_ok ?t" using inv by (auto simp: t coord_inv_def cap_ok_def split: option.splits)
  ultimately show ?thesis by (simp add: coord_inv_def)
next
  case False
  let ?t = "complete_multi s m expected" and ?r = "cm_request_id m"
  have t: "requests ?t = ddel (requests (set_info s ?r (\<lambda>i. i\<lparr>ri_state := COMPLETED, ri_result := Some (Merged (new_partials s m))\<rparr>))) ?r"
    "dget (completion_futures ?t) k = (if k = ?r \<and> dget (completion_futures s) ?r = Some FPending then Some (FResult (Merged (new_partials s m)))
       else dget (completion_futures s) k)"
    "dict_ok (completion_futures ?t)" "dict_ok (stream_queues ?t)"
    "partial_results ?t = ddel (dset (partial_results s) ?r (new_partials s m)) ?r"
    "static_terminals ?t = static_terminals s" "max_in_flight ?t = max_in_flight s" for k
    using False inv by (auto simp: complete_multi_def Let_def new_partials_def set_info_def coord_inv_def dicts_ok_def split: option.split)
  show ?thesis
    by (rule coord_inv_shrink [OF inv])
      (use inv coord_inv_dicts [OF inv] in
        \<open>auto simp: t dicts_ok_def coord_inv_def waiters_ok_def split: if_splits intro: order_trans [OF length_ddel_le]\<close>)
qed

lemma coord_inv_complete_success:
  assumes inv: "coord_inv s" and tr: "dhas (requests s) (cm_request_id m)"
  shows "coord_inv (complete_success s m)"
proof -
  let ?r = "cm_request_id m" and ?e = "expected_terminal_stages s (cm_request_id m)"
  have "coord_inv (complete_single s m)" if le: "length (remdups ?e) \<le> 1"
  proof (rule coord_inv_complete_single [OF inv])
    show "dget (partial_results s) ?r = None"
    proof (rule ccontr)
      assume "dget (partial_results s) ?r \<noteq> None"
      then obtain p where "dget (partial_results s) ?r = Some p" by blast
      from partialsD [OF inv this] have "p \<noteq> []" "set (map fst p) \<subset> set ?e" by simp_all
      then have "0 < card (set (map fst p))" "card (set (map fst p)) < card (set ?e)"
        by (simp_all add: card_gt_0_iff psubset_card_mono del: set_map)
      with le show False by (simp add: length_remdups_card_conv)
    qed
  qed
  moreover have "coord_inv (complete_multi s m ?e)" if "cm_from_stage m \<in> set ?e"
    using coord_inv_complete_multi [OF inv tr that] by simp
  ultimately show ?thesis using inv by (auto simp: complete_success_def Let_def)
qed

lemma coord_inv_completion_begin [inv_rules]:
  assumes inv: "coord_inv s" shows "coord_inv (snd (completion_begin s m))"
proof (cases "dhas (requests s) (cm_request_id m)")
  case True
  have f: "coord_inv ((set_info s r (\<lambda>i. i\<lparr>ri_state := FAILED, ri_error := e\<rparr>))\<lparr>sent := xs\<rparr>)" for r e xs
    by (rule coord_inv_same [OF coord_inv_set_info [OF inv]]) (use inv in \<open>simp_all add: coord_inv_def dicts_ok_def\<close>)
  have "coord_inv (complete_success s (m\<lparr>cm_from_stage := n\<rparr>))" for n
    by (rule coord_inv_complete_success [OF inv]) (simp add: True)
  with f inv show ?thesis by (simp add: completion_begin_def Let_def split: sum.split)
qed (simp add: completion_begin_def Let_def inv)

text \<open>The loop of \<open>fail_pending_requests\<close>: every listed request is settled, nothing else changes.\<close>

lemma fail_one_simps [simp]:
  "dhas (requests (fail_one msg r s)) k = dhas (requests s) k"
  "partial_results (fail_one msg r s) = partial_results s"
  "static_terminals (fail_one msg r s) = static_terminals s"
  "max_in_flight (fail_one msg r s) = max_in_flight s"
  "dhas (stream_queues (fail_one msg r s)) k = dhas (stream_queues s) k"
  "dget (stream_queues (fail_one msg r s)) k =
     (if k = r then map_option (\<lambda>(a, ms). (a, ms @ [coordinator_failure r msg])) (dget (stream_queues s) r) else dget (stream_queues s) k)"
  "dget (completion_futures (fail_one msg r s)) k =
     (if k = r \<and> dget (completion_futures s) r = Some FPending
      then Some (if dhas (stream_queues s) r then FCancelled else FException (RuntimeExn msg)) else dget (completion_futures s) k)"
  by (simp_all add: fail_one_def Let_def)

lemma fail_one_dicts: "dicts_ok s \<Longrightarrow> dicts_ok (fail_one msg r s)"
  by (simp add: dicts_ok_def fail_one_def Let_def)

lemma fail_all:
  assumes "distinct rs"
  shows "dget (completion_futures (fold (fail_one msg) rs s)) k =
      (if k \<in> set rs \<and> dget (completion_futures s) k = Some FPending
       then Some (if dhas (stream_queues s) k then FCancelled else FException (RuntimeExn msg)) else dget (completion_futures s) k)"
    and "dget (stream_queues (fold (fail_one msg) rs s)) k =
      (if k \<in> set rs then map_option (\<lambda>(a, ms). (a, ms @ [coordinator_failure k msg])) (dget (stream_queues s) k)
       else dget (stream_queues s) k)"
    and "max_in_flight (fold (fail_one msg) rs s) = max_in_flight s"
    and "dicts_ok s \<Longrightarrow> dicts_ok (fold (fail_one msg) rs s)"
  using assms by (induction rs arbitrary: s) (auto simp: fail_one_dicts)

lemma coord_inv_fail_pending [inv_rules]:
  assumes inv: "coord_inv s" shows "coord_inv (fail_pending_requests s msg)"
proof -
  let ?s1 = "s\<lparr>running := False, fatal_error := Some msg\<rparr>"
  have d: "distinct (map fst (requests s))" using inv by (simp add: coord_inv_def dicts_ok_def dict_ok_def)
  have "dicts_ok ?s1" using inv by (simp add: coord_inv_def dicts_ok_def)
  from fail_all(4) [OF d this] have ok: "dicts_ok (fail_pending_requests s msg)"
    by (simp add: fail_pending_requests_def Let_def dicts_ok_def)
  have "dget (completion_futures (fail_pending_requests s msg)) k \<noteq> Some FPending" for k
    using inv fail_all(1) [OF d, of msg ?s1 k]
    by (auto simp: fail_pending_requests_def Let_def coord_inv_def waiters_ok_def dhas_iff)
  moreover have "max_in_flight (fail_pending_requests s msg) = max_in_flight s"
    using fail_all(3) [OF d, of msg ?s1] by (simp add: fail_pending_requests_def Let_def)
  moreover have "requests (fail_pending_requests s msg) = []" "partial_results (fail_pending_requests s msg) = []"
    by (simp_all add: fail_pending_requests_def Let_def)
  ultimately show ?thesis using inv ok
    by (auto simp: coord_inv_def cap_ok_def waiters_ok_def partials_ok_def split: option.splits)
qed

section \<open>The coordinator as a state machine\<close>

datatype ('q, 'v, 'c) coord_ev =
    Register string string
  | Start
  | Stop
  | Shutdown
  | FailPending string
  | Submit string 'q "nat option"
  | SubmitSent string
  | SubmitFinally string
  | AbortBegin string nat
  | RunAbort string
  | AbortTaskDone string nat
  | CompletionBegin "'v complete_msg"
  | CompletionFailed "'v complete_msg"
  | HandleStream "'c stream_msg"
  | StreamTake string nat "string list" "string list"
  | StreamFinally string nat
  | AdminBegin string string "string list option"
  | AdminResult admin_result
  | AdminFinally string

fun coord_step ::
  "'p bind_fn \<Rightarrow> ('q \<Rightarrow> resolver_answer) option \<Rightarrow> ('v, 'c, 'p) coordinator \<Rightarrow> ('q, 'v, 'c) coord_ev \<Rightarrow> ('v, 'c, 'p) coordinator" where
  "coord_step bind res s (Register n ep) = register_stage s n ep"
| "coord_step bind res s Start = coord_start s"
| "coord_step bind res s Stop = coord_stop s"
| "coord_step bind res s Shutdown = shutdown_stages s"
| "coord_step bind res s (FailPending msg) = fail_pending_requests s msg"
| "coord_step bind res s (Submit r q a) = snd (submit_begin bind res s r q a)"
| "coord_step bind res s (SubmitSent r) = submit_sent s r"
| "coord_step bind res s (SubmitFinally r) = submit_finally s r"
| "coord_step bind res s (AbortBegin r t) = snd (abort_begin s r t)"
| "coord_step bind res s (RunAbort r) = snd (run_abort s r)"
| "coord_step bind res s (AbortTaskDone r t) = on_abort_task_done s r t"
| "coord_step bind res s (CompletionBegin m) = snd (completion_begin s m)"
| "coord_step bind res s (CompletionFailed m) = completion_failed s m"
| "coord_step bind res s (HandleStream m) = snd (handle_stream s m)"
| "coord_step bind res s (StreamTake r a e d) = snd (stream_take s r a e d)"
| "coord_step bind res s (StreamFinally r a) = stream_finally s r a"
| "coord_step bind res s (AdminBegin i a ns) = snd (admin_begin s i a ns)"
| "coord_step bind res s (AdminResult x) = handle_admin_result s x"
| "coord_step bind res s (AdminFinally i) = admin_finally s i"

text \<open>Sections that leave requests, partial results and the settings alone and only drop futures.\<close>

definition quiet :: "('v, 'c, 'p) coordinator \<Rightarrow> ('v, 'c, 'p) coordinator \<Rightarrow> bool" where
  "quiet s t \<longleftrightarrow> requests t = requests s \<and> partial_results t = partial_results s \<and>
     static_terminals t = static_terminals s \<and> max_in_flight t = max_in_flight s \<and>
     (dict_ok (stream_queues s) \<longrightarrow> dict_ok (stream_queues t)) \<and>
     (completion_futures t = completion_futures s \<or> (\<exists>r. completion_futures t = ddel (completion_futures s) r))"

lemma quiet_sections:
  "quiet s (register_stage s n ep)" "quiet s (coord_start s)" "quiet s (coord_stop s)" "quiet s (shutdown_stages s)"
  "quiet s (submit_finally s r)" "quiet s (snd (abort_begin s r t))" "quiet s (on_abort_task_done s r t)"
  "quiet s (snd (handle_stream s m))" "quiet s (snd (stream_take s r a e d))" "quiet s (stream_finally s r a)"
  "quiet s (snd (admin_begin s i act ns))" "quiet s (handle_admin_result s x)" "quiet s (admin_finally s i)"
  by (auto simp: quiet_def register_stage_def coord_start_def coord_stop_def shutdown_stages_def submit_finally_def
      abort_begin_def on_abort_task_done_def handle_stream_def stream_take_def stream_finally_def admin_begin_def
      handle_admin_result_def admin_finally_def Let_def split: option.split list.split queue_msg.split sum.split)

lemma coord_inv_quiet: "quiet s t \<Longrightarrow> coord_inv s \<Longrightarrow> coord_inv t"
  by (rule coord_inv_shrink [of s])
    (auto simp: quiet_def coord_inv_def dicts_ok_def waiters_ok_def split: if_splits)

lemma coord_inv_step:
  assumes "coord_inv s" shows "coord_inv (coord_step bind res s ev)"
  using assms by (cases ev)
    (simp_all add: inv_rules submit_sent_def coord_inv_quiet [OF quiet_sections(1)] coord_inv_quiet [OF quiet_sections(2)]
      coord_inv_quiet [OF quiet_sections(3)] coord_inv_quiet [OF quiet_sections(4)] coord_inv_quiet [OF quiet_sections(5)]
      coord_inv_quiet [OF quiet_sections(6)] coord_inv_quiet [OF quiet_sections(7)] coord_inv_quiet [OF quiet_sections(8)]
      coord_inv_quiet [OF quiet_sections(9)] coord_inv_quiet [OF quiet_sections(10)] coord_inv_quiet [OF quiet_sections(11)]
      coord_inv_quiet [OF quiet_sections(12)] coord_inv_quiet [OF quiet_sections(13)])

interpretation coord: machine "coord_step bind res" coord_inv for bind res
  by unfold_locales (rule coord_inv_step)

lemma coord_init_inv: "coord_init entry ts topo plan pol cap = Inr s \<Longrightarrow> coord_inv s"
  by (auto simp: coord_init_def coord_inv_defs split: if_splits option.splits)

section \<open>Settlement\<close>

text \<open>
  How a section may treat one request: a settled future keeps its outcome or is taken away,
  and a request that stops being tracked has its stream queue closed by a completion.
\<close>

definition settles :: "('v, 'c, 'p) coordinator \<Rightarrow> string \<Rightarrow> ('v, 'c, 'p) coordinator \<Rightarrow> bool" where
  "settles s r t \<longleftrightarrow>
     (\<forall>f. dget (completion_futures s) r = Some f \<longrightarrow> f \<noteq> FPending \<longrightarrow> dget (completion_futures t) r \<in> {None, Some f}) \<and>
     (dhas (requests s) r \<longrightarrow> \<not> dhas (requests t) r \<longrightarrow>
        (\<forall>a ms. dget (stream_queues s) r = Some (a, ms) \<longrightarrow>
           (\<exists>c. dget (stream_queues t) r = Some (a, ms @ [QComplete c]) \<and> cm_request_id c = r)))"

lemma settles_quiet: "quiet s t \<Longrightarrow> settles s r t"
  by (auto simp: quiet_def settles_def split: if_splits)

lemma settles_submit: "settles s r (snd (submit_begin bind res s j q a))"
proof (rule submit_begin_cases [of bind res s j q a])
  fix inst i
  assume "track s j i (snd (submit_begin bind res s j q a))" "\<not> request_id_is_reserved s j"
  then show ?thesis by (auto simp: settles_def track_def request_id_is_reserved_def dhas_dget)
qed (auto simp: settles_def)

lemma settles_run_abort: "settles s r (snd (run_abort s j))"
  by (auto simp: settles_def run_abort_def Let_def coordinator_failure_def dhas_dget split: option.splits)

lemma settles_completion_failed: "settles s r (completion_failed s m)"
  by (auto simp: settles_def completion_failed_def Let_def dhas_dget split: option.splits)

lemma settles_complete_single: "settles s r (complete_single s m)"
  by (auto simp: settles_def complete_single_def Let_def dhas_dget split: option.splits)

lemma settles_complete_multi: "settles s r (complete_multi s m e)"
  by (auto simp: settles_def complete_multi_def Let_def dhas_dget simp del: keys_dset split: option.splits)

lemma settles_completion_begin: "settles s r (snd (completion_begin s m))"
proof -
  have "settles s r (complete_success s m')" for m'
    by (simp add: complete_success_def Let_def settles_complete_single settles_complete_multi)
      (simp add: settles_def)
  then show ?thesis
    by (simp add: completion_begin_def Let_def split: sum.split) (simp add: settles_def)
qed

lemma settles_fail_pending:
  assumes "coord_inv s" shows "settles s r (fail_pending_requests s msg)"
proof -
  let ?s1 = "s\<lparr>running := False, fatal_error := Some msg\<rparr>"
  have d: "distinct (map fst (requests s))" using assms by (simp add: coord_inv_def dicts_ok_def dict_ok_def)
  show ?thesis
    using fail_all(1,2) [OF d, of msg ?s1 r]
    by (auto simp: settles_def fail_pending_requests_def Let_def dhas_iff coordinator_failure_def)
qed

lemma settles_step:
  assumes "coord_inv s" shows "settles s r (coord_step bind res s ev)"
  using assms by (cases ev)
    (simp_all add: settles_quiet quiet_sections settles_submit settles_run_abort settles_completion_failed
      settles_completion_begin settles_fail_pending, simp add: settles_def submit_sent_def)

section \<open>Properties\<close>

text \<open>
  C1: over every interleaving of the coordinator's atomic sections, the number of tracked
  requests never exceeds \<^verbatim>\<open>max_in_flight\<close>, nobody waits on the future of a request that is no
  longer tracked, and stored partial results belong to tracked requests and cover a proper
  part of their expected terminal stages.
\<close>

theorem coordinator_invariant:
  assumes "coord_init entry ts topo plan pol cap = Inr s0"
  shows "coord_inv (run (coord_step bind res) s0 evs)"
  by (rule coord.inv_run) (rule coord_init_inv [OF assms])

definition demo_coord :: "(nat, nat, rr_state) coordinator" where
  "demo_coord =
     \<lparr>entry_stage_name = ''in'', static_terminals = [''text'', ''audio''], topology = empty_topology,
      process_plan = \<lparr>plan_processes = [], plan_stage_to_process = []\<rparr>, policy = [], max_in_flight = Some 1, stages = [(''in'', ''ep'')],
      requests = [], completion_futures = [], stream_queues = [], abort_tasks = [], admin_ops = [], partial_results = [],
      running = True, fatal_error = None, sent = []\<rparr>"

lemma demo_coord_inv: "coord_inv demo_coord"
  by (simp add: demo_coord_def coord_inv_defs)

theorem coordinator_invariant_witness:
  "coord_inv (run (coord_step rr_bind (None :: (nat \<Rightarrow> resolver_answer) option))
     \<lparr>entry_stage_name = ''in'', static_terminals = [''out''], topology = empty_topology,
      process_plan = \<lparr>plan_processes = [], plan_stage_to_process = []\<rparr>, policy = [], max_in_flight = Some 1, stages = [],
      requests = [], completion_futures = [], stream_queues = [], abort_tasks = [], admin_ops = [], partial_results = [],
      running = False, fatal_error = None, sent = []\<rparr>
     ([Register ''in'' ''ep'', Start, Submit ''r'' 0 None, SubmitSent ''r''] :: (nat, nat, nat) coord_ev list))"
  by (rule coordinator_invariant [where entry = "''in''" and ts = "Some [''out'']" and topo = empty_topology
        and plan = "\<lparr>plan_processes = [], plan_stage_to_process = []\<rparr>" and pol = "[]" and cap = "Some 1"])
    (simp add: coord_init_def)

text \<open>
  C2: every accepted request is settled exactly once. In every reachable state and for every
  next section: a future that already has an outcome keeps it until its caller takes it away,
  and a request that stops being tracked leaves no unsettled future and, when it is streamed,
  a completion message as the last entry of its queue, so that its consumer wakes up.
\<close>

theorem request_settled_exactly_once:
  assumes "coord_init entry ts topo plan pol cap = Inr s0"
  shows "let s = run (coord_step bind res) s0 evs; t = coord_step bind res s ev in
    settles s r t \<and> (\<not> dhas (requests t) r \<longrightarrow> dget (completion_futures t) r \<noteq> Some FPending)"
proof -
  have inv: "coord_inv (run (coord_step bind res) s0 evs)"
    by (rule coord.inv_run) (rule coord_init_inv [OF assms])
  from settles_step [OF this] coord_inv_step [OF this] show ?thesis
    unfolding Let_def coord_inv_def waiters_ok_def by blast
qed

theorem request_settled_exactly_once_witness:
  "let s = run (coord_step rr_bind (None :: (nat \<Rightarrow> resolver_answer) option))
       \<lparr>entry_stage_name = ''in'', static_terminals = [''out''], topology = empty_topology,
        process_plan = \<lparr>plan_processes = [], plan_stage_to_process = []\<rparr>, policy = [], max_in_flight = Some 1, stages = [],
        requests = [], completion_futures = [], stream_queues = [], abort_tasks = [], admin_ops = [], partial_results = [],
        running = False, fatal_error = None, sent = []\<rparr>
       ([Register ''in'' ''ep'', Start, Submit ''r'' 0 None, SubmitSent ''r''] :: (nat, nat, nat) coord_ev list);
     t = coord_step rr_bind None s (FailPending ''down'' :: (nat, nat, nat) coord_ev) in
   settles s ''r'' t \<and> (\<not> dhas (requests t) ''r'' \<longrightarrow> dget (completion_futures t) ''r'' \<noteq> Some FPending)"
  by (rule request_settled_exactly_once [where entry = "''in''" and ts = "Some [''out'']" and topo = empty_topology
        and plan = "\<lparr>plan_processes = [], plan_stage_to_process = []\<rparr>" and pol = "[]" and cap = "Some 1"])
    (simp add: coord_init_def)

text \<open>
  Admission. A submission is refused, with no request, future or queue changed, when the
  coordinator is in its fatal state, when the id is still owned by a request, a future, a
  stream or an abort task, or when the cap is reached; when it is accepted the id was free,
  the number of requests was below the cap, and the request is tracked as pending with an
  unsettled future.
\<close>

theorem submission_guarded:
  "(case submit_begin bind res s r q queue of
      (Inl e, t) \<Rightarrow> requests t = requests s \<and> completion_futures t = completion_futures s \<and> stream_queues t = stream_queues s
    | (Inr inst, t) \<Rightarrow>
        fatal_error s = None \<and> \<not> request_id_is_reserved s r \<and>
        (case max_in_flight s of None \<Rightarrow> True | Some n \<Rightarrow> int (length (requests s)) < n) \<and>
        map_option ri_state (dget (requests t) r) = Some PENDING \<and> dget (completion_futures t) r = Some FPending \<and>
        request_id_is_reserved t r)"
proof (cases "fatal_error s")
  case None
  show ?thesis
    by (rule submit_begin_cases [of bind res s r q queue])
      (auto simp: None track_def request_id_is_reserved_def dhas_dget split: prod.split sum.split)
qed (simp add: submit_begin_def admission_error_def)


lemma demo_submit:
  "submit_begin rr_bind (None :: (nat \<Rightarrow> resolver_answer) option) demo_coord ''r'' 0 queue =
     (Inr ''in'', demo_coord\<lparr>requests := [(''r'', \<lparr>ri_state = PENDING, ri_current_stage = ''in'', ri_terminal_stages = Some [''text'', ''audio''],
        ri_result = None, ri_error = None\<rparr>)], completion_futures := [(''r'', FPending)],
        stream_queues := (case queue of None \<Rightarrow> [] | Some a \<Rightarrow> [(''r'', (a, []))]), sent := [SubmitTo ''in'' ''ep'' ''r'' None]\<rparr>)"
  by (simp add: submit_begin_def demo_coord_def admission_error_def request_id_is_reserved_def assign_replica_bindings_def
      has_replicas_def replicated_process_names_def submit_target_def entry_instance_def is_replicated_def empty_topology_def resolve_terminal_stages_def split: option.split)


section \<open>Several terminal stages\<close>

definition ok_msg :: "string \<Rightarrow> string \<times> 'v option \<Rightarrow> 'v complete_msg" where
  "ok_msg r p = \<lparr>cm_request_id = r, cm_from_stage = fst p, cm_success = True, cm_result = snd p, cm_error = None\<rparr>"

definition collecting :: "('v, 'c, 'p) coordinator \<Rightarrow> string \<Rightarrow> string list \<Rightarrow> (string, 'v option) dict \<Rightarrow> bool" where
  "collecting s r ts p \<longleftrightarrow>
     map_option ri_terminal_stages (dget (requests s) r) = Some (Some ts) \<and> dget (completion_futures s) r = Some FPending \<and>
     (case dget (partial_results s) r of None \<Rightarrow> [] | Some q \<Rightarrow> q) = p"

lemma collecting_step:
  assumes c: "collecting s r ts p" and ts: "1 < card (set ts)" and n: "logical_name (topology s) inst = Inr n"
    and new: "n \<in> set ts" "n \<notin> set (map fst p)" and sub: "set (map fst p) \<subseteq> set ts"
  shows "if insert n (set (map fst p)) = set ts
    then \<not> dhas (requests (handle_completion s (ok_msg r (inst, v)))) r \<and>
      dget (completion_futures (handle_completion s (ok_msg r (inst, v)))) r = Some (FResult (Merged (p @ [(n, v)])))
    else collecting (handle_completion s (ok_msg r (inst, v))) r ts (p @ [(n, v)]) \<and>
      topology (handle_completion s (ok_msg r (inst, v))) = topology s"
proof -
  let ?m = "(ok_msg r (inst, v))\<lparr>cm_from_stage := n\<rparr>" and ?t = "handle_completion s (ok_msg r (inst, v))"
  have e: "expected_terminal_stages s r = ts" using c by (auto simp: collecting_def expected_terminal_stages_def)
  have "\<not> length (remdups ts) \<le> 1" using ts by (simp add: length_remdups_card_conv)
  moreover have "ts \<noteq> []" using new by auto
  ultimately have "complete_success s ?m = complete_multi s ?m ts"
    using e new by (simp add: complete_success_def ok_msg_def)
  moreover have "dhas (requests s) r" using c by (auto simp: collecting_def dhas_dget)
  ultimately have t: "?t = complete_multi s ?m ts"
    using n by (simp add: handle_completion_def completion_begin_def ok_msg_def)
  have part: "dset (case dget (partial_results s) r of None \<Rightarrow> [] | Some q \<Rightarrow> q) n v = p @ [(n, v)]"
    using c new(2) by (simp add: collecting_def dset_fresh map_of_eq_None_iff)
  have lt: "insert n (fst ` set p) \<subset> set ts \<longleftrightarrow> insert n (fst ` set p) \<noteq> set ts" using sub new by auto
  have c': "map_option ri_terminal_stages (dget (requests s) r) = Some (Some ts)" "dget (completion_futures s) r = Some FPending"
    using c by (simp_all add: collecting_def)
  have np: "new_partials s ?m = p @ [(n, v)]" "cm_request_id ?m = r" using part by (simp_all add: new_partials_def ok_msg_def)
  show ?thesis unfolding t complete_multi_partials np
    using c' lt by (auto simp: Let_def collecting_def dhas_dget)
qed

lemma collecting_run:
  assumes "collecting s r ts p" "1 < card (set ts)" "map (\<lambda>x. logical_name (topology s) (fst x)) xs = map Inr ns"
    and "distinct (map fst p @ ns)" "set (map fst p @ ns) \<subset> set ts"
  shows "collecting (fold (\<lambda>x s. handle_completion s (ok_msg r x)) xs s) r ts (p @ zip ns (map snd xs)) \<and>
    topology (fold (\<lambda>x s. handle_completion s (ok_msg r x)) xs s) = topology s"
  using assms
proof (induction xs arbitrary: s p ns)
  case (Cons x xs)
  obtain n ns' where ns: "ns = n # ns'" "logical_name (topology s) (fst x) = Inr n"
    "map (\<lambda>x. logical_name (topology s) (fst x)) xs = map Inr ns'" using Cons.prems(3) by (cases ns) auto
  let ?t = "handle_completion s (ok_msg r x)"
  have "insert n (set (map fst p)) \<noteq> set ts" using Cons.prems(5) ns(1) by auto
  with collecting_step [OF Cons.prems(1,2) ns(2), of "snd x"] Cons.prems(4,5) ns(1)
  have t: "collecting ?t r ts (p @ [(n, snd x)])" "topology ?t = topology s" by auto
  from Cons.IH [OF t(1) Cons.prems(2), of ns'] Cons.prems(4,5) ns t(2) show ?case by simp
qed simp

text \<open>
  C3: with several expected terminal stages a request completes exactly when the last of them
  has reported: after successes of all of them but some, in any order and from any replica,
  the caller still waits; after all of them the future holds the dictionary of all results
  under the logical stage names and the request is no longer tracked.
\<close>

theorem terminal_results_merged:
  assumes "map_option ri_terminal_stages (dget (requests s) r) = Some (Some ts)" "dget (completion_futures s) r = Some FPending"
    and "dget (partial_results s) r = None" and "1 < card (set ts)"
    and "map (\<lambda>p. logical_name (topology s) (fst p)) xs = map Inr ns" and "distinct ns" "set ns = set ts"
  shows "(let t = fold (\<lambda>p s. handle_completion s (ok_msg r p)) xs s in
      \<not> dhas (requests t) r \<and> dget (completion_futures t) r = Some (FResult (Merged (zip ns (map snd xs))))) \<and>
    (\<forall>k<length xs. let t = fold (\<lambda>p s. handle_completion s (ok_msg r p)) (take k xs) s in
      dhas (requests t) r \<and> dget (completion_futures t) r = Some FPending)"
proof -
  let ?f = "\<lambda>p s. handle_completion s (ok_msg r p)"
  have len: "length ns = length xs" using arg_cong [OF assms(5), of length] by simp
  have c0: "collecting s r ts []" using assms(1-3) by (simp add: collecting_def)
  have pre: "collecting (fold ?f (take k xs) s) r ts (zip (take k ns) (map snd (take k xs))) \<and> topology (fold ?f (take k xs) s) = topology s"
    if "k < length xs" for k
  proof -
    have "ns ! k \<notin> set (take k ns)" using that len assms(6) by (metis distinct_take in_set_conv_nth id_take_nth_drop not_distinct_conv_prefix append_take_drop_id)
    then have sub: "set (take k ns) \<subset> set ts" using that len assms(7) by (metis nth_mem psubsetI set_take_subset)
    have "map (\<lambda>x. logical_name (topology s) (fst x)) (take k xs) = map Inr (take k ns)"
      using assms(5) by (metis take_map)
    from collecting_run [OF c0 assms(4) this] assms(6) sub show ?thesis by (simp add: distinct_take)
  qed
  have "xs \<noteq> []" using assms(4,7) len by auto
  then obtain k where k: "length xs = Suc k" by (cases xs) auto
  let ?s = "fold ?f (take k xs) s" and ?p = "zip (take k ns) (map snd (take k xs))" and ?x = "xs ! k"
  have xs: "xs = take k xs @ [?x]" and ns: "ns = take k ns @ [ns ! k]"
    using k len by (simp_all add: take_Suc_conv_app_nth [symmetric])
  have keys: "map fst ?p = take k ns" using k len by simp
  have "logical_name (topology ?s) (fst ?x) = Inr (ns ! k)"
    using pre [of k] k len arg_cong [OF assms(5), of "\<lambda>l. l ! k"] by simp
  moreover have "ns ! k \<in> set ts" using k len assms(7) by (metis lessI nth_mem)
  moreover have "ns ! k \<notin> set (take k ns)" "insert (ns ! k) (set (take k ns)) = set ts"
    using ns assms(6,7) by (metis distinct_append disjoint_insert(1) list.simps(15) , metis Un_insert_right append_Nil2 list.set(2) set_append sup_bot.right_neutral list.set(1))
  ultimately have fin: "\<not> dhas (requests (?f ?x ?s)) r \<and> dget (completion_futures (?f ?x ?s)) r = Some (FResult (Merged (?p @ [(ns ! k, snd ?x)])))"
    using collecting_step [of ?s r ts ?p "fst ?x" "ns ! k" "snd ?x"] pre [of k] k assms(4) keys by auto
  have "fold ?f xs s = ?f ?x ?s" by (subst xs) simp
  moreover have "zip ns (map snd xs) = ?p @ [(ns ! k, snd ?x)]"
    by (subst xs, subst ns) (use k len in simp)
  ultimately show ?thesis using fin pre by (auto simp: Let_def collecting_def dhas_dget)
qed

lemma demo_submitted:
  "snd (submit_begin rr_bind (None :: (nat \<Rightarrow> resolver_answer) option) demo_coord ''r'' 0 None) =
     demo_coord\<lparr>requests := [(''r'', \<lparr>ri_state = PENDING, ri_current_stage = ''in'', ri_terminal_stages = Some [''text'', ''audio''],
        ri_result = None, ri_error = None\<rparr>)], completion_futures := [(''r'', FPending)], sent := [SubmitTo ''in'' ''ep'' ''r'' None]\<rparr>"
  by (simp add: demo_submit) (simp add: demo_coord_def)

lemma demo_names:
  "logical_name (topology demo_coord) ''text'' = Inr ''text''" "logical_name (topology demo_coord) ''audio'' = Inr ''audio''"
  by code_simp+

theorem terminal_results_merged_witness:
  "let s = snd (submit_begin rr_bind (None :: (nat \<Rightarrow> resolver_answer) option) demo_coord ''r'' 0 None) in
   (let t = fold (\<lambda>p s. handle_completion s (ok_msg ''r'' p)) [(''audio'', Some 2), (''text'', Some 1)] s in
      \<not> dhas (requests t) ''r'' \<and>
      dget (completion_futures t) ''r'' = Some (FResult (Merged (zip [''audio'', ''text''] (map snd [(''audio'', Some 2), (''text'', Some 1)]))))) \<and>
    (\<forall>k<length [(''audio'', Some 2), (''text'', Some (1::nat))].
      let t = fold (\<lambda>p s. handle_completion s (ok_msg ''r'' p)) (take k [(''audio'', Some 2), (''text'', Some 1)]) s in
      dhas (requests t) ''r'' \<and> dget (completion_futures t) ''r'' = Some FPending)"
  unfolding Let_def [of "snd _"]
  by (rule terminal_results_merged [where ts = "[''text'', ''audio'']"])
    (unfold demo_submitted, simp_all add: demo_names insert_commute, simp_all add: demo_coord_def)

section \<open>Failures and aborts\<close>

lemma sent_simps [simp]:
  "sent (reject_completion_future s r e) = sent s" "sent (put_stream s r m) = sent s" "sent (set_info s r f) = sent s"
  "sent (drop_request s r) = sent s" "sent (drop_partials s r) = sent s"
  by (simp_all add: reject_completion_future_def put_stream_def set_info_def drop_request_def drop_partials_def
      split: option.split future.split)




text \<open>
  A failure can hit a later request of the same id. While the handler of a failure awaits
  its broadcast, an abort already under way can finish, its caller can leave and the id can
  be submitted again; the handler then goes on by id alone and rejects the new request's
  future and drops its tracking, although no stage failed it.
\<close>

theorem stale_failure_rejects_new_request:
  "let m = \<lparr>cm_request_id = ''r'', cm_from_stage = ''text'', cm_success = False, cm_result = None, cm_error = Some ''boom''\<rparr>;
       s = run (coord_step rr_bind (None :: (nat \<Rightarrow> resolver_answer) option)) demo_coord
         [Submit ''r'' 0 None, SubmitSent ''r'', AbortBegin ''r'' 7, CompletionBegin m, RunAbort ''r'', SubmitFinally ''r'',
          AbortTaskDone ''r'' 7, Submit ''r'' 1 None, SubmitSent ''r''];
       t = coord_step rr_bind (None :: (nat \<Rightarrow> resolver_answer) option) s (CompletionFailed m :: (nat, nat, nat) coord_ev) in
   dget (completion_futures s) ''r'' = Some FPending \<and>
   dget (completion_futures t) ''r'' = Some (FException (RuntimeExn ''boom'')) \<and> \<not> dhas (requests t) ''r''"
  by code_simp

end
