(* ===== verification/Router_Worker.thy ===== *)
theory Router_Worker
  imports Py_Strings
begin

text \<open>
  Worker health and selection in the external router
  (\<^verbatim>\<open>sglang_omni_router/python/worker.py\<close>, \<^verbatim>\<open>selector.py\<close>, \<^verbatim>\<open>health.py\<close>, and the places of
  \<^verbatim>\<open>proxy.py\<close>, \<^verbatim>\<open>websocket_proxy.py\<close> and \<^verbatim>\<open>control_plane.py\<close> that report request failures).
  A probe has two atomic sections around the HTTP request; the time stamps and the log
  lines are left out.
\<close>

section \<open>Workers\<close>

datatype worker_state = Dead | Healthy | Unknown | Unhealthy

record worker =
  w_url :: string
  w_model :: "string option"
  w_capabilities :: "string list"
  incarnation :: string
  health_epoch :: nat
  active_requests :: nat
  w_state :: worker_state
  disabled :: bool
  consecutive_failures :: nat
  consecutive_successes :: nat
  routed_requests :: nat
  successful_requests :: nat
  failed_requests :: nat
  routed_by_class :: "(string, nat) dict"
  successful_by_class :: "(string, nat) dict"
  failed_by_class :: "(string, nat) dict"
  last_status_code :: "int option"
  last_error :: "string option"

definition new_worker :: "string \<Rightarrow> string option \<Rightarrow> string list \<Rightarrow> string \<Rightarrow> worker" where
  "new_worker url model caps inc =
     \<lparr>w_url = url, w_model = model, w_capabilities = caps, incarnation = inc, health_epoch = 0, active_requests = 0,
      w_state = Unknown, disabled = False, consecutive_failures = 0, consecutive_successes = 0,
      routed_requests = 0, successful_requests = 0, failed_requests = 0,
      routed_by_class = [], successful_by_class = [], failed_by_class = [],
      last_status_code = None, last_error = None\<rparr>"

definition is_dead :: "worker \<Rightarrow> bool" where
  "is_dead w \<longleftrightarrow> w_state w = Dead"

definition is_routable :: "worker \<Rightarrow> bool" where
  "is_routable w \<longleftrightarrow> w_state w = Healthy \<and> \<not> disabled w"

definition supports :: "worker \<Rightarrow> string \<Rightarrow> bool" where
  "supports w c \<longleftrightarrow> c \<in> set (w_capabilities w)"

datatype worker_error = UrlChanged | NegativeActive

definition replace_config :: "worker \<Rightarrow> string \<Rightarrow> string option \<Rightarrow> string list \<Rightarrow> worker_error + worker" where
  "replace_config w url model caps =
     (if url \<noteq> w_url w then Inl UrlChanged else Inr (w\<lparr>w_model := model, w_capabilities := caps\<rparr>))"

definition mark_dead :: "worker \<Rightarrow> string option \<Rightarrow> worker" where
  "mark_dead w err =
     w\<lparr>w_state := Dead, health_epoch := Suc (health_epoch w),
       last_error := (case err of None \<Rightarrow> last_error w | Some e \<Rightarrow> Some e)\<rparr>"

definition clear_dead :: "worker \<Rightarrow> worker" where
  "clear_dead w =
     w\<lparr>w_state := (if is_dead w then Unknown else w_state w), health_epoch := Suc (health_epoch w),
       consecutive_failures := 0, consecutive_successes := 0\<rparr>"

definition set_disabled :: "worker \<Rightarrow> bool \<Rightarrow> worker" where
  "set_disabled w b = w\<lparr>disabled := b\<rparr>"

definition increment_active :: "worker \<Rightarrow> worker" where
  "increment_active w = w\<lparr>active_requests := Suc (active_requests w)\<rparr>"

definition decrement_active :: "worker \<Rightarrow> worker_error + worker" where
  "decrement_active w =
     (if active_requests w = 0 then Inl NegativeActive else Inr (w\<lparr>active_requests := active_requests w - 1\<rparr>))"

definition increment_counter :: "(string, nat) dict \<Rightarrow> string \<Rightarrow> (string, nat) dict" where
  "increment_counter d k = dset d k ((case dget d k of None \<Rightarrow> 0 | Some n \<Rightarrow> n) + 1)"

definition record_routed_request :: "worker \<Rightarrow> int option \<Rightarrow> string \<Rightarrow> worker" where
  "record_routed_request w code cls =
     (let w1 = w\<lparr>routed_requests := Suc (routed_requests w), routed_by_class := increment_counter (routed_by_class w) cls\<rparr> in
      if (case code of None \<Rightarrow> False | Some c \<Rightarrow> 200 \<le> c \<and> c < 400)
      then w1\<lparr>successful_requests := Suc (successful_requests w1), successful_by_class := increment_counter (successful_by_class w1) cls\<rparr>
      else w1\<lparr>failed_requests := Suc (failed_requests w1), failed_by_class := increment_counter (failed_by_class w1) cls\<rparr>)"

text \<open>\<^verbatim>\<open>_record_failure\<close>, shared by failed probes and failed requests.\<close>

definition record_failure :: "worker \<Rightarrow> nat \<Rightarrow> worker" where
  "record_failure w threshold =
     (let w1 = w\<lparr>consecutive_failures := Suc (consecutive_failures w), consecutive_successes := 0\<rparr> in
      if threshold \<le> consecutive_failures w1 then w1\<lparr>w_state := Unhealthy\<rparr> else w1)"

definition record_health_result :: "worker \<Rightarrow> bool \<Rightarrow> nat \<Rightarrow> nat \<Rightarrow> int option \<Rightarrow> string option \<Rightarrow> worker" where
  "record_health_result w ok fthr sthr code err =
     (let w1 = w\<lparr>last_status_code := code, last_error := err\<rparr> in
      if ok then
        (let w2 = w1\<lparr>consecutive_successes := Suc (consecutive_successes w1), consecutive_failures := 0\<rparr> in
         if sthr \<le> consecutive_successes w2 then w2\<lparr>w_state := Healthy\<rparr> else w2)
      else record_failure w1 fthr)"

definition record_request_failure :: "worker \<Rightarrow> nat \<Rightarrow> int option \<Rightarrow> string option \<Rightarrow> worker" where
  "record_request_failure w fthr code err = record_failure (w\<lparr>last_status_code := code, last_error := err\<rparr>) fthr"

section \<open>Probes\<close>

text \<open>
  \<^verbatim>\<open>_check_worker_health\<close>: the first section remembers the epoch (\<open>None\<close> when the worker is dead
  and not probed), the second handles the answer of the HTTP client, \<open>None\<close> for an HTTP error.
\<close>

definition probe_start :: "worker \<Rightarrow> nat option" where
  "probe_start w = (if is_dead w then None else Some (health_epoch w))"

datatype probe_answer = HttpError string | Response int string

definition probe_finish :: "worker \<Rightarrow> nat \<Rightarrow> probe_answer \<Rightarrow> nat \<Rightarrow> nat \<Rightarrow> worker" where
  "probe_finish w epoch answer fthr sthr =
     (if health_epoch w \<noteq> epoch then w
      else case answer of
        HttpError e \<Rightarrow> record_health_result w False fthr sthr None (Some e)
      | Response code text \<Rightarrow>
          (let ok = (200 \<le> code \<and> code < 300) in
           record_health_result w ok fthr sthr (Some code) 
             (if ok then None else Some (if text = [] then ''status='' @ show_int code else take 512 text))))"

section \<open>Reports of failed requests\<close>

text \<open>
  The proxy and the control plane skip a dead worker; the WebSocket proxy's
  \<^verbatim>\<open>_complete_session\<close> records the failure whatever the state.
\<close>

definition proxy_record_failure :: "worker \<Rightarrow> nat \<Rightarrow> int option \<Rightarrow> string option \<Rightarrow> worker" where
  "proxy_record_failure w fthr code err = (if is_dead w then w else record_request_failure w fthr code err)"

definition ws_complete_session :: "worker \<Rightarrow> nat \<Rightarrow> int option \<Rightarrow> string option \<Rightarrow> int option \<Rightarrow> worker" where
  "ws_complete_session w fthr fcode ferr rcode =
     (let w1 = (if fcode \<noteq> None \<or> ferr \<noteq> None then record_request_failure w fthr fcode ferr else w) in
      record_routed_request w1 rcode ''tts_websocket'')"

section \<open>Selection\<close>

definition eligible_workers :: "worker list \<Rightarrow> string list \<Rightarrow> string option \<Rightarrow> worker list" where
  "eligible_workers ws caps model =
     (let candidates = filter (\<lambda>w. is_routable w \<and> list_all (supports w) caps) ws in
      case model of
        None \<Rightarrow> candidates
      | Some m \<Rightarrow>
          if list_ex (\<lambda>w. w_model w \<notin> {None, Some []}) candidates
          then filter (\<lambda>w. w_model w = Some m) candidates else candidates)"

datatype select_error = NoEligibleWorker | UnsupportedPolicy string

definition require_eligible_worker :: "worker option \<Rightarrow> string list \<Rightarrow> string option \<Rightarrow> select_error + worker" where
  "require_eligible_worker w caps model =
     (case eligible_workers (case w of None \<Rightarrow> [] | Some x \<Rightarrow> [x]) caps model of
        [] \<Rightarrow> Inl NoEligibleWorker
      | x # _ \<Rightarrow> Inr x)"

record 'g selector =
  sel_policy :: string
  rr_index :: nat
  rng :: 'g

definition select_round_robin :: "'g selector \<Rightarrow> worker list \<Rightarrow> worker \<times> 'g selector" where
  "select_round_robin s ws = (ws ! (rr_index s mod length ws), s\<lparr>rr_index := Suc (rr_index s)\<rparr>)"

text \<open>\<^verbatim>\<open>random.Random.choice\<close> is the parameter \<open>choice\<close>: an index below the length and the new generator state.\<close>

definition select_worker ::
  "('g \<Rightarrow> nat \<Rightarrow> nat \<times> 'g) \<Rightarrow> 'g selector \<Rightarrow> worker list \<Rightarrow> string list \<Rightarrow> string option \<Rightarrow>
   (select_error + worker) \<times> 'g selector" where
  "select_worker choice s ws caps model =
     (let candidates = eligible_workers ws caps model in
      if candidates = [] then (Inl NoEligibleWorker, s)
      else if sel_policy s = ''round_robin'' then
        (let (w, s') = select_round_robin s candidates in (Inr w, s'))
      else if sel_policy s = ''least_request'' then
        (let least = Min (set (map active_requests candidates));
             (w, s') = select_round_robin s (filter (\<lambda>w. active_requests w = least) candidates) in (Inr w, s'))
      else if sel_policy s = ''random'' then
        (let (i, g) = choice (rng s) (length candidates) in (Inr (candidates ! i), s\<lparr>rng := g\<rparr>))
      else (Inl (UnsupportedPolicy (sel_policy s)), s))"

section \<open>A worker under all its events\<close>

text \<open>
  A run of a worker as the single-process router sees it. The pending probes carry the epoch
  their first section read; \<open>Proxy\<close> and \<open>Ws\<close> are the two reports of failed requests.
\<close>

datatype worker_ev =
    MarkDead "string option"
  | ClearDead
  | SetDisabled bool
  | ProbeStart
  | ProbeFinish nat probe_answer
  | ProxyFailure "int option" "string option"
  | Routed "int option" string

record probed =
  target :: worker
  probes :: "nat list"

fun worker_step :: "nat \<Rightarrow> nat \<Rightarrow> probed \<Rightarrow> worker_ev \<Rightarrow> probed" where
  "worker_step fthr sthr p (MarkDead e) = p\<lparr>target := mark_dead (target p) e\<rparr>"
| "worker_step fthr sthr p ClearDead = p\<lparr>target := clear_dead (target p)\<rparr>"
| "worker_step fthr sthr p (SetDisabled b) = p\<lparr>target := set_disabled (target p) b\<rparr>"
| "worker_step fthr sthr p ProbeStart =
     (case probe_start (target p) of None \<Rightarrow> p | Some e \<Rightarrow> p\<lparr>probes := e # probes p\<rparr>)"
| "worker_step fthr sthr p (ProbeFinish e a) =
     (if e \<in> set (probes p) then p\<lparr>target := probe_finish (target p) e a fthr sthr, probes := remove1 e (probes p)\<rparr> else p)"
| "worker_step fthr sthr p (ProxyFailure c e) = p\<lparr>target := proxy_record_failure (target p) fthr c e\<rparr>"
| "worker_step fthr sthr p (Routed c cls) = p\<lparr>target := record_routed_request (target p) c cls\<rparr>"

section \<open>Dead workers stay dead\<close>

text \<open>No pending probe is ahead of the worker's epoch, and none of a dead worker has its current epoch.\<close>

definition epochs_ok :: "probed \<Rightarrow> bool" where
  "epochs_ok p \<longleftrightarrow> (\<forall>e\<in>set (probes p). e \<le> health_epoch (target p)) \<and>
     (is_dead (target p) \<longrightarrow> health_epoch (target p) \<notin> set (probes p))"

lemma record_epoch [simp]:
  "health_epoch (record_health_result w ok f s c e) = health_epoch w"
  "health_epoch (record_request_failure w f c e) = health_epoch w"
  "health_epoch (record_routed_request w c cls) = health_epoch w"
  "w_state (record_routed_request w c cls) = w_state w"
  by (simp_all add: record_health_result_def record_request_failure_def record_failure_def record_routed_request_def Let_def)

lemma record_not_dead:
  "w_state w \<noteq> Dead \<Longrightarrow> w_state (record_health_result w ok f s c e) \<noteq> Dead"
  "w_state w \<noteq> Dead \<Longrightarrow> w_state (record_request_failure w f c e) \<noteq> Dead"
  by (auto simp: record_health_result_def record_request_failure_def record_failure_def Let_def)

lemma probe_finish_epoch [simp]: "health_epoch (probe_finish w e a f s) = health_epoch w"
  by (simp add: probe_finish_def Let_def split: probe_answer.split)

lemma probe_finish_not_dead: "w_state w \<noteq> Dead \<Longrightarrow> w_state (probe_finish w e a f s) \<noteq> Dead"
  using record_not_dead(1) by (simp add: probe_finish_def Let_def split: probe_answer.split)

lemma probe_finish_stale: "e \<noteq> health_epoch w \<Longrightarrow> probe_finish w e a f s = w"
  by (simp add: probe_finish_def)

lemma epochs_ok_step: "epochs_ok p \<Longrightarrow> epochs_ok (worker_step f s p ev)"
proof (cases ev)
  case (MarkDead e)
  assume "epochs_ok p"
  with MarkDead show ?thesis by (auto simp: epochs_ok_def mark_dead_def)
next
  case (ProbeFinish e a)
  assume ok: "epochs_ok p"
  show ?thesis
  proof (cases "is_dead (target p)")
    case True
    with ok have "e \<in> set (probes p) \<Longrightarrow> probe_finish (target p) e a f s = target p"
      by (intro probe_finish_stale) (auto simp: epochs_ok_def)
    with ok ProbeFinish show ?thesis by (auto simp: epochs_ok_def dest: notin_set_remove1)
  next
    case False
    then have "\<not> is_dead (probe_finish (target p) e a f s)" using probe_finish_not_dead by (simp add: is_dead_def)
    with ok ProbeFinish show ?thesis by (auto simp: epochs_ok_def dest: notin_set_remove1 in_set_remove1 set_remove1_subset [THEN subsetD])
  qed
next
  case (ProxyFailure c e)
  assume "epochs_ok p"
  with ProxyFailure show ?thesis
    using record_not_dead(2) [of "target p" f c e] by (auto simp: epochs_ok_def proxy_record_failure_def is_dead_def)
qed (auto simp: epochs_ok_def clear_dead_def set_disabled_def probe_start_def is_dead_def)

interpretation wm: machine "worker_step fthr sthr" epochs_ok for fthr sthr
  by unfold_locales (rule epochs_ok_step)

lemma worker_dead_step:
  assumes "epochs_ok p" "is_dead (target p)" "ev \<noteq> ClearDead"
  shows "is_dead (target (worker_step f s p ev))"
proof (cases ev)
  case (ProbeFinish e a)
  have "e \<in> set (probes p) \<Longrightarrow> probe_finish (target p) e a f s = target p"
    using assms(1,2) by (intro probe_finish_stale) (auto simp: epochs_ok_def)
  with assms(2) ProbeFinish show ?thesis by simp
qed (use assms in \<open>simp_all add: mark_dead_def set_disabled_def probe_start_def proxy_record_failure_def is_dead_def\<close>)

lemma worker_dead_run:
  "epochs_ok p \<Longrightarrow> is_dead (target p) \<Longrightarrow> ClearDead \<notin> set evs \<Longrightarrow> is_dead (target (run (worker_step f s) p evs))"
  by (induction evs arbitrary: p) (auto simp: worker_dead_step epochs_ok_step)

section \<open>Properties\<close>

text \<open>
  An operator's dead mark holds until the operator clears it. Whatever happened before,
  after \<open>mark_dead\<close> no probe that was already in flight, no probe started later, no failed
  request the proxy reports and no routed request brings the worker back: without a
  \<open>clear_dead\<close> it stays dead and is never routable.
\<close>

theorem dead_mark_holds:
  assumes "ClearDead \<notin> set evs"
  shows "let p = run (worker_step fthr sthr) \<lparr>target = new_worker url model caps inc, probes = []\<rparr> before;
             q = run (worker_step fthr sthr) (worker_step fthr sthr p (MarkDead err)) evs in
         is_dead (target q) \<and> \<not> is_routable (target q)"
proof -
  let ?p = "run (worker_step fthr sthr) \<lparr>target = new_worker url model caps inc, probes = []\<rparr> before"
  have "epochs_ok ?p" by (rule wm.inv_run) (simp add: epochs_ok_def new_worker_def is_dead_def)
  then have "epochs_ok (worker_step fthr sthr ?p (MarkDead err))" by (rule epochs_ok_step)
  from worker_dead_run [OF this _ assms] show ?thesis
    by (simp add: Let_def is_dead_def mark_dead_def is_routable_def)
qed

theorem dead_mark_holds_witness:
  "let p = run (worker_step 2 1) \<lparr>target = new_worker ''u'' None [] ''i'', probes = []\<rparr> [ProbeStart];
       q = run (worker_step 2 1) (worker_step 2 1 p (MarkDead None)) [ProbeFinish 0 (Response 200 []), ProbeStart, ProxyFailure None (Some ''x'')] in
     is_dead (target q) \<and> \<not> is_routable (target q)"
  by (rule dead_mark_holds) simp

text \<open>
  The WebSocket proxy breaks that rule. \<^verbatim>\<open>_complete_session\<close> records the failure of a session on
  a worker that was marked dead meanwhile: when the failure threshold is reached the dead mark
  becomes unhealthy, the next probe is no longer skipped, and one good answer makes the worker
  routable again without any \<open>clear_dead\<close>.
\<close>

theorem websocket_failure_revives_dead_worker:
  assumes "is_dead w" "\<not> disabled w" "fthr \<le> Suc (consecutive_failures w)" "sthr \<le> 1"
  shows "let w1 = ws_complete_session w fthr None (Some err) None in
    w_state w1 = Unhealthy \<and> probe_start w1 = Some (health_epoch w) \<and>
    is_routable (probe_finish w1 (health_epoch w) (Response 200 text) fthr sthr)"
  using assms
  by (simp add: Let_def ws_complete_session_def record_request_failure_def record_failure_def record_routed_request_def
      probe_start_def probe_finish_def record_health_result_def is_dead_def is_routable_def)

theorem websocket_failure_revives_dead_worker_witness:
  "let w = mark_dead (new_worker ''u'' None [] ''i'') None; w1 = ws_complete_session w 1 None (Some ''closed'') None in
    w_state w1 = Unhealthy \<and> probe_start w1 = Some (health_epoch w) \<and>
    is_routable (probe_finish w1 (health_epoch w) (Response 200 []) 1 1)"
  unfolding Let_def [of "mark_dead _ _"]
  by (rule websocket_failure_revives_dead_worker) (simp_all add: mark_dead_def new_worker_def is_dead_def)

text \<open>
  Selection is sound and complete. It answers a worker of the pool that is healthy, enabled,
  has every required capability and, when the request names a model and any candidate declares
  one, serves that model; under \<^verbatim>\<open>least_request\<close> no candidate has fewer active requests; and it
  fails exactly when no such worker exists or the policy is unknown. The hypothesis is the
  contract of \<^verbatim>\<open>random.choice\<close>: it picks an index of the list.
\<close>

theorem selection_sound:
  assumes choice: "\<And>g n. 0 < n \<Longrightarrow> fst (choice g n) < n"
    and policy: "sel_policy s \<in> {''round_robin'', ''least_request'', ''random''}"
  shows "(case fst (select_worker choice s ws caps model) of
      Inl e \<Rightarrow> e = NoEligibleWorker \<and> eligible_workers ws caps model = []
    | Inr w \<Rightarrow> w \<in> set ws \<and> is_routable w \<and> (\<forall>c\<in>set caps. supports w c) \<and> w \<in> set (eligible_workers ws caps model) \<and>
        (sel_policy s = ''least_request'' \<longrightarrow> (\<forall>v\<in>set (eligible_workers ws caps model). active_requests w \<le> active_requests v)))"
proof (cases "eligible_workers ws caps model = []")
  case True
  then show ?thesis by (simp add: select_worker_def)
next
  case False
  let ?c = "eligible_workers ws caps model" and ?m = "Min (set (map active_requests (eligible_workers ws caps model)))"
  have sub: "w \<in> set ws \<and> is_routable w \<and> (\<forall>c\<in>set caps. supports w c)" if "w \<in> set ?c" for w
    using that by (auto simp: eligible_workers_def Let_def list_all_iff split: option.splits if_splits)
  have "?m \<in> active_requests ` set ?c" using False Min_in [of "active_requests ` set ?c"] by simp
  then have ne: "filter (\<lambda>w. active_requests w = ?m) ?c \<noteq> []" by (auto simp: filter_empty_conv)
  have "rr_index s mod length xs < length xs" if "xs \<noteq> []" for xs :: "worker list" using that by simp
  from nth_mem [OF this [OF False]] nth_mem [OF this [OF ne]] nth_mem [of "fst (choice (rng s) (length ?c))" ?c] choice [of "length ?c" "rng s"]
  have "\<exists>w. fst (select_worker choice s ws caps model) = Inr w \<and> w \<in> set ?c \<and> (sel_policy s = ''least_request'' \<longrightarrow> active_requests w = ?m)"
    using policy False by (auto simp: select_worker_def select_round_robin_def Let_def case_prod_unfold)
  with sub show ?thesis by (auto simp: Min_le)
qed

theorem selection_sound_witness:
  "case fst (select_worker (\<lambda>g n. (0, g)) \<lparr>sel_policy = ''least_request'', rr_index = 1, rng = ()\<rparr>
       [(new_worker ''u'' None [''speech''] ''i'')\<lparr>w_state := Healthy, active_requests := 2\<rparr>] [''speech''] None) of
      Inl e \<Rightarrow> e = NoEligibleWorker \<and>
        eligible_workers [(new_worker ''u'' None [''speech''] ''i'')\<lparr>w_state := Healthy, active_requests := 2\<rparr>] [''speech''] None = []
    | Inr w \<Rightarrow> w \<in> set [(new_worker ''u'' None [''speech''] ''i'')\<lparr>w_state := Healthy, active_requests := 2\<rparr>] \<and> is_routable w \<and>
        (\<forall>c\<in>set [''speech'']. supports w c) \<and>
        w \<in> set (eligible_workers [(new_worker ''u'' None [''speech''] ''i'')\<lparr>w_state := Healthy, active_requests := 2\<rparr>] [''speech''] None) \<and>
        (sel_policy \<lparr>sel_policy = ''least_request'', rr_index = 1, rng = ()\<rparr> = ''least_request'' \<longrightarrow>
          (\<forall>v\<in>set (eligible_workers [(new_worker ''u'' None [''speech''] ''i'')\<lparr>w_state := Healthy, active_requests := 2\<rparr>] [''speech''] None).
             active_requests w \<le> active_requests v))"
  by (rule selection_sound) simp_all

end
