(* ===== verification/Weight_Update.thy ===== *)
theory Weight_Update
  imports Router_Worker
begin

text \<open>
  Weight updates of the external router: the crash-recovery journal
  (\<^verbatim>\<open>sglang_omni_router/python/update_journal.py\<close>) and the transaction, recovery and worker
  registry of \<^verbatim>\<open>app.py\<close>. The registry lock excludes registry changes while an update runs, so the
  transaction's sections are: begin (journal, disable), the answer of the data planes'
  acknowledgement barrier, and the end of the broadcast. A crash may come between any two.

  The journal file has two values: what a read sees now and what a host crash leaves. A write
  that succeeds sets both. A write can fail before the rename, changing nothing, or after it,
  when only the directory sync failed and the disk may or may not have the new file; the
  parameter \<open>io\<close> of an operation says which. URL quoting of \<^verbatim>\<open>urllib\<close> is a parameter.
\<close>

section \<open>The journal\<close>

text \<open>A journal document: the admin path if it is a string, the worker ids if they are a list of strings.\<close>

datatype jfile = JNone | JUnreadable | JDoc "string option" "string list option"

record journal =
  available :: bool
  visible :: jfile
  durable :: jfile

datatype io = IoOk | IoRefused | IoUnsynced bool

datatype journal_error = JournalUnreadable | JournalUnwritable

definition journal_put :: "journal \<Rightarrow> io \<Rightarrow> jfile \<Rightarrow> (journal_error + unit) \<times> journal" where
  "journal_put j io doc =
     (case io of
        IoOk \<Rightarrow> (Inr (), j\<lparr>visible := doc, durable := doc\<rparr>)
      | IoRefused \<Rightarrow> (Inl JournalUnwritable, j)
      | IoUnsynced lands \<Rightarrow> (Inl JournalUnwritable, j\<lparr>visible := doc, durable := (if lands then doc else durable j)\<rparr>))"

definition read_document :: "journal \<Rightarrow> journal_error + (string option \<times> string list option) option" where
  "read_document j =
     (case visible j of JNone \<Rightarrow> Inr None | JUnreadable \<Rightarrow> Inl JournalUnreadable | JDoc p ws \<Rightarrow> Inr (Some (p, ws)))"

definition journal_pending :: "journal \<Rightarrow> journal_error + string list" where
  "journal_pending j =
     (if \<not> available j then Inr []
      else case read_document j of
        Inl e \<Rightarrow> Inl e
      | Inr None \<Rightarrow> Inr []
      | Inr (Some (p, None)) \<Rightarrow> Inl JournalUnreadable
      | Inr (Some (p, Some ws)) \<Rightarrow> Inr ws)"

definition has_pending :: "journal \<Rightarrow> bool" where
  "has_pending j = (case journal_pending j of Inl _ \<Rightarrow> True | Inr ws \<Rightarrow> ws \<noteq> [])"

definition journal_begin :: "journal \<Rightarrow> io \<Rightarrow> string \<Rightarrow> string list \<Rightarrow> (journal_error + unit) \<times> journal" where
  "journal_begin j io path ws =
     (if \<not> available j then (Inl JournalUnwritable, j) else journal_put j io (JDoc (Some path) (Some (sort ws))))"

definition journal_clear :: "journal \<Rightarrow> io \<Rightarrow> (journal_error + unit) \<times> journal" where
  "journal_clear j io = (if \<not> available j then (Inr (), j) else journal_put j io JNone)"

definition journal_keep :: "journal \<Rightarrow> io \<Rightarrow> string list \<Rightarrow> (journal_error + unit) \<times> journal" where
  "journal_keep j io ws =
     (if \<not> available j then (Inl JournalUnwritable, j)
      else if ws = [] then journal_clear j io
      else journal_put j io
        (JDoc (case read_document j of Inr (Some (p, _)) \<Rightarrow> p | _ \<Rightarrow> None) (Some (sort ws))))"

definition journal_discard :: "journal \<Rightarrow> io \<Rightarrow> string \<Rightarrow> bool \<times> journal" where
  "journal_discard j io w =
     (if \<not> available j then (True, j)
      else case journal_pending j of
        Inl _ \<Rightarrow> (False, j)
      | Inr ws \<Rightarrow>
          (case journal_keep j io (filter (\<lambda>x. x \<noteq> w) ws) of
             (Inl _, j') \<Rightarrow> (False, j')
           | (Inr _, j') \<Rightarrow> (True, j')))"

section \<open>The registry and the transaction\<close>

record update =
  upd_targets :: "string list"
  upd_previous :: "(string, bool) dict"
  upd_sent :: bool

text \<open>
  \<open>uncertain\<close> is a ghost: the URLs of workers that a broadcast may have left with unknown
  weights and that no operator has vouched for since.
\<close>

record router =
  pool :: "worker list"
  journal_of :: journal
  update_of :: "update option"
  uncertain :: "string set"

datatype route_error =
    WorkerNotFound
  | JournalNotResolved
  | VoiceOwnerCapabilities
  | VoiceOwnerDelete
  | UpdateInProgress
  | NoLiveWorkers
  | InitNeedsOneReplica
  | EarlierUpdatePending
  | JournalNotDurable
  | AlreadyRegistered
  | AckTimeout

definition find_worker :: "(string \<Rightarrow> string) \<Rightarrow> (string \<Rightarrow> string) \<Rightarrow> worker list \<Rightarrow> string \<Rightarrow> worker option" where
  "find_worker quote unquote ws i = find (\<lambda>w. quote (w_url w) = i \<or> w_url w = unquote i) ws"

definition set_worker :: "worker list \<Rightarrow> string \<Rightarrow> (worker \<Rightarrow> worker) \<Rightarrow> worker list" where
  "set_worker ws u f = map (\<lambda>w. if w_url w = u then f w else w) ws"

definition disable_all :: "worker list \<Rightarrow> string list \<Rightarrow> worker list" where
  "disable_all ws us = map (\<lambda>w. if w_url w \<in> set us then set_disabled w True else w) ws"

definition recover_worker_pool_from_journal ::
  "(string \<Rightarrow> string) \<Rightarrow> (string \<Rightarrow> string) \<Rightarrow> journal \<Rightarrow> worker list \<Rightarrow> worker list" where
  "recover_worker_pool_from_journal quote unquote j ws =
     (case journal_pending j of
        Inl _ \<Rightarrow> map (\<lambda>w. set_disabled w True) ws
      | Inr ids \<Rightarrow>
          fold (\<lambda>i ws. case find_worker quote unquote ws i of
                         None \<Rightarrow> ws
                       | Some w \<Rightarrow> set_worker ws (w_url w) (\<lambda>w. set_disabled w True)) ids ws)"


text \<open>
  An admin path that updates weights. The targets are resolved before the lock and again under
  it; in one section both see the same pool. A lock that stays held is refused after its timeout.
\<close>

definition update_begin :: "(string \<Rightarrow> string) \<Rightarrow> router \<Rightarrow> string \<Rightarrow> io \<Rightarrow> (route_error + unit) \<times> router" where
  "update_begin quote s path io =
     (let targets = filter (\<lambda>w. \<not> is_dead w) (pool s) in
      if targets = [] then (Inl NoLiveWorkers, s)
      else if path = ''/init_weights_update_group'' \<and> 1 < length targets then (Inl InitNeedsOneReplica, s)
      else if update_of s \<noteq> None then (Inl UpdateInProgress, s)
      else if has_pending (journal_of s) then (Inl EarlierUpdatePending, s)
      else case journal_begin (journal_of s) io path (map (\<lambda>w. quote (w_url w)) targets) of
          (Inl _, j) \<Rightarrow> (Inl JournalNotDurable, s\<lparr>journal_of := j\<rparr>)
        | (Inr _, j) \<Rightarrow>
            (Inr (), s\<lparr>journal_of := j, pool := disable_all (pool s) (map w_url targets),
                       update_of := Some \<lparr>upd_targets = map w_url targets,
                                          upd_previous = map (\<lambda>w. (w_url w, disabled w)) targets, upd_sent = False\<rparr>\<rparr>))"

text \<open>\<^verbatim>\<open>_restore_admin_disabled_state\<close> and the \<^verbatim>\<open>finally\<close> of the transaction; \<open>results\<close> is \<open>None\<close> when the broadcast raised.\<close>

definition restore_disabled :: "worker list \<Rightarrow> update \<Rightarrow> bool \<Rightarrow> worker list" where
  "restore_disabled ws u safe =
     (if \<not> safe then disable_all ws (upd_targets u)
      else map (\<lambda>w. case dget (upd_previous u) (w_url w) of None \<Rightarrow> w | Some b \<Rightarrow> set_disabled w b) ws)"

definition outcome_safe :: "bool list option \<Rightarrow> bool" where
  "outcome_safe results = (case results of None \<Rightarrow> False | Some rs \<Rightarrow> list_all id rs)"

definition update_finish :: "(string \<Rightarrow> string) \<Rightarrow> router \<Rightarrow> update \<Rightarrow> bool list option \<Rightarrow> io \<Rightarrow> router" where
  "update_finish quote s u results io =
     (let safe = outcome_safe results;
          j = (if safe then snd (journal_clear (journal_of s) io)
               else snd (journal_keep (journal_of s) io (map quote (upd_targets u)))) in
      s\<lparr>pool := restore_disabled (pool s) u safe, journal_of := j, update_of := None,
        uncertain := (if safe then uncertain s - set (upd_targets u) else uncertain s)\<rparr>)"

text \<open>The acknowledgement barrier's answer: the broadcast starts, or the update ends with nothing sent.\<close>

definition update_ack :: "(string \<Rightarrow> string) \<Rightarrow> router \<Rightarrow> bool \<Rightarrow> io \<Rightarrow> (route_error + unit) \<times> router" where
  "update_ack quote s acked io =
     (case update_of s of
        None \<Rightarrow> (Inr (), s)
      | Some u \<Rightarrow>
          if upd_sent u then (Inr (), s)
          else if acked then
            (Inr (), s\<lparr>update_of := Some (u\<lparr>upd_sent := True\<rparr>), uncertain := uncertain s \<union> set (upd_targets u)\<rparr>)
          else (Inl AckTimeout, update_finish quote s u (Some []) io))"

definition update_done :: "(string \<Rightarrow> string) \<Rightarrow> router \<Rightarrow> bool list option \<Rightarrow> io \<Rightarrow> router" where
  "update_done quote s results io =
     (case update_of s of
        Some u \<Rightarrow>
          if upd_sent u \<and> (case results of None \<Rightarrow> True | Some rs \<Rightarrow> length rs = length (upd_targets u))
          then update_finish quote s u results io else s
      | None \<Rightarrow> s)"

section \<open>Registry changes\<close>

text \<open>
  \<^verbatim>\<open>_apply_worker_update\<close>. The request has an optional disabled flag, an optional dead flag and
  the worker's next model and capabilities; \<open>owner\<close> is the URL of the voice owner, if any,
  and \<open>can_own\<close> the capability test of the configuration. Asking to enable a worker is the
  operator's statement that its weights were verified.
\<close>

record worker_patch =
  p_disabled :: "bool option"
  p_dead :: "bool option"
  p_model :: "string option"
  p_capabilities :: "string list"

definition patch_worker :: "worker_patch \<Rightarrow> worker \<Rightarrow> worker" where
  "patch_worker p w =
     (let w1 = w\<lparr>w_model := p_model p, w_capabilities := p_capabilities p\<rparr>;
          w2 = (case p_disabled p of None \<Rightarrow> w1 | Some b \<Rightarrow> set_disabled w1 b) in
      case p_dead p of None \<Rightarrow> w2 | Some True \<Rightarrow> mark_dead w2 None | Some False \<Rightarrow> clear_dead w2)"

definition apply_worker_update ::
  "(string \<Rightarrow> string) \<Rightarrow> (string \<Rightarrow> string) \<Rightarrow> (string list \<Rightarrow> bool) \<Rightarrow> string option \<Rightarrow> router \<Rightarrow> string \<Rightarrow> worker_patch \<Rightarrow> io \<Rightarrow>
   (route_error + unit) \<times> router" where
  "apply_worker_update quote unquote can_own owner s i p io =
     (if update_of s \<noteq> None then (Inl UpdateInProgress, s)
      else case find_worker quote unquote (pool s) i of
        None \<Rightarrow> (Inl WorkerNotFound, s)
      | Some w \<Rightarrow>
          (let enabling = (p_disabled p = Some False);
               (ok, j) = (if enabling then journal_discard (journal_of s) io (quote (w_url w)) else (True, journal_of s));
               s1 = s\<lparr>journal_of := j, uncertain := (if enabling then uncertain s - {w_url w} else uncertain s)\<rparr> in
           if \<not> ok then (Inl JournalNotResolved, s1)
           else if owner = Some (w_url w) \<and> \<not> can_own (p_capabilities p) then (Inl VoiceOwnerCapabilities, s1)
           else (Inr (), s1\<lparr>pool := set_worker (pool s) (w_url w) (patch_worker p)\<rparr>)))"



text \<open>Restart after a crash: memory is rebuilt from a registry \<open>ws\<close>, the journal as it survived.\<close>

definition restart :: "(string \<Rightarrow> string) \<Rightarrow> (string \<Rightarrow> string) \<Rightarrow> router \<Rightarrow> bool \<Rightarrow> worker list \<Rightarrow> router" where
  "restart quote unquote s host_crash ws =
     (let j = (if host_crash then (journal_of s)\<lparr>visible := durable (journal_of s)\<rparr> else journal_of s) in
      s\<lparr>pool := recover_worker_pool_from_journal quote unquote j ws, journal_of := j, update_of := None\<rparr>)"


section \<open>All events\<close>



section \<open>Invariant\<close>





definition down :: "worker list \<Rightarrow> string \<Rightarrow> bool" where
  "down ws u \<longleftrightarrow> (\<forall>w\<in>set ws. w_url w = u \<longrightarrow> disabled w)"



lemma disable_all_simps [simp]:
  "map w_url (disable_all ws us) = map w_url ws" "u \<in> set us \<Longrightarrow> down (disable_all ws us) u"
  "down ws u \<Longrightarrow> down (disable_all ws us) u"
  by (auto simp: disable_all_def set_disabled_def down_def)




lemma put_available [simp]: "available (snd (journal_put j io doc)) = available j"
  by (simp add: journal_put_def split: io.split)






section \<open>Every event keeps the invariant\<close>


lemma restore_urls [simp]: "map w_url (restore_disabled ws u safe) = map w_url ws"
  by (auto simp: restore_disabled_def set_disabled_def split: option.split)












section \<open>Properties\<close>



text \<open>
  A clean update changes nothing of the registry. When the journal is durable, the data planes
  acknowledge and every target reports success, every worker is as enabled as it was before the
  update began, no journal entry is left, and further updates are not blocked.
\<close>

theorem clean_update_restores_pool:
  assumes "update_begin quote s path IoOk = (Inr (), s1)" and "distinct (map w_url (pool s))"
    and "snd (update_ack quote s1 True IoOk) = s2"
  shows "\<exists>u. update_of s2 = Some u \<and>
    (let s3 = update_done quote s2 (Some (map (\<lambda>_. True) (upd_targets u))) IoOk in
     pool s3 = pool s \<and> update_of s3 = None \<and> \<not> has_pending (journal_of s3))"
proof -
  let ?ts = "filter (\<lambda>w. \<not> is_dead w) (pool s)"
  let ?u = "\<lparr>upd_targets = map w_url ?ts, upd_previous = map (\<lambda>w. (w_url w, disabled w)) ?ts, upd_sent = False\<rparr>"
  have s1: "s1 = s\<lparr>journal_of := (journal_of s)\<lparr>visible := JDoc (Some path) (Some (sort (map (\<lambda>w. quote (w_url w)) ?ts))),
        durable := JDoc (Some path) (Some (sort (map (\<lambda>w. quote (w_url w)) ?ts)))\<rparr>,
      pool := disable_all (pool s) (map w_url ?ts), update_of := Some ?u\<rparr>" and av: "available (journal_of s)"
    using assms(1) by (auto simp: update_begin_def journal_begin_def journal_put_def Let_def split: if_splits)
  have s2: "s2 = s1\<lparr>update_of := Some (?u\<lparr>upd_sent := True\<rparr>), uncertain := uncertain s1 \<union> set (map w_url ?ts)\<rparr>"
    using assms(3) by (simp add: update_ack_def s1)
  have prev: "dget (upd_previous ?u) (w_url w) = (if is_dead w then None else Some (disabled w))" if "w \<in> set (pool s)" for w
  proof -
    have d: "distinct (map fst (map (\<lambda>w. (w_url w, disabled w)) ?ts))"
      using assms(2) by (simp add: comp_def distinct_map_filter)
    have same: "w' = w" if "w' \<in> set (pool s)" "w_url w' = w_url w" for w'
      using assms(2) that \<open>w \<in> set (pool s)\<close> by (metis distinct_map inj_onD)
    show ?thesis
    proof (cases "is_dead w")
      case True
      with same show ?thesis by (auto simp: map_of_eq_None_iff)
    next
      case False
      with that have "(w_url w, disabled w) \<in> set (map (\<lambda>w. (w_url w, disabled w)) ?ts)" by auto
      with d False show ?thesis by (simp add: map_of_is_SomeI)
    qed
  qed
  have restored: "restore_disabled (disable_all (pool s) (map w_url ?ts)) (?u\<lparr>upd_sent := True\<rparr>) True = pool s"
  proof -
    have "(case dget (upd_previous ?u) (w_url w) of None \<Rightarrow> w' | Some b \<Rightarrow> set_disabled w' b) = w"
      if "w \<in> set (pool s)" "w' = (if w_url w \<in> set (map w_url ?ts) then set_disabled w True else w)" for w w'
      using prev [OF that(1)] that assms(2) by (auto simp: set_disabled_def distinct_map dest: inj_onD split: if_splits)
    then show ?thesis
      by (auto simp: restore_disabled_def disable_all_def set_disabled_def intro!: map_idI)
  qed
  show ?thesis
    by (rule exI [where x = "?u\<lparr>upd_sent := True\<rparr>"])
      (use restored av in \<open>simp add: s2 s1 update_done_def update_finish_def outcome_safe_def Let_def list_all_iff journal_clear_def
        journal_put_def has_pending_def journal_pending_def read_document_def\<close>)
qed

definition demo_router :: router where
  "demo_router = \<lparr>pool = [new_worker ''a'' None [] ''i'', set_disabled (new_worker ''b'' None [] ''j'') True],
     journal_of = \<lparr>available = True, visible = JNone, durable = JNone\<rparr>, update_of = None, uncertain = {}\<rparr>"

lemma demo_router_begin:
  "update_begin (\<lambda>u. u) demo_router ''/update_weights_from_disk'' IoOk =
     (Inr (), snd (update_begin (\<lambda>u. u) demo_router ''/update_weights_from_disk'' IoOk))"
  by (simp add: demo_router_def update_begin_def has_pending_def journal_pending_def read_document_def journal_begin_def
      journal_put_def new_worker_def set_disabled_def is_dead_def)

theorem clean_update_restores_pool_witness:
  "\<exists>u. update_of (snd (update_ack (\<lambda>u. u) (snd (update_begin (\<lambda>u. u) demo_router ''/update_weights_from_disk'' IoOk)) True IoOk)) = Some u \<and>
    (let s3 = update_done (\<lambda>u. u) (snd (update_ack (\<lambda>u. u) (snd (update_begin (\<lambda>u. u) demo_router ''/update_weights_from_disk'' IoOk)) True IoOk))
         (Some (map (\<lambda>_. True) (upd_targets u))) IoOk in
     pool s3 = pool demo_router \<and> update_of s3 = None \<and> \<not> has_pending (journal_of s3))"
  by (rule clean_update_restores_pool [OF demo_router_begin _ refl]) (simp add: demo_router_def new_worker_def set_disabled_def)

text \<open>
  A rejected worker update is not without effect. The journal entry of a worker is discarded
  before the voice-owner check: when the voice owner is the only journaled worker and a request
  enables it with capabilities that disqualify it, the answer is a refusal and the registry is
  unchanged, but the journal is gone, and a restart brings every worker up as its registry has it.
\<close>

theorem rejected_put_discards_journal:
  assumes "update_of s = None" "find_worker quote unquote (pool s) i = Some w" "available (journal_of s)"
    and "visible (journal_of s) = JDoc path (Some [quote (w_url w)])"
    and "p_disabled p = Some False" "\<not> can_own (p_capabilities p)"
  shows "let (r, t) = apply_worker_update quote unquote can_own (Some (w_url w)) s i p IoOk in
    r = Inl VoiceOwnerCapabilities \<and> pool t = pool s \<and> visible (journal_of t) = JNone \<and> durable (journal_of t) = JNone \<and>
    (\<forall>host ws. pool (restart quote unquote t host ws) = ws)"
proof -
  have d: "journal_discard (journal_of s) IoOk (quote (w_url w)) = (True, (journal_of s)\<lparr>visible := JNone, durable := JNone\<rparr>)"
    using assms(3,4) by (simp add: journal_discard_def journal_pending_def read_document_def journal_keep_def journal_clear_def journal_put_def)
  have "journal_pending j = Inr []" if "visible j = JNone" for j
    using that by (simp add: journal_pending_def read_document_def)
  then show ?thesis using assms d
    by (simp add: apply_worker_update_def Let_def restart_def recover_worker_pool_from_journal_def)
qed

theorem rejected_put_discards_journal_witness:
  "let (r, t) = apply_worker_update (\<lambda>u. u) (\<lambda>u. u) (\<lambda>caps. ''speech'' \<in> set caps) (Some (w_url (set_disabled (new_worker ''a'' None [''speech''] ''i'') True)))
       \<lparr>pool = [set_disabled (new_worker ''a'' None [''speech''] ''i'') True],
        journal_of = \<lparr>available = True, visible = JDoc None (Some [''a'']), durable = JDoc None (Some [''a''])\<rparr>, update_of = None, uncertain = {''a''}\<rparr>
       ''a'' \<lparr>p_disabled = Some False, p_dead = None, p_model = None, p_capabilities = []\<rparr> IoOk in
    r = Inl VoiceOwnerCapabilities \<and>
    pool t = pool \<lparr>pool = [set_disabled (new_worker ''a'' None [''speech''] ''i'') True],
        journal_of = \<lparr>available = True, visible = JDoc None (Some [''a'']), durable = JDoc None (Some [''a''])\<rparr>, update_of = None, uncertain = {''a''}\<rparr> \<and>
    visible (journal_of t) = JNone \<and> durable (journal_of t) = JNone \<and>
    (\<forall>host ws. pool (restart (\<lambda>u. u) (\<lambda>u. u) t host ws) = ws)"
  by (rule rejected_put_discards_journal) (simp_all add: find_worker_def set_disabled_def new_worker_def)

end
