(* ===== verification/Snapshot.thy ===== *)
theory Snapshot
  imports Weight_Update
begin

text \<open>
  The worker snapshot that the control plane (CP) of the multi-process router hands to its data planes (DPs):
  \<^verbatim>\<open>sglang_omni_router/python/snapshot.py\<close>, the worker view of \<^verbatim>\<open>data_plane.py\<close> and the restore of \<^verbatim>\<open>control_plane.py\<close>.
  The file is replaced atomically, so a read sees a whole document or none. A read that fails or does not
  validate is \<open>None\<close>. URL quoting, the random incarnation of a new worker object and the default
  capabilities are arguments.
\<close>

section \<open>Snapshots\<close>

record snapshot_worker =
  sn_url :: string
  sn_worker_id :: string
  sn_incarnation :: string
  sn_model :: "string option"
  sn_capabilities :: "string list"
  sn_routable :: bool
  sn_state :: worker_state
  sn_disabled :: bool

definition SNAPSHOT_SCHEMA_VERSION :: int where "SNAPSHOT_SCHEMA_VERSION = 1"

record worker_snapshot =
  sn_version :: int
  sn_seq :: nat
  sn_epoch :: string
  sn_generated_at :: int
  sn_workers :: "snapshot_worker list"

definition snapshot_worker_of :: "(string \<Rightarrow> string) \<Rightarrow> worker \<Rightarrow> snapshot_worker" where
  "snapshot_worker_of quote w =
     \<lparr>sn_url = w_url w, sn_worker_id = quote (w_url w), sn_incarnation = incarnation w, sn_model = w_model w,
      sn_capabilities = sort (remdups (w_capabilities w)), sn_routable = is_routable w, sn_state = w_state w, sn_disabled = disabled w\<rparr>"

definition snapshot_workers :: "(string \<Rightarrow> string) \<Rightarrow> worker list \<Rightarrow> snapshot_worker list" where
  "snapshot_workers quote ws = map (snapshot_worker_of quote) ws"

text \<open>
  \<^verbatim>\<open>SnapshotWriter.publish\<close>: the sequence number advances first; \<open>ok\<close> says whether the file could be written and
  replaced. A failed publication raises (\<open>None\<close>) and leaves the file.
\<close>

definition publish_snapshot :: "string \<Rightarrow> nat \<Rightarrow> snapshot_worker list \<Rightarrow> int \<Rightarrow> bool \<Rightarrow> worker_snapshot option \<Rightarrow>
  worker_snapshot option \<times> nat \<times> worker_snapshot option" where
  "publish_snapshot epoch seq ws now ok old =
     (let sn = \<lparr>sn_version = SNAPSHOT_SCHEMA_VERSION, sn_seq = Suc seq, sn_epoch = epoch, sn_generated_at = now, sn_workers = ws\<rparr> in
      if ok then (Some sn, Suc seq, Some sn) else (None, Suc seq, old))"

record reader =
  rd_fingerprint :: "nat option"
  rd_snapshot :: "worker_snapshot option"

definition new_reader :: reader where
  "new_reader = \<lparr>rd_fingerprint = None, rd_snapshot = None\<rparr>"

text \<open>\<^verbatim>\<open>maybe_reload\<close> with what \<^verbatim>\<open>stat\<close> answered (inode, size and time as one number) and what the read then gave.\<close>

definition maybe_reload :: "nat option \<Rightarrow> worker_snapshot option \<Rightarrow> reader \<Rightarrow> bool \<times> reader" where
  "maybe_reload st content r =
     (case st of
        None \<Rightarrow> (False, r)
      | Some fp \<Rightarrow>
          if rd_fingerprint r = Some fp then (False, r)
          else case content of
            None \<Rightarrow> (False, r)
          | Some sn \<Rightarrow>
              if sn_version sn \<noteq> SNAPSHOT_SCHEMA_VERSION then (False, r)
              else
                (let r1 = r\<lparr>rd_fingerprint := Some fp\<rparr> in
                 if (case rd_snapshot r of None \<Rightarrow> False | Some old \<Rightarrow> sn_epoch sn = sn_epoch old \<and> sn_seq sn \<le> sn_seq old)
                 then (False, r1) else (True, r1\<lparr>rd_snapshot := Some sn\<rparr>)))"

definition age_secs :: "reader \<Rightarrow> int \<Rightarrow> int option" where
  "age_secs r now = map_option (\<lambda>sn. now - sn_generated_at sn) (rd_snapshot r)"

section \<open>The view of a data plane\<close>

record dp_view =
  dv_workers :: "(string, worker) dict"
  dv_retiring :: "worker list"
  dv_seq :: nat
  dv_epoch :: string

definition new_view :: dp_view where
  "new_view = \<lparr>dv_workers = [], dv_retiring = [], dv_seq = 0, dv_epoch = []\<rparr>"

definition view_retire :: "worker \<Rightarrow> dp_view \<Rightarrow> dp_view" where
  "view_retire w v =
     (if 0 < active_requests w \<or> 0 < routed_requests w then v\<lparr>dv_retiring := dv_retiring v @ [w]\<rparr> else v)"

text \<open>The worker object an entry ends with, and the object it replaces.\<close>

definition entry_worker ::
  "string list \<Rightarrow> (string \<Rightarrow> string) \<Rightarrow> worker option \<Rightarrow> snapshot_worker \<Rightarrow> worker \<times> worker option" where
  "entry_worker dcaps uuid old e =
     (let caps = (if sn_capabilities e \<noteq> [] then sn_capabilities e else dcaps);
          fresh = new_worker (sn_url e) (sn_model e) caps (if sn_incarnation e \<noteq> [] then sn_incarnation e else uuid (sn_url e));
          finish = (\<lambda>w. w\<lparr>w_state := sn_state e, disabled := sn_disabled e\<rparr>) in
      case old of
        None \<Rightarrow> (finish fresh, None)
      | Some w \<Rightarrow>
          if sn_incarnation e \<noteq> [] \<and> incarnation w \<noteq> sn_incarnation e then (finish fresh, Some w)
          else
            (let w1 = (if w_model w \<noteq> sn_model e \<or> set (w_capabilities w) \<noteq> set caps
                       then w\<lparr>w_model := sn_model e, w_capabilities := caps\<rparr> else w);
                 w2 = (if sn_incarnation e \<noteq> [] then w1\<lparr>incarnation := sn_incarnation e\<rparr> else w1) in
             (finish w2, None)))"

definition apply_entry :: "string list \<Rightarrow> (string \<Rightarrow> string) \<Rightarrow> snapshot_worker \<Rightarrow> dp_view \<Rightarrow> dp_view" where
  "apply_entry dcaps uuid e v =
     (let (w, gone) = entry_worker dcaps uuid (dget (dv_workers v) (sn_url e)) e;
          v1 = (case gone of None \<Rightarrow> v | Some x \<Rightarrow> view_retire x v) in
      v1\<lparr>dv_workers := dset (dv_workers v1) (sn_url e) w\<rparr>)"

text \<open>The second loop: objects of URLs that are no longer in the snapshot are dropped.\<close>

definition drop_unseen :: "string list \<Rightarrow> string \<times> worker \<Rightarrow> dp_view \<Rightarrow> dp_view" where
  "drop_unseen seen kv v =
     (if fst kv \<in> set seen then v else view_retire (snd kv) (v\<lparr>dv_workers := ddel (dv_workers v) (fst kv)\<rparr>))"

definition view_apply :: "string list \<Rightarrow> (string \<Rightarrow> string) \<Rightarrow> worker_snapshot \<Rightarrow> dp_view \<Rightarrow> dp_view" where
  "view_apply dcaps uuid sn v =
     (let v1 = fold (apply_entry dcaps uuid) (sn_workers sn) v;
          v2 = fold (drop_unseen (map sn_url (sn_workers sn))) (dv_workers v1) v1 in
      v2\<lparr>dv_seq := sn_seq sn, dv_epoch := sn_epoch sn\<rparr>)"

definition view_workers :: "dp_view \<Rightarrow> worker list" where
  "view_workers v = map snd (dv_workers v)"

definition reportable_workers :: "dp_view \<Rightarrow> worker list" where
  "reportable_workers v = view_workers v @ dv_retiring v"

section \<open>Restore\<close>

text \<open>\<^verbatim>\<open>restore_workers\<close> from a snapshot that was read; \<open>None\<close> when the worker configuration does not validate.\<close>

definition restore_worker :: "(string \<Rightarrow> string) \<Rightarrow> snapshot_worker \<Rightarrow> worker option" where
  "restore_worker uuid e =
     (if sn_capabilities e = [] then None
      else
        (let w = new_worker (sn_url e) (sn_model e) (sn_capabilities e) (uuid (sn_url e));
             w1 = (if sn_incarnation e \<noteq> [] then w\<lparr>incarnation := sn_incarnation e\<rparr> else w) in
         Some (w1\<lparr>w_state := sn_state e, disabled := sn_disabled e\<rparr>)))"

fun restore_all :: "(string \<Rightarrow> string) \<Rightarrow> snapshot_worker list \<Rightarrow> worker list option" where
  "restore_all uuid [] = Some []"
| "restore_all uuid (e # es) =
     (case restore_worker uuid e of None \<Rightarrow> None | Some w \<Rightarrow> map_option (Cons w) (restore_all uuid es))"

datatype snapshot_file = NoFile | BadFile | GoodFile worker_snapshot

definition restore_workers :: "(string \<Rightarrow> string) \<Rightarrow> snapshot_file \<Rightarrow> worker list \<Rightarrow> worker list option" where
  "restore_workers uuid f configured =
     (case f of
        NoFile \<Rightarrow> Some configured
      | BadFile \<Rightarrow> None
      | GoodFile sn \<Rightarrow>
          (case maybe_reload (Some 0) (Some sn) new_reader of
             (True, r) \<Rightarrow> (case rd_snapshot r of None \<Rightarrow> None | Some s \<Rightarrow> restore_all uuid (sn_workers s))
           | (False, _) \<Rightarrow> None))"

section \<open>Lemmas\<close>

lemma reload_keeps: "maybe_reload st content r = (False, r') \<Longrightarrow> rd_snapshot r' = rd_snapshot r"
  by (auto simp: maybe_reload_def Let_def split: option.splits if_splits)

lemma reload_applies:
  "maybe_reload st content r = (True, r') \<Longrightarrow>
   \<exists>sn. content = Some sn \<and> rd_snapshot r' = Some sn \<and> (\<forall>old. rd_snapshot r = Some old \<longrightarrow> sn_epoch sn = sn_epoch old \<longrightarrow> sn_seq old < sn_seq sn)"
  by (auto simp: maybe_reload_def Let_def split: option.splits if_splits)

lemma view_retire_simps [simp]:
  "dv_workers (view_retire w v) = dv_workers v" "dv_seq (view_retire w v) = dv_seq v" "dv_epoch (view_retire w v) = dv_epoch v"
  by (simp_all add: view_retire_def)

lemma entry_worker_flags:
  "fst (entry_worker dcaps uuid old e) = w \<Longrightarrow> w_state w = sn_state e \<and> disabled w = sn_disabled e"
  by (auto simp: entry_worker_def Let_def split: option.splits if_splits)

lemma apply_entry_dget:
  "dget (dv_workers (apply_entry dcaps uuid e v)) u =
    (if u = sn_url e then Some (fst (entry_worker dcaps uuid (dget (dv_workers v) (sn_url e)) e)) else dget (dv_workers v) u)"
  by (simp add: apply_entry_def Let_def case_prod_unfold split: option.split)

lemma apply_entries_dget:
  "u \<in> sn_url ` set es \<Longrightarrow> \<exists>e w. e \<in> set es \<and> sn_url e = u \<and> dget (dv_workers (fold (apply_entry dcaps uuid) es v)) u = Some w \<and>
     w_state w = sn_state e \<and> disabled w = sn_disabled e"
proof (induction es arbitrary: v)
  case (Cons x es)
  show ?case
  proof (cases "u \<in> sn_url ` set es")
    case True
    with Cons.IH show ?thesis by fastforce
  next
    case False
    have keep: "u \<notin> sn_url ` set es \<Longrightarrow> dget (dv_workers (fold (apply_entry dcaps uuid) es v)) u = dget (dv_workers v) u" for v
      by (induction es arbitrary: v) (auto simp: apply_entry_dget)
    with False Cons.prems entry_worker_flags [OF refl] show ?thesis by (auto simp: apply_entry_dget)
  qed
qed simp

lemma drop_unseen_dget:
  "dget (dv_workers (drop_unseen seen kv v)) u = (if u = fst kv \<and> u \<notin> set seen then None else dget (dv_workers v) u)"
  by (auto simp: drop_unseen_def)

lemma fold_drop_unseen_dget:
  "dget (dv_workers (fold (drop_unseen seen) kvs v)) u = (if u \<in> fst ` set kvs \<and> u \<notin> set seen then None else dget (dv_workers v) u)"
  by (induction kvs arbitrary: v) (auto simp: drop_unseen_dget)

text \<open>After a snapshot is applied every worker of the view has an entry of its URL and its state and flag.\<close>

lemma view_apply_entries:
  assumes "dget (dv_workers (view_apply dcaps uuid sn v)) u = Some w"
  shows "\<exists>e\<in>set (sn_workers sn). sn_url e = u \<and> w_state w = sn_state e \<and> disabled w = sn_disabled e"
proof -
  let ?v1 = "fold (apply_entry dcaps uuid) (sn_workers sn) v"
  have u: "u \<in> sn_url ` set (sn_workers sn)" and w: "dget (dv_workers ?v1) u = Some w"
    using assms by (auto simp: view_apply_def Let_def fold_drop_unseen_dget image_iff split: if_splits) (metis fst_conv map_of_SomeD)+
  from apply_entries_dget [OF u, of dcaps uuid v] w show ?thesis by fastforce
qed

lemma view_apply_simps [simp]: "dv_seq (view_apply dcaps uuid sn v) = sn_seq sn" "dv_epoch (view_apply dcaps uuid sn v) = sn_epoch sn"
  by (simp_all add: view_apply_def Let_def)

section \<open>A restart keeps the registry\<close>

lemma restore_snapshot_worker:
  assumes "w_capabilities w \<noteq> []" "incarnation w \<noteq> []"
  shows "\<exists>w'. restore_worker uuid (snapshot_worker_of quote w) = Some w' \<and> snapshot_worker_of quote w' = snapshot_worker_of quote w"
proof -
  have "sort (remdups (w_capabilities w)) \<noteq> []" using assms(1) by (metis set_empty set_remdups set_sort)
  moreover have "sort (remdups (sort (remdups xs))) = sort (remdups xs)" for xs :: "string list"
    by (simp add: distinct_remdups_id sort_key_id_if_sorted)
  ultimately show ?thesis using assms(2)
    by (simp add: restore_worker_def snapshot_worker_of_def new_worker_def is_routable_def Let_def)
qed

lemma restore_all_snapshot:
  "list_all (\<lambda>w. w_capabilities w \<noteq> [] \<and> incarnation w \<noteq> []) ws \<Longrightarrow>
   \<exists>ws'. restore_all uuid (snapshot_workers quote ws) = Some ws' \<and> snapshot_workers quote ws' = snapshot_workers quote ws"
proof (induction ws)
  case (Cons w ws)
  then obtain ws' where "restore_all uuid (snapshot_workers quote ws) = Some ws'" "snapshot_workers quote ws' = snapshot_workers quote ws"
    by auto
  with restore_snapshot_worker [of w uuid quote] Cons.prems show ?case by (auto simp: snapshot_workers_def)
qed (simp add: snapshot_workers_def)

text \<open>
  C38: the registry survives a restart of the control plane. Whatever it last published, a new control plane restores workers
  that publish exactly the same entries: URLs, models, capabilities, incarnations, health and disabled flags.
\<close>

theorem published_registry_restored:
  assumes "list_all (\<lambda>w. w_capabilities w \<noteq> [] \<and> incarnation w \<noteq> []) ws"
    and "publish_snapshot epoch seq (snapshot_workers quote ws) now True old = (Some sn, seq', Some sn)"
  shows "\<exists>ws'. restore_workers uuid (GoodFile sn) configured = Some ws' \<and> snapshot_workers quote ws' = snapshot_workers quote ws"
  using assms(2) restore_all_snapshot [OF assms(1), of uuid quote]
  by (auto simp: publish_snapshot_def restore_workers_def maybe_reload_def new_reader_def Let_def)

theorem published_registry_restored_witness:
  "\<exists>ws'. restore_workers (\<lambda>_. ''x'') (GoodFile \<lparr>sn_version = 1, sn_seq = 5, sn_epoch = ''e'', sn_generated_at = 7,
      sn_workers = snapshot_workers id [(new_worker ''u'' None [''tts'', ''asr''] ''i'')\<lparr>disabled := True\<rparr>]\<rparr>) [] = Some ws' \<and>
    snapshot_workers id ws' = snapshot_workers id [(new_worker ''u'' None [''tts'', ''asr''] ''i'')\<lparr>disabled := True\<rparr>]"
  by (rule published_registry_restored [where epoch = "''e''" and seq = 4 and now = 7 and old = None and seq' = 5])
    (simp_all add: new_worker_def publish_snapshot_def SNAPSHOT_SCHEMA_VERSION_def Let_def)

end
