(* ===== verification/Control_Plane.thy ===== *)
theory Control_Plane
  imports Snapshot
begin

text \<open>
  The control plane (CP) and the data planes (DPs) of the multi-process router together:
  \<^verbatim>\<open>internal_channel.py\<close>, the acknowledgement barrier and the failure reports of \<^verbatim>\<open>control_plane.py\<close>, and the refresh and
  heartbeat loops of \<^verbatim>\<open>data_plane.py\<close>. Every DP process polls the snapshot file at its own pace; its heartbeats can be
  delayed, lost, repeated and reordered; processes die and are replaced, and the CP restarts with a new
  epoch. Clock values are integers.
\<close>

section \<open>The internal channel\<close>

record dp_record =
  dr_generation :: int
  dr_pid :: int
  dr_seq :: nat
  dr_epoch :: string
  dr_serving :: bool
  dr_last_seen :: int

type_synonym channel = "(nat, dp_record) dict"

datatype channel_error = StaleGeneration int int | UnknownDataPlane nat

definition register :: "channel \<Rightarrow> nat \<Rightarrow> int \<Rightarrow> int \<Rightarrow> int \<Rightarrow> channel_error + channel" where
  "register ch i gen pid now =
     (case dget ch i of
        None \<Rightarrow>
          Inr (dset ch i \<lparr>dr_generation = gen, dr_pid = pid, dr_seq = 0, dr_epoch = [], dr_serving = True, dr_last_seen = now\<rparr>)
      | Some cur \<Rightarrow>
          if gen < dr_generation cur then Inl (StaleGeneration gen (dr_generation cur))
          else if gen = dr_generation cur \<and> pid \<noteq> dr_pid cur then Inl (StaleGeneration gen (dr_generation cur))
          else if gen = dr_generation cur \<and> pid = dr_pid cur then
            Inr (dset ch i \<lparr>dr_generation = gen, dr_pid = pid, dr_seq = dr_seq cur, dr_epoch = dr_epoch cur,
                             dr_serving = dr_serving cur, dr_last_seen = now\<rparr>)
          else Inr (dset ch i \<lparr>dr_generation = gen, dr_pid = pid, dr_seq = 0, dr_epoch = [], dr_serving = True, dr_last_seen = now\<rparr>))"

record beat =
  hb_index :: nat
  hb_generation :: int
  hb_pid :: int
  hb_seq :: nat
  hb_epoch :: string
  hb_serving :: bool

definition heartbeat :: "channel \<Rightarrow> beat \<Rightarrow> int \<Rightarrow> channel_error + channel" where
  "heartbeat ch b now =
     (case dget ch (hb_index b) of
        None \<Rightarrow> Inl (UnknownDataPlane (hb_index b))
      | Some cur \<Rightarrow>
          if dr_generation cur < hb_generation b then Inl (UnknownDataPlane (hb_index b))
          else if hb_generation b < dr_generation cur \<or> hb_pid b \<noteq> dr_pid cur then Inl (StaleGeneration (hb_generation b) (dr_generation cur))
          else
            (let applied = (if hb_epoch b = dr_epoch cur then max (dr_seq cur) (hb_seq b) else hb_seq b) in
             Inr (dset ch (hb_index b) \<lparr>dr_generation = hb_generation b, dr_pid = hb_pid b, dr_seq = applied, dr_epoch = hb_epoch b,
                                        dr_serving = hb_serving b, dr_last_seen = now\<rparr>)))"

definition channel_drop :: "channel \<Rightarrow> nat \<Rightarrow> channel" where
  "channel_drop ch i = ddel ch i"

section \<open>The acknowledgement barrier\<close>

definition live_records :: "channel \<Rightarrow> int \<Rightarrow> int \<Rightarrow> channel" where
  "live_records ch liveness now = filter (\<lambda>(i, r). now - dr_last_seen r \<le> liveness) ch"

definition ack_pending :: "channel \<Rightarrow> string \<Rightarrow> nat option \<Rightarrow> nat \<Rightarrow> int \<Rightarrow> int \<Rightarrow> nat list" where
  "ack_pending ch epoch expected goal_seq liveness now =
     (let live = live_records ch liveness now;
          behind = map fst (filter (\<lambda>(i, r). dr_epoch r \<noteq> epoch \<or> dr_seq r < goal_seq) live);
          roster = (case expected of Some n \<Rightarrow> [0..<n] | None \<Rightarrow> map fst ch) in
      remdups (behind @ filter (\<lambda>i. \<not> dhas live i) roster))"

text \<open>One round of the polling loop: an answer, or sleep and poll again.\<close>

definition barrier_poll :: "channel \<Rightarrow> string \<Rightarrow> nat option \<Rightarrow> nat \<Rightarrow> int \<Rightarrow> int \<Rightarrow> bool \<Rightarrow> (bool \<times> nat list) option" where
  "barrier_poll ch epoch expected goal_seq liveness now timed_out =
     (let pending = ack_pending ch epoch expected goal_seq liveness now in
      if pending = [] then Some (True, [])
      else if timed_out then Some (False, sort pending) else None)"

section \<open>Failure reports\<close>

record seen_failures =
  sf_seqs :: "nat list"
  sf_floor :: int

type_synonym failure_log = "(nat \<times> int, seen_failures) dict"

definition failure_already_applied :: "failure_log \<Rightarrow> nat \<times> int \<Rightarrow> nat \<Rightarrow> bool \<times> failure_log" where
  "failure_already_applied lg key q =
     (let st = (case dget lg key of None \<Rightarrow> \<lparr>sf_seqs = [], sf_floor = 0\<rparr> | Some x \<Rightarrow> x); lg1 = dset lg key st in
      if int q \<le> sf_floor st then (True, lg1)
      else if q \<in> set (sf_seqs st) then (True, lg1)
      else
        (let seqs = sf_seqs st @ [q] in
         (False, dset lg key
           (if 4096 < length seqs
            then (let low_mark = int (Max (set seqs)) - 1024 in \<lparr>sf_seqs = filter (\<lambda>x. low_mark < int x) seqs, sf_floor = low_mark\<rparr>)
            else \<lparr>sf_seqs = seqs, sf_floor = sf_floor st\<rparr>))))"

record failure_report =
  fr_worker_id :: string
  fr_status_code :: "int option"
  fr_error :: "string option"
  fr_incarnation :: string
  fr_index :: nat
  fr_generation :: int
  fr_seq :: nat

definition stale_generation :: "channel \<Rightarrow> nat \<Rightarrow> int \<Rightarrow> bool" where
  "stale_generation ch i gen = (case dget ch i of None \<Rightarrow> False | Some r \<Rightarrow> gen < dr_generation r)"

datatype failure_answer = FStale | FNotFound | FOldIncarnation | FDuplicate | FDead | FCounted bool

text \<open>\<^verbatim>\<open>/internal/worker_failure\<close>; a counted failure says whether the change is visible in the snapshot and is published.\<close>

definition worker_failure ::
  "(string \<Rightarrow> string) \<Rightarrow> (string \<Rightarrow> string) \<Rightarrow> nat \<Rightarrow> channel \<Rightarrow> worker list \<Rightarrow> failure_log \<Rightarrow> failure_report \<Rightarrow>
   failure_answer \<times> worker list \<times> failure_log" where
  "worker_failure quote unquote fthr ch ws lg rep =
     (if stale_generation ch (fr_index rep) (fr_generation rep) then (FStale, ws, lg)
      else case find_worker quote unquote ws (fr_worker_id rep) of
        None \<Rightarrow> (FNotFound, ws, lg)
      | Some w \<Rightarrow>
          if fr_incarnation rep \<noteq> [] \<and> incarnation w \<noteq> fr_incarnation rep then (FOldIncarnation, ws, lg)
          else case failure_already_applied lg (fr_index rep, fr_generation rep) (fr_seq rep) of
            (True, lg') \<Rightarrow> (FDuplicate, ws, lg')
          | (False, lg') \<Rightarrow>
              if is_dead w then (FDead, ws, lg')
              else
                (let w' = record_request_failure w fthr (fr_status_code rep) (fr_error rep) in
                 (FCounted ((is_routable w, w_state w) \<noteq> (is_routable w', w_state w')),
                  set_worker ws (w_url w) (\<lambda>_. w'), lg')))"

section \<open>Control plane and data planes\<close>

type_synonym dp_id = "nat \<times> int \<times> int"

record dp_proc =
  px_reader :: reader
  px_view :: dp_view

text \<open>
  \<open>beats\<close> are all heartbeats ever sent: any of them may arrive at any time, any number of times. \<open>history\<close> and
  \<open>epochs\<close> are ghosts: the snapshots that reached the file, and the epochs used.
\<close>

record system =
  sy_epoch :: string
  sy_seq :: nat
  sy_pool :: "worker list"
  sy_channel :: channel
  sy_file :: "worker_snapshot option"
  sy_procs :: "(dp_id, dp_proc) dict"
  beats :: "beat list"
  history :: "worker_snapshot list"
  epochs :: "string list"

definition reload_proc ::
  "string list \<Rightarrow> (string \<Rightarrow> string) \<Rightarrow> nat option \<Rightarrow> worker_snapshot option \<Rightarrow> dp_proc \<Rightarrow> dp_proc" where
  "reload_proc dcaps uuid st content p =
     (case maybe_reload st content (px_reader p) of
        (False, r) \<Rightarrow> p\<lparr>px_reader := r\<rparr>
      | (True, r) \<Rightarrow>
          (case rd_snapshot r of
             None \<Rightarrow> p\<lparr>px_reader := r\<rparr>
           | Some sn \<Rightarrow> p\<lparr>px_reader := r, px_view := view_apply dcaps uuid sn (px_view p)\<rparr>))"

definition beat_of :: "dp_id \<Rightarrow> dp_proc \<Rightarrow> bool \<Rightarrow> beat" where
  "beat_of x p serving =
     \<lparr>hb_index = fst x, hb_generation = fst (snd x), hb_pid = snd (snd x), hb_seq = dv_seq (px_view p), hb_epoch = dv_epoch (px_view p),
      hb_serving = serving\<rparr>"

definition sys_publish :: "(string \<Rightarrow> string) \<Rightarrow> system \<Rightarrow> int \<Rightarrow> bool \<Rightarrow> system" where
  "sys_publish quote s now ok =
     (case publish_snapshot (sy_epoch s) (sy_seq s) (snapshot_workers quote (sy_pool s)) now ok (sy_file s) of
        (pub, q, f) \<Rightarrow> s\<lparr>sy_seq := q, sy_file := f, history := (case pub of None \<Rightarrow> history s | Some sn \<Rightarrow> sn # history s)\<rparr>)"

datatype system_ev =
    PoolChange "worker list"
  | Publish int bool
  | CpRestart string "worker list"
  | DpStart dp_id
  | DpReload dp_id "nat option" bool
  | DpBeat dp_id bool
  | DpExit dp_id
  | Register nat int int int
  | Deliver nat int
  | DropRecord nat

text \<open>
  \<open>DpReload\<close> reads the file (or fails to) after a \<open>stat\<close> that may have seen an older file, whence the free
  fingerprint. A restarted CP has an epoch never used before, an empty channel and sequence number 0.
\<close>

fun system_step :: "(string \<Rightarrow> string) \<Rightarrow> string list \<Rightarrow> (string \<Rightarrow> string) \<Rightarrow> system \<Rightarrow> system_ev \<Rightarrow> system" where
  "system_step quote dcaps uuid s (PoolChange ws) = s\<lparr>sy_pool := ws\<rparr>"
| "system_step quote dcaps uuid s (Publish now ok) = sys_publish quote s now ok"
| "system_step quote dcaps uuid s (CpRestart e ws) =
     (if e = [] \<or> e \<in> set (epochs s) then s
      else s\<lparr>sy_epoch := e, sy_seq := 0, sy_pool := ws, sy_channel := [], epochs := e # epochs s\<rparr>)"
| "system_step quote dcaps uuid s (DpStart x) =
     (if dhas (sy_procs s) x \<or> (\<exists>b\<in>set (beats s). (hb_index b, hb_generation b, hb_pid b) = x) then s
      else s\<lparr>sy_procs := dset (sy_procs s) x \<lparr>px_reader = new_reader, px_view = new_view\<rparr>\<rparr>)"
| "system_step quote dcaps uuid s (DpReload x st readable) =
     (case dget (sy_procs s) x of
        None \<Rightarrow> s
      | Some p \<Rightarrow> s\<lparr>sy_procs := dset (sy_procs s) x (reload_proc dcaps uuid st (if readable then sy_file s else None) p)\<rparr>)"
| "system_step quote dcaps uuid s (DpBeat x serving) =
     (case dget (sy_procs s) x of None \<Rightarrow> s | Some p \<Rightarrow> s\<lparr>beats := beat_of x p serving # beats s\<rparr>)"
| "system_step quote dcaps uuid s (DpExit x) = s\<lparr>sy_procs := ddel (sy_procs s) x\<rparr>"
| "system_step quote dcaps uuid s (Register i gen pid now) =
     (case register (sy_channel s) i gen pid now of Inl _ \<Rightarrow> s | Inr ch \<Rightarrow> s\<lparr>sy_channel := ch\<rparr>)"
| "system_step quote dcaps uuid s (Deliver n now) =
     (if n < length (beats s) then
        (case heartbeat (sy_channel s) (beats s ! n) now of Inl _ \<Rightarrow> s | Inr ch \<Rightarrow> s\<lparr>sy_channel := ch\<rparr>)
      else s)"
| "system_step quote dcaps uuid s (DropRecord i) = s\<lparr>sy_channel := channel_drop (sy_channel s) i\<rparr>"

definition start_system :: "string \<Rightarrow> worker list \<Rightarrow> system" where
  "start_system e ws =
     \<lparr>sy_epoch = e, sy_seq = 0, sy_pool = ws, sy_channel = [], sy_file = None, sy_procs = [], beats = [], history = [], epochs = [e]\<rparr>"

section \<open>Invariant\<close>

definition beat_id :: "beat \<Rightarrow> dp_id" where
  "beat_id b = (hb_index b, hb_generation b, hb_pid b)"

definition files_ok :: "system \<Rightarrow> bool" where
  "files_ok s \<longleftrightarrow>
     sy_epoch s \<noteq> [] \<and> sy_epoch s \<in> set (epochs s) \<and>
     (\<forall>sn\<in>set (history s). sn_epoch sn \<in> set (epochs s) \<and> (sn_epoch sn = sy_epoch s \<longrightarrow> sn_seq sn \<le> sy_seq s)) \<and>
     (\<forall>f. sy_file s = Some f \<longrightarrow> f \<in> set (history s)) \<and>
     (\<forall>sn\<in>set (history s). sn_epoch sn = sy_epoch s \<longrightarrow>
        (\<exists>f. sy_file s = Some f \<and> sn_epoch f = sy_epoch s \<and> sn_seq sn \<le> sn_seq f))"

definition proc_ok :: "worker_snapshot list \<Rightarrow> dp_proc \<Rightarrow> bool" where
  "proc_ok hist p \<longleftrightarrow>
     (case rd_snapshot (px_reader p) of
        None \<Rightarrow> px_view p = new_view
      | Some sn \<Rightarrow> sn \<in> set hist \<and> dv_epoch (px_view p) = sn_epoch sn \<and> dv_seq (px_view p) = sn_seq sn \<and>
          (\<forall>u w. dget (dv_workers (px_view p)) u = Some w \<longrightarrow>
             (\<exists>e\<in>set (sn_workers sn). sn_url e = u \<and> w_state w = sn_state e \<and> disabled w = sn_disabled e)))"

definition beat_ok :: "system \<Rightarrow> beat \<Rightarrow> bool" where
  "beat_ok s b \<longleftrightarrow>
     hb_epoch b \<in> insert [] (set (epochs s)) \<and>
     (\<forall>p. hb_epoch b = sy_epoch s \<longrightarrow> dget (sy_procs s) (beat_id b) = Some p \<longrightarrow>
        dv_epoch (px_view p) = sy_epoch s \<and> hb_seq b \<le> dv_seq (px_view p))"

definition record_ok :: "beat list \<Rightarrow> nat \<times> dp_record \<Rightarrow> bool" where
  "record_ok bs kr \<longleftrightarrow>
     (case kr of (i, r) \<Rightarrow> dr_epoch r = [] \<or>
       (\<exists>b\<in>set bs. beat_id b = (i, dr_generation r, dr_pid r) \<and> hb_epoch b = dr_epoch r \<and> hb_seq b = dr_seq r))"

definition system_inv :: "system \<Rightarrow> bool" where
  "system_inv s \<longleftrightarrow>
     files_ok s \<and> (\<forall>x p. dget (sy_procs s) x = Some p \<longrightarrow> proc_ok (history s) p) \<and> (\<forall>b\<in>set (beats s). beat_ok s b) \<and>
     dict_ok (sy_channel s) \<and> (\<forall>kr\<in>set (sy_channel s). record_ok (beats s) kr)"

lemma system_invD:
  "system_inv s \<Longrightarrow> files_ok s" "system_inv s \<Longrightarrow> dget (sy_procs s) x = Some p \<Longrightarrow> proc_ok (history s) p"
  "system_inv s \<Longrightarrow> b \<in> set (beats s) \<Longrightarrow> beat_ok s b"
  unfolding system_inv_def by blast+

lemma proc_ok_mono: "proc_ok hist p \<Longrightarrow> set hist \<subseteq> set hist' \<Longrightarrow> proc_ok hist' p"
  by (auto simp: proc_ok_def split: option.splits)

lemma record_ok_mono: "record_ok bs kr \<Longrightarrow> set bs \<subseteq> set bs' \<Longrightarrow> record_ok bs' kr"
  by (auto simp: record_ok_def split: prod.splits)

lemma dset_records:
  assumes "dict_ok ch" "\<forall>kr\<in>set ch. P kr" "P (i, r)"
  shows "dict_ok (dset ch i r) \<and> (\<forall>kr\<in>set (dset ch i r). P kr)"
proof -
  have ok: "dict_ok (dset ch i r)" using assms(1) by simp
  have "P (j, q)" if "(j, q) \<in> set (dset ch i r)" for j q
  proof -
    have "dget (dset ch i r) j = Some q" using that ok by (simp add: dict_ok_in_set)
    then show ?thesis using assms by (auto simp: dict_ok_in_set [symmetric] split: if_splits)
  qed
  with ok show ?thesis by auto
qed

lemma register_ok:
  assumes "register ch i gen pid now = Inr ch'" "dict_ok ch" "\<forall>kr\<in>set ch. record_ok bs kr"
  shows "dict_ok ch' \<and> (\<forall>kr\<in>set ch'. record_ok bs kr)"
proof -
  have old: "record_ok bs (i, cur)" if "dget ch i = Some cur" for cur using that assms(2,3) by (simp add: dict_ok_in_set [symmetric])
  obtain r where "ch' = dset ch i r" "record_ok bs (i, r)"
    using assms(1) old by (force simp: register_def record_ok_def split: option.splits if_splits)
  then show ?thesis using dset_records [OF assms(2,3)] by blast
qed

lemma heartbeat_ok:
  assumes "heartbeat ch b now = Inr ch'" "dict_ok ch" "\<forall>kr\<in>set ch. record_ok bs kr" "b \<in> set bs"
  shows "dict_ok ch' \<and> (\<forall>kr\<in>set ch'. record_ok bs kr)"
proof -
  obtain cur where cur: "dget ch (hb_index b) = Some cur" "hb_generation b = dr_generation cur" "hb_pid b = dr_pid cur"
    using assms(1) by (auto simp: heartbeat_def Let_def split: option.splits if_splits)
  define applied where "applied = (if hb_epoch b = dr_epoch cur then max (dr_seq cur) (hb_seq b) else hb_seq b)"
  let ?r = "\<lparr>dr_generation = hb_generation b, dr_pid = hb_pid b, dr_seq = applied, dr_epoch = hb_epoch b, dr_serving = hb_serving b, dr_last_seen = now\<rparr>"
  have ch': "ch' = dset ch (hb_index b) ?r" using assms(1) cur by (simp add: heartbeat_def Let_def applied_def)
  have "record_ok bs (hb_index b, cur)" using cur(1) assms(2,3) by (simp add: dict_ok_in_set [symmetric])
  then have "record_ok bs (hb_index b, ?r)"
    using assms(4) cur unfolding record_ok_def beat_id_def applied_def by (auto simp: max_def)
  then show ?thesis unfolding ch' by (rule dset_records [OF assms(2,3)])
qed

text \<open>A reload moves a process forward: in the CP's epoch it only goes to higher sequence numbers.\<close>

lemma reload_proc_ok:
  fixes dcaps uuid st
  assumes "files_ok s" "proc_ok (history s) p" "content = None \<or> content = sy_file s"
  defines "p' \<equiv> reload_proc dcaps uuid st content p"
  shows "proc_ok (history s) p' \<and>
    (dv_epoch (px_view p) = sy_epoch s \<longrightarrow> dv_epoch (px_view p') = sy_epoch s \<and> dv_seq (px_view p) \<le> dv_seq (px_view p'))"
proof -
  obtain b r where r: "maybe_reload st content (px_reader p) = (b, r)" by (cases "maybe_reload st content (px_reader p)")
  show ?thesis
  proof (cases b)
    case False
    with r have "rd_snapshot r = rd_snapshot (px_reader p)" by (auto dest: reload_keeps)
    with r False assms(2) show ?thesis by (auto simp: p'_def reload_proc_def proc_ok_def split: option.splits)
  next
    case True
    with r have "maybe_reload st content (px_reader p) = (True, r)" by simp
    then obtain sn where sn: "content = Some sn" "rd_snapshot r = Some sn" using reload_applies by blast
    then have f: "sy_file s = Some sn" using assms(3) by auto
    have p': "p' = p\<lparr>px_reader := r, px_view := view_apply dcaps uuid sn (px_view p)\<rparr>" using r True sn(2) by (simp add: p'_def reload_proc_def)
    have "proc_ok (history s) p'" using f sn(2) assms(1) by (auto simp: p' proc_ok_def files_ok_def dest: view_apply_entries)
    moreover have "sn_epoch sn = sy_epoch s \<and> dv_seq (px_view p) \<le> sn_seq sn" if e: "dv_epoch (px_view p) = sy_epoch s"
    proof -
      have "rd_snapshot (px_reader p) \<noteq> None" using e assms(1,2) by (auto simp: proc_ok_def files_ok_def new_view_def split: option.splits)
      then obtain old where old: "old \<in> set (history s)" "sn_epoch old = sy_epoch s" "dv_seq (px_view p) = sn_seq old"
        using assms(2) e by (auto simp: proc_ok_def)
      with assms(1) f show ?thesis by (fastforce simp: files_ok_def)
    qed
    ultimately show ?thesis by (simp add: p')
  qed
qed

lemma publish_ok: "files_ok s \<Longrightarrow> files_ok (sys_publish quote s now ok)"
  by (force simp: files_ok_def sys_publish_def publish_snapshot_def Let_def)

lemma publish_others:
  "sy_epoch (sys_publish quote s now ok) = sy_epoch s" "sy_procs (sys_publish quote s now ok) = sy_procs s"
  "beats (sys_publish quote s now ok) = beats s" "sy_channel (sys_publish quote s now ok) = sy_channel s"
  "epochs (sys_publish quote s now ok) = epochs s" "set (history s) \<subseteq> set (history (sys_publish quote s now ok))"
  by (auto simp: sys_publish_def publish_snapshot_def Let_def)

lemma system_inv_restart:
  assumes inv: "system_inv s" and e: "e \<noteq> []" "e \<notin> set (epochs s)"
  shows "system_inv (s\<lparr>sy_epoch := e, sy_seq := 0, sy_pool := ws, sy_channel := [], epochs := e # epochs s\<rparr>)"
proof -
  have "sn_epoch sn \<noteq> e" if "sn \<in> set (history s)" for sn using inv that e by (auto simp: system_inv_def files_ok_def)
  moreover have "hb_epoch b \<noteq> e" if "b \<in> set (beats s)" for b using inv that e by (auto simp: system_inv_def beat_ok_def)
  ultimately show ?thesis using inv e by (auto simp: system_inv_def files_ok_def beat_ok_def)
qed

lemma system_inv_procs:
  assumes inv: "system_inv s" and "proc_ok (history s) p'"
    and "\<And>b. b \<in> set (beats s) \<Longrightarrow> beat_id b = x \<Longrightarrow> hb_epoch b = sy_epoch s \<Longrightarrow> dv_epoch (px_view p') = sy_epoch s \<and> hb_seq b \<le> dv_seq (px_view p')"
  shows "system_inv (s\<lparr>sy_procs := dset (sy_procs s) x p'\<rparr>)"
  using assms by (auto simp: system_inv_def files_ok_def beat_ok_def)

lemma system_inv_beat:
  assumes inv: "system_inv s" and p: "dget (sy_procs s) x = Some p"
  shows "system_inv (s\<lparr>beats := beat_of x p serving # beats s\<rparr>)"
proof -
  have ok: "proc_ok (history s) p" using inv p by (rule system_invD(2))
  have "dv_epoch (px_view p) \<in> insert [] (set (epochs s))"
    using ok inv by (auto simp: proc_ok_def system_inv_def files_ok_def new_view_def split: option.splits)
  then have "beat_ok (s\<lparr>beats := beat_of x p serving # beats s\<rparr>) (beat_of x p serving)"
    using p by (simp add: beat_ok_def beat_of_def beat_id_def)
  moreover have "record_ok (beat_of x p serving # beats s) kr" if "kr \<in> set (sy_channel s)" for kr
    using inv that by (auto simp: system_inv_def intro: record_ok_mono)
  ultimately show ?thesis using inv by (auto simp: system_inv_def files_ok_def beat_ok_def)
qed

lemma system_inv_channel:
  "system_inv s \<Longrightarrow> dict_ok ch \<and> (\<forall>kr\<in>set ch. record_ok (beats s) kr) \<Longrightarrow> system_inv (s\<lparr>sy_channel := ch\<rparr>)"
  by (auto simp: system_inv_def files_ok_def beat_ok_def)

lemma system_inv_step: "system_inv s \<Longrightarrow> system_inv (system_step quote dcaps uuid s ev)"
proof (cases ev)
  case (Publish now ok)
  assume inv: "system_inv s"
  with publish_ok [of s quote now ok] publish_others [where s = s and quote = quote and now = now and ok = ok] show ?thesis
    unfolding Publish system_step.simps system_inv_def beat_ok_def by (auto) (metis proc_ok_mono)
next
  case (DpStart x)
  assume inv: "system_inv s"
  show ?thesis
  proof (cases "dhas (sy_procs s) x \<or> (\<exists>b\<in>set (beats s). (hb_index b, hb_generation b, hb_pid b) = x)")
    case False
    then have "system_inv (s\<lparr>sy_procs := dset (sy_procs s) x \<lparr>px_reader = new_reader, px_view = new_view\<rparr>\<rparr>)"
      by (intro system_inv_procs [OF inv]) (auto simp: proc_ok_def new_reader_def beat_id_def)
    with False DpStart show ?thesis by simp
  qed (simp add: DpStart inv)
next
  case (DpReload x st readable)
  assume inv: "system_inv s"
  show ?thesis
  proof (cases "dget (sy_procs s) x")
    case (Some p)
    let ?p' = "reload_proc dcaps uuid st (if readable then sy_file s else None) p"
    have R: "proc_ok (history s) ?p' \<and> (dv_epoch (px_view p) = sy_epoch s \<longrightarrow>
        dv_epoch (px_view ?p') = sy_epoch s \<and> dv_seq (px_view p) \<le> dv_seq (px_view ?p'))"
      by (rule reload_proc_ok [OF system_invD(1) [OF inv] system_invD(2) [OF inv Some]]) simp
    have "dv_epoch (px_view p) = sy_epoch s \<and> hb_seq b \<le> dv_seq (px_view p)"
      if "b \<in> set (beats s)" "beat_id b = x" "hb_epoch b = sy_epoch s" for b
      using inv that Some by (auto simp: system_inv_def beat_ok_def)
    with R have "system_inv (s\<lparr>sy_procs := dset (sy_procs s) x ?p'\<rparr>)"
      by (intro system_inv_procs [OF inv]) (simp, metis order.trans)
    with Some DpReload show ?thesis by simp
  qed (simp add: DpReload inv)
next
  case (DpBeat x serving)
  assume "system_inv s"
  with DpBeat show ?thesis by (auto split: option.split intro: system_inv_beat)
next
  case (Register i gen pid now)
  assume inv: "system_inv s"
  then show ?thesis using register_ok [of "sy_channel s" i gen pid now _ "beats s"] Register
    by (auto simp: system_inv_def [of s] split: sum.split intro!: system_inv_channel)
next
  case (Deliver n now)
  assume inv: "system_inv s"
  then show ?thesis using heartbeat_ok [of "sy_channel s" "beats s ! n" now _ "beats s"] Deliver
    by (auto simp: system_inv_def [of s] split: sum.split intro!: system_inv_channel)
next
  case (CpRestart e ws)
  assume "system_inv s"
  with CpRestart system_inv_restart [of s e ws] show ?thesis by simp
next
  case (DropRecord i)
  assume inv: "system_inv s"
  have "set (ddel (sy_channel s) i) \<subseteq> set (sy_channel s)" by (simp add: AList.delete_eq)
  with inv DropRecord show ?thesis by (auto simp: channel_drop_def system_inv_def files_ok_def beat_ok_def)
qed (auto simp: system_inv_def files_ok_def beat_ok_def split: if_splits)

interpretation cps: machine "system_step quote dcaps uuid" system_inv for quote dcaps uuid
  by unfold_locales (rule system_inv_step)

lemma start_system_inv: "e \<noteq> [] \<Longrightarrow> system_inv (start_system e ws)"
  by (simp add: system_inv_def files_ok_def start_system_def)

section \<open>Properties\<close>

text \<open>The worker of a URL is not routable in a view.\<close>

definition unroutable :: "dp_view \<Rightarrow> string \<Rightarrow> bool" where
  "unroutable v u = (case dget (dv_workers v) u of None \<Rightarrow> True | Some w \<Rightarrow> \<not> is_routable w)"

text \<open>Every snapshot of an epoch from a sequence number on has the URL disabled.\<close>

definition disabled_since :: "worker_snapshot list \<Rightarrow> string \<Rightarrow> nat \<Rightarrow> string \<Rightarrow> bool" where
  "disabled_since hist epoch q u =
     list_all (\<lambda>sn. sn_epoch sn = epoch \<and> q \<le> sn_seq sn \<longrightarrow> list_all (\<lambda>e. sn_url e = u \<longrightarrow> sn_disabled e) (sn_workers sn)) hist"

definition no_restart :: "system_ev \<Rightarrow> bool" where
  "no_restart ev = (case ev of CpRestart _ _ \<Rightarrow> False | _ \<Rightarrow> True)"

lemma step_keeps:
  "set (beats s) \<subseteq> set (beats (system_step quote dcaps uuid s ev))"
  "no_restart ev \<Longrightarrow> sy_epoch (system_step quote dcaps uuid s ev) = sy_epoch s"
  by (cases ev; auto simp: publish_others no_restart_def split: option.split sum.split)+

lemma run_keeps:
  "set (beats s) \<subseteq> set (beats (run (system_step quote dcaps uuid) s evs))"
  "list_all no_restart evs \<Longrightarrow> sy_epoch (run (system_step quote dcaps uuid) s evs) = sy_epoch s"
proof (induction evs arbitrary: s)
  case (Cons ev evs)
  case 1 then show ?case using Cons(1) [of "system_step quote dcaps uuid s ev"] step_keeps(1) [of s quote dcaps uuid ev] by auto
  case 2 then show ?case using Cons(2) [of "system_step quote dcaps uuid s ev"] step_keeps(2) [of ev quote dcaps uuid s] by auto
qed simp_all

lemma acked_record:
  assumes "system_inv s" "ack_pending (sy_channel s) (sy_epoch s) expected q liveness now = []"
    and "i \<in> set (case expected of Some n \<Rightarrow> [0..<n] | None \<Rightarrow> map fst (sy_channel s))"
  obtains r b where "dget (sy_channel s) i = Some r" "now - dr_last_seen r \<le> liveness" "b \<in> set (beats s)"
    "beat_id b = (i, dr_generation r, dr_pid r)" "hb_epoch b = sy_epoch s" "q \<le> hb_seq b"
proof -
  let ?live = "live_records (sy_channel s) liveness now"
  have none: "filter (\<lambda>(i, r). dr_epoch r \<noteq> sy_epoch s \<or> dr_seq r < q) ?live = []" and live: "dhas ?live i"
    using assms(2,3) by (auto simp: ack_pending_def Let_def filter_empty_conv)
  from live obtain r where r: "(i, r) \<in> set (sy_channel s)" "now - dr_last_seen r \<le> liveness" "(i, r) \<in> set ?live"
    by (auto simp: dhas_iff live_records_def)
  have rec: "dr_epoch r = sy_epoch s" "q \<le> dr_seq r" using none r(3) by (auto simp: filter_empty_conv not_less)
  have "record_ok (beats s) (i, r)" "sy_epoch s \<noteq> []" "dget (sy_channel s) i = Some r"
    using assms(1) r(1) by (auto simp: system_inv_def files_ok_def dict_ok_in_set)
  with rec r(2) that show thesis by (auto simp: record_ok_def)
qed

text \<open>
  C36: the acknowledgement barrier holds what a weight update relies on. When the control plane's poll reports that
  every data plane has acknowledged a snapshot, then for every data plane of the roster there is a recently seen registered process, and from
  then on, however refreshes, heartbeats (late and repeated ones too), deaths and respawns interleave, that process
  has a snapshot of this epoch at least as new as the acknowledged one; a worker that every snapshot since then
  publishes as disabled is not routed to by it.
\<close>

theorem ack_barrier_sound:
  assumes e: "e \<noteq> []" and s: "s = run (system_step quote dcaps uuid) (start_system e ws) evs"
    and ack: "barrier_poll (sy_channel s) (sy_epoch s) expected q liveness now timed_out = Some (True, [])"
    and i: "i \<in> set (case expected of Some n \<Rightarrow> [0..<n] | None \<Rightarrow> map fst (sy_channel s))"
  shows "\<exists>r. dget (sy_channel s) i = Some r \<and> now - dr_last_seen r \<le> liveness \<and>
    (\<forall>evs' p. list_all no_restart evs' \<longrightarrow>
       (let s' = run (system_step quote dcaps uuid) s evs' in
        dget (sy_procs s') (i, dr_generation r, dr_pid r) = Some p \<longrightarrow>
        dv_epoch (px_view p) = sy_epoch s \<and> q \<le> dv_seq (px_view p) \<and>
        (\<forall>u. disabled_since (history s') (sy_epoch s) q u \<longrightarrow> unroutable (px_view p) u)))"
proof -
  have inv: "system_inv s" unfolding s by (rule cps.inv_run [OF start_system_inv [OF e]])
  have pend: "ack_pending (sy_channel s) (sy_epoch s) expected q liveness now = []"
    using ack by (auto simp: barrier_poll_def Let_def split: if_splits)
  obtain r b where r: "dget (sy_channel s) i = Some r" "now - dr_last_seen r \<le> liveness" and b: "b \<in> set (beats s)"
    "beat_id b = (i, dr_generation r, dr_pid r)" "hb_epoch b = sy_epoch s" "q \<le> hb_seq b"
    using acked_record [OF inv pend i] .
  have "dv_epoch (px_view p) = sy_epoch s \<and> q \<le> dv_seq (px_view p) \<and> (disabled_since (history s') (sy_epoch s) q u \<longrightarrow> unroutable (px_view p) u)"
    if nr: "list_all no_restart evs'" and s': "s' = run (system_step quote dcaps uuid) s evs'"
      and p: "dget (sy_procs s') (i, dr_generation r, dr_pid r) = Some p" for evs' s' p u
  proof -
    have inv': "system_inv s'" unfolding s' by (rule cps.inv_run [OF inv])
    have ep: "sy_epoch s' = sy_epoch s" using run_keeps(2) [OF nr] s' by simp
    have "b \<in> set (beats s')" using run_keeps(1) b(1) s' by blast
    then have view: "dv_epoch (px_view p) = sy_epoch s" "q \<le> dv_seq (px_view p)"
      using inv' p b ep unfolding system_inv_def beat_ok_def by fastforce+
    have "proc_ok (history s') p" using inv' p by (rule system_invD(2))
    moreover have "dv_epoch (px_view p) \<noteq> []" using view(1) inv by (simp add: system_inv_def files_ok_def)
    ultimately show ?thesis using view
      by (fastforce simp: proc_ok_def new_view_def unroutable_def disabled_since_def list_all_iff is_routable_def split: option.splits)
  qed
  with r show ?thesis unfolding Let_def by blast
qed

theorem ack_barrier_sound_witness:
  "let s = run (system_step id [''tts''] id) (start_system ''e1'' [(new_worker ''u'' None [''tts''] ''x'')\<lparr>w_state := Healthy, disabled := True\<rparr>])
         [Publish 1 True, DpStart (0, 1, 7), Register 0 1 7 2, DpReload (0, 1, 7) (Some 5) True, DpBeat (0, 1, 7) True, Deliver 0 3] in
   \<exists>r. dget (sy_channel s) 0 = Some r \<and> 4 - dr_last_seen r \<le> 6 \<and>
    (\<forall>evs' p. list_all no_restart evs' \<longrightarrow>
       (let s' = run (system_step id [''tts''] id) s evs' in
        dget (sy_procs s') (0, dr_generation r, dr_pid r) = Some p \<longrightarrow>
        dv_epoch (px_view p) = sy_epoch s \<and> 1 \<le> dv_seq (px_view p) \<and>
        (\<forall>u. disabled_since (history s') (sy_epoch s) 1 u \<longrightarrow> unroutable (px_view p) u)))"
  unfolding Let_def [of "run _ _ _" "\<lambda>s. \<exists>r. dget (sy_channel s) _ = Some r \<and> _ s r"]
  by (rule ack_barrier_sound [where e = "''e1''" and expected = "Some 1" and timed_out = False]) (simp, rule refl, code_simp, simp)

section \<open>Failures count once\<close>

definition failure_seen :: "failure_log \<Rightarrow> nat \<times> int \<Rightarrow> nat \<Rightarrow> bool" where
  "failure_seen lg key q = (case dget lg key of None \<Rightarrow> False | Some st \<Rightarrow> int q \<le> sf_floor st \<or> q \<in> set (sf_seqs st))"

definition log_ok :: "failure_log \<Rightarrow> bool" where
  "log_ok lg \<longleftrightarrow> (\<forall>st\<in>ran (map_of lg). 0 \<le> sf_floor st \<and> distinct (sf_seqs st) \<and> (\<forall>x\<in>set (sf_seqs st). sf_floor st < int x))"

text \<open>Many different numbers above the floor have a large maximum, so pruning never lowers the floor.\<close>

lemma floor_rises:
  assumes "distinct (xs :: nat list)" "\<forall>x\<in>set xs. fl < int x" "xs \<noteq> []"
  shows "fl + int (length xs) \<le> int (Max (set xs))"
proof -
  have "int ` set xs \<subseteq> {fl<..int (Max (set xs))}" using assms(2) by auto
  then have "card (int ` set xs) \<le> card {fl<..int (Max (set xs))}" by (intro card_mono) auto
  moreover have "card (int ` set xs) = length xs" using assms(1) by (simp add: card_image distinct_card)
  ultimately show ?thesis using assms(2,3) by (cases xs) auto
qed

lemma failure_already_applied_spec:
  assumes ok: "log_ok lg" and r: "failure_already_applied lg key q = (b, lg')"
  shows "b = failure_seen lg key q \<or> (q = 0 \<and> b)" and "log_ok lg'" and "failure_seen lg' key q" and "failure_seen lg k x \<Longrightarrow> failure_seen lg' k x"
proof -
  define st where "st = (case dget lg key of None \<Rightarrow> \<lparr>sf_seqs = [], sf_floor = 0\<rparr> | Some x \<Rightarrow> x)"
  have stok: "0 \<le> sf_floor st" "distinct (sf_seqs st)" "\<forall>x\<in>set (sf_seqs st). sf_floor st < int x"
    using ok by (auto simp: st_def log_ok_def split: option.split dest: ranI)
  have seen: "failure_seen lg key x \<Longrightarrow> int x \<le> sf_floor st \<or> x \<in> set (sf_seqs st)"
    "int x \<le> sf_floor st \<or> x \<in> set (sf_seqs st) \<Longrightarrow> failure_seen lg key x \<or> x = 0" for x
    by (auto simp: failure_seen_def st_def split: option.splits)
  let ?seqs = "sf_seqs st @ [q]"
  define st' where "st' =
    (if int q \<le> sf_floor st \<or> q \<in> set (sf_seqs st) then st
     else if 4096 < length ?seqs
     then \<lparr>sf_seqs = filter (\<lambda>x. int (Max (set ?seqs)) - 1024 < int x) ?seqs, sf_floor = int (Max (set ?seqs)) - 1024\<rparr>
     else \<lparr>sf_seqs = ?seqs, sf_floor = sf_floor st\<rparr>)"
  have lg': "lg' = dset lg key st'" and b: "b = (int q \<le> sf_floor st \<or> q \<in> set (sf_seqs st))"
    using r by (auto simp: failure_already_applied_def st_def [symmetric] st'_def Let_def split: if_splits)
  have up: "sf_floor st + int (length ?seqs) \<le> int (Max (set ?seqs))" if "\<not> (int q \<le> sf_floor st \<or> q \<in> set (sf_seqs st))"
    using stok that by (intro floor_rises) auto
  show "b = failure_seen lg key q \<or> (q = 0 \<and> b)" using b seen [of q] by blast
  have "0 \<le> sf_floor st' \<and> distinct (sf_seqs st') \<and> (\<forall>x\<in>set (sf_seqs st'). sf_floor st' < int x)"
    using stok up by (auto simp: st'_def)
  then show "log_ok lg'" using ok by (auto simp: lg' log_ok_def ran_def split: if_splits)
  show "failure_seen lg' key q" by (auto simp: lg' failure_seen_def st'_def)
  have keep: "int x \<le> sf_floor st' \<or> x \<in> set (sf_seqs st')" if "int x \<le> sf_floor st \<or> x \<in> set (sf_seqs st)" for x
    using that up by (auto simp: st'_def)
  show "failure_seen lg' k x" if "failure_seen lg k x"
  proof (cases "k = key")
    case True
    with keep [OF seen(1)] that show ?thesis by (simp add: lg' failure_seen_def)
  next
    case False
    with that show ?thesis by (simp add: lg' failure_seen_def)
  qed
qed

text \<open>The handler run on a sequence of reports; channel and pool may be anything at each of them.\<close>

fun failure_run ::
  "(string \<Rightarrow> string) \<Rightarrow> (string \<Rightarrow> string) \<Rightarrow> nat \<Rightarrow> failure_log \<Rightarrow> (channel \<times> worker list \<times> failure_report) list \<Rightarrow> failure_answer list" where
  "failure_run quote unquote fthr lg [] = []"
| "failure_run quote unquote fthr lg ((ch, ws, rep) # xs) =
     (case worker_failure quote unquote fthr ch ws lg rep of (ans, _, lg') \<Rightarrow> ans # failure_run quote unquote fthr lg' xs)"

definition consumed :: "failure_answer \<Rightarrow> bool" where
  "consumed a = (case a of FDead \<Rightarrow> True | FCounted _ \<Rightarrow> True | _ \<Rightarrow> False)"

definition report_key :: "failure_report \<Rightarrow> (nat \<times> int) \<times> nat" where
  "report_key rep = ((fr_index rep, fr_generation rep), fr_seq rep)"

lemma worker_failure_log:
  assumes ok: "log_ok lg" and r: "worker_failure quote unquote fthr ch ws lg rep = (ans, ws', lg')"
  shows "log_ok lg'" and "failure_seen lg k x \<Longrightarrow> failure_seen lg' k x"
    and "consumed ans \<Longrightarrow> failure_seen lg' (fst (report_key rep)) (snd (report_key rep))"
    and "consumed ans \<Longrightarrow> \<not> failure_seen lg (fst (report_key rep)) (snd (report_key rep))"
proof -
  obtain b l where a: "failure_already_applied lg (fr_index rep, fr_generation rep) (fr_seq rep) = (b, l)"
    by (cases "failure_already_applied lg (fr_index rep, fr_generation rep) (fr_seq rep)")
  have "lg' = lg \<and> \<not> consumed ans \<or> lg' = l \<and> (consumed ans \<longleftrightarrow> \<not> b)"
    using r a by (auto simp: worker_failure_def consumed_def Let_def split: if_splits option.splits bool.splits)
  with failure_already_applied_spec(1-3) [OF ok a] failure_already_applied_spec(4) [OF ok a, where k = k and x = x] ok
  show "log_ok lg'" "failure_seen lg k x \<Longrightarrow> failure_seen lg' k x"
    "consumed ans \<Longrightarrow> failure_seen lg' (fst (report_key rep)) (snd (report_key rep))"
    "consumed ans \<Longrightarrow> \<not> failure_seen lg (fst (report_key rep)) (snd (report_key rep))"
    by (auto simp: report_key_def)
qed

lemma failure_run_seen:
  "log_ok lg \<Longrightarrow> failure_seen lg (fst (report_key rep)) (snd (report_key rep)) \<Longrightarrow>
   j < length xs \<Longrightarrow> report_key (snd (snd (xs ! j))) = report_key rep \<Longrightarrow> \<not> consumed (failure_run quote unquote fthr lg xs ! j)"
proof (induction xs arbitrary: lg j)
  case (Cons x xs)
  obtain ch ws rp where x: "x = (ch, ws, rp)" by (cases x)
  obtain ans ws' lg' where w: "worker_failure quote unquote fthr ch ws lg rp = (ans, ws', lg')"
    by (cases "worker_failure quote unquote fthr ch ws lg rp")
  note L = worker_failure_log [OF Cons.prems(1) w]
  show ?case
  proof (cases j)
    case 0
    with Cons.prems L(4) x w show ?thesis by auto
  next
    case (Suc j')
    with Cons.IH [OF L(1) L(2) [OF Cons.prems(2)], of j'] Cons.prems(3,4) x w show ?thesis by simp
  qed
qed simp

text \<open>
  C37: a failure of a worker counts once. However often and in whatever order data planes re-deliver their
  reports, and whatever happened to the workers in between, of the reports with one data plane, generation and failure
  number at most one is counted toward eviction, also after the memory of old numbers has been pruned.
\<close>

theorem failure_counted_once:
  assumes "i < j" "j < length xs" "report_key (snd (snd (xs ! i))) = report_key (snd (snd (xs ! j)))"
    and "consumed (failure_run quote unquote fthr [] xs ! i)"
  shows "\<not> consumed (failure_run quote unquote fthr [] xs ! j)"
proof -
  have "\<not> consumed (failure_run quote unquote fthr lg xs ! j)" if "log_ok lg" "consumed (failure_run quote unquote fthr lg xs ! i)" for lg
    using assms(1-3) that
  proof (induction xs arbitrary: lg i j)
    case (Cons x xs)
    obtain ch ws rp where x: "x = (ch, ws, rp)" by (cases x)
    obtain ans ws' lg' where w: "worker_failure quote unquote fthr ch ws lg rp = (ans, ws', lg')"
      by (cases "worker_failure quote unquote fthr ch ws lg rp")
    note L = worker_failure_log [OF Cons.prems(4) w]
    obtain j' where j': "j = Suc j'" using Cons.prems(1) by (cases j) auto
    show ?case
    proof (cases i)
      case 0
      with Cons.prems x w have "failure_seen lg' (fst (report_key rp)) (snd (report_key rp))" by (intro L(3)) simp
      with failure_run_seen [OF L(1) this, of j' xs] Cons.prems 0 j' x w show ?thesis by simp
    next
      case (Suc i')
      with Cons.IH [of i' j' lg'] L(1) Cons.prems j' x w show ?thesis by simp
    qed
  qed simp
  then show ?thesis using assms(4) by (simp add: log_ok_def)
qed

theorem failure_counted_once_witness:
  "let rep = \<lparr>fr_worker_id = ''u'', fr_status_code = Some 502, fr_error = None, fr_incarnation = ''x'', fr_index = 0, fr_generation = 1, fr_seq = 1\<rparr>;
       ws = [(new_worker ''u'' None [''tts''] ''x'')\<lparr>w_state := Healthy\<rparr>] in
   \<not> consumed (failure_run id id 3 [] [([], ws, rep), ([], ws, rep)] ! 1)"
proof -
  let ?rep = "\<lparr>fr_worker_id = ''u'', fr_status_code = Some 502, fr_error = None, fr_incarnation = ''x'', fr_index = 0, fr_generation = 1, fr_seq = 1\<rparr>"
  let ?ws = "[(new_worker ''u'' None [''tts''] ''x'')\<lparr>w_state := Healthy\<rparr>]"
  have "consumed (failure_run id id 3 [] [([], ?ws, ?rep), ([], ?ws, ?rep)] ! 0)" by code_simp
  then show ?thesis unfolding Let_def
    by (intro failure_counted_once [of 0 1 "[([], ?ws, ?rep), ([], ?ws, ?rep)]"]) simp_all
qed

end
