(* ===== verification/Counter_Ledger.thy ===== *)
theory Counter_Ledger
  imports Py_Strings
begin

text \<open>
  The counter ledger of the control plane, \<^verbatim>\<open>sglang_omni_router/python/observability.py\<close>: data planes report cumulative
  totals per worker object (stable id and incarnation); the ledger turns them into totals since the control plane's start
  that never move backwards. The dictionaries of class counters are maps; the two-level dictionary of segments is keyed by the
  pair of worker id and incarnation.
\<close>

section \<open>Ledgers\<close>

datatype counter_key = RoutedTotal | SuccessfulTotal | FailedTotal

type_synonym class_counts = "string \<rightharpoonup> int"

record worker_counters =
  wc_worker_id :: string
  wc_incarnation :: string
  wc_total :: "counter_key \<Rightarrow> int"
  wc_active :: int
  wc_class :: "counter_key \<Rightarrow> class_counts"

record counter_report =
  cr_index :: nat
  cr_generation :: int
  cr_seq :: int
  cr_workers :: "worker_counters list"

record worker_ledger =
  wl_baseline :: "counter_key \<Rightarrow> int"
  wl_high_water :: "counter_key \<Rightarrow> int"
  wl_class_baseline :: "counter_key \<Rightarrow> class_counts"
  wl_class_high_water :: "counter_key \<Rightarrow> class_counts"
  wl_active :: int

text \<open>\<^verbatim>\<open>d.get(c, 0)\<close>\<close>

definition cval :: "class_counts \<Rightarrow> string \<Rightarrow> int" where
  "cval m c = (case m c of None \<Rightarrow> 0 | Some v \<Rightarrow> v)"

definition contribution :: "worker_ledger \<Rightarrow> counter_key \<Rightarrow> int" where
  "contribution l k = max 0 (wl_high_water l k - wl_baseline l k)"

definition class_contributions :: "worker_ledger \<Rightarrow> counter_key \<Rightarrow> class_counts" where
  "class_contributions l k = (\<lambda>c. map_option (\<lambda>v. max 0 (v - cval (wl_class_baseline l k) c)) (wl_class_high_water l k c))"

type_synonym segments = "(string \<times> string, worker_ledger) dict"

record ledger_entry =
  le_generation :: int
  le_seq :: int
  le_reported_at :: int
  le_workers :: segments

record ledger =
  lz_entries :: "(nat, ledger_entry) dict"
  lz_retired :: "string \<Rightarrow> (counter_key \<Rightarrow> int) option"
  lz_retired_class :: "string \<Rightarrow> (counter_key \<Rightarrow> class_counts) option"
  lz_seen :: "nat list"

definition empty_ledger :: ledger where
  "empty_ledger = \<lparr>lz_entries = [], lz_retired = (\<lambda>_. None), lz_retired_class = (\<lambda>_. None), lz_seen = []\<rparr>"

definition add_counter_maps :: "class_counts \<Rightarrow> class_counts \<Rightarrow> class_counts" where
  "add_counter_maps t s = (\<lambda>c. case s c of None \<Rightarrow> t c | Some v \<Rightarrow> Some (cval t c + v))"

definition retired_slot :: "ledger \<Rightarrow> string \<Rightarrow> counter_key \<Rightarrow> int" where
  "retired_slot lz w = (case lz_retired lz w of None \<Rightarrow> \<lambda>_. 0 | Some f \<Rightarrow> f)"

definition retired_class_slot :: "ledger \<Rightarrow> string \<Rightarrow> counter_key \<Rightarrow> class_counts" where
  "retired_class_slot lz w = (case lz_retired_class lz w of None \<Rightarrow> \<lambda>_ _. None | Some f \<Rightarrow> f)"

definition retire_worker :: "string \<Rightarrow> worker_ledger \<Rightarrow> ledger \<Rightarrow> ledger" where
  "retire_worker w l lz =
     lz\<lparr>lz_retired := (lz_retired lz)(w \<mapsto> (\<lambda>k. retired_slot lz w k + contribution l k)),
        lz_retired_class := (lz_retired_class lz)(w \<mapsto> (\<lambda>k. add_counter_maps (retired_class_slot lz w k) (class_contributions l k)))\<rparr>"

definition retire_segments :: "segments \<Rightarrow> ledger \<Rightarrow> ledger" where
  "retire_segments d lz = fold (\<lambda>((w, _), l). retire_worker w l) d lz"

section \<open>Applying a report\<close>

definition new_ledger :: "bool \<Rightarrow> worker_counters \<Rightarrow> worker_ledger" where
  "new_ledger first_contact it =
     \<lparr>wl_baseline = (\<lambda>k. if first_contact then wc_total it k else 0), wl_high_water = wc_total it,
      wl_class_baseline = (\<lambda>k. if first_contact then wc_class it k else (\<lambda>_. None)), wl_class_high_water = wc_class it,
      wl_active = wc_active it\<rparr>"

definition update_ledger :: "worker_counters \<Rightarrow> worker_ledger \<Rightarrow> worker_ledger" where
  "update_ledger it l =
     l\<lparr>wl_high_water := (\<lambda>k. max (wl_high_water l k) (wc_total it k)),
       wl_class_high_water := (\<lambda>k c. case wc_class it k c of
           None \<Rightarrow> wl_class_high_water l k c
         | Some v \<Rightarrow> Some (max (cval (wl_class_high_water l k) c) v)),
       wl_active := wc_active it\<rparr>"

text \<open>The body of the loop over the report: the segments still carried over, the new segments, the ledger.\<close>

definition apply_item :: "bool \<Rightarrow> worker_counters \<Rightarrow> segments \<times> segments \<times> ledger \<Rightarrow> segments \<times> segments \<times> ledger" where
  "apply_item first_contact it st =
     (let (carried, pw, lz) = st; key = (wc_worker_id it, wc_incarnation it);
          l = (case dget carried key of None \<Rightarrow> new_ledger first_contact it | Some x \<Rightarrow> update_ledger it x);
          lz1 = (case dget pw key of None \<Rightarrow> lz | Some dup \<Rightarrow> retire_worker (wc_worker_id it) dup lz) in
      (ddel carried key, dset pw key l, lz1))"

datatype ledger_error = StaleCounterGeneration int int

definition apply_accepted :: "ledger \<Rightarrow> segments \<Rightarrow> counter_report \<Rightarrow> int \<Rightarrow> ledger" where
  "apply_accepted lz carried rep now =
     (let first_contact = (cr_index rep \<notin> set (lz_seen lz));
          lz1 = lz\<lparr>lz_seen := List.insert (cr_index rep) (lz_seen lz)\<rparr>;
          (rest, pw, lz2) = fold (apply_item first_contact) (cr_workers rep) (carried, [], lz1);
          lz3 = retire_segments rest lz2 in
      lz3\<lparr>lz_entries := dset (lz_entries lz3) (cr_index rep)
            \<lparr>le_generation = cr_generation rep, le_seq = cr_seq rep, le_reported_at = now, le_workers = pw\<rparr>\<rparr>)"

definition apply_report :: "ledger \<Rightarrow> counter_report \<Rightarrow> int \<Rightarrow> ledger_error + bool \<times> ledger" where
  "apply_report lz rep now =
     (case dget (lz_entries lz) (cr_index rep) of
        None \<Rightarrow> Inr (True, apply_accepted lz [] rep now)
      | Some e \<Rightarrow>
          if cr_generation rep < le_generation e then Inl (StaleCounterGeneration (cr_generation rep) (le_generation e))
          else if cr_generation rep = le_generation e \<and> cr_seq rep \<le> le_seq e then Inr (False, lz)
          else if le_generation e < cr_generation rep then Inr (True, apply_accepted (retire_segments (le_workers e) lz) [] rep now)
          else Inr (True, apply_accepted lz (le_workers e) rep now))"

section \<open>What is displayed\<close>

definition seg_sum :: "(worker_ledger \<Rightarrow> int) \<Rightarrow> string \<Rightarrow> segments \<Rightarrow> int" where
  "seg_sum f w d = sum_list (map (\<lambda>((w', _), l). if w' = w then f l else 0) d)"

definition totals_of :: "ledger \<Rightarrow> string \<Rightarrow> counter_key \<Rightarrow> int" where
  "totals_of lz w k =
     retired_slot lz w k + sum_list (map (\<lambda>(_, e). seg_sum (\<lambda>l. contribution l k) w (le_workers e)) (lz_entries lz))"

definition class_totals :: "ledger \<Rightarrow> string \<Rightarrow> counter_key \<Rightarrow> class_counts" where
  "class_totals lz w k =
     fold (\<lambda>(_, e) m. fold (\<lambda>((w', _), l) m. if w' = w then add_counter_maps m (class_contributions l k) else m) (le_workers e) m)
       (lz_entries lz) (retired_class_slot lz w k)"

definition active_gauge :: "ledger \<Rightarrow> int \<Rightarrow> string \<Rightarrow> int \<Rightarrow> int" where
  "active_gauge lz liveness w now =
     sum_list (map (\<lambda>(_, e). if liveness < now - le_reported_at e then 0 else seg_sum wl_active w (le_workers e)) (lz_entries lz))"

section \<open>Sums over dictionaries\<close>

definition dsum :: "('k \<times> 'v \<Rightarrow> int) \<Rightarrow> ('k, 'v) dict \<Rightarrow> int" where
  "dsum g d = sum_list (map g d)"

definition dpart :: "('k \<times> 'v \<Rightarrow> int) \<Rightarrow> ('k, 'v) dict \<Rightarrow> 'k \<Rightarrow> int" where
  "dpart g d k = (case dget d k of None \<Rightarrow> 0 | Some v \<Rightarrow> g (k, v))"

lemma dsum_dset: "dict_ok d \<Longrightarrow> dsum g (dset d k v) = dsum g d + g (k, v) - dpart g d k"
proof (induction d)
  case (Cons kv d)
  obtain a b where kv: "kv = (a, b)" by (cases kv)
  have "dict_ok d" "a \<notin> fst ` set d" using Cons.prems kv by (auto simp: dict_ok_def)
  with Cons.IH kv show ?case by (auto simp: dsum_def dpart_def)
qed (simp add: dsum_def dpart_def)

lemma dsum_ddel: "dict_ok d \<Longrightarrow> dsum g (ddel d k) = dsum g d - dpart g d k"
proof (induction d)
  case (Cons kv d)
  obtain a b where kv: "kv = (a, b)" by (cases kv)
  have d: "dict_ok d" "a \<notin> fst ` set d" using Cons.prems kv by (auto simp: dict_ok_def)
  have "dget d a = None" using d(2) by (simp add: map_of_eq_None_iff)
  with Cons.IH [OF d(1)] kv show ?case by (auto simp: dsum_def dpart_def)
qed (simp add: dsum_def dpart_def)

lemma seg_sum_dsum: "seg_sum f w d = dsum (\<lambda>((w', _), l). if w' = w then f l else 0) d"
  by (simp add: seg_sum_def dsum_def)

text \<open>One displayed number: what was retired plus what the current segments contribute.\<close>

definition view_total :: "(worker_ledger \<Rightarrow> int) \<Rightarrow> (ledger \<Rightarrow> string \<Rightarrow> int) \<Rightarrow> ledger \<Rightarrow> string \<Rightarrow> int" where
  "view_total f ret lz w = ret lz w + dsum (\<lambda>(_, e). seg_sum f w (le_workers e)) (lz_entries lz)"

definition ledger_ok :: "ledger \<Rightarrow> bool" where
  "ledger_ok lz \<longleftrightarrow> dict_ok (lz_entries lz) \<and> (\<forall>(i, e)\<in>set (lz_entries lz). dict_ok (le_workers e))"

section \<open>Frames\<close>

lemma retire_entries [simp]: "lz_entries (retire_worker w l lz) = lz_entries lz"
  by (simp add: retire_worker_def)

lemma retire_segments_entries [simp]: "lz_entries (retire_segments d lz) = lz_entries lz"
  unfolding retire_segments_def by (induction d arbitrary: lz) auto

lemma apply_items_entries: "fold (apply_item b) its (c, p, lz) = (c', p', lz') \<Longrightarrow> lz_entries lz' = lz_entries lz"
proof (induction its arbitrary: c p lz)
  case (Cons it its)
  obtain x y z where i: "apply_item b it (c, p, lz) = (x, y, z)" by (cases "apply_item b it (c, p, lz)")
  then have "lz_entries z = lz_entries lz" by (auto simp: apply_item_def Let_def split: option.splits)
  with Cons i show ?case by simp
qed simp

lemma apply_acceptedE:
  obtains rest pw lz2 where
    "fold (apply_item (cr_index rep \<notin> set (lz_seen lz))) (cr_workers rep) (carried, [], lz\<lparr>lz_seen := List.insert (cr_index rep) (lz_seen lz)\<rparr>) = (rest, pw, lz2)"
    "apply_accepted lz carried rep now = (retire_segments rest lz2)\<lparr>lz_entries := dset (lz_entries lz) (cr_index rep)
       \<lparr>le_generation = cr_generation rep, le_seq = cr_seq rep, le_reported_at = now, le_workers = pw\<rparr>\<rparr>"
proof -
  obtain rest pw lz2 where f: "fold (apply_item (cr_index rep \<notin> set (lz_seen lz))) (cr_workers rep)
      (carried, [], lz\<lparr>lz_seen := List.insert (cr_index rep) (lz_seen lz)\<rparr>) = (rest, pw, lz2)"
    by (metis prod_cases3)
  then have "lz_entries lz2 = lz_entries lz" by (auto dest: apply_items_entries)
  with f that show thesis by (simp add: apply_accepted_def Let_def)
qed

section \<open>A counter view\<close>

text \<open>
  What a displayed counter needs: a segment contributes \<open>f\<close>, never negative and not lowered by an update, and retiring a
  segment moves its contribution to \<open>ret\<close>.
\<close>

locale counter_view =
  fixes f :: "worker_ledger \<Rightarrow> int" and ret :: "ledger \<Rightarrow> string \<Rightarrow> int"
  assumes nonneg: "0 \<le> f l" and update_mono: "f l \<le> f (update_ledger it l)"
    and ret_retire: "ret (retire_worker w l lz) v = ret lz v + (if v = w then f l else 0)"
    and ret_frame: "lz_retired lz' = lz_retired lz \<Longrightarrow> lz_retired_class lz' = lz_retired_class lz \<Longrightarrow> ret lz' = ret lz"
begin

lemma ret_segments: "ret (retire_segments d lz) w = ret lz w + seg_sum f w d"
  unfolding retire_segments_def
  by (induction d arbitrary: lz) (auto simp: seg_sum_def ret_retire)

lemma apply_item_mono:
  assumes "dict_ok carried" "dict_ok pw" "apply_item b it (carried, pw, lz) = (carried', pw', lz')"
  shows "ret lz w + seg_sum f w carried + seg_sum f w pw \<le> ret lz' w + seg_sum f w carried' + seg_sum f w pw' \<and> dict_ok carried' \<and> dict_ok pw'"
proof -
  let ?key = "(wc_worker_id it, wc_incarnation it)"
  let ?g = "\<lambda>((w', _), l). if w' = w then f l else (0 :: int)"
  define l where "l = (case dget carried ?key of None \<Rightarrow> new_ledger b it | Some x \<Rightarrow> update_ledger it x)"
  have st: "carried' = ddel carried ?key" "pw' = dset pw ?key l"
    "lz' = (case dget pw ?key of None \<Rightarrow> lz | Some dup \<Rightarrow> retire_worker (wc_worker_id it) dup lz)"
    using assms(3) by (simp_all add: apply_item_def l_def Let_def)
  have "ret lz' w = ret lz w + dpart ?g pw ?key" by (simp add: st(3) dpart_def ret_retire split: option.split)
  moreover have "dpart ?g carried ?key \<le> ?g (?key, l)" using nonneg update_mono by (simp add: dpart_def l_def split: option.split)
  ultimately show ?thesis using assms(1,2) by (simp add: st(1,2) seg_sum_dsum dsum_dset dsum_ddel)
qed

lemma apply_items_mono:
  assumes "dict_ok carried" "dict_ok pw" "fold (apply_item b) its (carried, pw, lz) = (carried', pw', lz')"
  shows "ret lz w + seg_sum f w carried + seg_sum f w pw \<le> ret lz' w + seg_sum f w carried' + seg_sum f w pw' \<and> dict_ok carried' \<and> dict_ok pw'"
  using assms
proof (induction its arbitrary: carried pw lz)
  case (Cons it its)
  obtain c p z where i: "apply_item b it (carried, pw, lz) = (c, p, z)" by (cases "apply_item b it (carried, pw, lz)")
  note m = apply_item_mono [OF Cons.prems(1,2) i, where w = w]
  show ?case using m Cons.IH [of c p z] Cons.prems(3) i by (auto intro: order.trans)
qed simp

lemma apply_accepted_mono:
  assumes "ledger_ok lz" "dict_ok carried"
  shows "view_total f ret lz w - dpart (\<lambda>(_, e). seg_sum f w (le_workers e)) (lz_entries lz) (cr_index rep) + seg_sum f w carried
      \<le> view_total f ret (apply_accepted lz carried rep now) w \<and> ledger_ok (apply_accepted lz carried rep now)"
proof -
  let ?lz1 = "lz\<lparr>lz_seen := List.insert (cr_index rep) (lz_seen lz)\<rparr>"
  obtain rest pw lz2 where fo: "fold (apply_item (cr_index rep \<notin> set (lz_seen lz))) (cr_workers rep) (carried, [], ?lz1) = (rest, pw, lz2)"
    and ac: "apply_accepted lz carried rep now = (retire_segments rest lz2)\<lparr>lz_entries := dset (lz_entries lz) (cr_index rep)
       \<lparr>le_generation = cr_generation rep, le_seq = cr_seq rep, le_reported_at = now, le_workers = pw\<rparr>\<rparr>"
    by (rule apply_acceptedE)
  have ok: "dict_ok (lz_entries lz)" using assms(1) by (simp add: ledger_ok_def)
  have m: "ret ?lz1 w + seg_sum f w carried \<le> ret lz2 w + seg_sum f w rest + seg_sum f w pw" "dict_ok pw"
    using apply_items_mono [OF assms(2) _ fo, of w] by (auto simp: seg_sum_def)
  have "ret ?lz1 = ret lz" by (rule ret_frame) simp_all
  moreover have "ret (apply_accepted lz carried rep now) = ret (retire_segments rest lz2)" unfolding ac by (rule ret_frame) simp_all
  ultimately have "view_total f ret lz w - dpart (\<lambda>(_, e). seg_sum f w (le_workers e)) (lz_entries lz) (cr_index rep) + seg_sum f w carried
      \<le> view_total f ret (apply_accepted lz carried rep now) w"
    using m(1) ok by (simp add: view_total_def ret_segments ac dsum_dset)
  moreover have "ledger_ok (apply_accepted lz carried rep now)"
  proof -
    have "dict_ok (le_workers e)" if "(i, e) \<in> set (dset (lz_entries lz) (cr_index rep) \<lparr>le_generation = cr_generation rep, le_seq = cr_seq rep, le_reported_at = now, le_workers = pw\<rparr>)" for i e
    proof -
      from that ok have "dget (dset (lz_entries lz) (cr_index rep) \<lparr>le_generation = cr_generation rep, le_seq = cr_seq rep, le_reported_at = now, le_workers = pw\<rparr>) i = Some e"
        by (simp add: dict_ok_in_set)
      then show ?thesis using assms(1) m(2) ok by (auto simp: ledger_ok_def dict_ok_in_set [symmetric] split: if_splits)
    qed
    then show ?thesis using ok by (auto simp: ledger_ok_def ac)
  qed
  ultimately show ?thesis by simp
qed

lemma apply_report_mono:
  assumes ok: "ledger_ok lz" and r: "apply_report lz rep now = Inr (b, lz')"
  shows "view_total f ret lz w \<le> view_total f ret lz' w \<and> ledger_ok lz'"
proof (cases "dget (lz_entries lz) (cr_index rep)")
  case None
  with r apply_accepted_mono [OF ok, of "[]" w rep now] show ?thesis by (auto simp: apply_report_def dpart_def seg_sum_def)
next
  case (Some e)
  let ?lr = "retire_segments (le_workers e) lz"
  have e: "dict_ok (le_workers e)" using ok Some by (auto simp: ledger_ok_def dict_ok_in_set [symmetric])
  have okr: "ledger_ok ?lr" using ok by (simp add: ledger_ok_def)
  have vr: "view_total f ret ?lr w = view_total f ret lz w + seg_sum f w (le_workers e)" by (simp add: view_total_def ret_segments)
  have same: "cr_generation rep = le_generation e" if "\<not> cr_generation rep < le_generation e" "\<not> le_generation e < cr_generation rep"
    using that by simp
  show ?thesis
    using r Some ok apply_accepted_mono [OF ok e, of w rep now] apply_accepted_mono [OF okr, of "[]" w rep now] vr
    by (auto simp: apply_report_def dpart_def seg_sum_def [of _ _ "[]"] split: if_splits)
qed

end

section \<open>The displayed numbers as counter views\<close>

lemma cval_add_counter_maps: "cval (add_counter_maps t m) c = cval t c + cval m c"
  by (simp add: add_counter_maps_def cval_def split: option.split)

interpretation ct: counter_view "\<lambda>l. contribution l k" "\<lambda>lz w. retired_slot lz w k" for k
proof
  show "retired_slot (retire_worker w l lz) v k = retired_slot lz v k + (if v = w then contribution l k else 0)" for w l lz v
    by (simp add: retire_worker_def retired_slot_def)
qed (auto simp: contribution_def update_ledger_def retired_slot_def fun_eq_iff)

interpretation cc: counter_view "\<lambda>l. cval (class_contributions l k) c" "\<lambda>lz w. cval (retired_class_slot lz w k) c" for k c
proof
  show "cval (retired_class_slot (retire_worker w l lz) v k) c =
      cval (retired_class_slot lz v k) c + (if v = w then cval (class_contributions l k) c else 0)" for w l lz v
    by (simp add: retire_worker_def retired_class_slot_def cval_add_counter_maps)
  show "cval (class_contributions l k) c \<le> cval (class_contributions (update_ledger it l) k) c" for l it
    by (auto simp: class_contributions_def update_ledger_def cval_def split: option.split)
  show "0 \<le> cval (class_contributions l k) c" for l by (auto simp: class_contributions_def cval_def split: option.split)
qed (auto simp: retired_class_slot_def fun_eq_iff)

lemma totals_view: "totals_of lz w k = view_total (\<lambda>l. contribution l k) (\<lambda>lz w. retired_slot lz w k) lz w"
  by (simp add: totals_of_def view_total_def dsum_def)

lemma cval_fold_segments:
  "cval (fold (\<lambda>((w', _), l) m. if w' = w then add_counter_maps m (class_contributions l k) else m) d m) c =
    cval m c + seg_sum (\<lambda>l. cval (class_contributions l k) c) w d"
  by (induction d arbitrary: m) (auto simp: seg_sum_def cval_add_counter_maps)

lemma class_totals_view:
  "cval (class_totals lz w k) c = view_total (\<lambda>l. cval (class_contributions l k) c) (\<lambda>lz w. cval (retired_class_slot lz w k) c) lz w"
proof -
  have "cval (fold (\<lambda>(_, e) m. fold (\<lambda>((w', _), l) m. if w' = w then add_counter_maps m (class_contributions l k) else m) (le_workers e) m) es m) c =
      cval m c + dsum (\<lambda>(_, e). seg_sum (\<lambda>l. cval (class_contributions l k) c) w (le_workers e)) es" for es :: "(nat, ledger_entry) dict" and m
    by (induction es arbitrary: m) (auto simp: dsum_def cval_fold_segments)
  then show ?thesis by (simp add: class_totals_def view_total_def)
qed

section \<open>Properties\<close>

definition ledger_step :: "ledger \<Rightarrow> counter_report \<times> int \<Rightarrow> ledger" where
  "ledger_step lz ev = (case apply_report lz (fst ev) (snd ev) of Inl _ \<Rightarrow> lz | Inr (_, lz') \<Rightarrow> lz')"

lemma ledger_step_ok: "ledger_ok lz \<Longrightarrow> ledger_ok (ledger_step lz ev)"
  using ct.apply_report_mono [of lz "fst ev" "snd ev"] by (auto simp: ledger_step_def split: sum.split)

interpretation lm: machine ledger_step ledger_ok
  by unfold_locales (rule ledger_step_ok)

lemma empty_ledger_ok: "ledger_ok empty_ledger"
  by (simp add: ledger_ok_def empty_ledger_def)

lemma ledger_run_mono:
  assumes "ledger_ok lz"
  shows "totals_of lz w k \<le> totals_of (run ledger_step lz evs) w k \<and> cval (class_totals lz w k) c \<le> cval (class_totals (run ledger_step lz evs) w k) c"
  using assms
proof (induction evs arbitrary: lz)
  case (Cons ev evs)
  have "totals_of lz w k \<le> totals_of (ledger_step lz ev) w k" "cval (class_totals lz w k) c \<le> cval (class_totals (ledger_step lz ev) w k) c"
    using ct.apply_report_mono [OF Cons.prems, of "fst ev" "snd ev" _ _ k w] cc.apply_report_mono [OF Cons.prems, of "fst ev" "snd ev" _ _ k c w]
    by (auto simp: ledger_step_def totals_view class_totals_view split: sum.split)
  with Cons.IH [OF ledger_step_ok [OF Cons.prems, of ev]] show ?case by (auto intro: order.trans)
qed simp

text \<open>
  C39: displayed counters never move backwards. Whatever reports data planes send, late, repeated, from
  older generations, with regressed or missing counters, repeated rows or replaced worker objects, no total of a worker and no
  total of a request class is ever lower than it was.
\<close>

theorem ledger_totals_monotone:
  "let lz = run ledger_step empty_ledger evs; lz' = run ledger_step empty_ledger (evs @ evs') in
   totals_of lz w k \<le> totals_of lz' w k \<and> cval (class_totals lz w k) c \<le> cval (class_totals lz' w k) c"
proof -
  have "ledger_ok (run ledger_step empty_ledger evs)" by (rule lm.inv_run [OF empty_ledger_ok])
  from ledger_run_mono [OF this] show ?thesis by (simp add: Let_def run_append)
qed

section \<open>Nothing is lost or counted twice\<close>

text \<open>What a row of a report adds: its value above the last one of the same worker object, all of it for a new object.\<close>

definition item_key :: "worker_counters \<Rightarrow> string \<times> string" where
  "item_key it = (wc_worker_id it, wc_incarnation it)"

definition row_growth :: "segments \<Rightarrow> counter_key \<Rightarrow> worker_counters \<Rightarrow> int" where
  "row_growth d k it = wc_total it k - (case dget d (item_key it) of None \<Rightarrow> 0 | Some l \<Rightarrow> wl_high_water l k)"

text \<open>An honest row: cumulative counters do not go down.\<close>

definition row_ok :: "segments \<Rightarrow> counter_key \<Rightarrow> worker_counters \<Rightarrow> bool" where
  "row_ok d k it \<longleftrightarrow> 0 \<le> wc_total it k \<and> 0 \<le> row_growth d k it \<and>
     (case dget d (item_key it) of None \<Rightarrow> True | Some l \<Rightarrow> wl_baseline l k \<le> wl_high_water l k)"

lemma apply_items_exact:
  assumes "dict_ok carried" "dict_ok pw" "distinct (map item_key its)" "\<forall>it\<in>set its. dget pw (item_key it) = None \<and> row_ok carried k it"
    and "fold (apply_item False) its (carried, pw, lz) = (carried', pw', lz')"
  shows "retired_slot lz' w k + seg_sum (\<lambda>l. contribution l k) w carried' + seg_sum (\<lambda>l. contribution l k) w pw' =
    retired_slot lz w k + seg_sum (\<lambda>l. contribution l k) w carried + seg_sum (\<lambda>l. contribution l k) w pw +
    sum_list (map (row_growth carried k) (filter (\<lambda>it. wc_worker_id it = w) its))"
  using assms
proof (induction its arbitrary: carried pw)
  case (Cons it its)
  let ?g = "\<lambda>((w', _), l). if w' = w then contribution l k else (0 :: int)"
  define l where "l = (case dget carried (item_key it) of None \<Rightarrow> new_ledger False it | Some x \<Rightarrow> update_ledger it x)"
  let ?c = "ddel carried (item_key it)" and ?p = "dset pw (item_key it) l"
  have i: "apply_item False it (carried, pw, lz) = (?c, ?p, lz)"
    using Cons.prems(4) by (simp add: apply_item_def item_key_def [symmetric] l_def Let_def)
  have same: "row_growth ?c k x = row_growth carried k x" "row_ok ?c k x = row_ok carried k x" if "x \<in> set its" for x
    using Cons.prems(3) that by (auto simp: row_growth_def row_ok_def image_iff)
  have "\<forall>x\<in>set its. dget ?p (item_key x) = None \<and> row_ok ?c k x"
    using Cons.prems(3,4) same(2) by (auto simp: image_iff)
  then have ih: "retired_slot lz' w k + seg_sum (\<lambda>l. contribution l k) w carried' + seg_sum (\<lambda>l. contribution l k) w pw' =
      retired_slot lz w k + seg_sum (\<lambda>l. contribution l k) w ?c + seg_sum (\<lambda>l. contribution l k) w ?p +
      sum_list (map (row_growth ?c k) (filter (\<lambda>it. wc_worker_id it = w) its))"
    using Cons.prems i by (intro Cons.IH) auto
  have grow: "sum_list (map (row_growth ?c k) (filter (\<lambda>it. wc_worker_id it = w) its)) =
      sum_list (map (row_growth carried k) (filter (\<lambda>it. wc_worker_id it = w) its))"
    using same(1) by (intro arg_cong [where f = sum_list] map_cong) auto
  have "contribution l k = (case dget carried (item_key it) of None \<Rightarrow> 0 | Some x \<Rightarrow> contribution x k) + row_growth carried k it"
    using Cons.prems(4) by (auto simp: l_def row_ok_def row_growth_def contribution_def new_ledger_def update_ledger_def split: option.splits)
  then have "?g (item_key it, l) = dpart ?g carried (item_key it) + (if wc_worker_id it = w then row_growth carried k it else 0)"
    by (auto simp: dpart_def item_key_def split: option.split)
  moreover have "dpart ?g pw (item_key it) = 0" using Cons.prems(4) by (simp add: dpart_def)
  ultimately show ?case using ih grow Cons.prems(1,2) by (simp add: seg_sum_dsum dsum_dset dsum_ddel)
qed simp

text \<open>
  Accepted reports are counted exactly. A new report of a known data plane and its current generation, with one row per
  worker object and counters that do not go down, raises the total of each worker by exactly what its rows grew, the
  whole count of an object that is new, and nothing for objects that are gone.
\<close>

theorem accepted_report_exact:
  assumes ok: "ledger_ok lz" and e: "dget (lz_entries lz) (cr_index rep) = Some e" "cr_index rep \<in> set (lz_seen lz)"
    and gen: "cr_generation rep = le_generation e" "le_seq e < cr_seq rep"
    and rows: "distinct (map item_key (cr_workers rep))" "\<forall>it\<in>set (cr_workers rep). row_ok (le_workers e) k it"
  shows "\<exists>lz'. apply_report lz rep now = Inr (True, lz') \<and>
    totals_of lz' w k = totals_of lz w k + sum_list (map (row_growth (le_workers e) k) (filter (\<lambda>it. wc_worker_id it = w) (cr_workers rep)))"
proof -
  let ?lz1 = "lz\<lparr>lz_seen := List.insert (cr_index rep) (lz_seen lz)\<rparr>" and ?f = "\<lambda>l. contribution l k"
  obtain rest pw lz2 where fo: "fold (apply_item (cr_index rep \<notin> set (lz_seen lz))) (cr_workers rep) (le_workers e, [], ?lz1) = (rest, pw, lz2)"
    and ac: "apply_accepted lz (le_workers e) rep now = (retire_segments rest lz2)\<lparr>lz_entries := dset (lz_entries lz) (cr_index rep)
       \<lparr>le_generation = cr_generation rep, le_seq = cr_seq rep, le_reported_at = now, le_workers = pw\<rparr>\<rparr>"
    by (rule apply_acceptedE)
  have d: "dict_ok (lz_entries lz)" "dict_ok (le_workers e)" using ok e(1) by (auto simp: ledger_ok_def dict_ok_in_set [symmetric])
  have x: "retired_slot lz2 w k + seg_sum ?f w rest + seg_sum ?f w pw = retired_slot ?lz1 w k + seg_sum ?f w (le_workers e) +
      sum_list (map (row_growth (le_workers e) k) (filter (\<lambda>it. wc_worker_id it = w) (cr_workers rep)))"
    using apply_items_exact [of "le_workers e" "[]" "cr_workers rep" k ?lz1 rest pw lz2 w] rows d(2) fo e(2) by (simp add: seg_sum_def [of _ _ "[]"])
  have fr: "retired_slot (lz3\<lparr>lz_entries := es\<rparr>) w k = retired_slot lz3 w k" "retired_slot ?lz1 w k = retired_slot lz w k" for lz3 es
    by (simp_all add: retired_slot_def)
  have "totals_of (apply_accepted lz (le_workers e) rep now) w k =
      totals_of lz w k + sum_list (map (row_growth (le_workers e) k) (filter (\<lambda>it. wc_worker_id it = w) (cr_workers rep)))"
    using x d(1) e(1) ct.ret_segments [of rest lz2 w k] by (simp add: totals_view view_total_def ac fr dsum_dset dpart_def)
  then show ?thesis using e(1) gen by (simp add: apply_report_def)
qed

definition demo_row :: "string \<Rightarrow> int \<Rightarrow> worker_counters" where
  "demo_row inc n = \<lparr>wc_worker_id = ''u'', wc_incarnation = inc, wc_total = (\<lambda>_. n), wc_active = 0, wc_class = (\<lambda>_ _. None)\<rparr>"

definition demo_ledger :: ledger where
  "demo_ledger = empty_ledger\<lparr>lz_entries := [(0, \<lparr>le_generation = 1, le_seq = 1, le_reported_at = 0,
     le_workers = [((''u'', ''a''), new_ledger True (demo_row ''a'' 10))]\<rparr>)], lz_seen := [0]\<rparr>"

theorem accepted_report_exact_witness:
  "\<exists>lz'. apply_report demo_ledger \<lparr>cr_index = 0, cr_generation = 1, cr_seq = 2, cr_workers = [demo_row ''a'' 14, demo_row ''b'' 3]\<rparr> 5 = Inr (True, lz') \<and>
    totals_of lz' ''u'' RoutedTotal = totals_of demo_ledger ''u'' RoutedTotal +
      sum_list (map (row_growth [((''u'', ''a''), new_ledger True (demo_row ''a'' 10))] RoutedTotal)
        (filter (\<lambda>it. wc_worker_id it = ''u'') [demo_row ''a'' 14, demo_row ''b'' 3]))"
proof -
  let ?rep = "\<lparr>cr_index = 0, cr_generation = 1, cr_seq = 2, cr_workers = [demo_row ''a'' 14, demo_row ''b'' 3]\<rparr>"
  let ?e = "\<lparr>le_generation = 1, le_seq = 1, le_reported_at = 0, le_workers = [((''u'', ''a''), new_ledger True (demo_row ''a'' 10))]\<rparr>"
  show ?thesis using accepted_report_exact [of demo_ledger ?rep ?e RoutedTotal 5 "''u''"]
    by (simp add: demo_ledger_def ledger_ok_def dict_ok_def empty_ledger_def item_key_def demo_row_def row_ok_def row_growth_def new_ledger_def)
qed

end
