(* ===== verification/Payload_Isolation.thy ===== *)
theory Payload_Isolation
  imports Prelude
begin

text \<open>
  When a stage sends one result to several stages of its own process, it may hand over the object
  itself only if the projected payload shares no mutable container with the original
  (\<^verbatim>\<open>_is_isolated_projected_payload\<close> and its helpers in
  \<^verbatim>\<open>sglang_omni/pipeline/stage/runtime.py\<close>). Objects live in a heap of nodes named by their identity;
  an identity without a node is an object that is no container. Containers may be cyclic, so
  the searches carry the set of identities seen. The two recursive searches visit objects in the
  preorder of the code, with the pending siblings on an explicit stack.
\<close>

section \<open>Objects\<close>

datatype container = CDict | CList | CTuple | CSet | CFrozenset | CBytearray

record node =
  node_kind :: container
  node_items :: "nat list"

type_synonym objects = "(nat, node) dict"

text \<open>\<^verbatim>\<open>_iter_container_children\<close>: the values of a dictionary, the elements of a sequence or set.\<close>

definition iter_container_children :: "objects \<Rightarrow> nat \<Rightarrow> nat list" where
  "iter_container_children h x =
     (case dget h x of
        None \<Rightarrow> []
      | Some n \<Rightarrow> if node_kind n = CBytearray then [] else node_items n)"

definition is_mutable_container :: "objects \<Rightarrow> nat \<Rightarrow> bool" where
  "is_mutable_container h x =
     (case dget h x of None \<Rightarrow> False | Some n \<Rightarrow> node_kind n \<in> {CDict, CList, CSet, CBytearray})"

section \<open>The searches\<close>

text \<open>How many nodes a search has not seen yet: every newly seen node uses one up.\<close>

definition unseen :: "objects \<Rightarrow> nat list \<Rightarrow> nat" where
  "unseen h seen = card (fst ` set h - set seen)"

lemma unseen_insert: "x \<notin> set seen \<Longrightarrow> dget h x \<noteq> None \<Longrightarrow> unseen h (x # seen) < unseen h seen"
  unfolding unseen_def by (rule psubset_card_mono) (auto simp: map_of_eq_None_iff)

lemma unseen_insert_le: "unseen h (x # seen) \<le> unseen h seen"
  unfolding unseen_def by (rule card_mono) auto

lemma children_leaf [simp]: "dget h x = None \<Longrightarrow> iter_container_children h x = []"
  by (simp add: iter_container_children_def)

lemma search_decreases:
  assumes "x \<notin> set seen"
  shows "((h, x # seen, iter_container_children h x @ xs), (h, seen, x # xs)) \<in>
    measures [\<lambda>(h, seen, xs). unseen h seen, \<lambda>(h, seen, xs). length xs]"
  using assms unseen_insert [OF assms, of h] unseen_insert_le [of h x seen] by (cases "dget h x") auto

function collect_mutable_container_ids :: "objects \<Rightarrow> nat list \<Rightarrow> nat list \<Rightarrow> nat list" where
  "collect_mutable_container_ids h seen [] = []"
| "collect_mutable_container_ids h seen (x # xs) =
     (if x \<in> set seen then collect_mutable_container_ids h seen xs
      else (if is_mutable_container h x then [x] else []) @
        collect_mutable_container_ids h (x # seen) (iter_container_children h x @ xs))"
  by pat_completeness auto
termination
  by (relation "measures [\<lambda>(h, seen, xs). unseen h seen, \<lambda>(h, seen, xs). length xs]")
    (simp, simp, rule search_decreases)

function contains_mutable_container_id :: "objects \<Rightarrow> nat list \<Rightarrow> nat list \<Rightarrow> nat list \<Rightarrow> bool" where
  "contains_mutable_container_id h ids seen [] = False"
| "contains_mutable_container_id h ids seen (x # xs) =
     (if x \<in> set seen then contains_mutable_container_id h ids seen xs
      else if is_mutable_container h x \<and> x \<in> set ids then True
      else contains_mutable_container_id h ids (x # seen) (iter_container_children h x @ xs))"
  by pat_completeness auto
termination
  by (relation "inv_image (measures [\<lambda>(h, seen, xs). unseen h seen, \<lambda>(h, seen, xs). length xs]) (\<lambda>(h, ids, seen, xs). (h, seen, xs))")
    (simp, simp, simp only: in_inv_image case_prod_conv, rule search_decreases)

definition shares_mutable_container :: "objects \<Rightarrow> nat \<Rightarrow> nat \<Rightarrow> bool" where
  "shares_mutable_container h original projected =
     (let ids = collect_mutable_container_ids h [] [original] in
      if ids = [] then False else contains_mutable_container_id h ids [] [projected])"

text \<open>A payload object: a \<^verbatim>\<open>StagePayload\<close> with its request id and data, or any other object.\<close>

datatype payload = StagePayload (pl_obj: nat) (pl_request: string) (pl_data: nat) | OtherObject (pl_obj: nat)

datatype isolation_error = OriginalNotPayload | ProjectedNotPayload

fun is_isolated_projected_payload :: "objects \<Rightarrow> payload \<Rightarrow> payload \<Rightarrow> bool \<Rightarrow> isolation_error + bool" where
  "is_isolated_projected_payload h original projected projector_present =
     (if \<not> projector_present \<or> pl_obj projected = pl_obj original then Inr False
      else case original of
        OtherObject _ \<Rightarrow> Inl OriginalNotPayload
      | StagePayload _ _ d \<Rightarrow>
          (case projected of
             OtherObject _ \<Rightarrow> Inl ProjectedNotPayload
           | StagePayload _ _ d' \<Rightarrow>
               if d' = d then Inr False else Inr (\<not> shares_mutable_container h d d')))"

section \<open>The searches compute reachability\<close>

definition child :: "objects \<Rightarrow> nat \<Rightarrow> nat \<Rightarrow> bool" where
  "child h x y \<longleftrightarrow> y \<in> set (iter_container_children h x)"

abbreviation reaches :: "objects \<Rightarrow> nat \<Rightarrow> nat \<Rightarrow> bool" where
  "reaches h \<equiv> (child h)\<^sup>*\<^sup>*"

text \<open>Reachability from \<open>x\<close> along objects not yet seen.\<close>

definition fresh_reaches :: "objects \<Rightarrow> nat set \<Rightarrow> nat \<Rightarrow> nat \<Rightarrow> bool" where
  "fresh_reaches h seen x y \<longleftrightarrow> x \<notin> seen \<and> (\<lambda>a b. child h a b \<and> b \<notin> seen)\<^sup>*\<^sup>* x y"

lemma fresh_reaches_empty [simp]: "fresh_reaches h {} x y = reaches h x y"
  by (simp add: fresh_reaches_def)

lemma fresh_path_mono:
  "(\<lambda>a b. child h a b \<and> b \<notin> insert c seen)\<^sup>*\<^sup>* x y \<Longrightarrow> (\<lambda>a b. child h a b \<and> b \<notin> seen)\<^sup>*\<^sup>* x y"
  by (rule rtranclp_mono [THEN predicate2D, rotated]) auto

lemma fresh_reaches_mono: "fresh_reaches h (insert c seen) x y \<Longrightarrow> fresh_reaches h seen x y"
  unfolding fresh_reaches_def using fresh_path_mono by blast

text \<open>A path from \<open>x\<close> avoids a new object \<open>c\<close>, or passes it and then goes on from \<open>c\<close>.\<close>

lemma fresh_path_split:
  assumes "(\<lambda>a b. child h a b \<and> b \<notin> seen)\<^sup>*\<^sup>* x y"
  shows "(\<lambda>a b. child h a b \<and> b \<notin> insert c seen)\<^sup>*\<^sup>* x y \<or>
    y = c \<or> (\<exists>z. child h c z \<and> z \<notin> insert c seen \<and> (\<lambda>a b. child h a b \<and> b \<notin> insert c seen)\<^sup>*\<^sup>* z y)"
  using assms
proof (induction rule: rtranclp_induct)
  case (step y z)
  show ?case
  proof (cases "z = c")
    case False
    with step.hyps(2) have edge: "(\<lambda>a b. child h a b \<and> b \<notin> insert c seen) y z" by simp
    from step.IH show ?thesis
    proof (elim disjE exE conjE)
      assume "(\<lambda>a b. child h a b \<and> b \<notin> insert c seen)\<^sup>*\<^sup>* x y"
      with edge show ?thesis by (metis (no_types, lifting) rtranclp.rtrancl_into_rtrancl)
    next
      assume "y = c"
      with edge show ?thesis by blast
    next
      fix w assume "child h c w" "w \<notin> insert c seen" "(\<lambda>a b. child h a b \<and> b \<notin> insert c seen)\<^sup>*\<^sup>* w y"
      with edge show ?thesis by (metis (no_types, lifting) rtranclp.rtrancl_into_rtrancl)
    qed
  qed simp
qed simp

lemma fresh_reaches_unfold:
  assumes "c \<notin> seen"
  shows "(\<exists>x\<in>insert c X. fresh_reaches h seen x y) \<longleftrightarrow>
    y = c \<or> (\<exists>x\<in>set (iter_container_children h c) \<union> X. fresh_reaches h (insert c seen) x y)" (is "?L \<longleftrightarrow> ?R")
proof
  assume ?L
  then obtain x where x: "x \<in> insert c X" "x \<notin> seen" "(\<lambda>a b. child h a b \<and> b \<notin> seen)\<^sup>*\<^sup>* x y"
    by (auto simp: fresh_reaches_def)
  show ?R
  proof (cases "x = c")
    case True
    with fresh_path_split [OF x(3), of c] show ?thesis
      by (auto simp: fresh_reaches_def child_def elim: converse_rtranclpE)
  next
    case False
    with x fresh_path_split [OF x(3), of c] show ?thesis by (auto simp: fresh_reaches_def child_def)
  qed
next
  assume ?R
  then show ?L
  proof (elim disjE bexE UnE)
    fix x assume "x \<in> set (iter_container_children h c)" "fresh_reaches h (insert c seen) x y"
    then have "child h c x \<and> x \<notin> seen" "(\<lambda>a b. child h a b \<and> b \<notin> seen)\<^sup>*\<^sup>* x y"
      using fresh_path_mono [of h c seen x y] unfolding fresh_reaches_def child_def by blast+
    then have "(\<lambda>a b. child h a b \<and> b \<notin> seen)\<^sup>*\<^sup>* c y" by (metis (no_types, lifting) converse_rtranclp_into_rtranclp)
    with assms show ?L by (auto simp: fresh_reaches_def)
  next
    assume "y = c"
    with assms show ?L by (auto simp: fresh_reaches_def)
  qed (blast dest: fresh_reaches_mono)
qed

lemma collect_iff:
  "set (collect_mutable_container_ids h seen xs) =
     {y. is_mutable_container h y \<and> (\<exists>x\<in>set xs. fresh_reaches h (set seen) x y)}"
proof (induction h seen xs rule: collect_mutable_container_ids.induct)
  case (2 h seen x xs)
  show ?case
  proof (cases "x \<in> set seen")
    case True
    then have "\<not> fresh_reaches h (set seen) x y" for y by (simp add: fresh_reaches_def)
    with 2(1) True show ?thesis by auto
  next
    case False
    have "set (collect_mutable_container_ids h seen (x # xs)) = (if is_mutable_container h x then {x} else {}) \<union>
        {y. is_mutable_container h y \<and> (\<exists>z\<in>set (iter_container_children h x) \<union> set xs. fresh_reaches h (insert x (set seen)) z y)}"
      using False 2(2) [OF False] by auto
    with fresh_reaches_unfold [OF False, of "set xs" h] show ?thesis by auto
  qed
qed simp

lemma contains_iff:
  "contains_mutable_container_id h ids seen xs \<longleftrightarrow>
     (\<exists>y. is_mutable_container h y \<and> y \<in> set ids \<and> (\<exists>x\<in>set xs. fresh_reaches h (set seen) x y))"
proof (induction h ids seen xs rule: contains_mutable_container_id.induct)
  case (2 h ids seen x xs)
  show ?case
  proof (cases "x \<in> set seen")
    case True
    then have "\<not> fresh_reaches h (set seen) x y" for y by (simp add: fresh_reaches_def)
    with 2(1) True show ?thesis by auto
  next
    case False
    show ?thesis
    proof (cases "is_mutable_container h x \<and> x \<in> set ids")
      case True
      with False show ?thesis by (auto simp: fresh_reaches_def)
    next
      case nothere: False
      then have "contains_mutable_container_id h ids seen (x # xs) \<longleftrightarrow> (\<exists>y. is_mutable_container h y \<and> y \<in> set ids \<and>
          (\<exists>z\<in>set (iter_container_children h x) \<union> set xs. fresh_reaches h (insert x (set seen)) z y))"
        using False 2(2) [OF False nothere] by auto
      with nothere fresh_reaches_unfold [OF False, of "set xs" h] show ?thesis by auto
    qed
  qed
qed simp

text \<open>
  C17: the sharing test is exact. On any object graph, cyclic ones included, both searches end, and
  the test answers yes exactly when some mutable container (dictionary, list, set or byte
  array) is reachable from the original and from the projected data.
\<close>

theorem sharing_test_exact:
  "shares_mutable_container h original projected \<longleftrightarrow>
     (\<exists>y. is_mutable_container h y \<and> reaches h original y \<and> reaches h projected y)"
proof -
  let ?ids = "collect_mutable_container_ids h [] [original]"
  have ids: "set ?ids = {y. is_mutable_container h y \<and> reaches h original y}" using collect_iff [of h "[]" "[original]"] by (simp del: collect_mutable_container_ids.simps)
  show ?thesis
  proof (cases "?ids = []")
    case True
    then have "{y. is_mutable_container h y \<and> reaches h original y} = {}" using ids by simp
    with True show ?thesis by (auto simp: shares_mutable_container_def simp del: collect_mutable_container_ids.simps)
  next
    case False
    with ids show ?thesis using contains_iff [of h ?ids "[]" "[projected]"] by (auto simp: shares_mutable_container_def Let_def simp del: collect_mutable_container_ids.simps contains_mutable_container_id.simps)
  qed
qed

end
