(* ===== verification/Stage_Runtime.thy ===== *)
theory Stage_Runtime
  imports Coordinator Stream_Queue Stage_Input Payload_Isolation
begin

text \<open>
  The IO shell of a pipeline stage, \<^verbatim>\<open>sglang_omni/pipeline/stage/runtime.py\<close>: the state a \<^verbatim>\<open>Stage\<close> keeps
  per request, the handlers of submissions, payloads, stream chunks and stream signals, the
  routing of scheduler results, failures, aborts and the crash of the scheduler thread.

  A coroutine is a list of actions, each the code between two points where it may be
  suspended; an action returns the actions that come next. What a stage does to its
  environment (scheduler, control plane, relay, other stages) is logged in \<open>st_log\<close> in order.
  Code of other packages is in the record \<open>senv\<close>: the routing functions of the model, the
  projectors, the merge function, the tensor tests and transports of \<^verbatim>\<open>torch\<close> and \<^verbatim>\<open>comm\<close>, the
  iteration order of Python sets. Whether an awaited operation raises, and what a read returns, is the
  argument \<open>answer\<close> of an action. Profiler events and log lines are left out.
\<close>

section \<open>Data\<close>

datatype role = Single_role | Leader | Follower

text \<open>A reference to transferred data: CUDA IPC handles and inline bytes carry the object, a transfer is read from a relay.\<close>

datatype data_ref =
    IpcPayload payload
  | IpcChunk nat
  | InlineChunk nat
  | Transfer (object_id: string) (kv_pages: bool)

record data_msg =
  dm_request :: string
  dm_from :: string
  dm_ref :: "data_ref option"
  dm_chunk :: "nat option"
  dm_done :: bool
  dm_error :: "string option"
  dm_bindings :: "(string, int) dict option"

datatype local_msg =
    LPayload string string payload "(string, int) dict option"
  | LChunk string string nat nat "(string, int) dict option"
  | LSignal string string bool "string option" "(string, int) dict option"

datatype incoming =
    NewRequest (in_request: string) payload
  | StreamChunkMsg (in_request: string) nat nat string
  | StreamDoneMsg (in_request: string)

text \<open>What the relay transfers: a payload or a stream chunk with its number.\<close>

datatype transfer = TPayload payload | TChunk nat nat

datatype effect =
    EInbox incoming
  | ESchedAbort string
  | ECleanup string
  | EComplete "nat complete_msg"
  | EStream "(nat \<times> nat) stream_msg"
  | EData string string data_msg
  | ERelay string string string transfer "(string, int) dict option"
  | ELocal string local_msg
  | EAck string string string bool
  | EFanoutWork payload
  | EFanoutAbort string
  | EClosed

datatype stage_error =
    NoReplicaBinding string string
  | StageReplica replica_error
  | NoStageEndpoint string
  | NoAckEndpoint string
  | NoLocalDispatcher string
  | FollowerSends
  | FollowerFailed string
  | FollowerSchedulerError string
  | NotTerminal
  | NotTensor
  | Isolation isolation_error
  | InputRaised "string agg_error"
  | MissingDataRef
  | BadDataRef
  | NoRequestId
  | Raised string

datatype next_answer = NNone | NOne string | NMany "string list"

datatype ipc_answer = IpcOk | IpcForeign | IpcRaise string

record senv =
  se_next :: "string \<Rightarrow> payload \<Rightarrow> string + next_answer"
  se_done :: "(string \<Rightarrow> payload \<Rightarrow> string + next_answer) option"
  se_projectors :: "(string, payload \<Rightarrow> string + payload) dict"
  se_objects :: objects
  se_can_ipc :: "string \<Rightarrow> bool"
  se_has_cuda :: "payload \<Rightarrow> bool"
  se_ipc :: "payload \<Rightarrow> ipc_answer"
  se_cuda :: "nat \<Rightarrow> bool option"
  se_inline :: "nat \<Rightarrow> bool"
  se_merge :: "(payload, string) merger"
  se_wait :: "(payload, string) resolver option"
  se_iter :: "string list \<Rightarrow> string list"

record answer =
  an_raise :: "string option"
  an_read :: "payload option"
  an_chunk :: nat

record stage =
  st_name :: string
  st_role :: role
  st_endpoints :: "(string, string) dict"
  st_topology :: replica_topology
  st_stream_to :: "string list"
  st_same_process :: "string list"
  st_dispatcher :: bool
  st_accept_early :: bool
  st_disable_ipc :: bool
  st_terminal :: bool
  st_fanout :: bool
  st_work_fanout :: bool
  st_running :: bool
  st_aborted :: "string list"
  st_active :: "string list"
  st_queue :: "(nat, string) stream_queue option"
  st_counters :: "(string \<times> string, nat) dict"
  st_first_seen :: "string list"
  st_local_targets :: "(string, string list) dict"
  st_nonlocal_targets :: "(string, string list) dict"
  st_bindings :: "(string, (string, int) dict) dict"
  st_input :: "payload agg_input option"
  st_crash :: "string option"
  st_task_error :: "stage_error option"
  st_log :: "effect list"

text \<open>The actions of the coroutines: sending a result, reporting a failure, receiving a message.\<close>

datatype action =
    ASignal string string
  | ANext string payload "string list"
  | APayload string string payload bool "string list"
  | AChunks string nat "string list"
  | ACoordChunk string nat
  | AFail string string
  | AClear string
  | ACrash string
  | ASchedAbort string
  | ACleanup string
  | AClose
  | RStart data_msg
  | RReadData data_msg
  | RReadChunk data_msg
  | RDiscard data_msg
  | RAck data_msg bool
  | RWait
  | RPayload string string payload
  | RChunk data_msg nat
  | RStreamError string string
  | RSignal data_msg
  | RFinish "stage_error option"

section \<open>Small steps on the state\<close>

definition set_add :: "'a \<Rightarrow> 'a list \<Rightarrow> 'a list" where
  "set_add x xs = (if x \<in> set xs then xs else xs @ [x])"

lemma set_set_add [simp]: "set (set_add x xs) = insert x (set xs)"
  by (auto simp: set_add_def)

definition log_effect :: "stage \<Rightarrow> effect \<Rightarrow> stage" where
  "log_effect s e = s\<lparr>st_log := st_log s @ [e]\<rparr>"

definition add_active :: "stage \<Rightarrow> string \<Rightarrow> stage" where
  "add_active s r = s\<lparr>st_active := set_add r (st_active s)\<rparr>"

definition owns_external_io :: "stage \<Rightarrow> bool" where
  "owns_external_io s \<longleftrightarrow> st_role s \<in> {Single_role, Leader}"

text \<open>\<^verbatim>\<open>repr\<close> of a name without quotes.\<close>

definition quoted :: "string \<Rightarrow> string" where
  "quoted n = [CHR 0x27] @ n @ [CHR 0x27]"

definition record_replica_bindings :: "stage \<Rightarrow> string \<Rightarrow> (string, int) dict option \<Rightarrow> stage" where
  "record_replica_bindings s r bs =
     (case bs of
        None \<Rightarrow> s
      | Some d \<Rightarrow>
          if d = [] then s
          else if r \<in> set (st_aborted s) then s
          else if dhas (st_bindings s) r then s
          else s\<lparr>st_bindings := dset (st_bindings s) r d\<rparr>)"

definition logical_source :: "stage \<Rightarrow> string \<Rightarrow> stage_error + string" where
  "logical_source s f = (case logical_name (st_topology s) f of Inl e \<Rightarrow> Inl (StageReplica e) | Inr n \<Rightarrow> Inr n)"

definition resolve_target_instance :: "stage \<Rightarrow> string \<Rightarrow> string \<Rightarrow> stage_error + string" where
  "resolve_target_instance s r target =
     (if \<not> is_replicated (st_topology s) target then Inr target
      else case (case dget (st_bindings s) r of None \<Rightarrow> None | Some bs \<Rightarrow> dget bs target) of
        None \<Rightarrow> Inl (NoReplicaBinding target r)
      | Some i \<Rightarrow> (case resolve (st_topology s) target i of Inl e \<Rightarrow> Inl (StageReplica e) | Inr n \<Rightarrow> Inr n))"

text \<open>Resolution and endpoint of a target, as every send begins.\<close>

definition target_endpoint :: "stage \<Rightarrow> string \<Rightarrow> string \<Rightarrow> stage_error + string \<times> string" where
  "target_endpoint s r target =
     rbind (resolve_target_instance s r target) (\<lambda>t.
       case dget (st_endpoints s) t of None \<Rightarrow> Inl (NoStageEndpoint t) | Some ep \<Rightarrow> Inr (t, ep))"

definition record_bounded_request_id :: "(string list \<Rightarrow> string list) \<Rightarrow> string list \<Rightarrow> string \<Rightarrow> string list" where
  "record_bounded_request_id iter ids r = trim_closed iter (set_add r ids)"

definition record_aborted_request_id :: "senv \<Rightarrow> stage \<Rightarrow> string \<Rightarrow> stage" where
  "record_aborted_request_id E s r = s\<lparr>st_aborted := record_bounded_request_id (se_iter E) (st_aborted s) r\<rparr>"

definition clear_request_state :: "senv \<Rightarrow> stage \<Rightarrow> string \<Rightarrow> stage" where
  "clear_request_state E s r =
     s\<lparr>st_active := removeAll r (st_active s),
       st_input := map_option (\<lambda>a. agg_cancel a r) (st_input s),
       st_queue := map_option (\<lambda>q. sq_close (se_iter E) q r) (st_queue s),
       st_counters := filter (\<lambda>(k, n). fst k \<noteq> r) (st_counters s),
       st_first_seen := removeAll r (st_first_seen s),
       st_local_targets := ddel (st_local_targets s) r,
       st_nonlocal_targets := ddel (st_nonlocal_targets s) r,
       st_bindings := ddel (st_bindings s) r\<rparr>"

definition open_stream :: "stage \<Rightarrow> string \<Rightarrow> stage" where
  "open_stream s r =
     (case st_queue s of
        None \<Rightarrow> s
      | Some q \<Rightarrow> if sq_has q r then s else s\<lparr>st_queue := Some (sq_open q r)\<rparr>)"

definition open_pre_payload_stream_if_allowed :: "stage \<Rightarrow> string \<Rightarrow> bool \<times> stage" where
  "open_pre_payload_stream_if_allowed s r =
     (case st_queue s of
        None \<Rightarrow> (False, s)
      | Some q \<Rightarrow>
          if sq_has q r then (True, s)
          else if \<not> st_accept_early s then (False, s)
          else (True, (add_active s r)\<lparr>st_queue := Some (sq_open q r)\<rparr>))"

section \<open>Failures and aborts\<close>

text \<open>\<^verbatim>\<open>_send_failure\<close> up to and including the send; the state of the request is cleared after it.\<close>

definition send_failure :: "senv \<Rightarrow> answer \<Rightarrow> stage \<Rightarrow> string \<Rightarrow> string \<Rightarrow> (stage_error + action list) \<times> stage" where
  "send_failure E ans s r err =
     (let s1 = record_aborted_request_id E s r in
      if \<not> owns_external_io s then (Inl (FollowerFailed err), clear_request_state E s1 r)
      else case an_raise ans of
        Some e \<Rightarrow> (Inl (Raised e), s1)
      | None \<Rightarrow>
          (Inr [AClear r],
           log_effect s1 (EComplete \<lparr>cm_request_id = r, cm_from_stage = st_name s, cm_success = False,
                                     cm_result = None, cm_error = Some err\<rparr>)))"

definition queue_stream_error :: "senv \<Rightarrow> answer \<Rightarrow> stage \<Rightarrow> string \<Rightarrow> string \<Rightarrow> (stage_error + action list) \<times> stage" where
  "queue_stream_error E ans s r err =
     (if r \<in> set (st_aborted s) then (Inr [], s)
      else send_failure E ans (log_effect s (ESchedAbort r)) r err)"

definition on_abort :: "senv \<Rightarrow> stage \<Rightarrow> string \<Rightarrow> stage" where
  "on_abort E s r =
     log_effect (clear_request_state E (log_effect (record_aborted_request_id E s r) (ECleanup r)) r) (ESchedAbort r)"

definition on_background_task_done :: "stage \<Rightarrow> stage_error \<Rightarrow> stage" where
  "on_background_task_done s e =
     log_effect (s\<lparr>st_task_error := (case st_task_error s of None \<Rightarrow> Some e | Some e' \<Rightarrow> Some e'), st_running := False\<rparr>) EClosed"

section \<open>Dispatch to the scheduler\<close>

definition execute :: "stage \<Rightarrow> payload \<Rightarrow> (stage_error + action list) \<times> stage" where
  "execute s p =
     (case p of
        OtherObject _ \<Rightarrow> (Inl NoRequestId, s)
      | StagePayload _ r _ \<Rightarrow>
          if r \<in> set (st_aborted s) then (Inr [], s)
          else
            (let s1 = (if st_role s = Leader \<and> st_fanout s \<and> st_work_fanout s then log_effect s (EFanoutWork p) else s) in
             (Inr [], log_effect s1 (EInbox (NewRequest r p)))))"

definition on_submit :: "stage \<Rightarrow> string \<Rightarrow> payload \<Rightarrow> (string, int) dict option \<Rightarrow> (stage_error + action list) \<times> stage" where
  "on_submit s r p bs =
     (if r \<in> set (st_aborted s) then (Inr [], s)
      else execute (open_stream (add_active (record_replica_bindings s r bs) r) r) p)"

definition receive_payload_from_stage ::
  "senv \<Rightarrow> stage \<Rightarrow> string \<Rightarrow> string \<Rightarrow> payload \<Rightarrow> (stage_error + action list) \<times> stage" where
  "receive_payload_from_stage E s r from_stage p =
     (if r \<in> set (st_aborted s) then (Inr [], s)
      else
        (let s1 = open_stream (add_active s r) r in
         case logical_source s from_stage of
           Inl e \<Rightarrow> (Inl e, s1)
         | Inr f \<Rightarrow>
             (case st_input s1 of
                None \<Rightarrow> execute s1 p
              | Some a \<Rightarrow>
                  (case receive (se_merge E) (se_wait E) a r f p of
                     (Inl e, a') \<Rightarrow> (Inl (InputRaised e), s1\<lparr>st_input := Some a'\<rparr>)
                   | (Inr None, a') \<Rightarrow> (Inr [], s1\<lparr>st_input := Some a'\<rparr>)
                   | (Inr (Some m), a') \<Rightarrow> execute (s1\<lparr>st_input := Some a'\<rparr>) m))))"

definition early_data_error :: "stage \<Rightarrow> string \<Rightarrow> string \<Rightarrow> string" where
  "early_data_error s what f =
     ''Stage '' @ st_name s @ '': '' @ what @ '' from '' @ quoted f @
     '' arrived before the request payload, but this stage is not configured to accept pre-payload stream data''"

definition route_stream_item_or_fail ::
  "senv \<Rightarrow> answer \<Rightarrow> stage \<Rightarrow> string \<Rightarrow> nat \<Rightarrow> nat \<Rightarrow> string \<Rightarrow> (stage_error + action list) \<times> stage" where
  "route_stream_item_or_fail E ans s r chunk data from_stage =
     (case logical_source s from_stage of
        Inl e \<Rightarrow> (Inl e, s)
      | Inr f \<Rightarrow>
          (let (ok, s1) = open_pre_payload_stream_if_allowed s r in
           if ok then (Inr [], log_effect s1 (EInbox (StreamChunkMsg r chunk data f)))
           else send_failure E ans (log_effect s1 (ESchedAbort r)) r (early_data_error s ''stream chunk'' f)))"

definition put_done :: "stage \<Rightarrow> string \<Rightarrow> string \<Rightarrow> stage" where
  "put_done s r f = s\<lparr>st_queue := map_option (\<lambda>q. sq_put_done q r (Some f)) (st_queue s)\<rparr>"

definition receive_stream_signal ::
  "senv \<Rightarrow> answer \<Rightarrow> stage \<Rightarrow> string \<Rightarrow> string \<Rightarrow> bool \<Rightarrow> string option \<Rightarrow> (stage_error + action list) \<times> stage" where
  "receive_stream_signal E ans s r from_stage done error =
     (if r \<in> set (st_aborted s) then (Inr [], s)
      else
        (let s1 = add_active s r in
         case error of
           Some (c # cs) \<Rightarrow> queue_stream_error E ans s1 r (c # cs)
         | _ \<Rightarrow>
             if \<not> done then (Inr [], s1)
             else
               (let (ok, s2) = open_pre_payload_stream_if_allowed s1 r in
                if \<not> ok then send_failure E ans (log_effect s2 (ESchedAbort r)) r (early_data_error s ''stream_done'' from_stage)
                else case logical_source s2 from_stage of
                  Inl e \<Rightarrow> (Inl e, s2)
                | Inr f \<Rightarrow> (Inr [], log_effect (put_done s2 r f) (EInbox (StreamDoneMsg r))))))"

text \<open>Traffic from a stage of the same process.\<close>

definition receive_local :: "senv \<Rightarrow> answer \<Rightarrow> stage \<Rightarrow> local_msg \<Rightarrow> (stage_error + action list) \<times> stage" where
  "receive_local E ans s m =
     (case m of
        LPayload r f p bs \<Rightarrow> receive_payload_from_stage E (record_replica_bindings s r bs) r f p
      | LChunk r f chunk data bs \<Rightarrow>
          if r \<in> set (st_aborted s) then (Inr [], s)
          else route_stream_item_or_fail E ans (add_active (record_replica_bindings s r bs) r) r chunk data f
      | LSignal r f done error bs \<Rightarrow> receive_stream_signal E ans (record_replica_bindings s r bs) r f done error)"

section \<open>Sending downstream\<close>

definition record_local_stream_target :: "stage \<Rightarrow> string \<Rightarrow> string \<Rightarrow> stage" where
  "record_local_stream_target s r t =
     s\<lparr>st_local_targets := dset (st_local_targets s) r
         (set_add t (case dget (st_local_targets s) r of None \<Rightarrow> [] | Some ts \<Rightarrow> ts))\<rparr>"

definition record_nonlocal_stream_target :: "stage \<Rightarrow> string \<Rightarrow> string \<Rightarrow> stage" where
  "record_nonlocal_stream_target s r t =
     s\<lparr>st_nonlocal_targets := dset (st_nonlocal_targets s) r
         (set_add t (case dget (st_nonlocal_targets s) r of None \<Rightarrow> [] | Some ts \<Rightarrow> ts))\<rparr>"

definition can_send_full_payload_locally :: "stage \<Rightarrow> string \<Rightarrow> string \<Rightarrow> string list \<Rightarrow> bool" where
  "can_send_full_payload_locally s r t stream_targets =
     (if t \<in> set (case dget (st_nonlocal_targets s) r of None \<Rightarrow> [] | Some ts \<Rightarrow> ts) then False
      else if t \<notin> set stream_targets then True
      else t \<in> set (case dget (st_local_targets s) r of None \<Rightarrow> [] | Some ts \<Rightarrow> ts))"

text \<open>The awaited send that ends an action: it raises, or its effect is logged.\<close>

definition finish_send :: "answer \<Rightarrow> stage \<Rightarrow> effect \<Rightarrow> action list \<Rightarrow> (stage_error + action list) \<times> stage" where
  "finish_send ans s e next = (case an_raise ans of Some m \<Rightarrow> (Inl (Raised m), s) | None \<Rightarrow> (Inr next, log_effect s e))"

definition send_stream_signal_to_target ::
  "answer \<Rightarrow> stage \<Rightarrow> string \<Rightarrow> string \<Rightarrow> bool \<Rightarrow> string option \<Rightarrow> (stage_error + action list) \<times> stage" where
  "send_stream_signal_to_target ans s r target done error =
     (if \<not> owns_external_io s then (Inr [], s)
      else case target_endpoint s r target of
        Inl e \<Rightarrow> (Inl e, s)
      | Inr (t, ep) \<Rightarrow>
          if t \<in> set (st_same_process s) then
            (if \<not> st_dispatcher s then (Inl (NoLocalDispatcher t), s)
             else finish_send ans (record_local_stream_target s r t)
               (ELocal t (LSignal r (st_name s) done error (dget (st_bindings s) r))) [])
          else finish_send ans (record_nonlocal_stream_target s r t)
            (EData t ep \<lparr>dm_request = r, dm_from = st_name s, dm_ref = None, dm_chunk = None, dm_done = done,
                         dm_error = error, dm_bindings = dget (st_bindings s) r\<rparr>) [])"

definition data_ready :: "stage \<Rightarrow> string \<Rightarrow> data_ref \<Rightarrow> nat option \<Rightarrow> data_msg" where
  "data_ready s r ref chunk =
     \<lparr>dm_request = r, dm_from = st_name s, dm_ref = Some ref, dm_chunk = chunk, dm_done = False, dm_error = None,
      dm_bindings = dget (st_bindings s) r\<rparr>"

definition send_to_stage ::
  "senv \<Rightarrow> answer \<Rightarrow> stage \<Rightarrow> string \<Rightarrow> string \<Rightarrow> payload \<Rightarrow> bool \<Rightarrow> string list \<Rightarrow> (stage_error + action list) \<times> stage" where
  "send_to_stage E ans s r target p single stream_targets =
     (if \<not> owns_external_io s then (Inl FollowerSends, s)
      else case target_endpoint s r target of
        Inl e \<Rightarrow> (Inl e, s)
      | Inr (t, ep) \<Rightarrow>
          (case (case dget (se_projectors E) t of None \<Rightarrow> Inr p | Some f \<Rightarrow> f p) of
             Inl m \<Rightarrow> (Inl (Raised m), s)
           | Inr q \<Rightarrow>
               (case (if single then Inr True
                      else is_isolated_projected_payload (se_objects E) p q (dhas (se_projectors E) t)) of
                  Inl e \<Rightarrow> (Inl (Isolation e), s)
                | Inr use_local \<Rightarrow>
                    if use_local \<and> t \<in> set (st_same_process s) \<and> can_send_full_payload_locally s r t stream_targets then
                      (if \<not> st_dispatcher s then (Inl (NoLocalDispatcher t), s)
                       else finish_send ans s (ELocal t (LPayload r (st_name s) q (dget (st_bindings s) r))) [])
                    else
                      (let relay = finish_send ans s (ERelay t ep r (TPayload q) (dget (st_bindings s) r)) [] in
                       if \<not> st_disable_ipc s \<and> se_can_ipc E t \<and> se_has_cuda E q then
                         (case se_ipc E q of
                            IpcOk \<Rightarrow> finish_send ans s (EData t ep (data_ready s r (IpcPayload q) None)) []
                          | IpcForeign \<Rightarrow> relay
                          | IpcRaise m \<Rightarrow> (Inl (Raised m), s))
                       else relay))))"

definition next_chunk_id :: "stage \<Rightarrow> string \<Rightarrow> string \<Rightarrow> nat" where
  "next_chunk_id s r t = (case dget (st_counters s) (r, t) of None \<Rightarrow> 0 | Some n \<Rightarrow> n)"

definition count_chunk :: "stage \<Rightarrow> string \<Rightarrow> string \<Rightarrow> stage" where
  "count_chunk s r t =
     s\<lparr>st_counters := dset (st_counters s) (r, t) (Suc (next_chunk_id s r t)), st_first_seen := set_add r (st_first_seen s)\<rparr>"

definition send_stream_to_target ::
  "senv \<Rightarrow> answer \<Rightarrow> stage \<Rightarrow> string \<Rightarrow> nat \<Rightarrow> string \<Rightarrow> (stage_error + action list) \<times> stage" where
  "send_stream_to_target E ans s r data target =
     (if \<not> owns_external_io s then (Inr [], s)
      else case target_endpoint s r target of
        Inl e \<Rightarrow> (Inl e, s)
      | Inr (t, ep) \<Rightarrow>
          (let chunk = next_chunk_id s r t; s1 = count_chunk s r t in
           if t \<in> set (st_same_process s) then
             (if \<not> st_dispatcher s then (Inl (NoLocalDispatcher t), s1)
              else finish_send ans (record_local_stream_target s1 r t)
                (ELocal t (LChunk r (st_name s) chunk data (dget (st_bindings s) r))) [])
           else
             (let s2 = record_nonlocal_stream_target s1 r t in
              case se_cuda E data of
                None \<Rightarrow> (Inl NotTensor, s2)
              | Some cuda \<Rightarrow>
                  if cuda \<and> se_can_ipc E t then finish_send ans s2 (EData t ep (data_ready s r (IpcChunk data) (Some chunk))) []
                  else if se_inline E data then finish_send ans s2 (EData t ep (data_ready s r (InlineChunk data) (Some chunk))) []
                  else finish_send ans s2 (ERelay t ep r (TChunk chunk data) (dget (st_bindings s) r)) [])))"

text \<open>
  \<^verbatim>\<open>asyncio.gather\<close> over the stream targets: every send runs up to its suspension, whatever the
  others do; the first exception is the one that is raised.
\<close>

fun send_stream_to_all :: "senv \<Rightarrow> answer \<Rightarrow> stage \<Rightarrow> string \<Rightarrow> nat \<Rightarrow> string list \<Rightarrow> (stage_error + action list) \<times> stage" where
  "send_stream_to_all E ans s r data [] = (Inr [], s)"
| "send_stream_to_all E ans s r data (t # ts) =
     (let (res, s1) = send_stream_to_target E ans s r data t; (rest, s2) = send_stream_to_all E ans s1 r data ts in
      (case res of Inl e \<Rightarrow> Inl e | Inr _ \<Rightarrow> rest, s2))"

definition send_stream_to_coordinator :: "answer \<Rightarrow> stage \<Rightarrow> string \<Rightarrow> nat \<Rightarrow> (stage_error + action list) \<times> stage" where
  "send_stream_to_coordinator ans s r data =
     (if \<not> st_terminal s then (Inl NotTerminal, s)
      else if \<not> owns_external_io s then (Inr [], s)
      else if r \<in> set (st_aborted s) then (Inr [], s)
      else
        (let chunk = next_chunk_id s r ''coordinator'' in
         finish_send ans (count_chunk s r ''coordinator'')
           (EStream \<lparr>sm_request_id = r, sm_from_stage = st_name s, sm_stage_name = Some (st_name s), sm_chunk = (chunk, data)\<rparr>) []))"

text \<open>
  \<^verbatim>\<open>_route_result\<close>: the done signals, then (in one go with the first send) the next stages or the
  completion, then the end of the request at this stage.
\<close>

definition stream_done_targets :: "senv \<Rightarrow> stage \<Rightarrow> string \<Rightarrow> payload \<Rightarrow> stage_error + string list" where
  "stream_done_targets E s r result =
     (case se_done E of
        None \<Rightarrow> Inr (st_stream_to s)
      | Some f \<Rightarrow>
          (case f r result of
             Inl m \<Rightarrow> Inl (Raised m)
           | Inr (NOne t) \<Rightarrow> Inr [t]
           | Inr (NMany ts) \<Rightarrow> Inr ts
           | Inr NNone \<Rightarrow> Inr []))"

definition result_object :: "payload \<Rightarrow> nat" where
  "result_object p = (case p of StagePayload _ _ d \<Rightarrow> d | OtherObject x \<Rightarrow> x)"

definition route_next ::
  "senv \<Rightarrow> answer \<Rightarrow> stage \<Rightarrow> string \<Rightarrow> payload \<Rightarrow> string list \<Rightarrow> (stage_error + action list) \<times> stage" where
  "route_next E ans s r result stream_targets =
     (case se_next E r result of
        Inl m \<Rightarrow> (Inl (Raised m), s)
      | Inr NNone \<Rightarrow>
          finish_send ans s
            (EComplete \<lparr>cm_request_id = r, cm_from_stage = st_name s, cm_success = True, cm_result = Some (result_object result), cm_error = None\<rparr>)
            [AClear r]
      | Inr n \<Rightarrow>
          (let ts = (case n of NOne t \<Rightarrow> [t] | NMany ts \<Rightarrow> ts | NNone \<Rightarrow> []); single = (length ts = 1) in
           case ts of
             [] \<Rightarrow> (Inr [], clear_request_state E s r)
           | t # ts' \<Rightarrow>
               (case send_to_stage E ans s r t result single stream_targets of
                  (Inl e, s') \<Rightarrow> (Inl e, s')
                | (Inr as, s') \<Rightarrow> (Inr (as @ map (\<lambda>t. APayload r t result single stream_targets) ts' @ [AClear r]), s'))))"

section \<open>Receiving\<close>

definition send_data_ack :: "answer \<Rightarrow> stage \<Rightarrow> data_msg \<Rightarrow> bool \<Rightarrow> (stage_error + action list) \<times> stage" where
  "send_data_ack ans s m ok =
     (case dget (st_endpoints s) (dm_from m) of
        None \<Rightarrow> (Inl (NoAckEndpoint (dm_from m)), s)
      | Some ep \<Rightarrow>
          finish_send ans s
            (EAck (dm_from m) ep (case dm_ref m of Some (Transfer oid _) \<Rightarrow> oid | _ \<Rightarrow> []) ok) [])"

text \<open>\<^verbatim>\<open>_discard_data\<close> and \<^verbatim>\<open>_discard_stream_chunk_data\<close> up to the read of an aborted request's data.\<close>

definition discard_data :: "answer \<Rightarrow> stage \<Rightarrow> data_msg \<Rightarrow> (stage_error + action list) \<times> stage" where
  "discard_data ans s m =
     (case dm_ref m of
        None \<Rightarrow> (Inl MissingDataRef, s)
      | Some (IpcPayload p) \<Rightarrow> (case an_raise ans of Some e \<Rightarrow> (Inl (Raised e), s) | None \<Rightarrow> (Inr [], s))
      | Some (Transfer oid kv) \<Rightarrow>
          if kv then (Inr [RAck m False], log_effect s (ECleanup (dm_request m))) else (Inr [RDiscard m], s)
      | Some _ \<Rightarrow> (Inl BadDataRef, s))"

definition discard_stream_chunk_data :: "answer \<Rightarrow> stage \<Rightarrow> data_msg \<Rightarrow> (stage_error + action list) \<times> stage" where
  "discard_stream_chunk_data ans s m =
     (case dm_ref m of
        None \<Rightarrow> (Inl MissingDataRef, s)
      | Some (IpcChunk d) \<Rightarrow> (case an_raise ans of Some e \<Rightarrow> (Inl (Raised e), s) | None \<Rightarrow> (Inr [], s))
      | Some (InlineChunk d) \<Rightarrow> (Inr [], s)
      | Some (Transfer oid kv) \<Rightarrow> (Inr [RDiscard m], s)
      | Some (IpcPayload p) \<Rightarrow> (Inl BadDataRef, s))"

text \<open>After the read of discarded data: acknowledge it; a failed payload read also frees the transfer.\<close>

definition discard_read :: "answer \<Rightarrow> data_msg \<Rightarrow> action list" where
  "discard_read ans m =
     (case an_raise ans of
        Some e \<Rightarrow> RAck m False # (if dm_chunk m = None then [ACleanup (dm_request m)] else [])
      | None \<Rightarrow> [RAck m True])"

text \<open>\<^verbatim>\<open>_on_data_ready\<close>: its start, and what follows the relay read.\<close>

definition on_data_ready :: "answer \<Rightarrow> stage \<Rightarrow> data_msg \<Rightarrow> (stage_error + action list) \<times> stage" where
  "on_data_ready ans s m =
     (let r = dm_request m in
      if r \<in> set (st_aborted s) then discard_data ans s m
      else case dm_ref m of
        None \<Rightarrow> (Inl MissingDataRef, s)
      | Some (IpcPayload p) \<Rightarrow>
          (case an_raise ans of
             Some e \<Rightarrow> (Inr [RWait, AFail r (''direct IPC payload deserialize failed: '' @ e)], s)
           | None \<Rightarrow> (Inr [RWait, RPayload r (dm_from m) p], s))
      | Some (Transfer oid kv) \<Rightarrow> (Inr [RReadData m], s)
      | Some _ \<Rightarrow> (Inl BadDataRef, s))"

definition data_read :: "answer \<Rightarrow> data_msg \<Rightarrow> action list" where
  "data_read ans m =
     (case an_raise ans of
        Some e \<Rightarrow> [RAck m False, ACleanup (dm_request m), RWait, AFail (dm_request m) (''relay read failed: '' @ e)]
      | None \<Rightarrow> [RAck m True, RWait] @
          (case an_read ans of None \<Rightarrow> [] | Some p \<Rightarrow> [RPayload (dm_request m) (dm_from m) p]))"

text \<open>\<^verbatim>\<open>_on_stream_chunk\<close>: its start, what follows the relay read, and the delivery.\<close>

definition on_stream_chunk :: "answer \<Rightarrow> stage \<Rightarrow> data_msg \<Rightarrow> (stage_error + action list) \<times> stage" where
  "on_stream_chunk ans s m =
     (let r = dm_request m; s1 = add_active s r;
          carried = (\<lambda>d. case an_raise ans of
                       Some e \<Rightarrow> (Inr [RWait, RStreamError r e], s1)
                     | None \<Rightarrow> (Inr [RWait, RChunk m d], s1)) in
      if r \<in> set (st_aborted s) then discard_stream_chunk_data ans s m
      else case dm_ref m of
        None \<Rightarrow> (Inl MissingDataRef, s1)
      | Some (IpcChunk d) \<Rightarrow> carried d
      | Some (InlineChunk d) \<Rightarrow> carried d
      | Some (Transfer oid kv) \<Rightarrow> (Inr [RReadChunk m], s1)
      | Some (IpcPayload p) \<Rightarrow> (Inl BadDataRef, s1))"

definition chunk_read :: "answer \<Rightarrow> data_msg \<Rightarrow> action list" where
  "chunk_read ans m =
     (case an_raise ans of
        Some e \<Rightarrow> [RAck m False, RWait, RStreamError (dm_request m) e]
      | None \<Rightarrow> [RAck m True, RWait, RChunk m (an_chunk ans)])"

definition deliver_chunk :: "senv \<Rightarrow> answer \<Rightarrow> stage \<Rightarrow> data_msg \<Rightarrow> nat \<Rightarrow> (stage_error + action list) \<times> stage" where
  "deliver_chunk E ans s m d =
     (if dm_request m \<in> set (st_aborted s) then (Inr [], s)
      else route_stream_item_or_fail E ans s (dm_request m) (case dm_chunk m of None \<Rightarrow> 0 | Some n \<Rightarrow> n) d (dm_from m))"

definition receive_handler :: "answer \<Rightarrow> stage \<Rightarrow> data_msg \<Rightarrow> (stage_error + action list) \<times> stage" where
  "receive_handler ans s m =
     (if dm_done m \<or> dm_error m \<noteq> None then (Inr [RWait, RSignal m], s)
      else if dm_chunk m \<noteq> None then on_stream_chunk ans s m
      else on_data_ready ans s m)"

section \<open>The crash of the scheduler thread\<close>

definition crash_text :: "string \<Rightarrow> string" where
  "crash_text exc = ''scheduler crashed: '' @ exc"

definition handle_scheduler_crash :: "stage \<Rightarrow> string \<Rightarrow> (stage_error + action list) \<times> stage" where
  "handle_scheduler_crash s exc =
     (if st_crash s \<noteq> None then (Inr [], s)
      else
        (let s1 = s\<lparr>st_crash := Some exc\<rparr> in
         if \<not> owns_external_io s then (Inr [], log_effect s1 EClosed)
         else
           (Inr (concat (map (\<lambda>r. [ASchedAbort r, AFail r (crash_text exc), ACleanup r])
                           (filter (\<lambda>r. r \<notin> set (st_aborted s)) (st_active s))) @ [AClose]), s1)))"

section \<open>The actions\<close>

fun exec :: "senv \<Rightarrow> answer \<Rightarrow> stage \<Rightarrow> action \<Rightarrow> (stage_error + action list) \<times> stage" where
  "exec E ans s (ASignal r t) = send_stream_signal_to_target ans s r t True None"
| "exec E ans s (ANext r p ts) = route_next E ans s r p ts"
| "exec E ans s (APayload r t p single ts) = send_to_stage E ans s r t p single ts"
| "exec E ans s (AChunks r d ts) = send_stream_to_all E ans s r d ts"
| "exec E ans s (ACoordChunk r d) = send_stream_to_coordinator ans s r d"
| "exec E ans s (AFail r err) = send_failure E ans s r err"
| "exec E ans s (AClear r) = (Inr [], clear_request_state E s r)"
| "exec E ans s (ACrash exc) = handle_scheduler_crash s exc"
| "exec E ans s (ASchedAbort r) = (Inr [], log_effect s (ESchedAbort r))"
| "exec E ans s (ACleanup r) = (Inr [], log_effect s (ECleanup r))"
| "exec E ans s AClose = (Inr [], log_effect s EClosed)"
| "exec E ans s (RStart m) = receive_handler ans s m"
| "exec E ans s (RReadData m) = (Inr (data_read ans m), s)"
| "exec E ans s (RReadChunk m) = (Inr (chunk_read ans m), s)"
| "exec E ans s (RDiscard m) = (Inr (discard_read ans m), s)"
| "exec E ans s (RAck m ok) = send_data_ack ans s m ok"
| "exec E ans s RWait = (Inr [], s)"
| "exec E ans s (RPayload r f p) = receive_payload_from_stage E s r f p"
| "exec E ans s (RChunk m d) = deliver_chunk E ans s m d"
| "exec E ans s (RStreamError r e) = queue_stream_error E ans s r e"
| "exec E ans s (RSignal m) = receive_stream_signal E ans s (dm_request m) (dm_from m) (dm_done m) (dm_error m)"
| "exec E ans s (RFinish e) = (Inr [], s)"

section \<open>The tasks of a stage\<close>

text \<open>
  A receive task has its lane (request and sender) and its predecessor in the lane; a detached
  task is the scheduler-crash handler or the rest of a call from another stage of the process,
  whose exceptions do not come back to this stage. \<open>run_drain\<close> is the rest of the action list of
  the outbox task, \<open>None\<close> once it has crashed.
\<close>

record task =
  tk_prog :: "action list"
  tk_lane :: "(string \<times> string) option"
  tk_pred :: "nat option"

record stage_run =
  run_stage :: stage
  run_drain :: "action list option"
  run_tasks :: "(nat, task) dict"
  run_finished :: "nat list"
  run_tails :: "(string \<times> string, nat) dict"
  run_next :: nat

datatype out_msg =
    OutResult (out_request: string) payload
  | OutStream (out_request: string) nat "string option"
  | OutError (out_request: string) string

definition schedule_receive_task :: "stage_run \<Rightarrow> data_msg \<Rightarrow> stage_run" where
  "schedule_receive_task m msg =
     (let lane = (dm_request msg, dm_from msg); i = run_next m in
      m\<lparr>run_stage := record_replica_bindings (run_stage m) (dm_request msg) (dm_bindings msg),
        run_tasks := dset (run_tasks m) i \<lparr>tk_prog = [RStart msg, RFinish None], tk_lane = Some lane, tk_pred = dget (run_tails m) lane\<rparr>,
        run_tails := dset (run_tails m) lane i, run_next := Suc i\<rparr>)"

definition spawn :: "stage_run \<Rightarrow> action list \<Rightarrow> stage_run" where
  "spawn m prog =
     m\<lparr>run_tasks := dset (run_tasks m) (run_next m) \<lparr>tk_prog = prog, tk_lane = None, tk_pred = None\<rparr>, run_next := Suc (run_next m)\<rparr>"

definition pred_done :: "stage_run \<Rightarrow> task \<Rightarrow> bool" where
  "pred_done m t = (case tk_pred t of None \<Rightarrow> True | Some p \<Rightarrow> p \<in> set (run_finished m))"

text \<open>The \<^verbatim>\<open>finally\<close> of \<^verbatim>\<open>_run_receive_task\<close>, and the task's done callback.\<close>

definition finish_task :: "stage_run \<Rightarrow> nat \<Rightarrow> task \<Rightarrow> stage_error option \<Rightarrow> stage_run" where
  "finish_task m i t err =
     m\<lparr>run_tasks := ddel (run_tasks m) i, run_finished := i # run_finished m,
       run_tails := (case tk_lane t of
                       None \<Rightarrow> run_tails m
                     | Some lane \<Rightarrow> if dget (run_tails m) lane = Some i then ddel (run_tails m) lane else run_tails m),
       run_stage := (case err of None \<Rightarrow> run_stage m | Some e \<Rightarrow> on_background_task_done (run_stage m) e)\<rparr>"

definition task_step :: "senv \<Rightarrow> answer \<Rightarrow> stage_run \<Rightarrow> nat \<Rightarrow> stage_run" where
  "task_step E ans m i =
     (case dget (run_tasks m) i of
        None \<Rightarrow> m
      | Some t \<Rightarrow>
          (case tk_prog t of
             [] \<Rightarrow> if tk_lane t = None then m\<lparr>run_tasks := ddel (run_tasks m) i\<rparr> else m
           | RFinish err # _ \<Rightarrow> if pred_done m t then finish_task m i t err else m
           | a # rest \<Rightarrow>
               if a = RWait \<and> \<not> pred_done m t then m
               else
                 (case exec E ans (run_stage m) a of
                    (Inr new, s) \<Rightarrow> m\<lparr>run_stage := s, run_tasks := dset (run_tasks m) i (t\<lparr>tk_prog := new @ rest\<rparr>)\<rparr>
                  | (Inl e, s) \<Rightarrow>
                      if tk_lane t = None then m\<lparr>run_stage := s, run_tasks := ddel (run_tasks m) i\<rparr>
                      else m\<lparr>run_stage := s, run_tasks := dset (run_tasks m) i (t\<lparr>tk_prog := [RFinish (Some e)]\<rparr>)\<rparr>)))"

text \<open>Running the head of the outbox task's actions; an exception ends the task.\<close>

definition run_head :: "senv \<Rightarrow> answer \<Rightarrow> stage_run \<Rightarrow> action list \<Rightarrow> stage_run" where
  "run_head E ans m prog =
     (case prog of
        [] \<Rightarrow> m\<lparr>run_drain := Some []\<rparr>
      | a # rest \<Rightarrow>
          (case exec E ans (run_stage m) a of
             (Inr new, s) \<Rightarrow> m\<lparr>run_stage := s, run_drain := Some (new @ rest)\<rparr>
           | (Inl e, s) \<Rightarrow> m\<lparr>run_stage := on_background_task_done s e, run_drain := None\<rparr>))"

text \<open>
  One message taken from the scheduler's outbox. The sends to several stream targets are tasks
  of their own, so they start later; everything else starts at once.
\<close>

definition drain_take :: "senv \<Rightarrow> answer \<Rightarrow> stage_run \<Rightarrow> out_msg \<Rightarrow> stage_run" where
  "drain_take E ans m out =
     (let s = run_stage m; fail = (\<lambda>e. m\<lparr>run_stage := on_background_task_done s e, run_drain := None\<rparr>) in
      if \<not> owns_external_io s then
        (case out of
           OutResult r _ \<Rightarrow> m\<lparr>run_stage := clear_request_state E s r\<rparr>
         | OutStream _ _ _ \<Rightarrow> m
         | OutError _ e \<Rightarrow> fail (FollowerSchedulerError e))
      else if out_request out \<notin> set (st_active s) then m
      else case out of
        OutResult r result \<Rightarrow>
          (case stream_done_targets E s r result of
             Inl e \<Rightarrow> fail e
           | Inr ts \<Rightarrow> run_head E ans m (map (ASignal r) ts @ [ANext r result ts]))
      | OutStream r d None \<Rightarrow>
          if st_stream_to s \<noteq> [] then m\<lparr>run_drain := Some [AChunks r d (st_stream_to s)]\<rparr>
          else run_head E ans m [ACoordChunk r d]
      | OutStream r d (Some t) \<Rightarrow> run_head E ans m [AChunks r d [t]]
      | OutError r e \<Rightarrow> run_head E ans m [AFail r e])"

datatype stage_ev =
    Submit string payload "(string, int) dict option"
  | Data data_msg
  | TaskStep nat answer
  | Take out_msg answer
  | DrainStep answer
  | Abort string
  | LocalIn local_msg answer
  | SchedCrash string
  | Stop

text \<open>
  An exception in the main loop stops the stage. \<open>Stop\<close> cancels the receive tasks. Messages are
  taken only while the stage runs; the outbox is drained to its end.
\<close>

fun stage_step :: "senv \<Rightarrow> stage_run \<Rightarrow> stage_ev \<Rightarrow> stage_run" where
  "stage_step E m (Submit r p bs) =
     (if \<not> st_running (run_stage m) then m
      else case on_submit (run_stage m) r p bs of
        (Inr _, s) \<Rightarrow> m\<lparr>run_stage := s\<rparr>
      | (Inl e, s) \<Rightarrow> m\<lparr>run_stage := s\<lparr>st_running := False\<rparr>\<rparr>)"
| "stage_step E m (Data msg) = (if \<not> st_running (run_stage m) then m else schedule_receive_task m msg)"
| "stage_step E m (TaskStep i ans) = task_step E ans m i"
| "stage_step E m (Take out ans) = (if run_drain m = Some [] then drain_take E ans m out else m)"
| "stage_step E m (DrainStep ans) =
     (case run_drain m of Some (a # as) \<Rightarrow> run_head E ans m (a # as) | _ \<Rightarrow> m)"
| "stage_step E m (Abort r) =
     (let s = run_stage m;
          s1 = (if st_role s = Leader \<and> st_fanout s then log_effect s (EFanoutAbort r) else s) in
      if st_running s then m\<lparr>run_stage := on_abort E s1 r\<rparr> else m)"
| "stage_step E m (LocalIn lm ans) =
     (case receive_local E ans (run_stage m) lm of
        (Inr as, s) \<Rightarrow> spawn (m\<lparr>run_stage := s\<rparr>) as
      | (Inl _, s) \<Rightarrow> m\<lparr>run_stage := s\<rparr>)"
| "stage_step E m (SchedCrash exc) =
     spawn (m\<lparr>run_stage := (run_stage m)\<lparr>st_running := False\<rparr>\<rparr>) [ACrash exc]"
| "stage_step E m Stop =
     m\<lparr>run_stage := (run_stage m)\<lparr>st_running := False\<rparr>,
       run_tasks := filter (\<lambda>(i, t). tk_lane t = None) (run_tasks m), run_tails := []\<rparr>"

definition stage_init :: "stage \<Rightarrow> bool" where
  "stage_init s \<longleftrightarrow>
     st_running s \<and> st_aborted s = [] \<and> st_active s = [] \<and> st_counters s = [] \<and> st_first_seen s = [] \<and>
     st_local_targets s = [] \<and> st_nonlocal_targets s = [] \<and> st_bindings s = [] \<and>
     (case st_queue s of None \<Rightarrow> True | Some q \<Rightarrow> q = sq_init) \<and>
     (case st_input s of None \<Rightarrow> True | Some a \<Rightarrow> a = agg_init (sources a)) \<and>
     st_crash s = None \<and> st_task_error s = None \<and> st_log s = []"

definition start_run :: "stage \<Rightarrow> stage_run" where
  "start_run s = \<lparr>run_stage = s, run_drain = Some [], run_tasks = [], run_finished = [], run_tails = [], run_next = 0\<rparr>"

end
