(* ===== verification/Stage_Lanes.thy ===== *)
theory Stage_Lanes
  imports Stage_Runtime
begin

text \<open>
  Ordering of what a stage receives: messages of one sender for one request are read concurrently but
  delivered in the order they arrived.
\<close>

section \<open>Actions that deliver\<close>

fun is_delivery :: "action \<Rightarrow> bool" where
  "is_delivery (RPayload r f p) = True"
| "is_delivery (RChunk m d) = True"
| "is_delivery (RStreamError r e) = True"
| "is_delivery (RSignal m) = True"
| "is_delivery (AFail r e) = True"
| "is_delivery (AClear r) = True"
| "is_delivery _ = False"

text \<open>The actions a receive task performs before it has waited for its predecessor.\<close>

fun is_reading :: "action \<Rightarrow> bool" where
  "is_reading (RStart m) = True"
| "is_reading (RReadData m) = True"
| "is_reading (RReadChunk m) = True"
| "is_reading (RDiscard m) = True"
| "is_reading (RAck m ok) = True"
| "is_reading (ACleanup r) = True"
| "is_reading (RFinish e) = True"
| "is_reading _ = False"

text \<open>A list of actions that reads, then waits before it delivers.\<close>

fun waits_first :: "action list \<Rightarrow> bool" where
  "waits_first [] = True"
| "waits_first (a # as) = (a = RWait \<or> is_reading a \<and> waits_first as)"

lemma waits_first_append: "waits_first xs \<Longrightarrow> waits_first ys \<Longrightarrow> waits_first (xs @ ys)"
  by (induction xs) auto

lemma reading_then_waits:
  assumes "is_reading a" "exec E ans s a = (Inr new, s')"
  shows "waits_first new"
  using assms
  by (cases a) (auto simp: receive_handler_def on_stream_chunk_def on_data_ready_def discard_data_def discard_stream_chunk_data_def
      data_read_def chunk_read_def discard_read_def send_data_ack_def finish_send_def Let_def
      split: option.splits if_splits data_ref.splits)

section \<open>Lanes\<close>

definition pending_in :: "stage_run \<Rightarrow> (string \<times> string) \<Rightarrow> nat \<Rightarrow> bool" where
  "pending_in m lane j \<longleftrightarrow> (case dget (run_tasks m) j of None \<Rightarrow> False | Some t \<Rightarrow> tk_lane t = Some lane)"

text \<open>
  The invariant of the lanes: ids are below the counter and unfinished; a task behind another one
  of its lane has an unfinished predecessor of the lane, no earlier than that one; the tail of a lane
  is its last task; and a task delivers without waiting only when it is the first of its lane.
\<close>

definition lane_inv :: "stage_run \<Rightarrow> bool" where
  "lane_inv m \<longleftrightarrow>
     (\<forall>i t. dget (run_tasks m) i = Some t \<longrightarrow> i < run_next m \<and> i \<notin> set (run_finished m)) \<and>
     (\<forall>i\<in>set (run_finished m). i < run_next m) \<and>
     (\<forall>i t lane j. dget (run_tasks m) i = Some t \<and> tk_lane t = Some lane \<and> j < i \<and> pending_in m lane j \<longrightarrow>
        (\<exists>p. tk_pred t = Some p \<and> pending_in m lane p \<and> j \<le> p \<and> p < i)) \<and>
     (\<forall>lane j. pending_in m lane j \<longrightarrow> (\<exists>k. dget (run_tails m) lane = Some k \<and> pending_in m lane k \<and> j \<le> k)) \<and>
     (\<forall>i t lane. dget (run_tasks m) i = Some t \<and> tk_lane t = Some lane \<longrightarrow>
        waits_first (tk_prog t) \<or> (\<forall>j<i. \<not> pending_in m lane j))"

lemma lane_invD:
  assumes "lane_inv m"
  shows "dget (run_tasks m) i = Some t \<Longrightarrow> i < run_next m \<and> i \<notin> set (run_finished m)"
    and "i \<in> set (run_finished m) \<Longrightarrow> i < run_next m"
    and "dget (run_tasks m) i = Some t \<Longrightarrow> tk_lane t = Some lane \<Longrightarrow> j < i \<Longrightarrow> pending_in m lane j \<Longrightarrow>
      \<exists>p. tk_pred t = Some p \<and> pending_in m lane p \<and> j \<le> p \<and> p < i"
    and "pending_in m lane j \<Longrightarrow> \<exists>k. dget (run_tails m) lane = Some k \<and> pending_in m lane k \<and> j \<le> k"
    and "dget (run_tasks m) i = Some t \<Longrightarrow> tk_lane t = Some lane \<Longrightarrow> waits_first (tk_prog t) \<or> (\<forall>j<i. \<not> pending_in m lane j)"
  using assms unfolding lane_inv_def by blast+

text \<open>A task whose predecessor has finished is the first of its lane.\<close>

lemma pred_done_first:
  assumes inv: "lane_inv m" and t: "dget (run_tasks m) i = Some t" "tk_lane t = Some lane" and p: "pred_done m t"
    and j: "j < i" "pending_in m lane j"
  shows False
proof -
  obtain p where "tk_pred t = Some p" "pending_in m lane p" using lane_invD(3) [OF inv t j] by blast
  with p inv show False by (auto simp: pred_done_def pending_in_def dest: lane_invD(1) split: option.splits)
qed

lemma lane_inv_stage [simp]:
  "lane_inv (m\<lparr>run_stage := s\<rparr>) = lane_inv m" "lane_inv (m\<lparr>run_drain := d\<rparr>) = lane_inv m"
  by (simp_all add: lane_inv_def pending_in_def)

text \<open>Changing the actions of a task keeps the invariant when they wait first or the task is the first of its lane.\<close>

lemma lane_inv_prog:
  assumes inv: "lane_inv m" and t: "dget (run_tasks m) i = Some t"
    and ok: "\<And>lane. tk_lane t = Some lane \<Longrightarrow> waits_first prog \<or> (\<forall>j<i. \<not> pending_in m lane j)"
  shows "lane_inv (m\<lparr>run_tasks := dset (run_tasks m) i (t\<lparr>tk_prog := prog\<rparr>)\<rparr>)"
proof -
  let ?m = "m\<lparr>run_tasks := dset (run_tasks m) i (t\<lparr>tk_prog := prog\<rparr>)\<rparr>"
  have pend: "pending_in ?m lane j = pending_in m lane j" for lane j by (simp add: pending_in_def t)
  have task: "dget (run_tasks ?m) k = Some u \<Longrightarrow>
      (if k = i then u = t\<lparr>tk_prog := prog\<rparr> else dget (run_tasks m) k = Some u)" for k u
    by (simp split: if_splits)
  show ?thesis unfolding lane_inv_def pend
    using lane_invD [OF inv] t ok by (auto simp: dest!: task split: if_splits)
qed

text \<open>Removing a task that is the first of its lane (or has no lane), with its tail if it is the tail.\<close>

lemma lane_inv_remove:
  assumes inv: "lane_inv m" and t: "dget (run_tasks m) i = Some t"
    and first: "\<And>lane j. tk_lane t = Some lane \<Longrightarrow> j < i \<Longrightarrow> \<not> pending_in m lane j"
    and tails: "\<And>lane k. dget (run_tails m) lane = Some k \<Longrightarrow> k \<noteq> i \<Longrightarrow> dget tails lane = Some k"
    and fin: "set fin \<subseteq> insert i (set (run_finished m))"
  shows "lane_inv (m\<lparr>run_tasks := ddel (run_tasks m) i, run_finished := fin, run_tails := tails\<rparr>)"
proof -
  let ?m = "m\<lparr>run_tasks := ddel (run_tasks m) i, run_finished := fin, run_tails := tails\<rparr>"
  have pend: "pending_in ?m lane j \<longleftrightarrow> j \<noteq> i \<and> pending_in m lane j" for lane j by (simp add: pending_in_def)
  have pi: "pending_in m lane i \<longleftrightarrow> tk_lane t = Some lane" for lane by (simp add: pending_in_def t)
  have "\<exists>p. tk_pred u = Some p \<and> pending_in ?m lane p \<and> j \<le> p \<and> p < k"
    if "dget (run_tasks ?m) k = Some u" "tk_lane u = Some lane" "j < k" "pending_in ?m lane j" for k u lane j
  proof -
    have u: "dget (run_tasks m) k = Some u" and j: "j \<noteq> i" "pending_in m lane j" using that pend by (auto split: if_splits)
    obtain p where p: "tk_pred u = Some p" "pending_in m lane p" "j \<le> p" "p < k"
      using lane_invD(3) [OF inv u \<open>tk_lane u = Some lane\<close> \<open>j < k\<close> j(2)] by blast
    have "p \<noteq> i" using first [of lane j] p j pi by (metis le_neq_implies_less)
    with p pend [of lane p] show ?thesis by simp
  qed
  moreover have "\<exists>k. dget tails lane = Some k \<and> pending_in ?m lane k \<and> j \<le> k" if "pending_in ?m lane j" for lane j
  proof -
    have j: "j \<noteq> i" "pending_in m lane j" using that pend [of lane j] by simp_all
    obtain k where k: "dget (run_tails m) lane = Some k" "pending_in m lane k" "j \<le> k"
      using lane_invD(4) [OF inv j(2)] by blast
    have "k \<noteq> i"
    proof
      assume "k = i"
      with first [of lane j] k(2,3) pi j show False by simp
    qed
    with k tails [of lane k] pend [of lane k] show ?thesis by simp
  qed
  moreover have "waits_first (tk_prog u) \<or> (\<forall>j<k. \<not> pending_in ?m lane j)"
    if "dget (run_tasks ?m) k = Some u" "tk_lane u = Some lane" for k u lane
    using that pend lane_invD(5) [OF inv, of k u lane] by (auto split: if_splits)
  moreover have "k < run_next m \<and> k \<notin> set fin" if "dget (run_tasks ?m) k = Some u" for k u
    using that fin lane_invD(1) [OF inv, of k u] by (auto split: if_splits)
  moreover have "k < run_next m" if "k \<in> set fin" for k
    using that fin lane_invD(1) [OF inv t] lane_invD(2) [OF inv, of k] by auto
  ultimately show ?thesis unfolding lane_inv_def by simp
qed

text \<open>Adding a task with a fresh id: in no lane, or at the end of its lane.\<close>

lemma lane_inv_add:
  assumes inv: "lane_inv m"
    and prog: "waits_first prog \<or> lane = None"
    and pred: "\<And>l. lane = Some l \<Longrightarrow> pred = dget (run_tails m) l"
    and tails: "tails = (case lane of None \<Rightarrow> run_tails m | Some l \<Rightarrow> dset (run_tails m) l (run_next m))"
  shows "lane_inv (m\<lparr>run_tasks := dset (run_tasks m) (run_next m) \<lparr>tk_prog = prog, tk_lane = lane, tk_pred = pred\<rparr>,
    run_tails := tails, run_next := Suc (run_next m)\<rparr>)" (is "lane_inv ?m")
proof -
  let ?i = "run_next m" and ?t = "\<lparr>tk_prog = prog, tk_lane = lane, tk_pred = pred\<rparr>"
  have fresh: "dget (run_tasks m) ?i = None" using lane_invD(1) [OF inv, of ?i] by fastforce
  have below: "pending_in m l j \<Longrightarrow> j < ?i" for l j using lane_invD(1) [OF inv, of j] by (auto simp: pending_in_def split: option.splits)
  have pend: "pending_in ?m l j \<longleftrightarrow> pending_in m l j \<or> j = ?i \<and> lane = Some l" for l j
    using fresh by (auto simp: pending_in_def)
  have "\<exists>p. tk_pred u = Some p \<and> pending_in ?m l p \<and> j \<le> p \<and> p < k"
    if "dget (run_tasks ?m) k = Some u" "tk_lane u = Some l" "j < k" "pending_in ?m l j" for k u l j
  proof (cases "k = ?i")
    case True
    with that have u: "u = ?t" "lane = Some l" "pending_in m l j" using pend by auto
    then obtain q where "dget (run_tails m) l = Some q" "pending_in m l q" "j \<le> q" using lane_invD(4) [OF inv] by blast
    with u True pend below [of l q] pred [of l] show ?thesis by simp
  next
    case False
    with that have old: "dget (run_tasks m) k = Some u" by simp
    then have "k < ?i" using lane_invD(1) [OF inv] by blast
    with that pend old lane_invD(3) [OF inv old that(2), of j] show ?thesis by auto
  qed
  moreover have "\<exists>k. dget tails l = Some k \<and> pending_in ?m l k \<and> j \<le> k" if "pending_in ?m l j" for l j
    using that pend below [of l j] lane_invD(4) [OF inv, of l j] tails by (auto split: option.splits)
  moreover have "waits_first (tk_prog u) \<or> (\<forall>j<k. \<not> pending_in ?m l j)"
    if "dget (run_tasks ?m) k = Some u" "tk_lane u = Some l" for k u l
    using that pend prog lane_invD(5) [OF inv, of k u l] lane_invD(1) [OF inv, of k u] by (fastforce split: if_splits)
  moreover have "k < Suc ?i \<and> k \<notin> set (run_finished m)" if "dget (run_tasks ?m) k = Some u" for k u
    using that lane_invD(1) [OF inv, of k u] lane_invD(2) [OF inv, of k] by (auto split: if_splits)
  moreover have "k < Suc ?i" if "k \<in> set (run_finished m)" for k using that lane_invD(2) [OF inv, of k] by simp
  ultimately show ?thesis unfolding lane_inv_def by simp
qed

section \<open>Every step keeps the lanes\<close>

lemma lane_inv_finish:
  assumes inv: "lane_inv m" and t: "dget (run_tasks m) i = Some t" and p: "pred_done m t"
  shows "lane_inv (finish_task m i t err)"
proof -
  let ?tails = "case tk_lane t of None \<Rightarrow> run_tails m
    | Some lane \<Rightarrow> if dget (run_tails m) lane = Some i then ddel (run_tails m) lane else run_tails m"
  have "lane_inv (m\<lparr>run_tasks := ddel (run_tasks m) i, run_finished := i # run_finished m, run_tails := ?tails\<rparr>)"
    by (rule lane_inv_remove [OF inv t]) (use pred_done_first [OF inv t _ p] in \<open>auto split: option.split\<close>)
  then have "lane_inv (m\<lparr>run_tasks := ddel (run_tasks m) i, run_finished := i # run_finished m, run_tails := ?tails,
      run_stage := case err of None \<Rightarrow> run_stage m | Some e \<Rightarrow> on_background_task_done (run_stage m) e\<rparr>)"
    by (simp only: lane_inv_stage)
  then show ?thesis by (simp add: finish_task_def)
qed

lemma lane_inv_exec:
  assumes inv: "lane_inv m" and t: "dget (run_tasks m) i = Some t" "tk_prog t = a # rest"
    and w: "a = RWait \<Longrightarrow> pred_done m t" and e: "exec E ans s a = (Inr new, s')"
  shows "lane_inv (m\<lparr>run_tasks := dset (run_tasks m) i (t\<lparr>tk_prog := new @ rest\<rparr>)\<rparr>)"
proof (rule lane_inv_prog [OF inv t(1)])
  fix lane assume lane: "tk_lane t = Some lane"
  consider "a = RWait" | "is_reading a" "waits_first rest" | "\<forall>j<i. \<not> pending_in m lane j"
    using lane_invD(5) [OF inv t(1) lane] t(2) by auto
  then show "waits_first (new @ rest) \<or> (\<forall>j<i. \<not> pending_in m lane j)"
  proof cases
    case 1
    with pred_done_first [OF inv t(1) lane] w show ?thesis by blast
  next
    case 2
    then show ?thesis using reading_then_waits [OF _ e] waits_first_append by blast
  qed blast
qed

lemma lane_inv_drop: "lane_inv m \<Longrightarrow> dget (run_tasks m) i = Some t \<Longrightarrow> tk_lane t = None \<Longrightarrow> lane_inv (m\<lparr>run_tasks := ddel (run_tasks m) i\<rparr>)"
  using lane_inv_remove [of m i t "run_tails m" "run_finished m"] by auto

lemma pred_done_stage [simp]: "pred_done (m\<lparr>run_stage := s\<rparr>) t = pred_done m t"
  by (simp add: pred_done_def cong: option.case_cong)

lemma task_step_exec:
  assumes "dget (run_tasks m) i = Some t" "tk_prog t = a # rest" "\<nexists>e. a = RFinish e" "a = RWait \<Longrightarrow> pred_done m t"
    and "exec E ans (run_stage m) a = (res, s)"
  shows "task_step E ans m i = (case res of
      Inr new \<Rightarrow> m\<lparr>run_stage := s, run_tasks := dset (run_tasks m) i (t\<lparr>tk_prog := new @ rest\<rparr>)\<rparr>
    | Inl e \<Rightarrow> if tk_lane t = None then m\<lparr>run_stage := s, run_tasks := ddel (run_tasks m) i\<rparr>
        else m\<lparr>run_stage := s, run_tasks := dset (run_tasks m) i (t\<lparr>tk_prog := [RFinish (Some e)]\<rparr>)\<rparr>)"
  using assms by (cases a) (simp_all add: task_step_def del: exec.simps)

text \<open>The cases of a task step: nothing, the end of a detached task, the end of a receive task, an action.\<close>

lemma task_step_cases:
  obtains "task_step E ans m i = m"
  | t where "dget (run_tasks m) i = Some t" "tk_lane t = None" "task_step E ans m i = m\<lparr>run_tasks := ddel (run_tasks m) i\<rparr>"
  | t err where "dget (run_tasks m) i = Some t" "pred_done m t" "task_step E ans m i = finish_task m i t err"
  | t a rest new s where "dget (run_tasks m) i = Some t" "tk_prog t = a # rest" "a = RWait \<Longrightarrow> pred_done m t"
      "exec E ans (run_stage m) a = (Inr new, s)"
      "task_step E ans m i = m\<lparr>run_stage := s, run_tasks := dset (run_tasks m) i (t\<lparr>tk_prog := new @ rest\<rparr>)\<rparr>"
  | t a rest e s where "dget (run_tasks m) i = Some t" "tk_prog t = a # rest" "exec E ans (run_stage m) a = (Inl e, s)"
      "task_step E ans m i = (if tk_lane t = None then m\<lparr>run_stage := s, run_tasks := ddel (run_tasks m) i\<rparr>
        else m\<lparr>run_stage := s, run_tasks := dset (run_tasks m) i (t\<lparr>tk_prog := [RFinish (Some e)]\<rparr>)\<rparr>)"
proof (cases "dget (run_tasks m) i")
  case None
  then show thesis using that(1) by (simp add: task_step_def)
next
  case (Some t)
  show thesis
  proof (cases "tk_prog t")
    case Nil
    with Some show thesis using that(1,2) by (cases "tk_lane t = None") (simp_all add: task_step_def)
  next
    case (Cons a rest)
    consider err where "a = RFinish err" | "a = RWait" "\<not> pred_done m t" | "\<nexists>e. a = RFinish e" "a = RWait \<Longrightarrow> pred_done m t" by blast
    then show thesis
    proof cases
      case 1
      with Some Cons show thesis using that(1,3) by (cases "pred_done m t") (simp_all add: task_step_def)
    next
      case 2
      with Some Cons show thesis using that(1) by (simp add: task_step_def)
    next
      case 3
      obtain res s where e: "exec E ans (run_stage m) a = (res, s)" by force
      show thesis
      proof (cases res)
        case (Inl err)
        with task_step_exec [OF Some Cons 3 e] e that(5) [OF Some Cons] show thesis by simp
      next
        case (Inr new)
        with task_step_exec [OF Some Cons 3 e] e that(4) [OF Some Cons 3(2)] show thesis by simp
      qed
    qed
  qed
qed

lemma lane_inv_task_step:
  assumes inv: "lane_inv m"
  shows "lane_inv (task_step E ans m i)"
proof (cases rule: task_step_cases [of E ans m i])
  case (4 t a rest new s)
  have "lane_inv (m\<lparr>run_stage := s\<rparr>)" using inv by simp
  from lane_inv_exec [OF this _ 4(2) _ 4(4)] 4 show ?thesis by simp
next
  case (5 t a rest e s)
  have inv': "lane_inv (m\<lparr>run_stage := s\<rparr>)" and t': "dget (run_tasks (m\<lparr>run_stage := s\<rparr>)) i = Some t"
    using inv 5 by simp_all
  from 5 lane_inv_drop [OF inv' t'] lane_inv_prog [OF inv' t', of "[RFinish (Some e)]"] show ?thesis by simp
qed (simp_all add: inv lane_inv_drop lane_inv_finish)

lemma lane_inv_spawn: "lane_inv m \<Longrightarrow> lane_inv (spawn m prog)"
  using lane_inv_add [of m prog None None "run_tails m"] by (simp add: spawn_def)

lemma lane_inv_schedule:
  assumes inv: "lane_inv m" shows "lane_inv (schedule_receive_task m msg)"
proof -
  let ?l = "(dm_request msg, dm_from msg)" and ?m = "m\<lparr>run_stage := record_replica_bindings (run_stage m) (dm_request msg) (dm_bindings msg)\<rparr>"
  have "lane_inv ?m" using inv by simp
  then show ?thesis
    using lane_inv_add [of ?m "[RStart msg, RFinish None]" "Some ?l" "dget (run_tails m) ?l" "dset (run_tails m) ?l (run_next m)"]
    by (simp add: schedule_receive_task_def Let_def)
qed

lemma run_head_lanes:
  "run_tasks (run_head E ans m prog) = run_tasks m" "run_finished (run_head E ans m prog) = run_finished m"
  "run_tails (run_head E ans m prog) = run_tails m" "run_next (run_head E ans m prog) = run_next m"
  by (auto simp: run_head_def split: list.split sum.split prod.split)

lemma drain_take_lanes:
  "run_tasks (drain_take E ans m out) = run_tasks m" "run_finished (drain_take E ans m out) = run_finished m"
  "run_tails (drain_take E ans m out) = run_tails m" "run_next (drain_take E ans m out) = run_next m"
  by (auto simp: drain_take_def Let_def run_head_lanes split: out_msg.split sum.split option.split)

lemma lane_inv_cong:
  "run_tasks m' = run_tasks m \<Longrightarrow> run_finished m' = run_finished m \<Longrightarrow> run_tails m' = run_tails m \<Longrightarrow> run_next m' = run_next m \<Longrightarrow>
   lane_inv m \<Longrightarrow> lane_inv m'"
  by (simp add: lane_inv_def pending_in_def)

lemma dget_filter_tasks: "dict_ok d \<Longrightarrow> dget (filter (\<lambda>(i, t). P t) d) i = Some t \<longleftrightarrow> dget d i = Some t \<and> P t"
  by (subst dict_ok_in_set [symmetric]) (auto simp: dict_ok_def distinct_map_filter dict_ok_in_set [symmetric])

text \<open>The table of tasks has no repeated id, so stopping removes every receive task.\<close>

definition tasks_ok :: "stage_run \<Rightarrow> bool" where
  "tasks_ok m \<longleftrightarrow> dict_ok (run_tasks m) \<and> lane_inv m"

lemma dict_ok_task_step: "dict_ok (run_tasks m) \<Longrightarrow> dict_ok (run_tasks (task_step E ans m i))"
  by (cases rule: task_step_cases [of E ans m i]) (simp_all add: finish_task_def)

lemma lane_inv_no_lanes:
  assumes "\<And>i t. dget (run_tasks m') i = Some t \<Longrightarrow> dget (run_tasks m) i = Some t \<and> tk_lane t = None"
    and "run_next m' = run_next m" "run_finished m' = run_finished m" "lane_inv m"
  shows "lane_inv m'"
proof -
  have "\<not> pending_in m' lane j" for lane j using assms(1) by (fastforce simp: pending_in_def split: option.splits)
  moreover have "tk_lane t = None" "i < run_next m'" "i \<notin> set (run_finished m')" if "dget (run_tasks m') i = Some t" for i t
    using assms(1) [OF that] assms(2,3) lane_invD(1) [OF assms(4)] by auto
  moreover have "i < run_next m'" if "i \<in> set (run_finished m')" for i
    using that assms(2,3) lane_invD(2) [OF assms(4)] by simp
  ultimately show ?thesis unfolding lane_inv_def by simp
qed

lemma dict_ok_new_task:
  "dict_ok (run_tasks m) \<Longrightarrow> dict_ok (run_tasks (spawn m prog))"
  "dict_ok (run_tasks m) \<Longrightarrow> dict_ok (run_tasks (schedule_receive_task m msg))"
  by (simp_all add: spawn_def schedule_receive_task_def Let_def)

lemma tasks_ok_step: "tasks_ok m \<Longrightarrow> tasks_ok (stage_step E m ev)"
proof (cases ev)
  case (TaskStep i ans)
  assume "tasks_ok m"
  with TaskStep show ?thesis by (simp add: tasks_ok_def lane_inv_task_step dict_ok_task_step)
next
  case (Take out ans)
  assume "tasks_ok m"
  then show ?thesis using Take lane_inv_cong [OF drain_take_lanes] by (simp add: tasks_ok_def drain_take_lanes)
next
  case (DrainStep ans)
  assume "tasks_ok m"
  then show ?thesis using DrainStep lane_inv_cong [OF run_head_lanes] by (simp add: tasks_ok_def run_head_lanes split: option.split list.split)
next
  case Stop
  assume ok: "tasks_ok m"
  have "lane_inv (stage_step E m Stop)"
    by (rule lane_inv_no_lanes [of _ m])
      (use ok dget_filter_tasks [of "run_tasks m" "\<lambda>t. tk_lane t = None"] in \<open>simp_all add: tasks_ok_def\<close>)
  with Stop ok show ?thesis by (simp add: tasks_ok_def dict_ok_def distinct_map_filter)
qed (auto simp: tasks_ok_def Let_def lane_inv_schedule lane_inv_spawn dict_ok_new_task split: prod.split sum.split)

interpretation sr: machine "stage_step E" tasks_ok for E
  by unfold_locales (rule tasks_ok_step)

text \<open>
  C9: a stage delivers in order. Over every interleaving of arriving messages, reads that finish
  early or late or fail, aborts, results and crashes: when a receive task is about to deliver (hand a
  payload, chunk or signal on, or report its failure), no message of the same request and
  sender that arrived earlier is still undelivered.
\<close>

theorem receive_lane_fifo:
  assumes "run_tasks (run (stage_step E) (start_run s) evs) = tasks"
    and "dget tasks i = Some t" "tk_lane t = Some lane" "tk_prog t = a # rest" "is_delivery a"
    and "dget tasks j = Some u" "tk_lane u = Some lane" "j \<noteq> i"
  shows "i < j"
proof (rule ccontr)
  let ?m = "run (stage_step E) (start_run s) evs"
  assume "\<not> i < j"
  then have "j < i" using assms(8) by simp
  have "tasks_ok (start_run s)" by (simp add: tasks_ok_def lane_inv_def start_run_def pending_in_def)
  then have inv: "lane_inv ?m" using sr.inv_run [of "start_run s" E evs] by (simp add: tasks_ok_def)
  have "\<not> waits_first (tk_prog t)" using assms(4,5) by (cases a) auto
  then have "\<not> pending_in ?m lane j" using lane_invD(5) [OF inv, of i t lane] assms \<open>j < i\<close> by auto
  with assms show False by (simp add: pending_in_def)
qed

end
