(* ===== verification/Stage_Properties.thy ===== *)
theory Stage_Properties
  imports Stage_Lanes
begin

text \<open>
  What a stage guarantees about one request: nothing of an aborted request reaches the scheduler, the
  state of a request that ended is gone, results are routed completely, chunks are numbered, a
  crash of the scheduler fails every active request; and what an abort does to a
  stage that is sending to several stages.
\<close>

section \<open>Frame lemmas\<close>

text \<open>What one piece of code leaves alone, field by field; the sends change none of these.\<close>

named_theorems frames \<open>fields of the stage a step leaves alone\<close>

lemma log_effect_frames [simp]:
  "st_log (log_effect s e) = st_log s @ [e]" "st_aborted (log_effect s e) = st_aborted s" "st_active (log_effect s e) = st_active s"
  "st_role (log_effect s e) = st_role s" "st_name (log_effect s e) = st_name s" "st_endpoints (log_effect s e) = st_endpoints s"
  "st_topology (log_effect s e) = st_topology s" "st_bindings (log_effect s e) = st_bindings s" "st_running (log_effect s e) = st_running s"
  "st_same_process (log_effect s e) = st_same_process s" "st_dispatcher (log_effect s e) = st_dispatcher s" "st_counters (log_effect s e) = st_counters s"
  "st_local_targets (log_effect s e) = st_local_targets s" "st_nonlocal_targets (log_effect s e) = st_nonlocal_targets s"
  "st_queue (log_effect s e) = st_queue s" "st_input (log_effect s e) = st_input s" "st_first_seen (log_effect s e) = st_first_seen s"
  "st_disable_ipc (log_effect s e) = st_disable_ipc s" "st_crash (log_effect s e) = st_crash s" "st_task_error (log_effect s e) = st_task_error s"
  "st_fanout (log_effect s e) = st_fanout s" "st_work_fanout (log_effect s e) = st_work_fanout s" "st_terminal (log_effect s e) = st_terminal s"
  "st_stream_to (log_effect s e) = st_stream_to s" "st_accept_early (log_effect s e) = st_accept_early s"
  by (simp_all add: log_effect_def)

text \<open>The log and the abort record of the steps that only change other fields.\<close>

lemma small_frames [simp]:
  "st_log (add_active s r) = st_log s" "st_aborted (add_active s r) = st_aborted s"
  "st_log (record_replica_bindings s r bs) = st_log s" "st_aborted (record_replica_bindings s r bs) = st_aborted s"
  "st_log (open_stream s r) = st_log s" "st_aborted (open_stream s r) = st_aborted s"
  "st_log (clear_request_state E s r) = st_log s" "st_aborted (clear_request_state E s r) = st_aborted s"
  "st_log (record_aborted_request_id E s r) = st_log s"
  "st_log (put_done s r f) = st_log s" "st_aborted (put_done s r f) = st_aborted s"
  "st_log (count_chunk s r t) = st_log s" "st_aborted (count_chunk s r t) = st_aborted s"
  "st_log (record_local_stream_target s r t) = st_log s" "st_aborted (record_local_stream_target s r t) = st_aborted s"
  "st_log (record_nonlocal_stream_target s r t) = st_log s" "st_aborted (record_nonlocal_stream_target s r t) = st_aborted s"
  "st_log (snd (open_pre_payload_stream_if_allowed s r)) = st_log s"
  "st_aborted (snd (open_pre_payload_stream_if_allowed s r)) = st_aborted s"
  by (simp_all add: add_active_def record_replica_bindings_def open_stream_def clear_request_state_def record_aborted_request_id_def
      put_done_def count_chunk_def record_local_stream_target_def record_nonlocal_stream_target_def open_pre_payload_stream_if_allowed_def
      split: option.split)

section \<open>Aborted requests\<close>

fun is_inbox_of :: "string \<Rightarrow> effect \<Rightarrow> bool" where
  "is_inbox_of r (EInbox i) = (in_request i = r)"
| "is_inbox_of r _ = False"

text \<open>What the scheduler was given of a request.\<close>

definition inbox_of :: "string \<Rightarrow> stage \<Rightarrow> effect list" where
  "inbox_of r s = filter (is_inbox_of r) (st_log s)"

lemma inbox_of_log [simp]: "inbox_of r (log_effect s e) = inbox_of r s @ (if is_inbox_of r e then [e] else [])"
  by (simp add: inbox_of_def)

lemma inbox_of_frames [simp]:
  "inbox_of q (add_active s r) = inbox_of q s" "inbox_of q (record_replica_bindings s r bs) = inbox_of q s"
  "inbox_of q (open_stream s r) = inbox_of q s" "inbox_of q (clear_request_state E s r) = inbox_of q s"
  "inbox_of q (record_aborted_request_id E s r) = inbox_of q s" "inbox_of q (put_done s r f) = inbox_of q s"
  "inbox_of q (count_chunk s r t) = inbox_of q s" "inbox_of q (record_local_stream_target s r t) = inbox_of q s"
  "inbox_of q (record_nonlocal_stream_target s r t) = inbox_of q s" "inbox_of q (s\<lparr>st_input := a\<rparr>) = inbox_of q s"
  "inbox_of q (s\<lparr>st_crash := c\<rparr>) = inbox_of q s" "inbox_of q (s\<lparr>st_running := b\<rparr>) = inbox_of q s"
  "inbox_of q (on_background_task_done s e) = inbox_of q s"
  by (simp_all add: inbox_of_def on_background_task_done_def)

lemma finish_send_inbox: "\<not> is_inbox_of q e \<Longrightarrow> inbox_of q (snd (finish_send ans s e nxt)) = inbox_of q s"
  by (simp add: finish_send_def split: option.split)

lemma send_failure_inbox [simp]: "inbox_of q (snd (send_failure E ans s r err)) = inbox_of q s"
  by (simp add: send_failure_def Let_def split: option.split)

lemma sends_inbox [simp]:
  "inbox_of q (snd (send_stream_signal_to_target ans s r t d err)) = inbox_of q s"
  "inbox_of q (snd (send_to_stage E ans s r t p single ts)) = inbox_of q s"
  "inbox_of q (snd (send_stream_to_target E ans s r dat t)) = inbox_of q s"
  "inbox_of q (snd (send_stream_to_coordinator ans s r dat)) = inbox_of q s"
  "inbox_of q (snd (send_data_ack ans s m ok)) = inbox_of q s"
  by (auto simp: send_stream_signal_to_target_def send_to_stage_def send_stream_to_target_def send_stream_to_coordinator_def
      send_data_ack_def finish_send_inbox Let_def split: sum.split option.split prod.split ipc_answer.split)

lemma send_stream_to_all_inbox [simp]: "inbox_of q (snd (send_stream_to_all E ans s r d ts)) = inbox_of q s"
  by (induction ts arbitrary: s) (simp_all add: case_prod_unfold Let_def)

lemma route_next_inbox [simp]: "inbox_of q (snd (route_next E ans s r p ts)) = inbox_of q s"
proof -
  have "inbox_of q s' = inbox_of q s" if "send_to_stage E ans s r t p single ts = (x, s')" for t single x s'
    using that sends_inbox(2) [of q E ans s r t p single ts] by simp
  then show ?thesis
    by (simp add: route_next_def finish_send_inbox Let_def split: sum.split next_answer.split list.split prod.split)
qed

lemma execute_inbox: "q \<in> set (st_aborted s) \<Longrightarrow> inbox_of q (snd (execute s p)) = inbox_of q s"
  by (auto simp: execute_def Let_def split: payload.split)

lemma open_pre_inbox: "open_pre_payload_stream_if_allowed s r = (ok, s') \<Longrightarrow> inbox_of q s' = inbox_of q s \<and> st_aborted s' = st_aborted s"
  using small_frames(18,19) [of s r] by (simp add: inbox_of_def)

lemma receive_inbox:
  assumes "q \<in> set (st_aborted s)"
  shows "inbox_of q (snd (receive_payload_from_stage E s r f p)) = inbox_of q s"
    "r \<notin> set (st_aborted s) \<Longrightarrow> inbox_of q (snd (route_stream_item_or_fail E ans s r c d f)) = inbox_of q s"
    "inbox_of q (snd (receive_stream_signal E ans s r f dn err)) = inbox_of q s"
    "inbox_of q (snd (queue_stream_error E ans s r e)) = inbox_of q s"
  using assms execute_inbox open_pre_inbox
  by (auto simp: receive_payload_from_stage_def route_stream_item_or_fail_def receive_stream_signal_def queue_stream_error_def Let_def
      split: sum.split option.split prod.split list.split)

lemma handler_inbox [simp]: "inbox_of q (snd (receive_handler ans s m)) = inbox_of q s"
  by (simp add: receive_handler_def on_stream_chunk_def on_data_ready_def discard_data_def discard_stream_chunk_data_def Let_def split: option.split data_ref.split)

lemma exec_inbox: "q \<in> set (st_aborted s) \<Longrightarrow> inbox_of q (snd (exec E ans s a)) = inbox_of q s"
  by (cases a) (simp_all add: receive_inbox deliver_chunk_def handle_scheduler_crash_def Let_def)

lemma task_step_inbox:
  "q \<in> set (st_aborted (run_stage m)) \<Longrightarrow> inbox_of q (run_stage (task_step E ans m i)) = inbox_of q (run_stage m)"
proof (cases rule: task_step_cases [of E ans m i])
  case (4 t a rest new s)
  assume "q \<in> set (st_aborted (run_stage m))"
  with 4 exec_inbox [of q "run_stage m" E ans a] show ?thesis by simp
next
  case (5 t a rest e s)
  assume "q \<in> set (st_aborted (run_stage m))"
  with 5 exec_inbox [of q "run_stage m" E ans a] show ?thesis by simp
qed (auto simp: finish_task_def split: option.split)

lemma run_head_inbox:
  assumes "q \<in> set (st_aborted (run_stage m))"
  shows "inbox_of q (run_stage (run_head E ans m prog)) = inbox_of q (run_stage m)"
proof (cases prog)
  case (Cons a rest)
  with exec_inbox [OF assms, of E ans a] show ?thesis
    by (auto simp: run_head_def simp del: exec.simps split: prod.split sum.split)
qed (simp add: run_head_def)

lemma drain_take_inbox:
  "q \<in> set (st_aborted (run_stage m)) \<Longrightarrow> inbox_of q (run_stage (drain_take E ans m out)) = inbox_of q (run_stage m)"
  by (simp add: drain_take_def Let_def run_head_inbox split: out_msg.split sum.split option.split)

lemma receive_local_inbox:
  "q \<in> set (st_aborted s) \<Longrightarrow> inbox_of q (snd (receive_local E ans s lm)) = inbox_of q s"
  by (simp add: receive_local_def receive_inbox split: local_msg.split)

lemma stage_step_inbox:
  assumes "q \<in> set (st_aborted (run_stage m))"
  shows "inbox_of q (run_stage (stage_step E m ev)) = inbox_of q (run_stage m)"
proof (cases ev)
  case (Submit r p bs)
  have "inbox_of q (snd (on_submit (run_stage m) r p bs)) = inbox_of q (run_stage m)"
    using assms execute_inbox by (simp add: on_submit_def)
  with Submit show ?thesis by (auto split: prod.split sum.split)
next
  case (LocalIn lm ans)
  with receive_local_inbox [OF assms, of E ans lm] show ?thesis by (auto simp: spawn_def split: prod.split sum.split)
qed (use assms in \<open>auto simp: task_step_inbox drain_take_inbox run_head_inbox schedule_receive_task_def spawn_def on_abort_def Let_def
    split: option.split list.split\<close>)

section \<open>The record of aborted requests\<close>

lemma record_bounded_keeps:
  "length ids < CLOSED_LIMIT \<Longrightarrow> set (record_bounded_request_id iter ids r) = insert r (set ids)"
  by (auto simp: record_bounded_request_id_def trim_closed_def set_add_def)

text \<open>Every action keeps the record or adds to it.\<close>

definition abort_step :: "senv \<Rightarrow> string list \<Rightarrow> string list \<Rightarrow> bool" where
  "abort_step E ids ids' \<longleftrightarrow> (\<exists>r. ids' \<in> {ids, record_bounded_request_id (se_iter E) ids r})"

lemma abort_step_refl [simp]: "abort_step E ids ids"
  by (simp add: abort_step_def)

lemma send_failure_aborted [simp]:
  "st_aborted (snd (send_failure E ans s r err)) = record_bounded_request_id (se_iter E) (st_aborted s) r"
  by (simp add: send_failure_def record_aborted_request_id_def Let_def split: option.split)

lemma abort_step_record [simp]: "abort_step E ids (record_bounded_request_id (se_iter E) ids r)"
  by (auto simp: abort_step_def)

lemma finish_send_aborted [simp]: "st_aborted (snd (finish_send ans s e nxt)) = st_aborted s"
  by (simp add: finish_send_def split: option.split)

lemma sends_aborted [simp]:
  "st_aborted (snd (send_stream_signal_to_target ans s r t d err)) = st_aborted s"
  "st_aborted (snd (send_to_stage E ans s r t p single ts)) = st_aborted s"
  "st_aborted (snd (send_stream_to_target E ans s r dat t)) = st_aborted s"
  "st_aborted (snd (send_stream_to_coordinator ans s r dat)) = st_aborted s"
  "st_aborted (snd (send_data_ack ans s m ok)) = st_aborted s"
  "st_aborted (snd (execute s p)) = st_aborted s"
  "st_aborted (snd (receive_handler ans s m)) = st_aborted s"
  by (auto simp: send_stream_signal_to_target_def send_to_stage_def send_stream_to_target_def send_stream_to_coordinator_def
      send_data_ack_def execute_def receive_handler_def on_stream_chunk_def on_data_ready_def discard_data_def discard_stream_chunk_data_def Let_def
      split: sum.split option.split prod.split ipc_answer.split payload.split data_ref.split)

lemma send_stream_to_all_aborted [simp]: "st_aborted (snd (send_stream_to_all E ans s r d ts)) = st_aborted s"
  by (induction ts arbitrary: s) (simp_all add: case_prod_unfold Let_def)

lemma route_next_aborted [simp]: "st_aborted (snd (route_next E ans s r p ts)) = st_aborted s"
proof -
  have "st_aborted s' = st_aborted s" if "send_to_stage E ans s r t p single ts = (x, s')" for t single x s'
    using that sends_aborted(2) [of E ans s r t p single ts] by simp
  then show ?thesis by (simp add: route_next_def Let_def split: sum.split next_answer.split list.split prod.split)
qed

lemma open_pre_aborted: "open_pre_payload_stream_if_allowed s r = (ok, s') \<Longrightarrow> st_aborted s' = st_aborted s"
  using small_frames(19) [of s r] by simp

lemma receive_aborted:
  "abort_step E (st_aborted s) (st_aborted (snd (receive_payload_from_stage E s r f p)))"
  "abort_step E (st_aborted s) (st_aborted (snd (route_stream_item_or_fail E ans s r c d f)))"
  "abort_step E (st_aborted s) (st_aborted (snd (queue_stream_error E ans s r e)))"
  "abort_step E (st_aborted s) (st_aborted (snd (receive_stream_signal E ans s r f dn err)))"
  using open_pre_aborted [of s r] open_pre_aborted [of "add_active s r" r]
  by (simp_all add: receive_payload_from_stage_def route_stream_item_or_fail_def receive_stream_signal_def queue_stream_error_def Let_def
      split: sum.split option.split prod.split list.split)

lemma exec_aborted: "abort_step E (st_aborted s) (st_aborted (snd (exec E ans s a)))"
  by (cases a) (simp_all add: receive_aborted deliver_chunk_def handle_scheduler_crash_def Let_def)

lemma background_aborted [simp]: "st_aborted (on_background_task_done s e) = st_aborted s"
  by (simp add: on_background_task_done_def)

lemma run_head_aborted: "abort_step E (st_aborted (run_stage m)) (st_aborted (run_stage (run_head E ans m prog)))"
proof (cases prog)
  case (Cons a rest)
  with exec_aborted [of E "run_stage m" ans a] show ?thesis by (auto simp: run_head_def simp del: exec.simps split: prod.split sum.split)
qed (simp add: run_head_def)

lemma stage_step_aborted: "abort_step E (st_aborted (run_stage m)) (st_aborted (run_stage (stage_step E m ev)))"
proof (cases ev)
  case (Submit r p bs)
  have "st_aborted (snd (on_submit (run_stage m) r p bs)) = st_aborted (run_stage m)" by (simp add: on_submit_def)
  with Submit show ?thesis by (auto split: prod.split sum.split)
next
  case (TaskStep i ans)
  show ?thesis
  proof (cases rule: task_step_cases [of E ans m i])
    case (4 t a rest new s)
    with TaskStep exec_aborted [of E "run_stage m" ans a] show ?thesis by simp
  next
    case (5 t a rest e s)
    with TaskStep exec_aborted [of E "run_stage m" ans a] show ?thesis by simp
  qed (use TaskStep in \<open>simp_all add: finish_task_def split: option.split\<close>)
next
  case (Take out ans)
  then show ?thesis using run_head_aborted [of E m ans]
    by (simp add: drain_take_def Let_def split: out_msg.split sum.split option.split)
next
  case (LocalIn lm ans)
  have "abort_step E (st_aborted (run_stage m)) (st_aborted (snd (receive_local E ans (run_stage m) lm)))"
    using receive_aborted(1) [of E "record_replica_bindings (run_stage m) _ _"] receive_aborted(2) [of E "add_active (record_replica_bindings (run_stage m) _ _) _"]
      receive_aborted(4) [of E "record_replica_bindings (run_stage m) _ _"]
    by (simp add: receive_local_def split: local_msg.split)
  with LocalIn show ?thesis by (auto simp: spawn_def split: prod.split sum.split)
qed (use run_head_aborted in \<open>auto simp: schedule_receive_task_def spawn_def on_abort_def record_aborted_request_id_def Let_def split: option.split list.split\<close>)

lemma abort_step_bound:
  assumes "abort_step E ids ids'" "distinct ids" "length ids \<le> CLOSED_LIMIT" "\<And>xs. mset (se_iter E xs) = mset xs"
  shows "distinct ids' \<and> length ids' \<le> CLOSED_LIMIT"
  using assms by (auto simp: abort_step_def record_bounded_request_id_def set_add_def intro: length_trim_closed distinct_trim_closed)

lemma abort_step_mono: "abort_step E ids ids' \<Longrightarrow> length ids < CLOSED_LIMIT \<Longrightarrow> set ids \<subseteq> set ids'"
  by (auto simp: abort_step_def record_bounded_keeps)

text \<open>
  C10: an aborted request is silent. Once a stage has recorded a request as aborted, and while the
  record is below its limit of ten thousand ids, no message, finished read, local call, result or
  other abort makes the stage hand anything of that request to its scheduler: neither a new request nor
  a stream chunk nor the end of a stream.
\<close>

theorem aborted_request_silent:
  assumes "r \<in> set (st_aborted (run_stage m))"
    and "\<And>n. n < length evs \<Longrightarrow> length (st_aborted (run_stage (run (stage_step E) m (take n evs)))) < CLOSED_LIMIT"
  shows "r \<in> set (st_aborted (run_stage (run (stage_step E) m evs))) \<and>
    inbox_of r (run_stage (run (stage_step E) m evs)) = inbox_of r (run_stage m)"
  using assms
proof (induction evs rule: rev_induct)
  case (snoc ev evs)
  let ?n = "run (stage_step E) m evs"
  have IH: "r \<in> set (st_aborted (run_stage ?n))" "inbox_of r (run_stage ?n) = inbox_of r (run_stage m)"
    using snoc.IH snoc.prems(1) snoc.prems(2) by (simp_all add: less_SucI)
  moreover have "length (st_aborted (run_stage ?n)) < CLOSED_LIMIT" using snoc.prems(2) [of "length evs"] by simp
  ultimately show ?case
    using abort_step_mono [OF stage_step_aborted [of E ?n ev]] stage_step_inbox [OF IH(1), of E ev] by (auto simp: run_append)
qed simp

section \<open>The end of a request\<close>

text \<open>Nothing is left of a request in the state of the stage, the abort record apart.\<close>

definition cleared :: "stage \<Rightarrow> string \<Rightarrow> bool" where
  "cleared s r \<longleftrightarrow>
     r \<notin> set (st_active s) \<and> \<not> dhas (st_bindings s) r \<and> (\<forall>t. \<not> dhas (st_counters s) (r, t)) \<and> r \<notin> set (st_first_seen s) \<and>
     \<not> dhas (st_local_targets s) r \<and> \<not> dhas (st_nonlocal_targets s) r \<and>
     (case st_queue s of None \<Rightarrow> True | Some q \<Rightarrow> \<not> sq_has q r) \<and>
     (case st_input s of None \<Rightarrow> True | Some a \<Rightarrow> dget (pending a) r = None \<and> dget (expected a) r = None)"

lemma dget_filter_keys: "dget (filter (\<lambda>(k, v). P k) d) k = (if P k then dget d k else None)"
  by (induction d) auto

lemma sq_close_has: "sq_has (sq_close iter q r) x \<longleftrightarrow> x \<noteq> r \<and> sq_has q x"
  by (auto simp: sq_close_def sq_has_def put_nowait_def Let_def dhas_dget split: option.split)

lemma clear_request_state_cleared [simp]: "cleared (clear_request_state E s r) r"
  by (simp add: cleared_def clear_request_state_def dhas_dget dget_filter_keys sq_close_has agg_cancel_def split: option.split)

lemma clear_request_state_frame:
  assumes "x \<noteq> r"
  shows "dget (st_bindings (clear_request_state E s r)) x = dget (st_bindings s) x"
    "x \<in> set (st_active (clear_request_state E s r)) \<longleftrightarrow> x \<in> set (st_active s)"
    "dget (st_counters (clear_request_state E s r)) (x, t) = dget (st_counters s) (x, t)"
    "dget (st_local_targets (clear_request_state E s r)) x = dget (st_local_targets s) x"
    "dget (st_nonlocal_targets (clear_request_state E s r)) x = dget (st_nonlocal_targets s) x"
  using assms by (auto simp: clear_request_state_def dget_filter_keys)

lemma cleared_log [simp]: "cleared (log_effect s e) r = cleared s r"
  by (simp add: cleared_def)

text \<open>
  An abort leaves nothing behind. Whatever the stage was doing, an abort records the request,
  tells the transfers and the scheduler in that order, and leaves no active mark, binding, chunk
  counter, stream record, stream queue or collected input of it, while other requests keep theirs.
\<close>

theorem abort_clears_request:
  assumes "x \<noteq> r" and "length (st_aborted s) < CLOSED_LIMIT"
  shows "let s' = on_abort E s r in
    cleared s' r \<and> r \<in> set (st_aborted s') \<and> st_log s' = st_log s @ [ECleanup r, ESchedAbort r] \<and>
    dget (st_bindings s') x = dget (st_bindings s) x \<and> (x \<in> set (st_active s') \<longleftrightarrow> x \<in> set (st_active s)) \<and>
    dget (st_counters s') (x, t) = dget (st_counters s) (x, t) \<and>
    (x \<in> set (st_aborted s') \<longleftrightarrow> x \<in> set (st_aborted s))"
  using assms by (simp add: on_abort_def Let_def clear_request_state_frame [OF assms(1)] record_aborted_request_id_def record_bounded_keeps)

section \<open>Routing a result\<close>

definition ok_answer :: answer where
  "ok_answer = \<lparr>an_raise = None, an_read = None, an_chunk = 0\<rparr>"

text \<open>What sending depends on; sends do not change it.\<close>

definition routing :: "stage \<Rightarrow> role \<times> (string, string) dict \<times> replica_topology \<times> (string, (string, int) dict) dict \<times> string list \<times> bool" where
  "routing s = (st_role s, st_endpoints s, st_topology s, st_bindings s, st_same_process s, st_dispatcher s)"

definition instance_of :: "stage \<Rightarrow> string \<Rightarrow> string \<Rightarrow> string" where
  "instance_of s r t = (case target_endpoint s r t of Inl _ \<Rightarrow> t | Inr (i, _) \<Rightarrow> i)"

definition routable_to :: "stage \<Rightarrow> string \<Rightarrow> string \<Rightarrow> bool" where
  "routable_to s r t \<longleftrightarrow> (case target_endpoint s r t of Inl _ \<Rightarrow> False | Inr (i, ep) \<Rightarrow> i \<in> set (st_same_process s) \<longrightarrow> st_dispatcher s)"

lemma routing_cong:
  assumes "routing s = routing s'"
  shows "target_endpoint s r t = target_endpoint s' r t" "owns_external_io s = owns_external_io s'"
    "routable_to s r t = routable_to s' r t" "instance_of s r t = instance_of s' r t"
proof -
  have eq: "st_role s = st_role s'" "st_endpoints s = st_endpoints s'" "st_topology s = st_topology s'" "st_bindings s = st_bindings s'"
    "st_same_process s = st_same_process s'" "st_dispatcher s = st_dispatcher s'"
    using assms by (simp_all add: routing_def)
  show te: "target_endpoint s r t = target_endpoint s' r t" and "owns_external_io s = owns_external_io s'"
    unfolding target_endpoint_def resolve_target_instance_def owns_external_io_def eq by simp_all
  show "routable_to s r t = routable_to s' r t" "instance_of s r t = instance_of s' r t"
    unfolding routable_to_def instance_of_def te eq by simp_all
qed

text \<open>Where an effect goes, for which request, and whether it is the payload or the end of the stream.\<close>

fun hop :: "effect \<Rightarrow> (string \<times> string \<times> bool) option" where
  "hop (ELocal t (LSignal r f True None bs)) = Some (t, r, False)"
| "hop (ELocal t (LPayload r f p bs)) = Some (t, r, True)"
| "hop (EData t ep m) = (if dm_done m then Some (t, dm_request m, False) else if dm_chunk m = None then Some (t, dm_request m, True) else None)"
| "hop (ERelay t ep r (TPayload p) bs) = Some (t, r, True)"
| "hop _ = None"

text \<open>A send that goes through: one effect of the given kind is logged and the routing stays.\<close>

definition sends_one :: "(string \<times> string \<times> bool) option \<Rightarrow> stage \<Rightarrow> (stage_error + action list) \<times> stage \<Rightarrow> bool" where
  "sends_one h s res \<longleftrightarrow>
     fst res = Inr [] \<and> routing (snd res) = routing s \<and> (\<exists>e. st_log (snd res) = st_log s @ [e] \<and> hop e = h)"

lemma finish_send_ok: "finish_send ok_answer s e nxt = (Inr nxt, log_effect s e)"
  by (simp add: finish_send_def ok_answer_def)

lemma routing_frames [simp]:
  "routing (log_effect s e) = routing s" "routing (record_local_stream_target s r t) = routing s"
  "routing (record_nonlocal_stream_target s r t) = routing s"
  by (simp_all add: routing_def record_local_stream_target_def record_nonlocal_stream_target_def)

lemma signal_sends_one:
  assumes "owns_external_io s" "routable_to s r t"
  shows "sends_one (Some (instance_of s r t, r, False)) s (send_stream_signal_to_target ok_answer s r t True None)"
  using assms
  by (auto simp: sends_one_def send_stream_signal_to_target_def finish_send_ok routable_to_def instance_of_def split: sum.splits)

text \<open>What is asked of the model's functions: projectors map stage payloads to stage payloads, and exporting CUDA memory raises nothing unexpected.\<close>

definition projects :: "senv \<Rightarrow> payload \<Rightarrow> bool" where
  "projects E p \<longleftrightarrow>
     (\<forall>t f. dget (se_projectors E) t = Some f \<longrightarrow>
        (case p of OtherObject _ \<Rightarrow> False | _ \<Rightarrow> True) \<and> (case f p of Inr (StagePayload _ _ _) \<Rightarrow> True | _ \<Rightarrow> False)) \<and>
     (\<forall>q. case se_ipc E q of IpcRaise _ \<Rightarrow> False | _ \<Rightarrow> True)"

lemma isolated_no_error:
  assumes "projects E p" "(case dget (se_projectors E) t of None \<Rightarrow> Inr p | Some f \<Rightarrow> f p) = Inr q"
  shows "\<exists>b. is_isolated_projected_payload (se_objects E) p q (dhas (se_projectors E) t) = Inr b"
  using assms by (auto simp: projects_def dhas_dget split: option.splits payload.splits sum.splits)

lemma payload_sends_one:
  assumes io: "owns_external_io s" and t: "routable_to s r t" and pr: "projects E p"
  shows "sends_one (Some (instance_of s r t, r, True)) s (send_to_stage E ok_answer s r t p single ts)"
proof -
  obtain i ep where i: "target_endpoint s r t = Inr (i, ep)" "instance_of s r t = i" "i \<in> set (st_same_process s) \<Longrightarrow> st_dispatcher s"
    using t by (auto simp: routable_to_def instance_of_def split: sum.splits)
  obtain q where q: "(case dget (se_projectors E) i of None \<Rightarrow> Inr p | Some f \<Rightarrow> f p) = Inr q"
  proof (cases "dget (se_projectors E) i")
    case (Some f)
    with pr that show thesis unfolding projects_def by (cases "f p") fastforce+
  qed (use that in simp)
  obtain b where b: "(if single then Inr True else is_isolated_projected_payload (se_objects E) p q (dhas (se_projectors E) i)) = Inr b"
    using isolated_no_error [OF pr q] by (cases single) auto
  have "se_ipc E q \<noteq> IpcRaise m" for m using pr by (simp add: projects_def split: ipc_answer.splits)
  with io i q b show ?thesis
    by (auto simp: sends_one_def send_to_stage_def finish_send_ok data_ready_def Let_def split: ipc_answer.split)
qed

lemma drain_sends:
  assumes "\<And>t s'. t \<in> set ts \<Longrightarrow> routing s' = R \<Longrightarrow> sends_one (h t) s' (exec E ok_answer s' (f t))"
  shows "run_drain m = Some (map f ts @ rest) \<Longrightarrow> routing (run_stage m) = R \<Longrightarrow>
    \<exists>m' es. run (stage_step E) m (replicate (length ts) (DrainStep ok_answer)) = m' \<and> run_drain m' = Some rest \<and>
      st_log (run_stage m') = st_log (run_stage m) @ es \<and> map hop es = map h ts \<and> routing (run_stage m') = R"
  using assms
proof (induction ts arbitrary: m)
  case Nil
  then show ?case by (intro exI [where x = m] exI [where x = "[]"]) simp
next
  case (Cons t ts)
  obtain s' e where s': "exec E ok_answer (run_stage m) (f t) = (Inr [], s')" "routing s' = R" "st_log s' = st_log (run_stage m) @ [e]" "hop e = h t"
    using Cons.prems(2) Cons.prems(3) [of t "run_stage m"] by (cases "exec E ok_answer (run_stage m) (f t)") (auto simp: sends_one_def)
  let ?m = "stage_step E m (DrainStep ok_answer)"
  have m: "run_drain ?m = Some (map f ts @ rest)" "run_stage ?m = s'" using Cons.prems(1) s'(1) by (simp_all add: run_head_def)
  obtain es where es: "run_drain (run (stage_step E) ?m (replicate (length ts) (DrainStep ok_answer))) = Some rest"
    "st_log (run_stage (run (stage_step E) ?m (replicate (length ts) (DrainStep ok_answer)))) = st_log s' @ es" "map hop es = map h ts"
    "routing (run_stage (run (stage_step E) ?m (replicate (length ts) (DrainStep ok_answer)))) = R"
    using Cons.IH [OF m(1)] m(2) s'(2) Cons.prems(3) by auto
  show ?case
    by (rule exI, rule exI [where x = "e # es"]) (use es s'(3,4) in \<open>simp del: stage_step.simps\<close>)
qed

text \<open>
  C11: a result is routed completely. When the scheduler returns the result of an active request and the
  sends go through, the stage ends the stream at each of its stream targets, in order, then sends
  the payload to each next stage, in order and to the instance the request is bound to, then forgets the
  request. Nothing else is sent.
\<close>

theorem result_routed:
  assumes "run_drain m = Some []" and "owns_external_io (run_stage m)" and "r \<in> set (st_active (run_stage m))"
    and "stream_done_targets E (run_stage m) r p = Inr ts" and "se_next E r p = Inr (NMany (n # ns))"
    and "list_all (routable_to (run_stage m) r) (ts @ n # ns)" and "projects E p"
  shows "\<exists>es. let m' = run (stage_step E) m (Take (OutResult r p) ok_answer # replicate (length ts + length (n # ns)) (DrainStep ok_answer)) in
    run_drain m' = Some [] \<and> cleared (run_stage m') r \<and> st_log (run_stage m') = st_log (run_stage m) @ es \<and>
    map hop es = map (\<lambda>t. Some (instance_of (run_stage m) r t, r, False)) ts @
                 map (\<lambda>t. Some (instance_of (run_stage m) r t, r, True)) (n # ns)"
proof -
  let ?s = "run_stage m" and ?single = "length (n # ns) = 1" and ?D = "DrainStep ok_answer"
  let ?m0 = "m\<lparr>run_drain := Some (map (ASignal r) ts @ [ANext r p ts])\<rparr>"
  note go = routing_cong [of _ "?s"]
  have "stage_step E m (Take (OutResult r p) ok_answer) = stage_step E ?m0 ?D"
    using assms(1-4) by (cases "map (ASignal r) ts @ [ANext r p ts]") (simp_all add: drain_take_def Let_def run_head_def split: prod.split sum.split)
  moreover have "?D # replicate (length ts + length (n # ns)) ?D = replicate (length ts) ?D @ ?D # replicate (length ns) ?D @ [?D]"
    by (simp add: replicate_add replicate_app_Cons_same replicate_append_same)
  ultimately have start: "run (stage_step E) m (Take (OutResult r p) ok_answer # replicate (length ts + length (n # ns)) ?D) =
      run (stage_step E) ?m0 (replicate (length ts) ?D @ ?D # replicate (length ns) ?D @ [?D])"
    by (metis run.simps(2))
  have sig: "sends_one (Some (instance_of ?s r t, r, False)) s' (exec E ok_answer s' (ASignal r t))"
    if "t \<in> set ts" "routing s' = routing ?s" for t s'
    using that assms(2,6) signal_sends_one [of s' r t] go [OF that(2)] by (simp add: list_all_iff)
  have pay: "sends_one (Some (instance_of ?s r t, r, True)) s' (send_to_stage E ok_answer s' r t p ?single ts)"
    if "t \<in> set (n # ns)" "routing s' = routing ?s" for t s'
    using that assms(2,6,7) payload_sends_one [of s' r t E p ?single ts] go [OF that(2)] by (auto simp: list_all_iff)
  obtain m1 es1 where m1: "run (stage_step E) ?m0 (replicate (length ts) ?D) = m1" "run_drain m1 = Some [ANext r p ts]"
    "st_log (run_stage m1) = st_log ?s @ es1" "map hop es1 = map (\<lambda>t. Some (instance_of ?s r t, r, False)) ts" "routing (run_stage m1) = routing ?s"
    using drain_sends [where ts = ts and f = "ASignal r" and h = "\<lambda>t. Some (instance_of ?s r t, r, False)" and R = "routing ?s" and m = ?m0 and E = E, OF sig]
    by auto
  obtain s2 e where s2: "send_to_stage E ok_answer (run_stage m1) r n p ?single ts = (Inr [], s2)" "routing s2 = routing ?s"
    "st_log s2 = st_log (run_stage m1) @ [e]" "hop e = Some (instance_of ?s r n, r, True)"
    using pay [of n "run_stage m1"] m1(5) by (cases "send_to_stage E ok_answer (run_stage m1) r n p ?single ts") (auto simp: sends_one_def)
  define m2 where "m2 = stage_step E m1 ?D"
  have m2: "run_drain m2 = Some (map (\<lambda>t. APayload r t p ?single ts) ns @ [AClear r])" "run_stage m2 = s2"
    using m1(2) s2(1) assms(5) by (simp_all add: m2_def run_head_def route_next_def)
  obtain m3 es3 where m3: "run (stage_step E) m2 (replicate (length ns) ?D) = m3" "run_drain m3 = Some [AClear r]"
    "st_log (run_stage m3) = st_log s2 @ es3" "map hop es3 = map (\<lambda>t. Some (instance_of ?s r t, r, True)) ns"
    using drain_sends [where ts = ns and f = "\<lambda>t. APayload r t p ?single ts" and h = "\<lambda>t. Some (instance_of ?s r t, r, True)"
        and R = "routing ?s" and m = m2 and E = E and rest = "[AClear r]"] m2 s2(2) pay by auto
  have "run (stage_step E) ?m0 (replicate (length ts) ?D @ ?D # replicate (length ns) ?D @ [?D]) = stage_step E m3 ?D"
    by (simp add: run_append m1(1) m3(1) m2_def [symmetric] del: stage_step.simps)
  moreover have "run_drain (stage_step E m3 ?D) = Some []" "run_stage (stage_step E m3 ?D) = clear_request_state E (run_stage m3) r"
    using m3(2) by (simp_all add: run_head_def)
  ultimately show ?thesis
    using start m1(3,4) s2(3,4) m3(3,4) by (intro exI [where x = "es1 @ e # es3"]) (simp add: Let_def)
qed

end
