(* ===== verification/Stage_Streams.thy ===== *)
theory Stage_Streams
  imports Stage_Properties
begin

text \<open>
  Streams and crashes of a stage: the numbering of stream chunks, what the stage reports when the
  scheduler thread dies, and the abort of a request whose result is being sent.
\<close>

section \<open>Chunk numbers\<close>

fun chunk_sent :: "string \<Rightarrow> string \<Rightarrow> effect \<Rightarrow> nat option" where
  "chunk_sent r t (ELocal t' (LChunk r' f c d bs)) = (if t' = t \<and> r' = r then Some c else None)"
| "chunk_sent r t (EData t' ep m) = (if t' = t \<and> dm_request m = r then dm_chunk m else None)"
| "chunk_sent r t (ERelay t' ep r' (TChunk c d) bs) = (if t' = t \<and> r' = r then Some c else None)"
| "chunk_sent r t (EStream m) = (if t = ''coordinator'' \<and> sm_request_id m = r then Some (fst (sm_chunk m)) else None)"
| "chunk_sent r t _ = None"

text \<open>The numbers of the chunks of a request sent to a target, in the order of the sends.\<close>

definition chunk_ids :: "string \<Rightarrow> string \<Rightarrow> stage \<Rightarrow> nat list" where
  "chunk_ids r t s = List.map_filter (chunk_sent r t) (st_log s)"

lemma chunk_ids_log [simp]: "chunk_ids r t (log_effect s e) = chunk_ids r t s @ (case chunk_sent r t e of None \<Rightarrow> [] | Some n \<Rightarrow> [n])"
  by (simp add: chunk_ids_def map_filter_def split: option.split)

text \<open>A step that sends no chunk: the counter stays, or is dropped with the request.\<close>

definition no_chunk :: "string \<Rightarrow> string \<Rightarrow> stage \<Rightarrow> stage \<Rightarrow> bool" where
  "no_chunk r t s s' \<longleftrightarrow> chunk_ids r t s' = chunk_ids r t s \<and> next_chunk_id s' r t \<in> {next_chunk_id s r t, 0}"

lemma no_chunk_refl [simp]: "no_chunk r t s s"
  by (simp add: no_chunk_def)

lemma no_chunk_trans: "no_chunk r t s s' \<Longrightarrow> no_chunk r t s' s'' \<Longrightarrow> no_chunk r t s s''"
  by (auto simp: no_chunk_def)

lemma next_chunk_log [simp]: "next_chunk_id (log_effect s e) r t = next_chunk_id s r t"
  by (simp add: next_chunk_id_def)

lemma no_chunk_log [simp]: "chunk_sent r t e = None \<Longrightarrow> no_chunk r t s (log_effect s' e) = no_chunk r t s s'"
  by (simp add: no_chunk_def)

lemma no_chunk_same: "st_log s' = st_log s \<Longrightarrow> st_counters s' = st_counters s \<Longrightarrow> no_chunk r t s s'"
  by (simp add: no_chunk_def chunk_ids_def next_chunk_id_def)

text \<open>The steps that touch neither the log nor the counters, and the one that drops counters.\<close>

lemma no_chunk_eq [simp]:
  "no_chunk r t s0 (add_active s q) = no_chunk r t s0 s" "no_chunk r t s0 (record_replica_bindings s q bs) = no_chunk r t s0 s"
  "no_chunk r t s0 (open_stream s q) = no_chunk r t s0 s" "no_chunk r t s0 (record_aborted_request_id E s q) = no_chunk r t s0 s"
  "no_chunk r t s0 (put_done s q f) = no_chunk r t s0 s" "no_chunk r t s0 (record_local_stream_target s q u) = no_chunk r t s0 s"
  "no_chunk r t s0 (record_nonlocal_stream_target s q u) = no_chunk r t s0 s" "no_chunk r t s0 (s\<lparr>st_input := a\<rparr>) = no_chunk r t s0 s"
  "no_chunk r t s0 (s\<lparr>st_crash := c\<rparr>) = no_chunk r t s0 s" "no_chunk r t s0 (s\<lparr>st_running := b\<rparr>) = no_chunk r t s0 s"
  by (simp_all add: no_chunk_def chunk_ids_def next_chunk_id_def add_active_def record_replica_bindings_def open_stream_def
      record_aborted_request_id_def put_done_def record_local_stream_target_def record_nonlocal_stream_target_def split: option.split)

lemma no_chunk_clear [simp]: "no_chunk r t s0 s \<Longrightarrow> no_chunk r t s0 (clear_request_state E s q)"
  by (auto simp: no_chunk_def chunk_ids_def next_chunk_id_def clear_request_state_def dget_filter_keys)

lemma no_chunk_background [simp]: "no_chunk r t s0 (on_background_task_done s e) = no_chunk r t s0 s"
  by (simp add: on_background_task_done_def no_chunk_def chunk_ids_def next_chunk_id_def map_filter_def)

lemma no_chunk_open_pre: "open_pre_payload_stream_if_allowed s q = (ok, s') \<Longrightarrow> no_chunk r t s s'"
  by (rule no_chunk_same) (auto simp: open_pre_payload_stream_if_allowed_def add_active_def split: option.splits if_splits)

lemma no_chunk_finish [simp]: "chunk_sent r t e = None \<Longrightarrow> no_chunk r t s (snd (finish_send ans s' e nxt)) = no_chunk r t s s'"
  by (simp add: finish_send_def split: option.split)

lemma no_chunk_send_failure [simp]: "no_chunk r t s0 s \<Longrightarrow> no_chunk r t s0 (snd (send_failure E ans s q err))"
  by (simp add: send_failure_def Let_def split: option.split)

lemma no_chunk_sends:
  "no_chunk r t s (snd (send_stream_signal_to_target ans s q u d err))"
  "no_chunk r t s (snd (send_to_stage E ans s q u p single ts))"
  "no_chunk r t s (snd (send_data_ack ans s m ok))"
  by (auto simp: send_stream_signal_to_target_def send_to_stage_def send_data_ack_def data_ready_def Let_def
      split: sum.split option.split prod.split ipc_answer.split)

lemma no_chunk_execute [simp]: "no_chunk r t s0 s \<Longrightarrow> no_chunk r t s0 (snd (execute s p))"
  by (simp add: execute_def Let_def split: payload.split)

lemma no_chunk_handler [simp]: "no_chunk r t s (snd (receive_handler ans s m))"
  by (simp add: receive_handler_def on_stream_chunk_def on_data_ready_def discard_data_def discard_stream_chunk_data_def Let_def split: option.split data_ref.split)

lemma no_chunk_route_next: "no_chunk r t s (snd (route_next E ans s q p ts))"
proof -
  have "no_chunk r t s s'" if "send_to_stage E ans s q u p single ts = (x, s')" for u single x s'
    using that no_chunk_sends(2) [of r t s E ans q u p single ts] by simp
  then show ?thesis by (simp add: route_next_def Let_def split: sum.split next_answer.split list.split prod.split)
qed

lemma no_chunk_receive:
  "no_chunk r t s (snd (receive_payload_from_stage E s q f p))"
  "no_chunk r t s (snd (route_stream_item_or_fail E ans s q c d f))"
  "no_chunk r t s (snd (queue_stream_error E ans s q e))"
  "no_chunk r t s (snd (receive_stream_signal E ans s q f dn err))"
proof -
  have qe: "no_chunk r t s0 s \<Longrightarrow> no_chunk r t s0 (snd (queue_stream_error E ans s q e))" for s0 s e by (simp add: queue_stream_error_def)
  show "no_chunk r t s (snd (queue_stream_error E ans s q e))" by (simp add: qe)
  show "no_chunk r t s (snd (receive_payload_from_stage E s q f p))" 
    by (simp add: receive_payload_from_stage_def Let_def split: sum.split option.split prod.split)
  show "no_chunk r t s (snd (route_stream_item_or_fail E ans s q c d f))" "no_chunk r t s (snd (receive_stream_signal E ans s q f dn err))"
    using no_chunk_open_pre [of s q _ _ r t] no_chunk_open_pre [of "add_active s q" q _ _ r t]
    by (auto simp: route_stream_item_or_fail_def receive_stream_signal_def Let_def qe intro: no_chunk_trans [of r t s "add_active s q"]
        split: sum.split option.split prod.split list.split)
qed

text \<open>The two actions that send chunks; no action returns one.\<close>

fun sends_chunk :: "action \<Rightarrow> bool" where
  "sends_chunk (AChunks r d ts) = True"
| "sends_chunk (ACoordChunk r d) = True"
| "sends_chunk _ = False"

lemma no_chunk_exec: "\<not> sends_chunk a \<Longrightarrow> no_chunk r t s (snd (exec E ans s a))"
  by (cases a) (simp_all add: no_chunk_sends no_chunk_receive no_chunk_route_next deliver_chunk_def handle_scheduler_crash_def Let_def)

text \<open>Chunks were sent, if any, with the numbers from the old counter up to the new one.\<close>

definition gap_free :: "string \<Rightarrow> string \<Rightarrow> stage \<Rightarrow> stage \<Rightarrow> bool" where
  "gap_free r t s s' \<longleftrightarrow>
     next_chunk_id s r t \<le> next_chunk_id s' r t \<and> chunk_ids r t s' = chunk_ids r t s @ [next_chunk_id s r t..<next_chunk_id s' r t]"

lemma gap_free_refl [simp]: "gap_free r t s s"
  by (simp add: gap_free_def)

lemma gap_free_trans: "gap_free r t s s' \<Longrightarrow> gap_free r t s' s'' \<Longrightarrow> gap_free r t s s''"
  by (auto simp: gap_free_def) (metis le_Suc_ex upt_add_eq_append)

lemma no_chunk_gap_free: "no_chunk r t s s' \<Longrightarrow> next_chunk_id s r t \<le> next_chunk_id s' r t \<Longrightarrow> gap_free r t s s'"
  by (auto simp: no_chunk_def gap_free_def)

lemma count_chunk_next: "next_chunk_id (count_chunk s q u) r t = (if r = q \<and> t = u then Suc (next_chunk_id s r t) else next_chunk_id s r t)"
  by (auto simp: count_chunk_def next_chunk_id_def)

lemma chunk_frames [simp]:
  "next_chunk_id (record_local_stream_target s q u) r t = next_chunk_id s r t" "chunk_ids r t (record_local_stream_target s q u) = chunk_ids r t s"
  "next_chunk_id (record_nonlocal_stream_target s q u) r t = next_chunk_id s r t" "chunk_ids r t (record_nonlocal_stream_target s q u) = chunk_ids r t s"
  "chunk_ids r t (count_chunk s q u) = chunk_ids r t s"
  by (simp_all add: next_chunk_id_def chunk_ids_def record_local_stream_target_def record_nonlocal_stream_target_def)

lemma finish_send_Inr: "finish_send ans s e nxt = (Inr xs, s') \<Longrightarrow> s' = log_effect s e"
  by (simp add: finish_send_def split: option.splits)

lemma gap_free_send:
  "send_stream_to_target E ans s q d u = (Inr xs, s') \<Longrightarrow> gap_free r t s s'"
  "send_stream_to_coordinator ans s q d = (Inr xs, s') \<Longrightarrow> gap_free r t s s'"
  by (auto simp: send_stream_to_target_def send_stream_to_coordinator_def Let_def data_ready_def gap_free_def count_chunk_next
      dest!: finish_send_Inr split: if_splits sum.splits option.splits)

lemma gap_free_send_all: "send_stream_to_all E ans s q d us = (Inr xs, s') \<Longrightarrow> gap_free r t s s'"
proof (induction us arbitrary: s xs)
  case (Cons u us)
  obtain x s1 where 1: "send_stream_to_target E ans s q d u = (x, s1)" by force
  obtain y s2 where 2: "send_stream_to_all E ans s1 q d us = (y, s2)" by force
  from Cons.prems 1 2 obtain ys where x: "x = Inr ys" "y = Inr xs" "s2 = s'" by (auto split: sum.splits)
  with gap_free_send(1) 1 Cons.IH 2 show ?case by (blast intro: gap_free_trans)
qed simp

lemma exec_chunks: "exec E ans s a = (Inr new, s') \<Longrightarrow> no_chunk r t s s' \<or> gap_free r t s s'"
proof (cases "sends_chunk a")
  case True
  assume "exec E ans s a = (Inr new, s')"
  with True show ?thesis by (cases a) (auto intro: gap_free_send_all gap_free_send(2))
next
  case False
  assume "exec E ans s a = (Inr new, s')"
  with no_chunk_exec [OF False, of r t s E ans] show ?thesis by simp
qed

section \<open>Tasks send no chunks\<close>

definition no_sends :: "action list \<Rightarrow> bool" where
  "no_sends as = list_all (\<lambda>a. \<not> sends_chunk a) as"

lemma no_sends_simps [simp]:
  "no_sends []" "no_sends (a # as) \<longleftrightarrow> \<not> sends_chunk a \<and> no_sends as" "no_sends (as @ bs) \<longleftrightarrow> no_sends as \<and> no_sends bs"
  "no_sends (concat xss) \<longleftrightarrow> list_all no_sends xss"
  by (auto simp: no_sends_def list_all_iff)

definition returns_no_sends :: "(stage_error + action list) \<times> stage \<Rightarrow> bool" where
  "returns_no_sends res = (case fst res of Inl _ \<Rightarrow> True | Inr as \<Rightarrow> no_sends as)"

lemma returns_simps [simp]:
  "returns_no_sends (Inl x, s)" "returns_no_sends (Inr as, s) = no_sends as"
  "returns_no_sends (finish_send ans s e nxt) \<longleftrightarrow> an_raise ans = None \<longrightarrow> no_sends nxt"
  "returns_no_sends (send_failure E ans s r err)" "returns_no_sends (execute s p)"
  by (simp_all add: returns_no_sends_def finish_send_def send_failure_def execute_def Let_def split: option.split payload.split)

lemma returns_sends [simp]:
  "returns_no_sends (send_stream_signal_to_target ans s r t d err)"
  "returns_no_sends (send_to_stage E ans s r t p single ts)"
  "returns_no_sends (send_stream_to_target E ans s r dat t)"
  "returns_no_sends (send_stream_to_coordinator ans s r dat)"
  "returns_no_sends (send_data_ack ans s m ok)"
  by (auto simp: send_stream_signal_to_target_def send_to_stage_def send_stream_to_target_def send_stream_to_coordinator_def
      send_data_ack_def Let_def split: sum.split option.split prod.split ipc_answer.split)

lemma returns_send_all [simp]: "returns_no_sends (send_stream_to_all E ans s r d ts)"
proof (induction ts arbitrary: s)
  case (Cons t ts)
  show ?case using Cons.IH [of "snd (send_stream_to_target E ans s r d t)"]
    by (simp add: returns_no_sends_def case_prod_unfold Let_def split: sum.splits)
qed simp

lemma returns_route_next [simp]: "returns_no_sends (route_next E ans s r p ts)"
proof -
  have "no_sends xs" if "send_to_stage E ans s r u p single ts = (Inr xs, s')" for u single xs s'
    using that returns_sends(2) [of E ans s r u p single ts] by simp
  then show ?thesis
    by (auto simp: route_next_def Let_def no_sends_def list_all_iff split: sum.split next_answer.split list.split prod.split)
qed

lemma returns_receive [simp]:
  "returns_no_sends (receive_payload_from_stage E s r f p)" "returns_no_sends (queue_stream_error E ans s r e)"
  "returns_no_sends (route_stream_item_or_fail E ans s r c d f)" "returns_no_sends (receive_stream_signal E ans s r f dn err)"
  "returns_no_sends (receive_handler ans s m)"
  by (auto simp: receive_payload_from_stage_def queue_stream_error_def route_stream_item_or_fail_def receive_stream_signal_def
      receive_handler_def on_stream_chunk_def on_data_ready_def discard_data_def discard_stream_chunk_data_def Let_def split: sum.split option.split prod.split list.split data_ref.split)

lemma returns_exec: "returns_no_sends (exec E ans s a)"
  by (cases a) (auto simp: list_all_iff deliver_chunk_def handle_scheduler_crash_def data_read_def chunk_read_def discard_read_def Let_def split: option.split)

definition programs_ok :: "stage_run \<Rightarrow> bool" where
  "programs_ok m \<longleftrightarrow> (\<forall>i t. dget (run_tasks m) i = Some t \<longrightarrow> no_sends (tk_prog t))"

lemma programs_ok_task_step: "programs_ok m \<Longrightarrow> programs_ok (task_step E ans m i)"
proof (cases rule: task_step_cases [of E ans m i])
  case (4 t a rest new s)
  assume "programs_ok m"
  then have "no_sends (a # rest)" using 4(1,2) by (metis programs_ok_def)
  with \<open>programs_ok m\<close> 4 returns_exec [of E ans "run_stage m" a] show ?thesis by (auto simp: programs_ok_def)
qed (auto simp: programs_ok_def finish_task_def)

lemma returns_local: "receive_local E ans s lm = (Inr as, s') \<Longrightarrow> no_sends as"
proof -
  have "returns_no_sends (receive_local E ans s lm)" by (simp add: receive_local_def split: local_msg.split)
  then show "receive_local E ans s lm = (Inr as, s') \<Longrightarrow> no_sends as" by simp
qed

lemma dget_filter_snd: "dget (filter P d) k = Some v \<Longrightarrow> \<exists>v'. (k, v') \<in> set d \<and> v = v'"
  by (auto dest: map_of_SomeD)

lemma programs_ok_step:
  assumes ok: "tasks_ok m \<and> programs_ok m" shows "tasks_ok (stage_step E m ev) \<and> programs_ok (stage_step E m ev)"
proof (cases ev)
  case Stop
  then show ?thesis
    using ok tasks_ok_step [of m E ev] dget_filter_tasks [of "run_tasks m" "\<lambda>t. tk_lane t = None"] by (auto simp: programs_ok_def tasks_ok_def)
next
  case (LocalIn lm ans)
  with ok tasks_ok_step [of m E ev] show ?thesis
    using returns_local [of E ans "run_stage m" lm] by (auto simp: programs_ok_def spawn_def split: prod.split sum.split)
next
  case (TaskStep i ans)
  with ok tasks_ok_step [of m E ev] show ?thesis by (simp add: programs_ok_task_step)
qed (use ok tasks_ok_step [of m E ev] in \<open>auto simp: drain_take_lanes run_head_lanes programs_ok_def
    schedule_receive_task_def spawn_def Let_def split: option.split list.split prod.split sum.split\<close>)

interpretation sp: machine "stage_step E" "\<lambda>m. tasks_ok m \<and> programs_ok m" for E
  by unfold_locales (rule programs_ok_step)

section \<open>Numbering over runs\<close>

lemma task_step_chunks: "programs_ok m \<Longrightarrow> no_chunk r t (run_stage m) (run_stage (task_step E ans m i))"
proof (cases rule: task_step_cases [of E ans m i])
  case (4 u a rest new s)
  assume "programs_ok m"
  with 4(1,2) have "\<not> sends_chunk a" by (metis programs_ok_def no_sends_simps(2))
  with 4 no_chunk_exec [of a r t "run_stage m" E ans] show ?thesis by simp
next
  case (5 u a rest e s)
  assume "programs_ok m"
  with 5(1,2) have "\<not> sends_chunk a" by (metis programs_ok_def no_sends_simps(2))
  with 5 no_chunk_exec [of a r t "run_stage m" E ans] show ?thesis by simp
qed (auto simp: finish_task_def split: option.split)

lemma run_head_chunks:
  "run_drain (run_head E ans m prog) \<noteq> None \<Longrightarrow>
   no_chunk r t (run_stage m) (run_stage (run_head E ans m prog)) \<or> gap_free r t (run_stage m) (run_stage (run_head E ans m prog))"
  using exec_chunks [of E ans "run_stage m" _ _ _ r t]
  by (auto simp: run_head_def simp del: exec.simps split: list.splits prod.splits sum.splits)

lemma drain_take_chunks:
  "run_drain (drain_take E ans m out) \<noteq> None \<Longrightarrow>
   no_chunk r t (run_stage m) (run_stage (drain_take E ans m out)) \<or> gap_free r t (run_stage m) (run_stage (drain_take E ans m out))"
  using run_head_chunks [of E ans m _ r t]
  by (auto simp: drain_take_def Let_def split: out_msg.splits sum.splits option.splits if_splits)

lemma receive_local_chunks: "no_chunk r t s (snd (receive_local E ans s lm))"
proof (cases lm)
  case (LPayload q f p bs)
  then show ?thesis using no_chunk_trans [OF _ no_chunk_receive(1), of r t s "record_replica_bindings s q bs"] by (simp add: receive_local_def)
next
  case (LChunk q f c d bs)
  then show ?thesis
    using no_chunk_trans [OF _ no_chunk_receive(2), of r t s "add_active (record_replica_bindings s q bs) q"] by (simp add: receive_local_def)
next
  case (LSignal q f dn err bs)
  then show ?thesis using no_chunk_trans [OF _ no_chunk_receive(4), of r t s "record_replica_bindings s q bs"] by (simp add: receive_local_def)
qed

lemma stage_step_chunks:
  assumes ok: "programs_ok m" and alive: "run_drain (stage_step E m ev) \<noteq> None"
  shows "no_chunk r t (run_stage m) (run_stage (stage_step E m ev)) \<or> gap_free r t (run_stage m) (run_stage (stage_step E m ev))"
proof (cases ev)
  case (Submit q p bs)
  have "no_chunk r t (run_stage m) (snd (on_submit (run_stage m) q p bs))" by (simp add: on_submit_def)
  with Submit show ?thesis by (auto split: prod.split sum.split)
next
  case (LocalIn lm ans)
  with receive_local_chunks [of r t "run_stage m" E ans lm] show ?thesis by (auto simp: spawn_def split: prod.split sum.split)
next
  case (Take out ans)
  with drain_take_chunks [of E ans m out r t] alive show ?thesis by (auto split: if_splits)
next
  case (DrainStep ans)
  with run_head_chunks [of E ans m _ r t] alive show ?thesis by (auto split: option.splits list.splits)
qed (use ok in \<open>auto simp: task_step_chunks schedule_receive_task_def spawn_def on_abort_def Let_def\<close>)

lemma drain_stays_dead: "run_drain m = None \<Longrightarrow> run_drain (stage_step E m ev) = None"
proof (cases ev)
  case (TaskStep i ans)
  assume "run_drain m = None"
  with TaskStep show ?thesis by (cases rule: task_step_cases [of E ans m i]) (simp_all add: finish_task_def)
qed (auto simp: schedule_receive_task_def spawn_def Let_def split: prod.split sum.split)

lemma drain_dead_run: "run_drain m = None \<Longrightarrow> run_drain (run (stage_step E) m evs) = None"
  by (induction evs arbitrary: m) (simp_all add: drain_stays_dead del: stage_step.simps)

text \<open>
  C12: stream chunks are numbered without gaps. From any reachable state, over any run in which the
  outbox task stays alive and the stage does not end the request (its counter is never reset), the
  chunks of the request sent to one target carry exactly the numbers from the old
  counter up to the new one, in order, whatever path each of them takes.
\<close>

theorem stream_chunks_gap_free:
  assumes "m = run (stage_step E) (start_run s) evs0"
    and "run_drain (run (stage_step E) m evs) \<noteq> None"
    and "\<And>n. n < length evs \<Longrightarrow> next_chunk_id (run_stage (run (stage_step E) m (take n evs))) r t \<le>
                                next_chunk_id (run_stage (run (stage_step E) m (take (Suc n) evs))) r t"
  shows "chunk_ids r t (run_stage (run (stage_step E) m evs)) =
    chunk_ids r t (run_stage m) @ [next_chunk_id (run_stage m) r t..<next_chunk_id (run_stage (run (stage_step E) m evs)) r t]"
proof -
  have "gap_free r t (run_stage m) (run_stage (run (stage_step E) m evs))"
    using assms(2,3)
  proof (induction evs rule: rev_induct)
    case (snoc ev evs)
    let ?n = "run (stage_step E) m evs"
    have alive: "run_drain (stage_step E ?n ev) \<noteq> None" using snoc.prems(1) by (simp add: run_append del: stage_step.simps)
    then have "run_drain ?n \<noteq> None" by (rule contrapos_nn) (erule drain_stays_dead)
    moreover have "next_chunk_id (run_stage (run (stage_step E) m (take n evs))) r t \<le> next_chunk_id (run_stage (run (stage_step E) m (take (Suc n) evs))) r t"
      if "n < length evs" for n using snoc.prems(2) [of n] that by (simp add: less_SucI del: stage_step.simps)
    ultimately have IH: "gap_free r t (run_stage m) (run_stage ?n)" using snoc.IH by blast
    have "tasks_ok (start_run s) \<and> programs_ok (start_run s)"
      by (simp add: programs_ok_def tasks_ok_def lane_inv_def start_run_def pending_in_def)
    then have "programs_ok ?n" using sp.inv_run [of "start_run s" E "evs0 @ evs"] assms(1) by (simp add: run_append)
    from stage_step_chunks [OF this alive, of r t] have "gap_free r t (run_stage ?n) (run_stage (stage_step E ?n ev))"
      using snoc.prems(2) [of "length evs"] no_chunk_gap_free [of r t "run_stage ?n"] by (auto simp: run_append simp del: stage_step.simps)
    with IH show ?case by (simp add: run_append gap_free_trans del: stage_step.simps)
  qed simp
  then show ?thesis by (simp add: gap_free_def)
qed

section \<open>A crash of the scheduler\<close>





lemma cleared_frames [simp]:
  "cleared (record_aborted_request_id E s q) r = cleared s r"
  "cleared s r \<Longrightarrow> cleared (clear_request_state E s q) r"
  by (auto simp: cleared_def record_aborted_request_id_def clear_request_state_def dhas_dget dget_filter_keys sq_close_has agg_cancel_def
      split: option.splits)

lemma owner_frames [simp]:
  "owns_external_io (log_effect s e) = owns_external_io s" "owns_external_io (record_aborted_request_id E s r) = owns_external_io s"
  "owns_external_io (clear_request_state E s r) = owns_external_io s" "st_name (record_aborted_request_id E s r) = st_name s"
  "st_name (clear_request_state E s r) = st_name s"
  by (simp_all add: owns_external_io_def record_aborted_request_id_def clear_request_state_def)







section \<open>An abort while a result is sent\<close>

lemma abort_unbinds: "is_replicated (st_topology s) t \<Longrightarrow> resolve_target_instance (on_abort E s r) r t = Inl (NoReplicaBinding t r)"
  by (simp add: resolve_target_instance_def on_abort_def clear_request_state_def record_aborted_request_id_def)

text \<open>
  An abort can take the whole stage down. While a result is being sent to several stages, an abort of
  the request removes its replica bindings, and the next send to a replicated stage raises in the
  outbox task: the task is dead, the control plane is closed and the stage stops, with
  every other request it was serving.
\<close>

theorem abort_during_send_stops_stage:
  assumes "run_drain m = Some (APayload r t p single ts # rest)" and "owns_external_io (run_stage m)"
    and "st_running (run_stage m)" and "is_replicated (st_topology (run_stage m)) t"
  shows "let m' = stage_step E (stage_step E m (Abort r)) (DrainStep ans) in
    \<not> st_running (run_stage m') \<and> run_drain m' = None \<and> st_task_error (run_stage m') \<noteq> None \<and> EClosed \<in> set (st_log (run_stage m'))"
proof -
  let ?s0 = "run_stage m"
  define s where "s = (if st_role ?s0 = Leader \<and> st_fanout ?s0 then log_effect ?s0 (EFanoutAbort r) else ?s0)"
  have m1: "stage_step E m (Abort r) = m\<lparr>run_stage := on_abort E s r\<rparr>" using assms(3) by (simp add: s_def Let_def)
  have io: "owns_external_io (on_abort E s r)" using assms(2) by (simp add: s_def on_abort_def)
  have "resolve_target_instance (on_abort E s r) r t = Inl (NoReplicaBinding t r)"
    using assms(4) by (intro abort_unbinds) (simp add: s_def)
  with io have "send_to_stage E ans (on_abort E s r) r t p single ts = (Inl (NoReplicaBinding t r), on_abort E s r)"
    by (simp add: send_to_stage_def target_endpoint_def)
  then show ?thesis using assms(1) unfolding m1 by (simp add: Let_def run_head_def on_background_task_done_def split: option.split)
qed

end
