(* ===== verification/Stage_Examples.thy ===== *)
theory Stage_Examples
  imports Stage_Streams
begin

text \<open>
  The stage properties at concrete stages: a stage \<^verbatim>\<open>a\<close> that sends to \<^verbatim>\<open>c\<close> and to two replicas of
  \<^verbatim>\<open>b\<close>, with a request bound to the second one.
\<close>

definition demo_env :: senv where
  "demo_env = \<lparr>se_next = \<lambda>_ _. Inr (NMany [''c'', ''b'']), se_done = None, se_projectors = [], se_objects = [],
     se_can_ipc = \<lambda>_. False, se_has_cuda = \<lambda>_. False, se_ipc = \<lambda>_. IpcOk, se_cuda = \<lambda>_. Some False, se_inline = \<lambda>_. True,
     se_merge = \<lambda>_. Inl [], se_wait = None, se_iter = \<lambda>xs. xs\<rparr>"

definition demo_stage :: stage where
  "demo_stage = \<lparr>st_name = ''a'', st_role = Single_role, st_endpoints = [(''c'', ''ep''), (''b@r0'', ''ep0''), (''b@r1'', ''ep1'')],
     st_topology = \<lparr>rt_replicas = [(''b'', [''b@r0'', ''b@r1''])]\<rparr>, st_stream_to = [''c''], st_same_process = [], st_dispatcher = False,
     st_accept_early = False, st_disable_ipc = False, st_terminal = False, st_fanout = False, st_work_fanout = False,
     st_running = True, st_aborted = [], st_active = [], st_queue = None, st_counters = [], st_first_seen = [],
     st_local_targets = [], st_nonlocal_targets = [], st_bindings = [], st_input = None, st_crash = None, st_task_error = None, st_log = []\<rparr>"

definition demo_payload :: payload where
  "demo_payload = StagePayload 0 ''r'' 1"

definition demo_signal :: data_msg where
  "demo_signal = \<lparr>dm_request = ''r'', dm_from = ''x'', dm_ref = None, dm_chunk = None, dm_done = True, dm_error = None, dm_bindings = None\<rparr>"

text \<open>The demo stage after a request was submitted to it.\<close>

definition demo_run :: stage_run where
  "demo_run = run (stage_step demo_env) (start_run demo_stage) [Submit ''r'' demo_payload (Some [(''b'', 1)])]"

lemmas demo_defs = demo_env_def demo_stage_def demo_payload_def demo_signal_def start_run_def ok_answer_def

lemmas stage_defs = on_submit_def execute_def record_replica_bindings_def add_active_def open_stream_def set_add_def log_effect_def
  drain_take_def run_head_def owns_external_io_def stream_done_targets_def target_endpoint_def resolve_target_instance_def
  is_replicated_def resolve_def finish_send_def dhas_def Let_def

lemma demo_run_eq:
  "demo_run = \<lparr>run_stage = demo_stage\<lparr>st_active := [''r''], st_bindings := [(''r'', [(''b'', 1)])], st_log := [EInbox (NewRequest ''r'' demo_payload)]\<rparr>,
     run_drain = Some [], run_tasks = [], run_finished = [], run_tails = [], run_next = 0\<rparr>"
  by (simp add: demo_run_def demo_defs stage_defs)

theorem receive_lane_fifo_witness:
  "(0::nat) < 1 \<and> dget (run_tasks (run (stage_step demo_env) (start_run demo_stage)
      [Data demo_signal, Data demo_signal, TaskStep 0 ok_answer, TaskStep 0 ok_answer])) 0 =
    Some \<lparr>tk_prog = [RSignal demo_signal, RFinish None], tk_lane = Some (''r'', ''x''), tk_pred = None\<rparr>"
proof -
  let ?tasks = "run_tasks (run (stage_step demo_env) (start_run demo_stage) [Data demo_signal, Data demo_signal, TaskStep 0 ok_answer, TaskStep 0 ok_answer])"
  have t: "?tasks = [(0, \<lparr>tk_prog = [RSignal demo_signal, RFinish None], tk_lane = Some (''r'', ''x''), tk_pred = None\<rparr>),
      (1, \<lparr>tk_prog = [RStart demo_signal, RFinish None], tk_lane = Some (''r'', ''x''), tk_pred = Some 0\<rparr>)]"
    by (simp add: demo_defs schedule_receive_task_def task_step_def receive_handler_def record_replica_bindings_def pred_done_def Let_def)
  show ?thesis using receive_lane_fifo [OF t, of 0 _ _ "RSignal demo_signal" "[RFinish None]" 1] t by simp
qed

theorem aborted_request_silent_witness:
  "''r'' \<in> set (st_aborted (run_stage (run (stage_step demo_env) (stage_step demo_env demo_run (Abort ''r'')) [Submit ''r'' demo_payload None]))) \<and>
   inbox_of ''r'' (run_stage (run (stage_step demo_env) (stage_step demo_env demo_run (Abort ''r'')) [Submit ''r'' demo_payload None])) =
   inbox_of ''r'' (run_stage (stage_step demo_env demo_run (Abort ''r'')))"
  by (rule aborted_request_silent)
    (simp_all add: demo_run_eq demo_stage_def on_abort_def record_aborted_request_id_def record_bounded_request_id_def trim_closed_def set_add_def CLOSED_LIMIT_def)

theorem abort_clears_request_witness:
  "let s' = on_abort demo_env (run_stage demo_run) ''r'' in
    cleared s' ''r'' \<and> ''r'' \<in> set (st_aborted s') \<and> st_log s' = st_log (run_stage demo_run) @ [ECleanup ''r'', ESchedAbort ''r''] \<and>
    dget (st_bindings s') ''q'' = dget (st_bindings (run_stage demo_run)) ''q'' \<and>
    (''q'' \<in> set (st_active s') \<longleftrightarrow> ''q'' \<in> set (st_active (run_stage demo_run))) \<and>
    dget (st_counters s') (''q'', ''c'') = dget (st_counters (run_stage demo_run)) (''q'', ''c'') \<and>
    (''q'' \<in> set (st_aborted s') \<longleftrightarrow> ''q'' \<in> set (st_aborted (run_stage demo_run)))"
  by (rule abort_clears_request) (simp_all add: demo_run_eq demo_stage_def CLOSED_LIMIT_def)

theorem result_routed_witness:
  "\<exists>es. let m' = run (stage_step demo_env) demo_run
        (Take (OutResult ''r'' demo_payload) ok_answer # replicate (length [''c''] + length [''c'', ''b'']) (DrainStep ok_answer)) in
    run_drain m' = Some [] \<and> cleared (run_stage m') ''r'' \<and> st_log (run_stage m') = st_log (run_stage demo_run) @ es \<and>
    map hop es = map (\<lambda>t. Some (instance_of (run_stage demo_run) ''r'' t, ''r'', False)) [''c''] @
                 map (\<lambda>t. Some (instance_of (run_stage demo_run) ''r'' t, ''r'', True)) [''c'', ''b'']"
  by (rule result_routed)
    (simp_all add: demo_run_eq demo_defs stage_defs routable_to_def projects_def)

theorem stream_chunks_gap_free_witness:
  "let m' = run (stage_step demo_env) demo_run
        [Take (OutStream ''r'' 7 None) ok_answer, DrainStep ok_answer, Take (OutStream ''r'' 8 (Some ''c'')) ok_answer] in
   chunk_ids ''r'' ''c'' (run_stage m') =
   chunk_ids ''r'' ''c'' (run_stage demo_run) @ [next_chunk_id (run_stage demo_run) ''r'' ''c''..<next_chunk_id (run_stage m') ''r'' ''c'']"
proof -
  let ?evs = "[Take (OutStream ''r'' 7 None) ok_answer, DrainStep ok_answer, Take (OutStream ''r'' 8 (Some ''c'')) ok_answer]"
  note defs = demo_run_eq demo_defs stage_defs send_stream_to_target_def count_chunk_def next_chunk_id_def record_nonlocal_stream_target_def
  have alive: "run_drain (run (stage_step demo_env) demo_run ?evs) \<noteq> None" by (simp add: defs)
  have "next_chunk_id (run_stage (run (stage_step demo_env) demo_run (take n ?evs))) ''r'' ''c'' \<le>
      next_chunk_id (run_stage (run (stage_step demo_env) demo_run (take (Suc n) ?evs))) ''r'' ''c''" if "n < length ?evs" for n
  proof -
    have "n = 0 \<or> n = 1 \<or> n = 2" using that by auto
    then show ?thesis by (elim disjE) (simp_all add: defs)
  qed
  from stream_chunks_gap_free [OF demo_run_def alive this] show ?thesis by (simp only: Let_def)
qed


text \<open>The stage is reached by a submission, a result and the first of its two sends.\<close>

theorem abort_during_send_stops_stage_witness:
  "let m' = stage_step demo_env (stage_step demo_env
        (run (stage_step demo_env) demo_run [Take (OutResult ''r'' demo_payload) ok_answer, DrainStep ok_answer]) (Abort ''r'')) (DrainStep ok_answer) in
    \<not> st_running (run_stage m') \<and> run_drain m' = None \<and> st_task_error (run_stage m') \<noteq> None \<and> EClosed \<in> set (st_log (run_stage m'))"
proof -
  let ?m = "run (stage_step demo_env) demo_run [Take (OutResult ''r'' demo_payload) ok_answer, DrainStep ok_answer]"
  have "run_drain ?m = Some [APayload ''r'' ''b'' demo_payload False [''c''], AClear ''r'']" "owns_external_io (run_stage ?m)"
    "st_running (run_stage ?m)" "is_replicated (st_topology (run_stage ?m)) ''b''"
    by (simp_all add: demo_run_eq demo_defs stage_defs send_stream_signal_to_target_def route_next_def send_to_stage_def
        record_nonlocal_stream_target_def)
  from abort_during_send_stops_stage [OF this] show ?thesis .
qed

end
