(* ===== verification/Seqlock.thy ===== *)
theory Seqlock
  imports Prelude
begin

text \<open>
  The per-slot seqlock of \<^verbatim>\<open>sglang_omni_router/python/admission_shm.py\<close> (\<^verbatim>\<open>SlotCodec\<close>). A slot is a
  sequence word and a row of cells in shared memory with one writer and any readers. The
  writer's stores and the reader's loads are single steps that interleave freely; the reader's
  argument \<open>sched\<close> says which stores happen before each of its loads. The writer may die after any
  store. The cells are read and written one by one, so nothing rests on wide copies being atomic.
\<close>

section \<open>The writer\<close>

record mem =
  m_seq :: nat
  m_cells :: "int list"

datatype mem_ev = WBegin | WCell nat int | WEnd

text \<open>\<^verbatim>\<open>seq | 1\<close>\<close>

definition writing_marker :: "nat \<Rightarrow> nat" where
  "writing_marker q = (if even q then Suc q else q)"

fun mem_step :: "mem \<Rightarrow> mem_ev \<Rightarrow> mem" where
  "mem_step m WBegin = m\<lparr>m_seq := writing_marker (m_seq m)\<rparr>"
| "mem_step m (WCell i v) = m\<lparr>m_cells := (m_cells m)[i := v]\<rparr>"
| "mem_step m WEnd = m\<lparr>m_seq := Suc (m_seq m)\<rparr>"

text \<open>The stores of one \<^verbatim>\<open>write\<close>: the marker, the fields, the next even number.\<close>

definition write_events :: "int list \<Rightarrow> mem_ev list" where
  "write_events vs = WBegin # map (\<lambda>(i, v). WCell i v) (zip [0..<length vs] vs) @ [WEnd]"

text \<open>A writer stores fields and ends a write only after its marker.\<close>

fun disciplined :: "mem \<Rightarrow> mem_ev list \<Rightarrow> bool" where
  "disciplined m [] = True"
| "disciplined m (e # es) = ((e = WBegin \<or> odd (m_seq m)) \<and> disciplined (mem_step m e) es)"

section \<open>The reader\<close>

text \<open>Loading the cells from number \<open>k\<close> on, one per element of the schedule.\<close>

fun read_cells :: "mem \<Rightarrow> nat \<Rightarrow> mem_ev list list \<Rightarrow> int list \<times> mem" where
  "read_cells m k [] = ([], m)"
| "read_cells m k (es # ess) =
     (let m1 = run mem_step m es; (vs, m2) = read_cells m1 (Suc k) ess in (m_cells m1 ! k # vs, m2))"

type_synonym attempt = "mem_ev list list \<times> mem_ev list"

text \<open>One round of the loop: \<open>None\<close> when the sequence word is odd or has changed.\<close>

definition read_attempt :: "mem \<Rightarrow> attempt \<Rightarrow> (nat \<times> int list) option \<times> mem" where
  "read_attempt m a =
     (let seq_before = m_seq m in
      if odd seq_before then (None, run mem_step m (concat (fst a) @ snd a))
      else
        (let (vs, m1) = read_cells m 0 (fst a); m2 = run mem_step m1 (snd a) in
         (if m_seq m2 = seq_before then Some (seq_before, vs) else None, m2)))"

text \<open>
  \<^verbatim>\<open>SlotCodec.read\<close> with its budget of rounds; \<open>None\<close> is \<^verbatim>\<open>SeqlockUnstableError\<close>. When the schedule has no
  more rounds, no store happens any more.
\<close>

fun codec_read_mem :: "nat \<Rightarrow> mem \<Rightarrow> attempt list \<Rightarrow> (nat \<times> int list) option" where
  "codec_read_mem 0 m sched = None"
| "codec_read_mem (Suc b) m sched =
     (let (a, rest) = (case sched of [] \<Rightarrow> ((replicate (length (m_cells m)) [], []), []) | a # as \<Rightarrow> (a, as));
          (r, m') = read_attempt m a in
      case r of Some v \<Rightarrow> Some v | None \<Rightarrow> codec_read_mem b m' rest)"

definition READ_SPIN_LIMIT :: nat where "READ_SPIN_LIMIT = 1000"
definition READ_BACKOFF_LIMIT :: nat where "READ_BACKOFF_LIMIT = 20000"

definition read_budget :: "bool \<Rightarrow> nat" where
  "read_budget fail_fast = (if fail_fast then READ_SPIN_LIMIT else READ_SPIN_LIMIT + READ_BACKOFF_LIMIT)"

section \<open>Reads see one moment\<close>

definition flat :: "attempt list \<Rightarrow> mem_ev list" where
  "flat sched = concat (map (\<lambda>a. concat (fst a) @ snd a) sched)"

lemma flat_simps [simp]: "flat [] = []" "flat (a # as) = concat (fst a) @ snd a @ flat as"
  by (simp_all add: flat_def)

lemma disciplined_append: "disciplined m (xs @ ys) \<longleftrightarrow> disciplined m xs \<and> disciplined (run mem_step m xs) ys"
  by (induction xs arbitrary: m) auto

lemma seq_mono: "m_seq m \<le> m_seq (run mem_step m es)"
proof (induction es arbitrary: m)
  case (Cons e es)
  have "m_seq m \<le> m_seq (mem_step m e)" by (cases e) (simp_all add: writing_marker_def)
  also have "\<dots> \<le> m_seq (run mem_step (mem_step m e) es)" by (rule Cons.IH)
  finally show ?case by simp
qed simp

text \<open>From an even sequence word a disciplined writer can only start a write, which raises it for good.\<close>

lemma even_quiet:
  assumes "even (m_seq m)" "disciplined m es" "m_seq (run mem_step m es) = m_seq m"
  shows "es = []"
proof (cases es)
  case (Cons e es')
  with assms have "e = WBegin" by simp
  with Cons assms(1,3) seq_mono [of "mem_step m WBegin" es'] show ?thesis by (simp add: writing_marker_def)
qed simp

lemma read_cells_run: "snd (read_cells m k ess) = run mem_step m (concat ess)"
  by (induction ess arbitrary: m k) (simp_all add: run_append case_prod_unfold Let_def)

lemma read_cells_quiet: "concat ess = [] \<Longrightarrow> fst (read_cells m k ess) = map (\<lambda>i. m_cells m ! (k + i)) [0..<length ess]"
proof (induction ess arbitrary: k)
  case (Cons es ess)
  then show ?case
    by (simp add: case_prod_unfold Let_def upt_conv_Cons del: upt_Suc flip: map_Suc_upt)
qed simp

lemma read_attempt_run: "snd (read_attempt m a) = run mem_step m (concat (fst a) @ snd a)"
  using read_cells_run [of m 0 "fst a"] by (simp add: read_attempt_def run_append case_prod_unfold Let_def)

lemma read_attempt_snapshot:
  assumes d: "disciplined m (concat (fst a) @ snd a)" and r: "fst (read_attempt m a) = Some (q, vs)"
    and n: "length (fst a) = length (m_cells m)"
  shows "concat (fst a) @ snd a = [] \<and> even (m_seq m) \<and> q = m_seq m \<and> vs = m_cells m"
proof -
  have e: "even (m_seq m)" using r by (auto simp: read_attempt_def Let_def split: if_splits)
  then have "m_seq (run mem_step m (concat (fst a) @ snd a)) = m_seq m" and q: "q = m_seq m" and vs: "vs = fst (read_cells m 0 (fst a))"
    using r read_cells_run [of m 0 "fst a"] by (auto simp: read_attempt_def Let_def run_append case_prod_unfold split: if_splits)
  then have nil: "concat (fst a) @ snd a = []" using even_quiet [OF e d] by blast
  then have "vs = map (\<lambda>i. m_cells m ! i) [0..<length (m_cells m)]" using vs n read_cells_quiet [of "fst a" m 0] by simp
  then show ?thesis using e q nil by (simp add: map_nth)
qed

lemma mem_step_cells: "length (m_cells (run mem_step m es)) = length (m_cells m)"
proof (induction es arbitrary: m)
  case (Cons e es)
  have "length (m_cells (mem_step m e)) = length (m_cells m)" by (cases e) simp_all
  with Cons show ?case by simp
qed simp

lemma codec_read_snapshot:
  assumes "disciplined m (flat sched)" "codec_read_mem b m sched = Some (q, vs)" "\<forall>a\<in>set sched. length (fst a) = length (m_cells m)"
  shows "\<exists>es1 es2. flat sched = es1 @ es2 \<and> even (m_seq (run mem_step m es1)) \<and> q = m_seq (run mem_step m es1) \<and> vs = m_cells (run mem_step m es1)"
  using assms
proof (induction b arbitrary: m sched)
  case (Suc b)
  define a where "a = (case sched of [] \<Rightarrow> (replicate (length (m_cells m)) [], []) | a # as \<Rightarrow> a)"
  define rest where "rest = (case sched of [] \<Rightarrow> [] | a # as \<Rightarrow> as)"
  have fl: "flat sched = (concat (fst a) @ snd a) @ flat rest" and la: "length (fst a) = length (m_cells m)"
    using Suc.prems(3) by (auto simp: a_def rest_def split: list.split)
  let ?m = "run mem_step m (concat (fst a) @ snd a)"
  have d: "disciplined m (concat (fst a) @ snd a)" "disciplined ?m (flat rest)"
    using Suc.prems(1) unfolding fl by (simp_all add: disciplined_append run_append)
  show ?case
  proof (cases "fst (read_attempt m a)")
    case (Some v)
    then have "v = (q, vs)" using Suc.prems(2) by (cases sched) (auto simp: a_def case_prod_unfold Let_def)
    with Some read_attempt_snapshot [OF d(1) _ la, of q vs] show ?thesis
      by (intro exI [where x = "[]"] exI [where x = "flat sched"]) auto
  next
    case None
    have "codec_read_mem b ?m rest = Some (q, vs)"
      using Suc.prems(2) None read_attempt_run [of m a] by (cases sched) (auto simp: a_def rest_def case_prod_unfold Let_def)
    moreover have "\<forall>a\<in>set rest. length (fst a) = length (m_cells ?m)"
      using Suc.prems(3) by (cases sched) (simp_all add: mem_step_cells rest_def)
    ultimately obtain es1 es2 where "flat rest = es1 @ es2" "even (m_seq (run mem_step ?m es1))" "q = m_seq (run mem_step ?m es1)"
      "vs = m_cells (run mem_step ?m es1)"
      using Suc.IH [OF d(2)] by blast
    then show ?thesis
      by (intro exI [where x = "(concat (fst a) @ snd a) @ es1"] exI [where x = es2]) (simp add: fl run_append)
  qed
qed simp

section \<open>Even moments hold complete writes\<close>

lemma store_cells:
  assumes "length vs = length (m_cells m)" "k \<le> length vs"
  shows "run mem_step m (map (\<lambda>(i, v). WCell i v) (take k (zip [0..<length vs] vs))) = m\<lparr>m_cells := take k vs @ drop k (m_cells m)\<rparr>"
  using assms(2)
proof (induction k)
  case (Suc k)
  then have "take (Suc k) (zip [0..<length vs] vs) = take k (zip [0..<length vs] vs) @ [(k, vs ! k)]"
    by (simp add: take_Suc_conv_app_nth)
  moreover have "(take k vs @ drop k (m_cells m))[k := vs ! k] = take (Suc k) vs @ drop (Suc k) (m_cells m)"
    using Suc assms(1) by (simp add: take_Suc_conv_app_nth list_update_append upd_conv_take_nth_drop Cons_nth_drop_Suc [symmetric])
  ultimately show ?case using Suc by (simp add: run_append)
qed simp

lemma write_run:
  assumes "length vs = length (m_cells m)"
  shows "run mem_step m (write_events vs) = m\<lparr>m_seq := Suc (writing_marker (m_seq m)), m_cells := vs\<rparr>"
  using store_cells [of vs "m\<lparr>m_seq := writing_marker (m_seq m)\<rparr>" "length vs"] assms by (simp add: write_events_def run_append)

text \<open>A started and unfinished write leaves the sequence word odd.\<close>

lemma write_prefix_odd:
  assumes "length vs = length (m_cells m)" "0 < n" "n < length (write_events vs)"
  shows "odd (m_seq (run mem_step m (take n (write_events vs))))"
proof -
  obtain k where k: "n = Suc k" using assms(2) by (cases n) auto
  then have "k \<le> length vs" using assms(3) by (simp add: write_events_def)
  then have "take n (write_events vs) = WBegin # map (\<lambda>(i, v). WCell i v) (take k (zip [0..<length vs] vs))"
    by (simp add: k write_events_def take_map)
  with store_cells [of vs "m\<lparr>m_seq := writing_marker (m_seq m)\<rparr>" k] assms(1) \<open>k \<le> length vs\<close>
  show ?thesis by (simp add: writing_marker_def)
qed

lemma even_moment:
  assumes "\<forall>vs\<in>set ws. length vs = length (m_cells m)" "even (m_seq (run mem_step m (take n (concat (map write_events ws)))))"
  shows "\<exists>k\<le>length ws. m_cells (run mem_step m (take n (concat (map write_events ws)))) = last (m_cells m # take k ws)"
  using assms
proof (induction ws arbitrary: m n)
  case (Cons vs ws)
  let ?w = "write_events vs"
  have len: "length vs = length (m_cells m)" using Cons.prems(1) by simp
  show ?case
  proof (cases "n < length ?w")
    case True
    then have "take n (concat (map write_events (vs # ws))) = take n ?w" by simp
    then have "even (m_seq (run mem_step m (take n ?w)))" using Cons.prems(2) by (simp only:)
    then have "n = 0" using write_prefix_odd [OF len _ True] by blast
    then show ?thesis by (intro exI [where x = 0]) simp
  next
    case False
    let ?m = "run mem_step m ?w"
    have cells: "m_cells ?m = vs" by (simp add: write_run [OF len])
    have tk: "run mem_step m (take n (concat (map write_events (vs # ws)))) = run mem_step ?m (take (n - length ?w) (concat (map write_events ws)))"
      using False by (simp add: run_append)
    obtain k where "k \<le> length ws" "m_cells (run mem_step ?m (take (n - length ?w) (concat (map write_events ws)))) = last (m_cells ?m # take k ws)"
      using Cons.IH [of ?m "n - length ?w"] Cons.prems len cells unfolding tk by auto
    then show ?thesis unfolding tk by (intro exI [where x = "Suc k"]) (simp add: cells)
  qed
qed simp

lemma disciplined_store: "odd (m_seq m) \<Longrightarrow> disciplined m (map (\<lambda>(i, v). WCell i v) ps @ [WEnd])"
  by (induction ps arbitrary: m) auto

lemma disciplined_writes: "disciplined m (concat (map write_events ws))"
proof (induction ws arbitrary: m)
  case (Cons vs ws)
  have "disciplined (mem_step m WBegin) (map (\<lambda>(i, v). WCell i v) (zip [0..<length vs] vs) @ [WEnd])"
    by (rule disciplined_store) (simp add: writing_marker_def)
  with Cons.IH show ?case by (simp add: write_events_def disciplined_append)
qed simp

lemma disciplined_take: "disciplined m es \<Longrightarrow> disciplined m (take n es)"
  by (metis append_take_drop_id disciplined_append)

text \<open>
  C30: a read never tears. The writer performs any writes one after the other and may die in
  the middle of the last; the reader's loads fall between any of its stores. Whatever a read
  within its budget returns is the full field row of one complete write (or the initial row), never a
  mixture, and a dead writer's unfinished row is never returned.
\<close>

theorem seqlock_read_complete_write:
  assumes "\<forall>vs\<in>set ws. length vs = length (m_cells m)"
    and "flat sched = take n (concat (map write_events ws))"
    and "\<forall>a\<in>set sched. length (fst a) = length (m_cells m)"
    and "codec_read_mem b m sched = Some (q, vs)"
  shows "even q \<and> (\<exists>k\<le>length ws. vs = last (m_cells m # take k ws))"
proof -
  have "disciplined m (flat sched)" unfolding assms(2) by (rule disciplined_take [OF disciplined_writes])
  then obtain es1 es2 where es: "flat sched = es1 @ es2" "even (m_seq (run mem_step m es1))" "q = m_seq (run mem_step m es1)"
    "vs = m_cells (run mem_step m es1)"
    using codec_read_snapshot assms(3,4) by blast
  have "es1 = take (min (length es1) n) (concat (map write_events ws))"
    using es(1) assms(2) by (metis append_eq_conv_conj take_take)
  with es even_moment [OF assms(1), of "min (length es1) n"] show ?thesis by metis
qed

theorem seqlock_read_complete_write_witness:
  "even (4::nat) \<and> (\<exists>k\<le>length [[1, 10], [2, 20 :: int]]. [2, 20 :: int] = last (m_cells \<lparr>m_seq = 0, m_cells = [0, 0]\<rparr> # take k [[1, 10], [2, 20]]))"
proof (rule seqlock_read_complete_write)
  let ?sched = "[([[WBegin, WCell 0 1], []], [WCell 1 10, WEnd, WBegin, WCell 0 2, WCell 1 20, WEnd]), ([[], []], [])] :: attempt list"
  show "flat ?sched = take 8 (concat (map write_events [[1, 10], [2, 20]]))" by (simp add: write_events_def upt_rec)
  have "codec_read_mem (Suc (Suc b)) \<lparr>m_seq = 0, m_cells = [0, 0]\<rparr> ?sched = Some (4, [2, 20])" for b
    by (simp add: read_attempt_def writing_marker_def)
  from this [of 998] show "codec_read_mem (read_budget True) \<lparr>m_seq = 0, m_cells = [0, 0]\<rparr> ?sched = Some (4, [2, 20])"
    by (simp add: read_budget_def READ_SPIN_LIMIT_def del: codec_read_mem.simps)
qed simp_all

text \<open>A read on a slot nobody writes.\<close>

lemma codec_read_quiet:
  "codec_read_mem (read_budget ff) m [] = (if even (m_seq m) then Some (m_seq m, m_cells m) else None)"
proof -
  let ?a = "(replicate (length (m_cells m)) [], []) :: attempt"
  have nil: "concat (fst ?a) = []" by simp
  have even: "fst (read_attempt m ?a) = (if even (m_seq m) then Some (m_seq m, m_cells m) else None)"
    using read_cells_run [of m 0 "fst ?a"] read_cells_quiet [OF nil, of m 0]
    by (simp add: read_attempt_def Let_def case_prod_unfold map_nth)
  have same: "snd (read_attempt m ?a) = m" using read_attempt_run [of m ?a] by simp
  have "codec_read_mem b m [] = (if even (m_seq m) \<and> b \<noteq> 0 then Some (m_seq m, m_cells m) else None)" for b
  proof (induction b)
    case (Suc b)
    with even same show ?case by (auto simp: case_prod_unfold Let_def)
  qed simp
  then show ?thesis by (simp add: read_budget_def READ_SPIN_LIMIT_def READ_BACKOFF_LIMIT_def)
qed

text \<open>
  C31: a read always ends, and as it should: on a slot nobody writes it returns the fields at the
  first round when the sequence word is even; on a slot left odd by a dead writer it gives up
  after its budget of rounds with an error, and the next write makes the slot readable again with
  a sequence word above every earlier one.
\<close>

theorem seqlock_read_ends:
  "codec_read_mem (read_budget ff) m [] = (if even (m_seq m) then Some (m_seq m, m_cells m) else None) \<and>
   codec_read_mem (read_budget ff) (run mem_step m (write_events (map f [0..<length (m_cells m)]))) [] =
     Some (Suc (writing_marker (m_seq m)), map f [0..<length (m_cells m)]) \<and> m_seq m < Suc (writing_marker (m_seq m))"
  by (simp add: codec_read_quiet write_run writing_marker_def)

end
