(* ===== verification/Admission_Shm.thy ===== *)
theory Admission_Shm
  imports Seqlock
begin

text \<open>
  Shared-memory admission of the external router,
  \<^verbatim>\<open>sglang_omni_router/python/admission_shm.py\<close>, and the slot reclaim of \<^verbatim>\<open>supervisor.py\<close>. Every data plane (DP)
  has a slot it alone writes; a request is admitted when the sum of the in-flight counts of all
  slots is below the bound. By the theorems of \<open>Seqlock\<close> a slot read or write is one step here: reading
  a slot whose sequence word is odd raises (\<open>None\<close>). The sum is read slot by slot, so an admission has a step
  per slot and a last step that writes its own slot. Clock values are milliseconds.
\<close>

section \<open>Slots\<close>

record slot_view =
  sv_seq :: nat
  sv_inflight :: int
  sv_peak_sum :: int
  sv_rejected_total :: int
  sv_generation :: int
  sv_pid :: int
  sv_heartbeat :: int

definition zero_slot :: slot_view where
  "zero_slot = \<lparr>sv_seq = 0, sv_inflight = 0, sv_peak_sum = 0, sv_rejected_total = 0, sv_generation = 0, sv_pid = 0, sv_heartbeat = 0\<rparr>"

text \<open>The slot array: one per DP and the retired slot of the supervisor.\<close>

definition admission_file :: "nat \<Rightarrow> slot_view list" where
  "admission_file n = replicate (n + 1) zero_slot"

definition codec_read :: "slot_view \<Rightarrow> slot_view option" where
  "codec_read v = (if odd (sv_seq v) then None else Some v)"

definition codec_write :: "slot_view \<Rightarrow> slot_view \<Rightarrow> slot_view" where
  "codec_write v new = new\<lparr>sv_seq := Suc (writing_marker (sv_seq v))\<rparr>"

definition begin_write :: "slot_view \<Rightarrow> slot_view" where
  "begin_write v = v\<lparr>sv_seq := writing_marker (sv_seq v)\<rparr>"

definition end_write :: "slot_view \<Rightarrow> nat \<Rightarrow> slot_view" where
  "end_write v marker = v\<lparr>sv_seq := Suc marker\<rparr>"

definition reclaim :: "slot_view \<Rightarrow> int \<Rightarrow> slot_view" where
  "reclaim v now = codec_write v (zero_slot\<lparr>sv_heartbeat := now\<rparr>)"

lemma odd_writing_marker [simp]: "odd (writing_marker q)"
  by (simp add: writing_marker_def)

text \<open>The cells of a slot in memory, and the agreement of the two levels.\<close>

definition slot_of :: "mem \<Rightarrow> slot_view" where
  "slot_of m = \<lparr>sv_seq = m_seq m, sv_inflight = m_cells m ! 0, sv_peak_sum = m_cells m ! 1, sv_rejected_total = m_cells m ! 2,
     sv_generation = m_cells m ! 3, sv_pid = m_cells m ! 4, sv_heartbeat = m_cells m ! 5\<rparr>"

definition cells_of :: "slot_view \<Rightarrow> int list" where
  "cells_of v = [sv_inflight v, sv_peak_sum v, sv_rejected_total v, sv_generation v, sv_pid v, sv_heartbeat v]"

lemma codec_write_refines:
  assumes "length (m_cells m) = 6"
  shows "slot_of (run mem_step m (write_events (cells_of v))) = codec_write (slot_of m) v"
  using write_run [of "cells_of v" m] assms by (simp add: slot_of_def codec_write_def cells_of_def)

lemma codec_read_refines: "codec_read (slot_of m) = None \<longleftrightarrow> codec_read_mem (read_budget ff) m [] = None"
  by (simp add: codec_read_quiet codec_read_def slot_of_def)

section \<open>The admission of one DP\<close>

record admission =
  ad_own :: nat
  ad_max_inflight :: int
  ad_generation :: int
  ad_pid :: int
  ad_inflight :: int
  ad_peak_sum :: int
  ad_rejected_total :: int
  ad_sibling_unstable :: bool
  ad_sibling_probed_at :: int

definition UNSTABLE_REPROBE :: int where "UNSTABLE_REPROBE = 50"

definition write_own :: "slot_view list \<Rightarrow> admission \<Rightarrow> int \<Rightarrow> slot_view list" where
  "write_own ss a now =
     ss[ad_own a := codec_write (ss ! ad_own a)
         \<lparr>sv_seq = 0, sv_inflight = ad_inflight a, sv_peak_sum = ad_peak_sum a, sv_rejected_total = ad_rejected_total a,
          sv_generation = ad_generation a, sv_pid = ad_pid a, sv_heartbeat = now\<rparr>]"

datatype slot_error = OwnIndexOutside

definition new_admission :: "slot_view list \<Rightarrow> nat \<Rightarrow> nat \<Rightarrow> int \<Rightarrow> int \<Rightarrow> int \<Rightarrow> int \<Rightarrow> slot_error + admission \<times> slot_view list" where
  "new_admission ss slots own mx gen pid now =
     (if \<not> own < slots then Inl OwnIndexOutside
      else
        (let a = \<lparr>ad_own = own, ad_max_inflight = mx, ad_generation = gen, ad_pid = pid, ad_inflight = 0, ad_peak_sum = 0,
                  ad_rejected_total = 0, ad_sibling_unstable = False, ad_sibling_probed_at = 0\<rparr> in
         Inr (a, write_own ss a now)))"

definition still_owner :: "slot_view list \<Rightarrow> admission \<Rightarrow> bool option" where
  "still_owner ss a =
     map_option (\<lambda>v. sv_generation v = ad_generation a \<and> sv_pid v = ad_pid a) (codec_read (ss ! ad_own a))"

definition shed_from_cached_unstable :: "admission \<Rightarrow> int \<Rightarrow> bool" where
  "shed_from_cached_unstable a now \<longleftrightarrow> ad_sibling_unstable a \<and> now - ad_sibling_probed_at a < UNSTABLE_REPROBE"

definition mark_sibling_unstable :: "admission \<Rightarrow> int \<Rightarrow> admission" where
  "mark_sibling_unstable a now = a\<lparr>ad_sibling_probed_at := now, ad_sibling_unstable := True\<rparr>"

definition mark_sibling_stable :: "admission \<Rightarrow> admission" where
  "mark_sibling_stable a = a\<lparr>ad_sibling_unstable := False\<rparr>"

definition count_rejection :: "slot_view list \<Rightarrow> admission \<Rightarrow> int \<Rightarrow> admission \<times> slot_view list" where
  "count_rejection ss a now =
     (let a1 = a\<lparr>ad_rejected_total := ad_rejected_total a + 1\<rparr> in (a1, write_own ss a1 now))"


text \<open>The end of \<^verbatim>\<open>try_acquire\<close>, with the sum it has read.\<close>

definition acquire_end :: "slot_view list \<Rightarrow> admission \<Rightarrow> int \<Rightarrow> int \<Rightarrow> bool \<times> admission \<times> slot_view list" where
  "acquire_end ss a tot now =
     (let a1 = mark_sibling_stable a in
      if ad_max_inflight a1 \<le> tot then (False, count_rejection ss a1 now)
      else
        (let a2 = a1\<lparr>ad_inflight := ad_inflight a1 + 1, ad_peak_sum := max (ad_peak_sum a1) (tot + 1)\<rparr> in
         (True, a2, write_own ss a2 now)))"



definition adm_release :: "slot_view list \<Rightarrow> admission \<Rightarrow> int \<Rightarrow> admission \<times> slot_view list" where
  "adm_release ss a now =
     (case still_owner ss a of
        Some True \<Rightarrow>
          if ad_inflight a \<le> 0 then (a, ss)
          else (let a1 = a\<lparr>ad_inflight := ad_inflight a - 1\<rparr> in (a1, write_own ss a1 now))
      | _ \<Rightarrow> (a, ss))"

text \<open>\<^verbatim>\<open>touch\<close> does not catch the exception of an unreadable own slot (\<open>None\<close>).\<close>

definition touch :: "slot_view list \<Rightarrow> admission \<Rightarrow> int \<Rightarrow> slot_view list option" where
  "touch ss a now = map_option (\<lambda>owner. if owner then write_own ss a now else ss) (still_owner ss a)"

section \<open>Reclaim and aggregate\<close>

text \<open>\<^verbatim>\<open>_fold_and_reclaim_slot\<close> of the supervisor; the retired slot is the one after the DP slots.\<close>

definition fold_and_reclaim_slot :: "nat \<Rightarrow> slot_view list \<Rightarrow> nat \<Rightarrow> int \<Rightarrow> slot_view list" where
  "fold_and_reclaim_slot slots ss i now =
     (case (codec_read (ss ! i), codec_read (ss ! slots)) of
        (Some view, Some acc) \<Rightarrow>
          (let opened = begin_write (ss ! slots);
               filled = opened\<lparr>sv_inflight := 0, sv_peak_sum := max (sv_peak_sum acc) (sv_peak_sum view),
                               sv_rejected_total := sv_rejected_total acc + sv_rejected_total view,
                               sv_generation := 0, sv_pid := 0, sv_heartbeat := now\<rparr> in
           ss[slots := end_write filled (sv_seq opened), i := reclaim (ss ! i) now])
      | _ \<Rightarrow> ss[i := reclaim (ss ! i) now])"

record totals =
  tot_inflight :: int
  tot_max_inflight :: int
  tot_peak_inflight :: int
  tot_rejected_total :: int

text \<open>The successful round of \<^verbatim>\<open>_aggregate_to_dict\<close> on slots nobody writes meanwhile.\<close>

definition aggregate :: "nat \<Rightarrow> slot_view list \<Rightarrow> int \<Rightarrow> totals option" where
  "aggregate slots ss mx =
     (if list_all (\<lambda>v. codec_read v \<noteq> None) (take (Suc slots) ss) then
        Some \<lparr>tot_inflight = sum_list (map sv_inflight (take slots ss)), tot_max_inflight = mx,
              tot_peak_inflight = Max (set (map sv_peak_sum (take (Suc slots) ss))),
              tot_rejected_total = sum_list (map sv_rejected_total (take slots ss)) + sv_rejected_total (ss ! slots)\<rparr>
      else None)"

section \<open>Data planes admitting at the same time\<close>

text \<open>
  A DP is idle, is summing (the number of slots read and the sum so far), is dead, or its slot was
  reclaimed. A DP may die inside a write: \<open>torn\<close> leaves the slot odd, \<open>landed\<close> says whether the count was
  already stored.
\<close>

datatype phase = Idle | Summing nat int | Dead_dp | Reclaimed

record dp =
  dp_adm :: admission
  dp_phase :: phase

record cluster =
  cl_slots :: "slot_view list"
  cl_dps :: "dp list"

datatype cluster_ev =
    ABegin nat int
  | ARead nat int
  | AWrite nat int
  | ARelease nat int
  | ATouch nat int
  | ACrashed nat bool bool
  | AReclaim nat int
  | ARestart nat int int int

definition put_dp :: "cluster \<Rightarrow> nat \<Rightarrow> phase \<Rightarrow> admission \<times> slot_view list \<Rightarrow> cluster" where
  "put_dp c i ph res =
     c\<lparr>cl_slots := snd res, cl_dps := (cl_dps c)[i := \<lparr>dp_adm = fst res, dp_phase = ph\<rparr>]\<rparr>"

text \<open>\<^verbatim>\<open>try_acquire\<close> in steps: up to the first slot read, one slot read, and the end.\<close>

definition acquire_begin_step :: "cluster \<Rightarrow> nat \<Rightarrow> admission \<Rightarrow> int \<Rightarrow> cluster" where
  "acquire_begin_step c i a now =
     (if still_owner (cl_slots c) a \<noteq> Some True then c
      else if shed_from_cached_unstable a now then put_dp c i Idle (count_rejection (cl_slots c) a now)
      else put_dp c i (Summing 0 0) (a, cl_slots c))"

definition acquire_read_step :: "cluster \<Rightarrow> nat \<Rightarrow> admission \<Rightarrow> nat \<Rightarrow> int \<Rightarrow> int \<Rightarrow> cluster" where
  "acquire_read_step c i a k t now =
     (case codec_read (cl_slots c ! k) of
        None \<Rightarrow> put_dp c i Idle (count_rejection (cl_slots c) (mark_sibling_unstable a now) now)
      | Some v \<Rightarrow> put_dp c i (Summing (Suc k) (t + sv_inflight v)) (a, cl_slots c))"

definition crash_slot :: "slot_view \<Rightarrow> int \<Rightarrow> bool \<Rightarrow> slot_view" where
  "crash_slot v x torn = (if torn then (begin_write v)\<lparr>sv_inflight := x\<rparr> else v)"

text \<open>The count a dying DP may have stored: one more while admitting, one less while releasing.\<close>

definition crash_count :: "nat \<Rightarrow> dp \<Rightarrow> bool \<Rightarrow> int" where
  "crash_count n d landed =
     (let a = dp_adm d in
      if \<not> landed then ad_inflight a
      else case dp_phase d of
        Summing k t \<Rightarrow> if k = n \<and> t < ad_max_inflight a then ad_inflight a + 1 else ad_inflight a
      | _ \<Rightarrow> if 0 < ad_inflight a then ad_inflight a - 1 else ad_inflight a)"

fun cluster_step :: "nat \<Rightarrow> cluster \<Rightarrow> cluster_ev \<Rightarrow> cluster" where
  "cluster_step n c (ABegin i now) =
     (if i < n \<and> dp_phase (cl_dps c ! i) = Idle then acquire_begin_step c i (dp_adm (cl_dps c ! i)) now else c)"
| "cluster_step n c (ARead i now) =
     (if i < n then
        (case dp_phase (cl_dps c ! i) of
           Summing k t \<Rightarrow> if k < n then acquire_read_step c i (dp_adm (cl_dps c ! i)) k t now else c
         | _ \<Rightarrow> c)
      else c)"
| "cluster_step n c (AWrite i now) =
     (if i < n then
        (case dp_phase (cl_dps c ! i) of
           Summing k t \<Rightarrow> if k = n then put_dp c i Idle (snd (acquire_end (cl_slots c) (dp_adm (cl_dps c ! i)) t now)) else c
         | _ \<Rightarrow> c)
      else c)"
| "cluster_step n c (ARelease i now) =
     (if i < n \<and> dp_phase (cl_dps c ! i) = Idle then put_dp c i Idle (adm_release (cl_slots c) (dp_adm (cl_dps c ! i)) now) else c)"
| "cluster_step n c (ATouch i now) =
     (if i < n \<and> dp_phase (cl_dps c ! i) = Idle then
        (case touch (cl_slots c) (dp_adm (cl_dps c ! i)) now of None \<Rightarrow> c | Some ss \<Rightarrow> c\<lparr>cl_slots := ss\<rparr>)
      else c)"
| "cluster_step n c (ACrashed i torn landed) =
     (if i < n \<and> dp_phase (cl_dps c ! i) \<notin> {Dead_dp, Reclaimed} then
        put_dp c i Dead_dp (dp_adm (cl_dps c ! i),
          (cl_slots c)[i := crash_slot (cl_slots c ! i) (crash_count n (cl_dps c ! i) landed) torn])
      else c)"
| "cluster_step n c (AReclaim i now) =
     (if i < n \<and> dp_phase (cl_dps c ! i) = Dead_dp
      then put_dp c i Reclaimed (dp_adm (cl_dps c ! i), fold_and_reclaim_slot n (cl_slots c) i now) else c)"
| "cluster_step n c (ARestart i gen pid now) =
     (if i < n \<and> dp_phase (cl_dps c ! i) = Reclaimed then
        (case new_admission (cl_slots c) n i (ad_max_inflight (dp_adm (cl_dps c ! i))) gen pid now of
           Inr res \<Rightarrow> put_dp c i Idle res
         | Inl _ \<Rightarrow> c)
      else c)"

text \<open>All DPs started on a fresh file.\<close>

definition start_dp :: "int \<Rightarrow> nat \<Rightarrow> admission" where
  "start_dp mx i = \<lparr>ad_own = i, ad_max_inflight = mx, ad_generation = 1, ad_pid = int i + 1, ad_inflight = 0, ad_peak_sum = 0,
     ad_rejected_total = 0, ad_sibling_unstable = False, ad_sibling_probed_at = 0\<rparr>"

definition start_cluster :: "nat \<Rightarrow> int \<Rightarrow> cluster" where
  "start_cluster n mx =
     \<lparr>cl_slots = fold (\<lambda>i ss. write_own ss (start_dp mx i) 0) [0..<n] (admission_file n),
      cl_dps = map (\<lambda>i. \<lparr>dp_adm = start_dp mx i, dp_phase = Idle\<rparr>) [0..<n]\<rparr>"

section \<open>The bound on counts and phases\<close>

text \<open>
  The argument on the bare in-flight counts \<open>xs\<close> and phases \<open>ps\<close>. What a summing DP has read plus what the slots still to be
  read hold now is what it would see if nothing changed; it is low at \<open>m\<close> when that is below \<open>m\<close>. The
  sum of the counts plus the number of DPs that are low at any \<open>m\<close> from the bound on stays below \<open>m\<close> plus the
  number of DPs.
\<close>

definition low :: "int list \<Rightarrow> phase \<Rightarrow> int \<Rightarrow> bool" where
  "low xs p m = (case p of Summing k t \<Rightarrow> t + sum_list (drop k xs) < m | _ \<Rightarrow> False)"

definition lows :: "int list \<Rightarrow> phase list \<Rightarrow> int \<Rightarrow> nat set" where
  "lows xs ps m = {i. i < length ps \<and> low xs (ps ! i) m}"

definition soft_bound :: "int list \<Rightarrow> phase list \<Rightarrow> int \<Rightarrow> bool" where
  "soft_bound xs ps mx \<longleftrightarrow> (\<forall>m\<ge>mx. sum_list xs + int (card (lows xs ps m)) \<le> m + int (length ps) - 1)"

lemma finite_lows [simp]: "finite (lows xs ps m)"
  by (simp add: lows_def)

lemma card_lows_le: "card (lows xs ps m) \<le> length ps"
proof -
  have "lows xs ps m \<subseteq> {0..<length ps}" by (auto simp: lows_def)
  from card_mono [OF _ this] show ?thesis by simp
qed

lemma soft_bound_mono:
  assumes "soft_bound xs ps mx" "\<And>m. mx \<le> m \<Longrightarrow> lows ys qs m \<subseteq> lows xs ps m" "sum_list ys = sum_list xs" "length qs = length ps"
  shows "soft_bound ys qs mx"
  unfolding soft_bound_def
proof (intro allI impI)
  fix m assume m: "mx \<le> m"
  have "card (lows ys qs m) \<le> card (lows xs ps m)" by (rule card_mono [OF finite_lows assms(2) [OF m]])
  with assms(1,3,4) m show "sum_list ys + int (card (lows ys qs m)) \<le> m + int (length qs) - 1" by (fastforce simp: soft_bound_def)
qed

lemma soft_bound_phase:
  assumes "soft_bound xs ps mx" "\<And>m. low xs p m \<Longrightarrow> low xs (ps ! i) m"
  shows "soft_bound xs (ps[i := p]) mx"
proof (rule soft_bound_mono [OF assms(1)])
  fix m
  have "low xs (ps ! j) m" if "j < length ps" "low xs (ps[i := p] ! j) m" for j
    using that assms(2) by (cases "j = i") simp_all
  then show "lows xs (ps[i := p]) m \<subseteq> lows xs ps m" by (auto simp: lows_def)
qed simp_all

lemma soft_bound_begin:
  assumes "soft_bound xs ps mx" "i < length ps"
  shows "soft_bound xs (ps[i := Summing 0 0]) mx"
  unfolding soft_bound_def
proof (intro allI impI)
  fix m assume m: "mx \<le> m"
  show "sum_list xs + int (card (lows xs (ps[i := Summing 0 0]) m)) \<le> m + int (length (ps[i := Summing 0 0])) - 1"
  proof (cases "sum_list xs < m")
    case True
    with card_lows_le [of xs "ps[i := Summing 0 0]" m] show ?thesis by simp
  next
    case False
    then have "lows xs (ps[i := Summing 0 0]) m \<subseteq> lows xs ps m"
      using assms(2) by (auto simp: lows_def low_def nth_list_update split: if_splits)
    from card_mono [OF finite_lows this] assms(1) m show ?thesis by (fastforce simp: soft_bound_def)
  qed
qed

lemma sum_drop_update: "i < length xs \<Longrightarrow> sum_list (drop k (xs[i := y])) = sum_list (drop k xs) + (if k \<le> i then y - xs ! i else 0)" for y :: int
proof (induction xs arbitrary: i k)
  case (Cons x xs)
  show ?case
  proof (cases k)
    case 0
    show ?thesis
    proof (cases i)
      case (Suc j)
      with Cons.IH [of j 0] Cons.prems 0 show ?thesis by simp
    qed (simp add: 0)
  next
    case (Suc k')
    with Cons show ?thesis by (cases i) simp_all
  qed
qed simp

lemma sum_update: "i < length xs \<Longrightarrow> sum_list (xs[i := y]) = sum_list xs + y - xs ! i" for y :: int
  using sum_drop_update [of i xs 0 y] by simp

lemma low_update:
  assumes "i < length xs"
  shows "y \<le> xs ! i \<Longrightarrow> low (xs[i := y]) p m \<Longrightarrow> low xs p (m + (xs ! i - y))"
    and "low (xs[i := xs ! i + 1]) p m \<Longrightarrow> low xs p m"
  using assms by (cases p; auto simp: low_def sum_drop_update split: if_splits)+

text \<open>A count that goes down, by any amount, keeps the bound: who becomes low at \<open>m\<close> was low that much higher.\<close>

lemma soft_bound_decrease:
  assumes b: "soft_bound xs ps mx" and i: "i < length xs" "y \<le> xs ! i"
  shows "soft_bound (xs[i := y]) ps mx"
  unfolding soft_bound_def
proof (intro allI impI)
  fix m assume m: "mx \<le> m"
  let ?d = "xs ! i - y"
  have "lows (xs[i := y]) ps m \<subseteq> lows xs ps (m + ?d)"
    using low_update(1) [OF i] by (auto simp: lows_def)
  then have "card (lows (xs[i := y]) ps m) \<le> card (lows xs ps (m + ?d))" by (rule card_mono [OF finite_lows])
  moreover have "sum_list xs + int (card (lows xs ps (m + ?d))) \<le> (m + ?d) + int (length ps) - 1"
    using b m i by (simp add: soft_bound_def)
  ultimately show "sum_list (xs[i := y]) + int (card (lows (xs[i := y]) ps m)) \<le> m + int (length ps) - 1"
    using sum_update [OF i(1), of y] by simp
qed

text \<open>A DP that writes its admission was low at every \<open>m\<close> and is no more.\<close>

lemma soft_bound_increase:
  assumes b: "soft_bound xs ps mx" and i: "i < length xs" "length xs = length ps" "ps ! i = Summing (length xs) t" "t < mx"
    and p: "\<And>m. \<not> low (xs[i := xs ! i + 1]) p m"
  shows "soft_bound (xs[i := xs ! i + 1]) (ps[i := p]) mx"
  unfolding soft_bound_def
proof (intro allI impI)
  fix m assume m: "mx \<le> m"
  let ?xs = "xs[i := xs ! i + 1]"
  have "j \<noteq> i \<and> low xs (ps ! j) m" if "j < length ps" "low ?xs (ps[i := p] ! j) m" for j
    using that p low_update(2) [OF i(1)] i(1,2) by (cases "j = i") auto
  then have sub: "lows ?xs (ps[i := p]) m \<subseteq> lows xs ps m - {i}" by (auto simp: lows_def)
  have mem: "i \<in> lows xs ps m" using i m by (simp add: lows_def low_def)
  have "card (lows ?xs (ps[i := p]) m) \<le> card (lows xs ps m) - 1"
    using card_mono [OF _ sub] card_Diff_singleton [OF mem] by simp
  moreover have "0 < card (lows xs ps m)" using mem by (auto simp: card_gt_0_iff)
  moreover have "sum_list xs + int (card (lows xs ps m)) \<le> m + int (length ps) - 1" using b m by (simp add: soft_bound_def)
  ultimately show "sum_list ?xs + int (card (lows ?xs (ps[i := p]) m)) \<le> m + int (length (ps[i := p])) - 1"
    using sum_update [OF i(1), of "xs ! i + 1"] by simp
qed

section \<open>The invariant of the cluster\<close>

definition alive :: "phase \<Rightarrow> bool" where
  "alive p \<longleftrightarrow> p \<notin> {Dead_dp, Reclaimed}"

definition dp_ok :: "nat \<Rightarrow> int \<Rightarrow> nat \<Rightarrow> slot_view \<Rightarrow> dp \<Rightarrow> bool" where
  "dp_ok n mx i v d \<longleftrightarrow>
     ad_own (dp_adm d) = i \<and> ad_max_inflight (dp_adm d) = mx \<and> 0 \<le> sv_inflight v \<and>
     (alive (dp_phase d) \<longrightarrow> even (sv_seq v) \<and> sv_inflight v = ad_inflight (dp_adm d) \<and>
        sv_generation v = ad_generation (dp_adm d) \<and> sv_pid v = ad_pid (dp_adm d)) \<and>
     (case dp_phase d of Summing k t \<Rightarrow> k \<le> n | _ \<Rightarrow> True)"

definition counts :: "nat \<Rightarrow> cluster \<Rightarrow> int list" where
  "counts n c = map sv_inflight (take n (cl_slots c))"

definition phases :: "cluster \<Rightarrow> phase list" where
  "phases c = map dp_phase (cl_dps c)"

definition cluster_inv :: "nat \<Rightarrow> int \<Rightarrow> cluster \<Rightarrow> bool" where
  "cluster_inv n mx c \<longleftrightarrow>
     length (cl_slots c) = Suc n \<and> length (cl_dps c) = n \<and> (\<forall>i<n. dp_ok n mx i (cl_slots c ! i) (cl_dps c ! i)) \<and>
     soft_bound (counts n c) (phases c) mx"

lemma counts_nth [simp]: "i < n \<Longrightarrow> length (cl_slots c) = Suc n \<Longrightarrow> counts n c ! i = sv_inflight (cl_slots c ! i)"
  by (simp add: counts_def)

lemma length_counts [simp]: "length (cl_slots c) = Suc n \<Longrightarrow> length (counts n c) = n"
  by (simp add: counts_def)

text \<open>One DP and its slot change, and perhaps the retired slot.\<close>

lemma cluster_inv_put:
  assumes inv: "cluster_inv n mx c" and i: "i < n" and len: "length ss = Suc n" and others: "\<And>j. j < n \<Longrightarrow> j \<noteq> i \<Longrightarrow> ss ! j = cl_slots c ! j"
    and ok: "dp_ok n mx i (ss ! i) \<lparr>dp_adm = a, dp_phase = p\<rparr>"
    and b: "soft_bound ((counts n c)[i := sv_inflight (ss ! i)]) ((phases c)[i := p]) mx"
  shows "cluster_inv n mx (put_dp c i p (a, ss))"
proof -
  have cnt: "counts n (put_dp c i p (a, ss)) = (counts n c)[i := sv_inflight (ss ! i)]"
    using inv len others i by (intro nth_equalityI) (auto simp: counts_def put_dp_def cluster_inv_def nth_list_update)
  have ph: "phases (put_dp c i p (a, ss)) = (phases c)[i := p]" by (simp add: phases_def put_dp_def map_update)
  have "dp_ok n mx j (cl_slots (put_dp c i p (a, ss)) ! j) (cl_dps (put_dp c i p (a, ss)) ! j)" if "j < n" for j
    using inv others [OF that] ok that i by (cases "j = i") (auto simp: put_dp_def cluster_inv_def)
  with inv b show ?thesis using len by (simp add: cluster_inv_def cnt ph) (simp add: put_dp_def)
qed

section \<open>Every step keeps the invariant\<close>

lemma cluster_invD:
  assumes "cluster_inv n mx c" "i < n"
  shows "length (cl_slots c) = Suc n" "length (cl_dps c) = n" "length (phases c) = n" "phases c ! i = dp_phase (cl_dps c ! i)"
    "dp_ok n mx i (cl_slots c ! i) (cl_dps c ! i)" "soft_bound (counts n c) (phases c) mx" "length (counts n c) = n"
    "counts n c ! i = sv_inflight (cl_slots c ! i)" "ad_own (dp_adm (cl_dps c ! i)) = i" "ad_max_inflight (dp_adm (cl_dps c ! i)) = mx"
    "0 \<le> sv_inflight (cl_slots c ! i)" "alive (dp_phase (cl_dps c ! i)) \<Longrightarrow> ad_inflight (dp_adm (cl_dps c ! i)) = sv_inflight (cl_slots c ! i)"
  using assms by (auto simp: cluster_inv_def phases_def dp_ok_def)

lemma not_low [simp]: "\<not> low xs Idle m" "\<not> low xs Dead_dp m" "\<not> low xs Reclaimed m"
  by (simp_all add: low_def)

lemma alive_simps [simp]: "alive Idle" "alive (Summing k t)" "\<not> alive Dead_dp" "\<not> alive Reclaimed"
  by (simp_all add: alive_def)

text \<open>A DP writes its own slot.\<close>

lemma cluster_inv_write:
  assumes inv: "cluster_inv n mx c" and i: "i < n" and a: "ad_own a = i" "ad_max_inflight a = mx" "0 \<le> ad_inflight a"
    and p: "p = Idle" and b: "soft_bound ((counts n c)[i := ad_inflight a]) ((phases c)[i := p]) mx"
  shows "cluster_inv n mx (put_dp c i p (a, write_own (cl_slots c) a now))"
  using cluster_invD(1) [OF inv i] i a p b
  by (intro cluster_inv_put [OF inv i]) (auto simp: write_own_def codec_write_def dp_ok_def writing_marker_def)

lemma cluster_inv_reject:
  assumes inv: "cluster_inv n mx c" and i: "i < n" and al: "alive (dp_phase (cl_dps c ! i))"
    and a: "a \<in> {dp_adm (cl_dps c ! i), mark_sibling_unstable (dp_adm (cl_dps c ! i)) t, mark_sibling_stable (dp_adm (cl_dps c ! i))}"
  shows "cluster_inv n mx (put_dp c i Idle (count_rejection (cl_slots c) a now))"
proof -
  note D = cluster_invD [OF inv i]
  let ?a = "a\<lparr>ad_rejected_total := ad_rejected_total a + 1\<rparr>"
  have "cluster_inv n mx (put_dp c i Idle (?a, write_own (cl_slots c) ?a now))"
  proof (rule cluster_inv_write [OF inv i])
    show "ad_own ?a = i" "ad_max_inflight ?a = mx" "0 \<le> ad_inflight ?a"
      using a D(9-11) D(12) [OF al] by (auto simp: mark_sibling_unstable_def mark_sibling_stable_def)
    have "(counts n c)[i := ad_inflight ?a] = counts n c"
      using a D(8) D(12) [OF al] by (auto simp: mark_sibling_unstable_def mark_sibling_stable_def list_update_same_conv D(7) i)
    then show "soft_bound ((counts n c)[i := ad_inflight ?a]) ((phases c)[i := Idle]) mx"
      using soft_bound_phase [OF D(6), of Idle i] by simp
  qed simp
  then show ?thesis by (simp add: count_rejection_def Let_def)
qed

text \<open>Only the phase changes.\<close>

lemma cluster_inv_phase:
  assumes inv: "cluster_inv n mx c" and i: "i < n" and al: "alive (dp_phase (cl_dps c ! i))" "case p of Summing k t \<Rightarrow> k \<le> n | _ \<Rightarrow> True"
    and b: "soft_bound (counts n c) ((phases c)[i := p]) mx"
  shows "cluster_inv n mx (put_dp c i p (dp_adm (cl_dps c ! i), cl_slots c))"
proof (rule cluster_inv_put [OF inv i])
  note D = cluster_invD [OF inv i]
  show "dp_ok n mx i (cl_slots c ! i) \<lparr>dp_adm = dp_adm (cl_dps c ! i), dp_phase = p\<rparr>"
    using D(5) al by (auto simp: dp_ok_def)
  show "soft_bound ((counts n c)[i := sv_inflight (cl_slots c ! i)]) ((phases c)[i := p]) mx"
    using b D(7,8) i by (metis list_update_id)
qed (use cluster_invD [OF inv i] in simp_all)

lemma put_dp_same: "put_dp c i (dp_phase (cl_dps c ! i)) (dp_adm (cl_dps c ! i), ss) = c\<lparr>cl_slots := ss\<rparr>"
proof -
  have "\<lparr>dp_adm = dp_adm d, dp_phase = dp_phase d\<rparr> = d" for d :: dp by (cases d) simp
  then have "put_dp c i (dp_phase (cl_dps c ! i)) (dp_adm (cl_dps c ! i), ss) = c\<lparr>cl_slots := ss, cl_dps := cl_dps c\<rparr>"
    by (simp only: put_dp_def fst_conv snd_conv list_update_id)
  then show ?thesis by (cases c) simp
qed

lemma phases_id: "cluster_inv n mx c \<Longrightarrow> i < n \<Longrightarrow> dp_phase (cl_dps c ! i) = p \<Longrightarrow> (phases c)[i := p] = phases c"
  using cluster_invD(4) list_update_id by metis

lemma inv_acquire_begin:
  assumes inv: "cluster_inv n mx c" and i: "i < n" and ph: "dp_phase (cl_dps c ! i) = Idle"
  shows "cluster_inv n mx (acquire_begin_step c i (dp_adm (cl_dps c ! i)) now)"
proof -
  have "cluster_inv n mx (put_dp c i (Summing 0 0) (dp_adm (cl_dps c ! i), cl_slots c))"
    by (rule cluster_inv_phase [OF inv i]) (use ph soft_bound_begin cluster_invD [OF inv i] i in auto)
  moreover have "cluster_inv n mx (put_dp c i Idle (count_rejection (cl_slots c) (dp_adm (cl_dps c ! i)) now))"
    by (rule cluster_inv_reject [OF inv i]) (use ph in auto)
  ultimately show ?thesis using inv by (simp add: acquire_begin_step_def)
qed

lemma inv_acquire_read:
  assumes inv: "cluster_inv n mx c" and i: "i < n" and ph: "dp_phase (cl_dps c ! i) = Summing k t" and k: "k < n"
  shows "cluster_inv n mx (acquire_read_step c i (dp_adm (cl_dps c ! i)) k t now)"
proof (cases "codec_read (cl_slots c ! k)")
  case None
  then show ?thesis
    using cluster_inv_reject [OF inv i, of "mark_sibling_unstable (dp_adm (cl_dps c ! i)) now" now] ph by (simp add: acquire_read_step_def)
next
  case (Some v)
  have v: "v = cl_slots c ! k" using Some by (simp add: codec_read_def split: if_splits)
  note D = cluster_invD [OF inv i]
  have "drop k (counts n c) = sv_inflight v # drop (Suc k) (counts n c)"
    using k D(1,7) v cluster_invD(8) [OF inv k] by (metis Cons_nth_drop_Suc)
  then have "low (counts n c) (Summing (Suc k) (t + sv_inflight v)) m \<Longrightarrow> low (counts n c) (phases c ! i) m" for m
    by (simp add: low_def D(4) ph add.assoc)
  then have "cluster_inv n mx (put_dp c i (Summing (Suc k) (t + sv_inflight v)) (dp_adm (cl_dps c ! i), cl_slots c))"
    using soft_bound_phase [OF D(6)] ph k by (intro cluster_inv_phase [OF inv i]) auto
  then show ?thesis by (simp add: acquire_read_step_def Some)
qed

lemma inv_acquire_end:
  assumes inv: "cluster_inv n mx c" and i: "i < n" and ph: "dp_phase (cl_dps c ! i) = Summing n t"
  shows "cluster_inv n mx (put_dp c i Idle (snd (acquire_end (cl_slots c) (dp_adm (cl_dps c ! i)) t now)))"
proof -
  note D = cluster_invD [OF inv i]
  let ?a = "dp_adm (cl_dps c ! i)"
  show ?thesis
  proof (cases "mx \<le> t")
    case True
    then show ?thesis using cluster_inv_reject [OF inv i, of "mark_sibling_stable ?a" now now] ph D(10)
      by (simp add: acquire_end_def mark_sibling_stable_def Let_def)
  next
    case False
    let ?a2 = "(mark_sibling_stable ?a)\<lparr>ad_inflight := ad_inflight ?a + 1, ad_peak_sum := max (ad_peak_sum ?a) (t + 1)\<rparr>"
    have "soft_bound ((counts n c)[i := counts n c ! i + 1]) ((phases c)[i := Idle]) mx"
      by (rule soft_bound_increase [OF D(6), of i t]) (use i D ph False in simp_all)
    then have "cluster_inv n mx (put_dp c i Idle (?a2, write_own (cl_slots c) ?a2 now))"
      using D(8-12) ph by (intro cluster_inv_write [OF inv i]) (simp_all add: mark_sibling_stable_def)
    then show ?thesis using False D(10) by (simp add: acquire_end_def mark_sibling_stable_def Let_def)
  qed
qed

lemma inv_release:
  assumes inv: "cluster_inv n mx c" and i: "i < n" and ph: "dp_phase (cl_dps c ! i) = Idle"
  shows "cluster_inv n mx (put_dp c i Idle (adm_release (cl_slots c) (dp_adm (cl_dps c ! i)) now))"
proof -
  note D = cluster_invD [OF inv i]
  let ?a = "dp_adm (cl_dps c ! i)"
  have same: "put_dp c i Idle (?a, cl_slots c) = c" using put_dp_same [of c i "cl_slots c"] ph by simp
  have "cluster_inv n mx (put_dp c i Idle (?a\<lparr>ad_inflight := ad_inflight ?a - 1\<rparr>, write_own (cl_slots c) (?a\<lparr>ad_inflight := ad_inflight ?a - 1\<rparr>) now))"
    if "0 < ad_inflight ?a"
  proof (rule cluster_inv_write [OF inv i])
    have "soft_bound ((counts n c)[i := ad_inflight ?a - 1]) (phases c) mx"
      using soft_bound_decrease [OF D(6), of i "ad_inflight ?a - 1"] D(7,8,12) i ph by simp
    then show "soft_bound ((counts n c)[i := ad_inflight (?a\<lparr>ad_inflight := ad_inflight ?a - 1\<rparr>)]) ((phases c)[i := Idle]) mx"
      using phases_id [OF inv i ph] by simp
  qed (use that D in simp_all)
  then show ?thesis using inv same by (auto simp: adm_release_def Let_def split: option.split bool.split)
qed

lemma inv_touch:
  assumes inv: "cluster_inv n mx c" and i: "i < n" and ph: "dp_phase (cl_dps c ! i) = Idle"
  shows "cluster_inv n mx (case touch (cl_slots c) (dp_adm (cl_dps c ! i)) now of None \<Rightarrow> c | Some ss \<Rightarrow> c\<lparr>cl_slots := ss\<rparr>)"
proof -
  note D = cluster_invD [OF inv i]
  let ?a = "dp_adm (cl_dps c ! i)"
  have "(counts n c)[i := ad_inflight ?a] = counts n c" using D(8,12) ph by (simp add: list_update_same_conv D(7) i)
  then have "cluster_inv n mx (put_dp c i Idle (?a, write_own (cl_slots c) ?a now))"
    using D phases_id [OF inv i ph] ph by (intro cluster_inv_write [OF inv i]) simp_all
  then have "cluster_inv n mx (c\<lparr>cl_slots := write_own (cl_slots c) ?a now\<rparr>)"
    using put_dp_same [of c i "write_own (cl_slots c) ?a now"] ph by simp
  with inv show ?thesis by (cases "still_owner (cl_slots c) (dp_adm (cl_dps c ! i))") (simp_all add: touch_def)
qed

lemma inv_crash:
  assumes inv: "cluster_inv n mx c" and i: "i < n" and al: "alive (dp_phase (cl_dps c ! i))"
  shows "cluster_inv n mx (put_dp c i Dead_dp (dp_adm (cl_dps c ! i),
    (cl_slots c)[i := crash_slot (cl_slots c ! i) (crash_count n (cl_dps c ! i) landed) torn]))"
proof (rule cluster_inv_put [OF inv i])
  note D = cluster_invD [OF inv i]
  let ?x = "crash_count n (cl_dps c ! i) landed" and ?v = "cl_slots c ! i"
  have x: "?x = sv_inflight ?v \<or> ?x = sv_inflight ?v - 1 \<and> 0 < sv_inflight ?v \<or>
      ?x = sv_inflight ?v + 1 \<and> (\<exists>t. dp_phase (cl_dps c ! i) = Summing n t \<and> t < mx)"
    using D(10,12) al by (auto simp: crash_count_def Let_def split: phase.splits)
  show "dp_ok n mx i ((cl_slots c)[i := crash_slot ?v ?x torn] ! i) \<lparr>dp_adm = dp_adm (cl_dps c ! i), dp_phase = Dead_dp\<rparr>"
    using x D(1,9-11) i by (auto simp: dp_ok_def crash_slot_def begin_write_def)
  have "soft_bound ((counts n c)[i := ?x]) ((phases c)[i := Dead_dp]) mx"
    using x
  proof (elim disjE conjE exE)
    assume "?x = sv_inflight ?v"
    then show ?thesis using soft_bound_phase [OF D(6), of Dead_dp i] D(7,8) i by (metis list_update_id not_low(2))
  next
    assume "?x = sv_inflight ?v - 1"
    then show ?thesis using soft_bound_decrease [OF soft_bound_phase [OF D(6), of Dead_dp i], of i ?x] D(7,8) i by simp
  next
    fix t assume "?x = sv_inflight ?v + 1" "dp_phase (cl_dps c ! i) = Summing n t" "t < mx"
    then show ?thesis using soft_bound_increase [OF D(6), of i t Dead_dp] D(3,4,7,8) i by simp
  qed
  moreover have "soft_bound (counts n c) ((phases c)[i := Dead_dp]) mx" by (rule soft_bound_phase [OF D(6)]) simp
  moreover have "(counts n c)[i := sv_inflight ?v] = counts n c" using D(7,8) i by (metis list_update_id)
  ultimately show "soft_bound ((counts n c)[i := sv_inflight ((cl_slots c)[i := crash_slot ?v ?x torn] ! i)]) ((phases c)[i := Dead_dp]) mx"
    using D(1) i by (simp add: crash_slot_def begin_write_def)
qed (use cluster_invD [OF inv i] in simp_all)

lemma inv_reclaim:
  assumes inv: "cluster_inv n mx c" and i: "i < n"
  shows "cluster_inv n mx (put_dp c i Reclaimed (dp_adm (cl_dps c ! i), fold_and_reclaim_slot n (cl_slots c) i now))"
proof (rule cluster_inv_put [OF inv i])
  note D = cluster_invD [OF inv i]
  have ri: "fold_and_reclaim_slot n (cl_slots c) i now ! i = reclaim (cl_slots c ! i) now"
    using D(1) i by (simp add: fold_and_reclaim_slot_def Let_def split: option.split)
  show "length (fold_and_reclaim_slot n (cl_slots c) i now) = Suc n" using D(1) by (simp add: fold_and_reclaim_slot_def Let_def split: option.split)
  show "fold_and_reclaim_slot n (cl_slots c) i now ! j = cl_slots c ! j" if "j < n" "j \<noteq> i" for j
    using that by (simp add: fold_and_reclaim_slot_def Let_def split: option.split)
  show "dp_ok n mx i (fold_and_reclaim_slot n (cl_slots c) i now ! i) \<lparr>dp_adm = dp_adm (cl_dps c ! i), dp_phase = Reclaimed\<rparr>"
    using D(9,10) by (simp add: ri dp_ok_def reclaim_def codec_write_def zero_slot_def)
  show "soft_bound ((counts n c)[i := sv_inflight (fold_and_reclaim_slot n (cl_slots c) i now ! i)]) ((phases c)[i := Reclaimed]) mx"
    using soft_bound_decrease [OF soft_bound_phase [OF D(6), of Reclaimed i], of i 0] D(7,8,11) i
    by (simp add: ri reclaim_def codec_write_def zero_slot_def)
qed

lemma inv_restart_dp:
  assumes inv: "cluster_inv n mx c" and i: "i < n" and r: "new_admission (cl_slots c) n i mx gen pid now = Inr (a, ss)"
  shows "cluster_inv n mx (put_dp c i Idle (a, ss))"
proof -
  note D = cluster_invD [OF inv i]
  have a: "ad_own a = i" "ad_max_inflight a = mx" "ad_inflight a = 0" "ss = write_own (cl_slots c) a now"
    using r i by (auto simp: new_admission_def Let_def)
  have "soft_bound ((counts n c)[i := 0]) ((phases c)[i := Idle]) mx"
    using soft_bound_decrease [OF soft_bound_phase [OF D(6), of Idle i], of i 0] D(7,8,11) i by simp
  then have "cluster_inv n mx (put_dp c i Idle (a, write_own (cl_slots c) a now))"
    using a(1-3) by (intro cluster_inv_write [OF inv i]) simp_all
  then show ?thesis by (simp add: a(4))
qed

lemma cluster_inv_step: "cluster_inv n mx c \<Longrightarrow> cluster_inv n mx (cluster_step n c ev)"
proof (cases ev)
  case (ARestart i gen pid now)
  assume inv: "cluster_inv n mx c"
  with ARestart cluster_invD(10) [OF inv] inv_restart_dp [OF inv, of i gen pid now]
  show ?thesis by (auto split: sum.split)
next
  case (ACrashed i torn landed)
  assume inv: "cluster_inv n mx c"
  with ACrashed inv_crash [OF inv, of i landed torn] show ?thesis by (simp add: alive_def)
next
  case (ARead i now)
  assume inv: "cluster_inv n mx c"
  with ARead inv_acquire_read [OF inv, of i] show ?thesis by (auto split: phase.split)
next
  case (AWrite i now)
  assume inv: "cluster_inv n mx c"
  with AWrite inv_acquire_end [OF inv, of i] show ?thesis by (auto split: phase.split)
qed (simp_all add: inv_acquire_begin inv_release inv_touch inv_reclaim)

interpretation ac: machine "cluster_step n" "cluster_inv n mx" for n mx
  by unfold_locales (rule cluster_inv_step)

section \<open>Properties\<close>

definition started_slot :: "nat \<Rightarrow> slot_view" where
  "started_slot i = \<lparr>sv_seq = 2, sv_inflight = 0, sv_peak_sum = 0, sv_rejected_total = 0, sv_generation = 1, sv_pid = int i + 1, sv_heartbeat = 0\<rparr>"

lemma write_own_start: "ss ! i = zero_slot \<Longrightarrow> write_own ss (start_dp mx i) 0 = ss[i := started_slot i]"
  by (simp add: write_own_def start_dp_def codec_write_def zero_slot_def writing_marker_def started_slot_def numeral_2_eq_2)

lemma start_slots:
  "k \<le> n \<Longrightarrow> fold (\<lambda>i ss. write_own ss (start_dp mx i) 0) [0..<k] (admission_file n) =
    map started_slot [0..<k] @ replicate (Suc n - k) zero_slot"
proof (induction k)
  case (Suc k)
  let ?ss = "map started_slot [0..<k] @ zero_slot # replicate (n - k) zero_slot"
  have r: "replicate (Suc n - k) zero_slot = zero_slot # replicate (n - k) zero_slot" using Suc.prems by (simp add: Suc_diff_le)
  have "?ss ! k = zero_slot" by (simp add: nth_append)
  then have "write_own ?ss (start_dp mx k) 0 = ?ss[k := started_slot k]" by (rule write_own_start)
  with Suc r show ?case by (simp add: list_update_append)
qed (simp add: admission_file_def)

lemma start_cluster_slots [simp]: "cl_slots (start_cluster n mx) = map started_slot [0..<n] @ [zero_slot]"
  by (simp add: start_cluster_def start_slots)

lemma start_cluster_dps [simp]: "cl_dps (start_cluster n mx) = map (\<lambda>i. \<lparr>dp_adm = start_dp mx i, dp_phase = Idle\<rparr>) [0..<n]"
  by (simp add: start_cluster_def)

lemma cluster_inv_start: "0 < n \<Longrightarrow> 0 \<le> mx \<Longrightarrow> cluster_inv n mx (start_cluster n mx)"
proof -
  assume n: "0 < n" "0 \<le> mx"
  have cnt: "counts n (start_cluster n mx) = map (\<lambda>i. 0) [0..<n]" by (simp add: counts_def started_slot_def comp_def)
  have ph: "phases (start_cluster n mx) = map (\<lambda>i. Idle) [0..<n]" by (simp add: phases_def comp_def)
  have "lows (counts n (start_cluster n mx)) (phases (start_cluster n mx)) m = {}" for m by (simp add: lows_def low_def ph)
  then have "soft_bound (counts n (start_cluster n mx)) (phases (start_cluster n mx)) mx"
    using n by (simp add: soft_bound_def cnt ph sum_list_0 [unfolded map_replicate_const])
  moreover have "dp_ok n mx i (cl_slots (start_cluster n mx) ! i) (cl_dps (start_cluster n mx) ! i)" if "i < n" for i
    using that by (simp add: nth_append dp_ok_def start_dp_def started_slot_def)
  ultimately show ?thesis by (simp add: cluster_inv_def)
qed

text \<open>
  C29: the global bound is soft by less than the number of data planes. However the admissions, releases,
  heartbeats, deaths (inside a write too), reclaims and restarts of \<open>n\<close> data planes interleave, the requests in
  flight over all slots exceed the bound by at most \<open>n - 1\<close>, and no slot's count goes
  below zero, although no admission ever reads all slots at one moment.
\<close>

theorem admission_overshoot_bounded:
  assumes "0 < n" and "0 \<le> mx"
  shows "let c = run (cluster_step n) (start_cluster n mx) evs in
    sum_list (counts n c) \<le> mx + int n - 1 \<and> list_all (\<lambda>x. 0 \<le> x) (counts n c)"
proof -
  let ?c = "run (cluster_step n) (start_cluster n mx) evs"
  have inv: "cluster_inv n mx ?c" by (rule ac.inv_run [OF cluster_inv_start [OF assms]])
  then have "sum_list (counts n ?c) + int (card (lows (counts n ?c) (phases ?c) mx)) \<le> mx + int n - 1"
    by (auto simp: cluster_inv_def soft_bound_def phases_def)
  moreover have "0 \<le> counts n ?c ! i" if "i < n" for i using cluster_invD [OF inv that] by simp
  moreover have "length (counts n ?c) = n" using inv by (simp add: cluster_inv_def counts_def)
  ultimately show ?thesis by (auto simp: Let_def list_all_length)
qed

theorem admission_overshoot_bounded_witness:
  "let c = run (cluster_step 2) (start_cluster 2 1)
        [ABegin 0 0, ARead 0 0, ABegin 1 0, ARead 0 0, ARead 1 0, ARead 1 0, AWrite 0 0, AWrite 1 0] in
    sum_list (counts 2 c) \<le> 1 + int 2 - 1 \<and> list_all (\<lambda>x. 0 \<le> x) (counts 2 c)"
  by (rule admission_overshoot_bounded) simp_all

lemma Max_merge: "finite A \<Longrightarrow> 0 \<le> (x::int) \<Longrightarrow> Max (insert 0 (insert (max y x) A)) = Max (insert x (insert y A))"
  by (cases "A = {}") (simp_all add: max.left_commute max.commute)

lemma aggregate_split:
  "aggregate (Suc (length xs + length ys)) (xs @ v # ys @ [r]) mx =
     (if list_all (\<lambda>v. even (sv_seq v)) (v # r # xs @ ys) then
        Some \<lparr>tot_inflight = sum_list (map sv_inflight (xs @ ys)) + sv_inflight v, tot_max_inflight = mx,
              tot_peak_inflight = Max (insert (sv_peak_sum v) (insert (sv_peak_sum r) (sv_peak_sum ` set (xs @ ys)))),
              tot_rejected_total = sum_list (map sv_rejected_total (xs @ ys)) + sv_rejected_total v + sv_rejected_total r\<rparr>
      else None)"
proof -
  have "set (map sv_peak_sum (xs @ v # ys @ [r])) = insert (sv_peak_sum v) (insert (sv_peak_sum r) (sv_peak_sum ` set (xs @ ys)))" by auto
  then show ?thesis by (auto simp: aggregate_def codec_read_def nth_append list_all_iff split: if_splits)
qed

text \<open>
  A restart does not move the published totals backwards. Folding a readable dead slot into the
  retired slot and reclaiming it keeps the rejected total and the peak that \<^verbatim>\<open>/health\<close> reports, and takes exactly the dead
  data plane's requests out of the in-flight total.
\<close>

theorem reclaim_keeps_totals:
  assumes "aggregate n ss mx = Some t" "i < n" "length ss = Suc n" "list_all (\<lambda>v. 0 \<le> sv_peak_sum v) ss"
  shows "aggregate n (fold_and_reclaim_slot n ss i now) mx = Some (t\<lparr>tot_inflight := tot_inflight t - sv_inflight (ss ! i)\<rparr>)"
proof -
  obtain xs v ys r where ss: "ss = xs @ v # ys @ [r]" and xs: "length xs = i"
  proof (rule that)
    show "ss = take i ss @ ss ! i # drop (Suc i) (take n ss) @ [ss ! n]"
      using assms(2,3) take_Suc_conv_app_nth [of n ss] id_take_nth_drop [of i "take n ss"]
      by (simp del: drop_take) (metis append_Cons append_assoc)
  qed (use assms in simp)
  have n: "n = Suc (length xs + length ys)" using assms(3) ss by simp
  note t = assms(1) [unfolded ss n aggregate_split]
  define z where "z = reclaim v now"
  define r' where "r' = end_write ((begin_write r)\<lparr>sv_inflight := 0, sv_peak_sum := max (sv_peak_sum r) (sv_peak_sum v),
    sv_rejected_total := sv_rejected_total r + sv_rejected_total v, sv_generation := 0, sv_pid := 0, sv_heartbeat := now\<rparr>) (sv_seq (begin_write r))"
  have new: "fold_and_reclaim_slot n ss i now = xs @ z # ys @ [r']"
    using t xs by (auto simp: fold_and_reclaim_slot_def ss n codec_read_def nth_append list_update_append Let_def z_def r'_def split: if_splits)
  have z: "even (sv_seq z)" "sv_peak_sum z = 0" "sv_inflight z = 0" "sv_rejected_total z = 0"
    by (simp_all add: z_def reclaim_def codec_write_def zero_slot_def)
  have r: "even (sv_seq r')" "sv_peak_sum r' = max (sv_peak_sum r) (sv_peak_sum v)" "sv_rejected_total r' = sv_rejected_total r + sv_rejected_total v"
    by (simp_all add: r'_def end_write_def begin_write_def)
  have "0 \<le> sv_peak_sum v" "ss ! i = v" using assms(4) xs by (simp_all add: ss nth_append)
  then show ?thesis unfolding new unfolding n aggregate_split
    using t by (auto simp: z r Max_merge simp del: Max_insert split: if_splits)
qed

theorem reclaim_keeps_totals_witness:
  "aggregate 1 (fold_and_reclaim_slot 1 [zero_slot\<lparr>sv_seq := 4, sv_inflight := 2, sv_peak_sum := 3, sv_rejected_total := 5\<rparr>, zero_slot] 0 9) 8 =
    Some (\<lparr>tot_inflight = 2, tot_max_inflight = 8, tot_peak_inflight = 3, tot_rejected_total = 5\<rparr>\<lparr>tot_inflight := 2 - 2\<rparr>)"
  using reclaim_keeps_totals [of 1 "[zero_slot\<lparr>sv_seq := 4, sv_inflight := 2, sv_peak_sum := 3, sv_rejected_total := 5\<rparr>, zero_slot]" 8
      "\<lparr>tot_inflight = 2, tot_max_inflight = 8, tot_peak_inflight = 3, tot_rejected_total = 5\<rparr>" 0 9]
  by (simp add: aggregate_def codec_read_def zero_slot_def)





end
