(* ===== verification/Audio_Chunks.thy ===== *)
theory Audio_Chunks
  imports Prelude Complex_Main
begin

text \<open>
  Long-audio chunking of the transcription endpoint: \<^verbatim>\<open>serve/transcription_chunking.py\<close> with the merged
  configuration of \<^verbatim>\<open>config/schema.py\<close>. A waveform is a list of samples; sample values, seconds and energies are
  real numbers, so the rounding of the float arithmetic is left out. Decoding the upload is not modelled: the
  waveform is an argument.
\<close>

section \<open>Configuration\<close>

record audio_chunking =
  allow_audio_chunking :: bool
  max_audio_clip_s :: real
  max_native_clip_s :: "real option"
  max_total_audio_s :: "real option"
  min_tail_s :: real
  max_concurrent_chunks :: nat
  condition_on_previous_text :: bool

text \<open>\<^verbatim>\<open>int(x)\<close> of a float truncates towards zero.\<close>

definition py_trunc :: "real \<Rightarrow> int" where
  "py_trunc x = (if 0 \<le> x then \<lfloor>x\<rfloor> else \<lceil>x\<rceil>)"

definition stream_clip_limit_s :: "audio_chunking \<Rightarrow> real" where
  "stream_clip_limit_s c = (case max_native_clip_s c of Some m \<Rightarrow> m | None \<Rightarrow> max_audio_clip_s c)"

definition chunk_samples :: "audio_chunking \<Rightarrow> int \<Rightarrow> int" where
  "chunk_samples c rate = max (py_trunc (max_audio_clip_s c * of_int rate)) 1"

definition needs_chunking :: "real \<Rightarrow> audio_chunking \<Rightarrow> bool" where
  "needs_chunking dur c =
     (if \<not> allow_audio_chunking c then False
      else if dur \<le> 0 then False
      else max_audio_clip_s c < dur)"

datatype chunk_error = TotalTooLong real real | NegativeSearchWindow | EmptyEnergyWindow

definition check_total_duration :: "real \<Rightarrow> audio_chunking \<Rightarrow> chunk_error + unit" where
  "check_total_duration dur c =
     (case max_total_audio_s c of
        None \<Rightarrow> Inr ()
      | Some limit \<Rightarrow> if dur \<le> limit then Inr () else Inl (TotalTooLong limit dur))"

section \<open>The splitter\<close>

record rms_splitter =
  search_window_s :: real
  energy_window_samples :: nat

definition new_splitter :: "real \<Rightarrow> int \<Rightarrow> chunk_error + rms_splitter" where
  "new_splitter sw ew =
     (if sw < 0 then Inl NegativeSearchWindow
      else if ew < 1 then Inl EmptyEnergyWindow
      else Inr \<lparr>search_window_s = sw, energy_window_samples = nat ew\<rparr>)"

definition slice :: "int \<Rightarrow> int \<Rightarrow> 'a list \<Rightarrow> 'a list" where
  "slice a b xs = take (nat (b - a)) (drop (nat a) xs)"

definition mean :: "real list \<Rightarrow> real" where
  "mean xs = sum_list xs / of_nat (length xs)"

text \<open>\<^verbatim>\<open>np.argmin\<close>: the first index of the least value.\<close>

fun argmin :: "real list \<Rightarrow> nat" where
  "argmin [] = 0"
| "argmin [x] = 0"
| "argmin (x # y # zs) = (let i = argmin (y # zs) in if x \<le> (y # zs) ! i then 0 else Suc i)"

definition window_energies :: "nat \<Rightarrow> real list \<Rightarrow> real list" where
  "window_energies win region =
     map (\<lambda>i. mean (map (\<lambda>x. x * x) (take win (drop (i * win) region)))) [0..<length region div win]"

definition find_split_point :: "rms_splitter \<Rightarrow> real list \<Rightarrow> int \<Rightarrow> int \<Rightarrow> int" where
  "find_split_point sp wav search_start search_end =
     (let region = slice search_start search_end wav; win = energy_window_samples sp; window_count = length region div win in
      if window_count < 1 then search_end
      else search_start + int (argmin (window_energies win region) * win + win div 2))"

text \<open>One round of the loop: where the chunk that starts at \<open>start\<close> is cut when more than a chunk remains.\<close>

definition next_cut :: "rms_splitter \<Rightarrow> real list \<Rightarrow> int \<Rightarrow> int \<Rightarrow> real \<Rightarrow> int \<Rightarrow> int" where
  "next_cut sp wav rate chunk min_tail_secs start =
     (let n = int (length wav); search_samples = max (py_trunc (search_window_s sp * of_int rate)) 0;
          boundary = start + chunk; search_start = max (boundary - search_samples) (start + 1);
          cut = find_split_point sp wav search_start boundary; tail_samples = n - cut;
          min_tail = py_trunc (min_tail_secs * of_int rate) in
      if 0 < tail_samples \<and> tail_samples < min_tail \<and> min_tail \<le> chunk then max (n - min_tail) (start + 1) else cut)"

lemma argmin_less: "xs \<noteq> [] \<Longrightarrow> argmin xs < length xs"
  by (induction xs rule: argmin.induct) (auto simp: Let_def)

lemma argmin_least: "x \<in> set xs \<Longrightarrow> xs ! argmin xs \<le> x"
  by (induction xs rule: argmin.induct) (auto simp: Let_def)

lemma find_split_point_bounds:
  assumes "search_start \<le> search_end"
  shows "search_start \<le> find_split_point sp wav search_start search_end \<and> find_split_point sp wav search_start search_end \<le> search_end"
proof (cases "length (slice search_start search_end wav) div energy_window_samples sp")
  case (Suc m)
  let ?win = "energy_window_samples sp" and ?r = "slice search_start search_end wav"
  have w: "0 < ?win" using Suc by (cases "?win = 0") auto
  have "argmin (window_energies ?win ?r) < length ?r div ?win"
    using argmin_less [of "window_energies ?win ?r"] Suc by (simp add: window_energies_def)
  then have "Suc (argmin (window_energies ?win ?r)) * ?win \<le> length ?r div ?win * ?win" by (intro mult_le_mono1) simp
  also have "\<dots> \<le> length ?r" by simp
  also have "\<dots> \<le> nat (search_end - search_start)" by (simp add: slice_def)
  finally have "argmin (window_energies ?win ?r) * ?win + ?win div 2 \<le> nat (search_end - search_start)" by simp
  then have "int (argmin (window_energies ?win ?r) * ?win + ?win div 2) \<le> search_end - search_start"
    using assms by linarith
  with Suc show ?thesis by (simp add: find_split_point_def Let_def del: of_nat_add of_nat_mult)
qed (use assms in \<open>simp add: find_split_point_def Let_def\<close>)

lemma next_cut_bounds:
  assumes "1 \<le> chunk" "chunk < int (length wav) - start"
  shows "start < next_cut sp wav rate chunk mt start \<and> next_cut sp wav rate chunk mt start \<le> start + chunk"
proof -
  define ss where "ss = max (start + chunk - max (py_trunc (search_window_s sp * of_int rate)) 0) (start + 1)"
  have "ss \<le> start + chunk" "start < ss" using assms(1) by (auto simp: ss_def)
  with find_split_point_bounds [of ss "start + chunk" sp wav] assms(2) show ?thesis
    unfolding next_cut_def Let_def ss_def [symmetric] by auto
qed

function split_loop :: "rms_splitter \<Rightarrow> real list \<Rightarrow> int \<Rightarrow> int \<Rightarrow> real \<Rightarrow> int \<Rightarrow> (int \<times> int) list" where
  "split_loop sp wav rate max_chunk min_tail_secs start =
     (let n = int (length wav); chunk = max max_chunk 1 in
      if n \<le> start then []
      else if n - start \<le> chunk then [(start, n)]
      else (let cut = next_cut sp wav rate chunk min_tail_secs start in
            (start, cut) # split_loop sp wav rate max_chunk min_tail_secs cut))"
  by pat_completeness auto
termination
proof (relation "measure (\<lambda>(sp, wav, rate, mc, mt, start). nat (int (length wav) - start))", goal_cases)
  case (2 sp wav rate mc mt start n chunk cut)
  then have "start < cut" using next_cut_bounds [of chunk wav start sp rate mt] by (auto simp: not_le le_max_iff_disj)
  with 2 show ?case by auto
qed simp

declare split_loop.simps [simp del]

definition rms_split :: "rms_splitter \<Rightarrow> real list \<Rightarrow> int \<Rightarrow> int \<Rightarrow> real \<Rightarrow> (int \<times> int) list" where
  "rms_split sp wav rate max_chunk_samples min_tail_secs =
     (let n = int (length wav); chunk = max max_chunk_samples 1 in
      if n \<le> 0 then []
      else if n \<le> chunk then [(0, n)]
      else split_loop sp wav rate max_chunk_samples min_tail_secs 0)"

section \<open>The plan\<close>

record chunk_span =
  cs_index :: nat
  start_sample :: int
  end_sample :: int
  start_s :: real
  end_s :: real
  has_speech :: bool

definition duration_s :: "chunk_span \<Rightarrow> real" where
  "duration_s sp = end_s sp - start_s sp"

record chunk_plan =
  plan_sample_rate :: int
  plan_duration_s :: real
  spans :: "chunk_span list"
  waveform :: "real list"

definition SILENT_CHUNK_PEAK_THRESHOLD :: real where
  "SILENT_CHUNK_PEAK_THRESHOLD = 1 / 1000"

definition span_of :: "int \<Rightarrow> real list \<Rightarrow> nat \<times> int \<times> int \<Rightarrow> chunk_span" where
  "span_of rate wav = (\<lambda>(index, start, stop).
     \<lparr>cs_index = index, start_sample = start, end_sample = stop, start_s = of_int start / of_int rate, end_s = of_int stop / of_int rate,
      has_speech = (SILENT_CHUNK_PEAK_THRESHOLD \<le> Max (set (map abs (slice start stop wav))))\<rparr>)"

text \<open>\<^verbatim>\<open>plan_audio_chunks\<close> on a decoded upload; \<open>None\<close> leaves the upload untouched.\<close>

definition plan_audio_chunks :: "rms_splitter \<Rightarrow> int \<Rightarrow> audio_chunking \<Rightarrow> real list \<Rightarrow> chunk_plan option" where
  "plan_audio_chunks sp rate c wav =
     (let n = int (length wav); max_chunk_samples = chunk_samples c rate in
      if n \<le> max_chunk_samples then None
      else Some \<lparr>plan_sample_rate = rate, plan_duration_s = of_int n / of_int rate,
        spans = map (span_of rate wav) (enumerate 0 (rms_split sp wav rate max_chunk_samples (min_tail_s c))), waveform = wav\<rparr>)"

definition span_audio :: "chunk_plan \<Rightarrow> chunk_span \<Rightarrow> real list" where
  "span_audio p s = slice (start_sample s) (end_sample s) (waveform p)"


section \<open>Chunks partition the audio\<close>

lemma slice_append_drop: "0 \<le> a \<Longrightarrow> a \<le> b \<Longrightarrow> slice a b xs @ drop (nat b) xs = drop (nat a) xs"
  by (simp add: slice_def nat_diff_distrib) (metis append_take_drop_id drop_drop le_add_diff_inverse2 nat_mono)

lemma map_enumerate_snd: "map (\<lambda>q. g (snd q)) (enumerate n xs) = map g xs"
  by (induction xs arbitrary: n) simp_all

lemma next_cut_tail:
  assumes "0 \<le> start" "1 \<le> chunk" "chunk < int (length wav) - start" and t: "py_trunc (mt * of_int rate) \<le> chunk"
  shows "let cut = next_cut sp wav rate chunk mt start in cut < int (length wav) \<and> py_trunc (mt * of_int rate) \<le> int (length wav) - cut"
proof -
  have "next_cut sp wav rate chunk mt start < int (length wav)" using next_cut_bounds [OF assms(2,3), of sp rate mt] assms(3) by linarith
  moreover have "py_trunc (mt * of_int rate) \<le> int (length wav) - next_cut sp wav rate chunk mt start"
    using t next_cut_bounds [OF assms(2,3), of sp rate mt] assms(3) unfolding next_cut_def Let_def by (auto split: if_splits)
  ultimately show ?thesis by (simp add: Let_def)
qed

lemma split_loop_sound:
  assumes "0 \<le> start" "start < int (length wav)"
  shows "split_loop sp wav rate mc mt start \<noteq> [] \<and>
    concat (map (\<lambda>(a, b). slice a b wav) (split_loop sp wav rate mc mt start)) = drop (nat start) wav \<and>
    (\<forall>(a, b)\<in>set (split_loop sp wav rate mc mt start). 0 \<le> a \<and> a < b \<and> b - a \<le> max mc 1 \<and> b \<le> int (length wav)) \<and>
    (py_trunc (mt * of_int rate) \<le> max mc 1 \<longrightarrow> py_trunc (mt * of_int rate) \<le> int (length wav) - start \<longrightarrow>
       (case last (split_loop sp wav rate mc mt start) of (a, b) \<Rightarrow> py_trunc (mt * of_int rate) \<le> b - a))"
  using assms
proof (induction sp wav rate mc mt start rule: split_loop.induct)
  case (1 sp wav rate mc mt start)
  let ?n = "int (length wav)" and ?c = "max mc 1"
  show ?case
  proof (cases "?n - start \<le> ?c")
    case True
    with 1(2,3) have e: "split_loop sp wav rate mc mt start = [(start, ?n)]" by (subst split_loop.simps) (simp add: Let_def)
    from True 1(2,3) show ?thesis by (simp add: e slice_def nat_diff_distrib)
  next
    case False
    define cut where "cut = next_cut sp wav rate ?c mt start"
    have b: "start < cut" "cut \<le> start + ?c" "cut < ?n"
      using next_cut_bounds [of ?c wav start sp rate mt] False unfolding cut_def by linarith+
    have e: "split_loop sp wav rate mc mt start = (start, cut) # split_loop sp wav rate mc mt cut"
      using False 1(3) by (subst split_loop.simps) (simp add: Let_def cut_def)
    have tail: "py_trunc (mt * of_int rate) \<le> ?c \<Longrightarrow> py_trunc (mt * of_int rate) \<le> ?n - cut"
      using next_cut_tail [OF 1(2), of ?c wav mt rate sp] False by (simp add: Let_def cut_def not_le)
    from False b 1(2,3) have ih: "split_loop sp wav rate mc mt cut \<noteq> [] \<and>
      concat (map (\<lambda>(a, b). slice a b wav) (split_loop sp wav rate mc mt cut)) = drop (nat cut) wav \<and>
      (\<forall>(a, b)\<in>set (split_loop sp wav rate mc mt cut). 0 \<le> a \<and> a < b \<and> b - a \<le> max mc 1 \<and> b \<le> ?n) \<and>
      (py_trunc (mt * of_int rate) \<le> max mc 1 \<longrightarrow> py_trunc (mt * of_int rate) \<le> ?n - cut \<longrightarrow>
         (case last (split_loop sp wav rate mc mt cut) of (a, b) \<Rightarrow> py_trunc (mt * of_int rate) \<le> b - a))"
      by (intro "1.IH" [OF refl refl _ _ cut_def]) (simp_all add: not_le le_max_iff_disj)
    show ?thesis unfolding e using ih b 1(2) tail slice_append_drop [of start cut wav] by auto
  qed
qed

lemma plan_splits:
  assumes "plan_audio_chunks sp rate c wav = Some p"
  shows "chunk_samples c rate < int (length wav)" "waveform p = wav"
    "spans p = map (span_of rate wav) (enumerate 0 (split_loop sp wav rate (chunk_samples c rate) (min_tail_s c) 0))"
proof -
  have "1 \<le> chunk_samples c rate" by (simp add: chunk_samples_def)
  with assms show "chunk_samples c rate < int (length wav)" "waveform p = wav"
    "spans p = map (span_of rate wav) (enumerate 0 (split_loop sp wav rate (chunk_samples c rate) (min_tail_s c) 0))"
    by (auto simp: plan_audio_chunks_def rms_split_def Let_def split: if_splits)
qed

lemma plan_chunks_bounded:
  assumes p: "plan_audio_chunks sp rate c wav = Some p"
  shows "\<forall>s\<in>set (spans p). start_sample s < end_sample s \<and> end_sample s - start_sample s \<le> chunk_samples c rate"
proof
  fix s assume "s \<in> set (spans p)"
  then obtain i x where x: "s = span_of rate wav (i, x)" "x \<in> set (split_loop sp wav rate (chunk_samples c rate) (min_tail_s c) 0)"
    by (auto simp: plan_splits(3) [OF p] enumerate_eq_zip dest: set_zip_rightD)
  have c1: "1 \<le> chunk_samples c rate" by (simp add: chunk_samples_def)
  then have "0 < int (length wav)" using plan_splits(1) [OF p] by linarith
  from split_loop_sound [OF order.refl this, of sp rate "chunk_samples c rate" "min_tail_s c"] x c1
  show "start_sample s < end_sample s \<and> end_sample s - start_sample s \<le> chunk_samples c rate"
    by (auto simp: span_of_def max_absorb1 split: prod.splits)
qed

text \<open>
  C27: long audio is cut without loss. The chunks of a plan, in order, are exactly the decoded audio, each non-empty and no
  longer than the clip limit of the model, numbered from zero; unless the minimal tail is longer than a chunk, the last one is
  not shorter than the minimal tail.
\<close>

theorem chunks_partition_audio:
  assumes "plan_audio_chunks sp rate c wav = Some p"
  shows "concat (map (span_audio p) (spans p)) = wav \<and> map cs_index (spans p) = [0..<length (spans p)] \<and>
    (\<forall>s\<in>set (spans p). start_sample s < end_sample s \<and> end_sample s - start_sample s \<le> chunk_samples c rate) \<and>
    (py_trunc (min_tail_s c * of_int rate) \<le> chunk_samples c rate \<longrightarrow>
       py_trunc (min_tail_s c * of_int rate) \<le> end_sample (last (spans p)) - start_sample (last (spans p)))"
proof -
  let ?ss = "split_loop sp wav rate (chunk_samples c rate) (min_tail_s c) 0"
  have c1: "1 \<le> chunk_samples c rate" "max (chunk_samples c rate) 1 = chunk_samples c rate" by (simp_all add: chunk_samples_def)
  note n = plan_splits(1) [OF assms] and w = plan_splits(2) [OF assms] and sp = plan_splits(3) [OF assms]
  have "0 < int (length wav)" using n c1(1) by linarith
  note L = split_loop_sound [OF order.refl this, of sp rate "chunk_samples c rate" "min_tail_s c", unfolded c1(2)]
  have L: "?ss \<noteq> []" "concat (map (\<lambda>(a, b). slice a b wav) ?ss) = wav"
    "\<forall>(a, b)\<in>set ?ss. 0 \<le> a \<and> a < b \<and> b - a \<le> chunk_samples c rate \<and> b \<le> int (length wav)"
    "py_trunc (min_tail_s c * of_int rate) \<le> chunk_samples c rate \<Longrightarrow> case last ?ss of (a, b) \<Rightarrow> py_trunc (min_tail_s c * of_int rate) \<le> b - a"
    using L n by simp_all
  have au: "span_audio p (span_of rate wav q) = (case snd q of (a, b) \<Rightarrow> slice a b wav)" for q
    by (simp add: span_audio_def span_of_def w split: prod.split)
  have a: "map (span_audio p) (spans p) = map (\<lambda>(a, b). slice a b wav) ?ss"
    by (simp add: sp comp_def au map_enumerate_snd)
  have l: "last (spans p) = span_of rate wav (length ?ss - 1, last ?ss)"
    using L(1) by (simp add: sp last_map last_conv_nth nth_enumerate_eq enumerate_eq_zip)
  show ?thesis
  proof (intro conjI ballI impI)
    show "concat (map (span_audio p) (spans p)) = wav" using L(2) a by simp
    show "map cs_index (spans p) = [0..<length (spans p)]"
      by (simp add: sp span_of_def case_prod_unfold comp_def enumerate_eq_zip)
    fix s assume "s \<in> set (spans p)"
    with plan_chunks_bounded [OF assms] show "start_sample s < end_sample s" "end_sample s - start_sample s \<le> chunk_samples c rate" by auto
  next
    assume "py_trunc (min_tail_s c * of_int rate) \<le> chunk_samples c rate"
    with L(4) l show "py_trunc (min_tail_s c * of_int rate) \<le> end_sample (last (spans p)) - start_sample (last (spans p))"
      by (simp add: span_of_def split: prod.splits)
  qed
qed

text \<open>The cut of the search lies in the middle of a quietest window of the region before the boundary.\<close>

lemma cut_is_quietest:
  assumes "energy_window_samples sp \<le> length (slice a b wav)" "0 < energy_window_samples sp"
  shows "\<exists>i < length (window_energies (energy_window_samples sp) (slice a b wav)).
    find_split_point sp wav a b = a + int (i * energy_window_samples sp + energy_window_samples sp div 2) \<and>
    (\<forall>x\<in>set (window_energies (energy_window_samples sp) (slice a b wav)). window_energies (energy_window_samples sp) (slice a b wav) ! i \<le> x)"
proof -
  let ?w = "window_energies (energy_window_samples sp) (slice a b wav)"
  have "?w \<noteq> []" using assms by (simp add: window_energies_def div_greater_zero_iff)
  then show ?thesis using argmin_less [of ?w] argmin_least [of _ ?w] assms
    by (intro exI [of _ "argmin ?w"]) (simp add: find_split_point_def Let_def div_eq_0_iff)
qed

definition demo_chunking :: audio_chunking where
  "demo_chunking = \<lparr>allow_audio_chunking = True, max_audio_clip_s = 4, max_native_clip_s = None, max_total_audio_s = Some 60, min_tail_s = 2,
     max_concurrent_chunks = 2, condition_on_previous_text = False\<rparr>"

theorem chunks_partition_audio_witness:
  "let p = the (plan_audio_chunks \<lparr>search_window_s = 2, energy_window_samples = 1\<rparr> 1 demo_chunking [1, 1, 1, 0, 1, 1, 0, 1, 1]) in
   concat (map (span_audio p) (spans p)) = [1, 1, 1, 0, 1, 1, 0, 1, 1] \<and> 2 \<le> end_sample (last (spans p)) - start_sample (last (spans p))"
proof -
  let ?q = "plan_audio_chunks \<lparr>search_window_s = 2, energy_window_samples = 1\<rparr> 1 demo_chunking [1, 1, 1, 0, 1, 1, 0, 1, 1]"
  have "?q = Some (the ?q)" by (simp add: plan_audio_chunks_def chunk_samples_def demo_chunking_def py_trunc_def Let_def)
  from chunks_partition_audio [OF this] show ?thesis by (simp add: Let_def chunk_samples_def demo_chunking_def py_trunc_def)
qed

section \<open>Joining the transcripts\<close>

text \<open>Text is a list of code points; white space is what \<^verbatim>\<open>str.isspace\<close> and \<^verbatim>\<open>str.strip\<close> take for it.\<close>

type_synonym ustring = "nat list"

definition usp_char :: "nat \<Rightarrow> bool" where
  "usp_char c \<longleftrightarrow> 9 \<le> c \<and> c \<le> 13 \<or> 28 \<le> c \<and> c \<le> 32 \<or> c \<in> {133, 160, 5760, 8232, 8233, 8239, 8287, 12288} \<or> 8192 \<le> c \<and> c \<le> 8202"

definition ustrip :: "ustring \<Rightarrow> ustring" where
  "ustrip t = rev (dropWhile usp_char (rev (dropWhile usp_char t)))"

definition UNSPACED_SCRIPT_RANGES :: "(nat \<times> nat) list" where
  "UNSPACED_SCRIPT_RANGES =
     [(0x0E00, 0x0EFF), (0x1000, 0x109F), (0x1780, 0x17FF), (0x2E80, 0x303F), (0x3040, 0x30FF), (0x3400, 0x9FFF), (0xF900, 0xFAFF),
      (0xFF00, 0xFFEF), (0x20000, 0x2FA1F)]"

definition is_spaced_script :: "nat \<Rightarrow> bool" where
  "is_spaced_script c =
     (if usp_char c then False else \<not> list_ex (\<lambda>(low, high). low \<le> c \<and> c \<le> high) UNSPACED_SCRIPT_RANGES)"

text \<open>The loop body, on the text joined so far.\<close>

definition join_part :: "ustring \<Rightarrow> ustring \<Rightarrow> ustring" where
  "join_part part joined =
     (let stripped = ustrip part in
      if stripped = [] then joined
      else if joined \<noteq> [] \<and> is_spaced_script (last joined) \<and> is_spaced_script (hd stripped) then joined @ [32] @ stripped
      else joined @ stripped)"

definition join_transcript_parts :: "ustring list \<Rightarrow> ustring" where
  "join_transcript_parts parts = fold join_part parts []"

text \<open>Text with no white space at either end.\<close>

definition trimmed :: "ustring \<Rightarrow> bool" where
  "trimmed t \<longleftrightarrow> t \<noteq> [] \<longrightarrow> \<not> usp_char (hd t) \<and> \<not> usp_char (last t)"

lemma ustrip_trimmed: "trimmed (ustrip t)"
proof -
  let ?d = "dropWhile usp_char t"
  have "\<not> usp_char (last (ustrip t))" if "ustrip t \<noteq> []"
    using that by (metis hd_dropWhile last_rev rev_is_Nil_conv ustrip_def)
  moreover have "\<not> usp_char (hd (ustrip t))" if ne: "ustrip t \<noteq> []"
  proof -
    have "?d \<noteq> []" using ne unfolding ustrip_def by (metis dropWhile.simps(1) rev.simps(1))
    then have h: "\<not> usp_char (hd ?d)" by (rule hd_dropWhile)
    obtain u where "?d = ustrip t @ u"
      by (metis ustrip_def rev_append rev_rev_ident takeWhile_dropWhile_id)
    with ne h show ?thesis by (metis hd_append)
  qed
  ultimately show ?thesis by (simp add: trimmed_def)
qed

lemma dropWhile_keep: "\<not> P (hd xs) \<Longrightarrow> dropWhile P xs = xs"
  by (cases xs) auto

lemma ustrip_id: "trimmed t \<Longrightarrow> ustrip t = t"
  by (cases "t = []") (auto simp: ustrip_def trimmed_def dropWhile_keep hd_rev)

lemma ustrip_letters: "filter (\<lambda>c. \<not> usp_char c) (ustrip t) = filter (\<lambda>c. \<not> usp_char c) t"
proof -
  have "filter (\<lambda>c. \<not> usp_char c) (dropWhile usp_char xs) = filter (\<lambda>c. \<not> usp_char c) xs" for xs
    by (induction xs) auto
  then show ?thesis by (metis (no_types, lifting) ustrip_def rev_filter rev_rev_ident)
qed

lemma join_part_trimmed: "trimmed joined \<Longrightarrow> trimmed (join_part part joined)"
  using ustrip_trimmed [of part] by (auto simp: join_part_def trimmed_def Let_def hd_append split: if_splits)

lemma fold_join_trimmed: "trimmed joined \<Longrightarrow> trimmed (fold join_part parts joined)"
  by (induction parts arbitrary: joined) (auto intro: join_part_trimmed)

lemma join_part_letters: "filter (\<lambda>c. \<not> usp_char c) (join_part part joined) = filter (\<lambda>c. \<not> usp_char c) joined @ filter (\<lambda>c. \<not> usp_char c) part"
  using ustrip_letters [of part] by (auto simp: join_part_def Let_def usp_char_def)

lemma fold_join_letters:
  "filter (\<lambda>c. \<not> usp_char c) (fold join_part parts joined) = filter (\<lambda>c. \<not> usp_char c) joined @ concat (map (filter (\<lambda>c. \<not> usp_char c)) parts)"
  by (induction parts arbitrary: joined) (auto simp: join_part_letters)

text \<open>
  Joining transcripts adds nothing but single seam spaces. The joined text has the characters of the parts in order,
  none lost, and no white space at its ends; and joining is insensitive to grouping, so that joining a joined prefix with the remaining parts
  gives the same text.
\<close>

theorem join_transcripts_sound:
  "filter (\<lambda>c. \<not> usp_char c) (join_transcript_parts ps) = concat (map (filter (\<lambda>c. \<not> usp_char c)) ps) \<and>
   ustrip (join_transcript_parts ps) = join_transcript_parts ps \<and>
   join_transcript_parts (join_transcript_parts ps # qs) = join_transcript_parts (ps @ qs)"
proof -
  have t: "trimmed (fold join_part ps [])" by (rule fold_join_trimmed) (simp add: trimmed_def)
  then have "join_part (fold join_part ps []) [] = fold join_part ps []" by (simp add: join_part_def ustrip_id Let_def)
  then show ?thesis using t by (simp add: join_transcript_parts_def fold_join_letters ustrip_id)
qed

end
