(* ===== verification/Subtitles.thy ===== *)
theory Subtitles
  imports Audio_Chunks Py_Strings "HOL-Library.Sublist"
begin

text \<open>
  Subtitle serialisation of timestamped transcription segments, \<^verbatim>\<open>serve/subtitles.py\<close>. Seconds are real numbers;
  text is a list of code points, and the ASCII parts are embedded by their codes.
\<close>

section \<open>Timestamps\<close>

text \<open>\<^verbatim>\<open>round(x)\<close>: to the nearest integer, ties to the even one.\<close>

definition py_round :: "real \<Rightarrow> int" where
  "py_round x =
     (let f = \<lfloor>x\<rfloor>; d = x - of_int f in
      if d < 1 / 2 then f else if 1 / 2 < d then f + 1 else if even f then f else f + 1)"

text \<open>\<^verbatim>\<open>format(i, "0wd")\<close>: zeros between the sign and the digits.\<close>

definition zero_pad :: "nat \<Rightarrow> string \<Rightarrow> string" where
  "zero_pad w ds = replicate (w - length ds) (CHR ''0'') @ ds"

definition format_0d :: "nat \<Rightarrow> int \<Rightarrow> string" where
  "format_0d w i = (if i < 0 then CHR ''-'' # zero_pad (w - 1) (show_nat (nat (- i))) else zero_pad w (show_nat (nat i)))"

definition format_timestamp :: "real \<Rightarrow> bool \<Rightarrow> string \<Rightarrow> string" where
  "format_timestamp seconds always_include_hours decimal_marker =
     (let milliseconds = py_round (seconds * 1000);
          hours = milliseconds div 3600000; milliseconds = milliseconds mod 3600000;
          minutes = milliseconds div 60000; milliseconds = milliseconds mod 60000;
          secs = milliseconds div 1000; milliseconds = milliseconds mod 1000;
          hours_marker = (if always_include_hours \<or> 0 < hours then format_0d 2 hours @ '':'' else []) in
      hours_marker @ format_0d 2 minutes @ '':'' @ format_0d 2 secs @ decimal_marker @ format_0d 3 milliseconds)"

section \<open>Cues\<close>

definition ustr :: "string \<Rightarrow> ustring" where
  "ustr s = map of_char s"

text \<open>\<^verbatim>\<open>s.replace(old, new)\<close> for a non-empty \<open>old\<close>: left to right, never inside what was inserted.\<close>

function ureplace :: "ustring \<Rightarrow> ustring \<Rightarrow> ustring \<Rightarrow> ustring" where
  "ureplace old new [] = []"
| "ureplace old new (c # cs) =
     (if old \<noteq> [] \<and> prefix old (c # cs) then new @ ureplace old new (drop (length old) (c # cs)) else c # ureplace old new cs)"
  by pat_completeness auto
termination
  by (relation "measure (\<lambda>(old, new, s). length s)") (auto simp: neq_Nil_conv)

definition cue_text :: "ustring \<Rightarrow> ustring" where
  "cue_text t = ureplace (ustr ''-->'') (ustr ''->'') (ustrip t)"

record segment =
  seg_start :: real
  seg_end :: real
  seg_text :: ustring

definition newline :: ustring where "newline = [10]"

definition srt_block :: "nat \<times> segment \<Rightarrow> ustring" where
  "srt_block = (\<lambda>(index, sg).
     ustr (show_nat index) @ newline @ ustr (format_timestamp (seg_start sg) True '','') @ ustr '' --> '' @
     ustr (format_timestamp (seg_end sg) True '','') @ newline @ cue_text (seg_text sg) @ newline @ newline)"

definition segments_to_srt :: "segment list \<Rightarrow> ustring" where
  "segments_to_srt sgs = concat (map srt_block (enumerate 1 sgs))"

definition vtt_cue :: "segment \<Rightarrow> ustring" where
  "vtt_cue sg =
     ustr (format_timestamp (seg_start sg) False ''.'') @ ustr '' --> '' @ ustr (format_timestamp (seg_end sg) False ''.'') @ newline @
     cue_text (seg_text sg) @ newline @ newline"

definition segments_to_vtt :: "segment list \<Rightarrow> ustring" where
  "segments_to_vtt sgs = ustr ''WEBVTT'' @ newline @ newline @ concat (map vtt_cue sgs)"

section \<open>Timestamps can be read back\<close>

text \<open>
  A reader of timestamps: three digits after the marker, two for the seconds, two for the minutes, and the hours in front when
  they are there.
\<close>

definition parse_timestamp :: "string \<Rightarrow> nat" where
  "parse_timestamp t =
     (let n = length t; field = (\<lambda>a w. dec_value (take w (drop a t))) in
      (if n \<le> 9 then 0 else dec_value (take (n - 10) t) * 3600000) + field (n - 9) 2 * 60000 + field (n - 6) 2 * 1000 + field (n - 3) 3)"

lemma dec_value_zero_pad: "dec_value (zero_pad w ds) = dec_value ds"
proof -
  have "dec_value (replicate k (CHR ''0'') @ ds) = dec_value ds" for k
    by (induction k) (simp_all add: dec_value_def digit_val_def)
  then show ?thesis by (simp add: zero_pad_def)
qed

lemma show_nat_length: "n < 10 ^ w \<Longrightarrow> 0 < w \<Longrightarrow> length (show_nat n) \<le> w"
proof (induction n arbitrary: w rule: show_nat.induct)
  case (1 n)
  show ?case
  proof (cases "n < 10")
    case True
    with 1(3) show ?thesis by (subst show_nat.simps) simp
  next
    case False
    obtain v where w: "w = Suc v" using 1(3) by (cases w) auto
    with False 1(2) have "n div 10 < 10 ^ v" "0 < v" by (auto simp: less_mult_imp_div_less mult.commute intro!: Nat.gr0I)
    with 1(1) False w show ?thesis by (subst show_nat.simps) simp
  qed
qed

lemma format_0d_width:
  assumes "0 \<le> i" "i < 10 ^ w" "0 < w"
  shows "length (format_0d w i) = w" "dec_value (format_0d w i) = nat i"
proof -
  have "nat i < 10 ^ w" using assms by (simp add: nat_less_iff)
  from show_nat_length [OF this assms(3)] show "length (format_0d w i) = w" using assms(1) by (simp add: format_0d_def zero_pad_def)
  show "dec_value (format_0d w i) = nat i" using assms(1) by (simp add: format_0d_def dec_value_zero_pad)
qed

lemma parse_fields:
  assumes "length m = 2" "length s = 2" "length x = 3"
  shows "parse_timestamp (h @ [a] @ m @ [b] @ s @ [c] @ x) = dec_value h * 3600000 + dec_value m * 60000 + dec_value s * 1000 + dec_value x"
    and "parse_timestamp (m @ [b] @ s @ [c] @ x) = dec_value m * 60000 + dec_value s * 1000 + dec_value x"
  using assms by (simp_all add: parse_timestamp_def Let_def)

text \<open>
  Timestamps are exact. The timestamp printed for a time, with either marker and with or without an hours field, reads
  back as that time rounded to the millisecond.
\<close>

theorem timestamp_roundtrip:
  assumes "0 \<le> seconds"
  shows "int (parse_timestamp (format_timestamp seconds always [marker])) = py_round (seconds * 1000)"
proof -
  define t where "t = py_round (seconds * 1000)"
  have t: "0 \<le> t" using assms by (auto simp: t_def py_round_def Let_def)
  define h m s x where d: "h = t div 3600000" "m = t mod 3600000 div 60000" "s = t mod 3600000 mod 60000 div 1000"
    "x = t mod 3600000 mod 60000 mod 1000"
  have b: "0 \<le> h" "0 \<le> m" "m < 60" "0 \<le> s" "s < 60" "0 \<le> x" "x < 1000"
    using t unfolding d by (auto simp: pos_imp_zdiv_nonneg_iff div_less_iff_less_mult)
  have sum: "h * 3600000 + m * 60000 + s * 1000 + x = t" unfolding d by presburger
  have w: "length (format_0d 2 m) = 2" "length (format_0d 2 s) = 2" "length (format_0d 3 x) = 3"
    "dec_value (format_0d 2 m) = nat m" "dec_value (format_0d 2 s) = nat s" "dec_value (format_0d 3 x) = nat x"
    using b by (auto simp: format_0d_width)
  have vh: "dec_value (format_0d 2 h) = nat h" using b(1) by (simp add: format_0d_def dec_value_zero_pad)
  have f: "format_timestamp seconds always [marker] =
      (if always \<or> 0 < h then format_0d 2 h @ [CHR '':''] else []) @ format_0d 2 m @ [CHR '':''] @ format_0d 2 s @ [marker] @ format_0d 3 x"
    by (simp add: format_timestamp_def Let_def d t_def)
  show ?thesis
  proof (cases "always \<or> 0 < h")
    case True
    then show ?thesis using parse_fields(1) [OF w(1-3), of "format_0d 2 h" "CHR '':''" "CHR '':''" marker] sum b
      by (simp add: f w(4-6) vh t_def)
  next
    case False
    then have "h = 0" using b(1) by simp
    with False show ?thesis using parse_fields(2) [OF w(1-3), of "CHR '':''" marker] sum b unfolding f by (simp add: w(4-6) t_def)
  qed
qed

theorem timestamp_roundtrip_witness: "int (parse_timestamp (format_timestamp (61 / 2) True '','')) = 30500"
proof -
  have "int (parse_timestamp (format_timestamp (61 / 2) True [CHR '','']) ) = py_round (61 / 2 * 1000)"
    by (rule timestamp_roundtrip) simp
  then show ?thesis by (simp add: py_round_def Let_def)
qed

section \<open>Arrows in cue text\<close>

lemma arrow_codes: "ustr ''-->'' = [45, 45, 62]" "ustr ''->'' = [45, 62]" "ustr ''--->'' = [45, 45, 45, 62]"
  by (simp_all add: ustr_def)

lemma replace_head: "prefix [62] (ureplace [45, 45, 62] [45, 62] t) \<longleftrightarrow> prefix [62] t"
  by (cases t) (auto simp: prefix_def)

lemma replace_arrow_head:
  "\<not> prefix [62] t \<Longrightarrow> prefix [45, 62] (ureplace [45, 45, 62] [45, 62] t) \<longleftrightarrow> prefix [45, 45, 62] t \<or> prefix [45, 62] t"
proof (cases t)
  case (Cons c cs)
  show ?thesis
  proof (cases "prefix [45, 45, 62] t")
    case False
    with Cons replace_head [of cs] show ?thesis by auto
  qed (use Cons in auto)
qed simp

lemma replace_sublist:
  "sublist [45, 45, 62] (ureplace [45, 45, 62] [45, 62] t) \<longleftrightarrow> sublist [45, 45, 45, 62] t"
proof (induction "[45 :: nat, 45, 62]" "[45 :: nat, 62]" t rule: ureplace.induct)
  case (2 c cs)
  show ?case
  proof (cases "prefix [45, 45, 62] (c # cs)")
    case True
    then obtain u where u: "c # cs = [45, 45, 62] @ u" by (auto simp: prefix_def)
    with 2(1) True show ?thesis by (auto simp: sublist_Cons_right)
  next
    case False
    with 2(2) have ih: "sublist [45, 45, 62] (ureplace [45, 45, 62] [45, 62] cs) \<longleftrightarrow> sublist [45, 45, 45, 62] cs" by simp
    have "prefix [45, 62] (ureplace [45, 45, 62] [45, 62] cs) \<longleftrightarrow> prefix [45, 45, 62] cs" if "c = 45"
      using replace_arrow_head [of cs] replace_head [of cs] False that by (cases cs) auto
    with ih False show ?thesis by (auto simp: sublist_Cons_right)
  qed
qed simp

text \<open>
  The escape of arrows in cue text is incomplete. The cue text still contains the arrow, which ends the timing line of a
  cue, exactly when the trimmed text contains an arrow with three dashes.
\<close>

theorem cue_arrow_exact: "sublist (ustr ''-->'') (cue_text t) \<longleftrightarrow> sublist (ustr ''--->'') (ustrip t)"
  by (simp add: cue_text_def arrow_codes replace_sublist)

text \<open>A concrete cue: the serialised text has the arrow the escape was to remove.\<close>

lemma cue_arrow_kept: "cue_text (ustr ''a ---> b'') = ustr ''a --> b''"
  by (simp add: cue_text_def ustr_def ustrip_def usp_char_def)

end
