(* ===== verification/Transcription.thy ===== *)
theory Transcription
  imports Subtitles
begin

text \<open>
  The transcription endpoint of \<^verbatim>\<open>serve/transcriptions.py\<close>: how a request is routed, and how the chunks of a long upload are run
  against the engine. Tasks, engine and client interleave freely; the engine and the model adapters are
  arguments or events. A reply reaches its task only after the engine request has ended, as the code assumes of its client.
\<close>

section \<open>Routing\<close>

definition DEFAULT_RESPONSE_FORMATS :: "string list" where "DEFAULT_RESPONSE_FORMATS = [''json'', ''text'', ''verbose_json'']"
definition DEFAULT_STREAMING_RESPONSE_FORMATS :: "string list" where "DEFAULT_STREAMING_RESPONSE_FORMATS = [''json'', ''text'']"
definition SEGMENT_RESPONSE_FORMATS :: "string list" where "SEGMENT_RESPONSE_FORMATS = [''srt'', ''vtt'']"

datatype http_error =
    NoSegmentCapability | EmptyUpload | BadResponseFormat string | StreamTooLong real | UploadTooLong chunk_error | ChunkedSegments

text \<open>\<^verbatim>\<open>validate_speech_to_text_response_format\<close>.\<close>

definition validate_response_format :: "string list \<Rightarrow> string \<Rightarrow> bool \<Rightarrow> http_error + string" where
  "validate_response_format formats response_format stream =
     (let norm = py_lower (py_strip response_format) in
      if stream \<and> norm \<notin> set DEFAULT_STREAMING_RESPONSE_FORMATS then Inl (BadResponseFormat response_format)
      else if \<not> stream \<and> norm \<notin> set formats then Inl (BadResponseFormat response_format)
      else Inr norm)"

datatype route = StreamIt | SingleRequest bool | Chunked chunk_plan

text \<open>
  \<^verbatim>\<open>create_transcription\<close> up to the engine: \<open>probed\<close> is the duration read from the headers, \<open>wav\<close> what decoding would give.
\<close>

definition create_transcription ::
  "rms_splitter \<Rightarrow> int \<Rightarrow> audio_chunking \<Rightarrow> bool \<Rightarrow> string \<Rightarrow> bool \<Rightarrow> bool \<Rightarrow> real \<Rightarrow> real list \<Rightarrow> http_error + route" where
  "create_transcription sp rate c segment_capable response_format stream upload_empty probed wav =
     (let segment_timestamps = (py_lower (py_strip response_format) \<in> set SEGMENT_RESPONSE_FORMATS) in
      if segment_timestamps \<and> \<not> segment_capable then Inl NoSegmentCapability
      else if upload_empty then Inl EmptyUpload
      else if stream then
        rbind (validate_response_format (DEFAULT_RESPONSE_FORMATS @ SEGMENT_RESPONSE_FORMATS) response_format True) (\<lambda>_.
          if allow_audio_chunking c \<and> stream_clip_limit_s c < probed then Inl (StreamTooLong (stream_clip_limit_s c)) else Inr StreamIt)
      else if \<not> needs_chunking probed c then Inr (SingleRequest segment_timestamps)
      else
        (case check_total_duration probed c of
           Inl e \<Rightarrow> Inl (UploadTooLong e)
         | Inr _ \<Rightarrow>
             (case plan_audio_chunks sp rate c wav of
                None \<Rightarrow> Inr (SingleRequest segment_timestamps)
              | Some p \<Rightarrow>
                  (case check_total_duration (plan_duration_s p) c of
                     Inl e \<Rightarrow> Inl (UploadTooLong e)
                   | Inr _ \<Rightarrow> if segment_timestamps then Inl ChunkedSegments else Inr (Chunked p)))))"

section \<open>Concurrent chunks\<close>

definition chunk_request_id :: "string \<Rightarrow> nat \<Rightarrow> bool \<Rightarrow> string" where
  "chunk_request_id r index retry = r @ ''-chunk-'' @ show_nat index @ (if retry then ''-retry'' else [])"

datatype chunk_phase = Waiting | Encoding | InEngine | Finished ustring | Failed | Cancelled

datatype run_outcome = Running | Returned "ustring list" | Raised

record chunk_run =
  phases :: "chunk_phase list"
  permits :: nat
  in_flight :: "string list"
  engine :: "string list"
  outcome :: run_outcome

definition start_chunks :: "nat \<Rightarrow> chunk_span list \<Rightarrow> chunk_run" where
  "start_chunks max_concurrent sps =
     \<lparr>phases = map (\<lambda>_. Waiting) sps, permits = max_concurrent, in_flight = [], engine = [], outcome = Running\<rparr>"

definition set_phase :: "nat \<Rightarrow> chunk_phase \<Rightarrow> chunk_run \<Rightarrow> chunk_run" where
  "set_phase i p s = s\<lparr>phases := (phases s)[i := p]\<rparr>"

text \<open>\<^verbatim>\<open>run_chunk\<close> in its atomic sections: up to the semaphore, the submission after the encoding, and what follows the reply.\<close>

definition chunk_enter :: "chunk_span \<Rightarrow> nat \<Rightarrow> chunk_run \<Rightarrow> chunk_run" where
  "chunk_enter sp i s =
     (if \<not> has_speech sp then set_phase i (Finished []) s
      else if 0 < permits s then set_phase i Encoding (s\<lparr>permits := permits s - 1\<rparr>)
      else s)"

definition chunk_submit :: "string \<Rightarrow> nat \<Rightarrow> chunk_run \<Rightarrow> chunk_run" where
  "chunk_submit r i s =
     (let cid = chunk_request_id r i False in
      set_phase i InEngine (s\<lparr>in_flight := List.insert cid (in_flight s), engine := List.insert cid (engine s)\<rparr>))"

definition chunk_end :: "string \<Rightarrow> nat \<Rightarrow> chunk_phase \<Rightarrow> chunk_run \<Rightarrow> chunk_run" where
  "chunk_end r i p s =
     set_phase i p (s\<lparr>in_flight := removeAll (chunk_request_id r i False) (in_flight s), permits := Suc (permits s)\<rparr>)"

text \<open>
  The clean-up of \<^verbatim>\<open>_transcribe_audio_chunks\<close>: the engine requests still listed are noted, every unfinished task is cancelled, and
  the noted requests are aborted; \<open>abort_ok\<close> says which aborts reach the engine.
\<close>

definition cleanup :: "(string \<Rightarrow> bool) \<Rightarrow> chunk_run \<Rightarrow> chunk_run" where
  "cleanup abort_ok s =
     (let pending = sort (in_flight s) in
      s\<lparr>phases := map (\<lambda>p. case p of Finished t \<Rightarrow> Finished t | Failed \<Rightarrow> Failed | _ \<Rightarrow> Cancelled) (phases s),
        engine := filter (\<lambda>x. \<not> (x \<in> set pending \<and> abort_ok x)) (engine s), outcome := Raised\<rparr>)"

fun text_of :: "chunk_phase \<Rightarrow> ustring" where
  "text_of (Finished t) = t"
| "text_of _ = []"

datatype chunk_ev =
    Enter nat
  | EncodeDone nat
  | EncodeError nat
  | EngineEnds nat
  | Reply nat ustring
  | ErrorReply nat
  | GatherDone
  | Cleanup bool "string \<Rightarrow> bool"

text \<open>\<open>Cleanup True\<close> is a cancellation by a client disconnect, \<open>Cleanup False\<close> the first failure reported by \<^verbatim>\<open>gather\<close>.\<close>

fun chunk_step :: "string \<Rightarrow> chunk_span list \<Rightarrow> chunk_run \<Rightarrow> chunk_ev \<Rightarrow> chunk_run" where
  "chunk_step r sps s (Enter i) =
     (if i < length sps \<and> i < length (phases s) \<and> phases s ! i = Waiting then chunk_enter (sps ! i) i s else s)"
| "chunk_step r sps s (EncodeDone i) = (if i < length (phases s) \<and> phases s ! i = Encoding then chunk_submit r i s else s)"
| "chunk_step r sps s (EncodeError i) = (if i < length (phases s) \<and> phases s ! i = Encoding then chunk_end r i Failed s else s)"
| "chunk_step r sps s (EngineEnds i) = s\<lparr>engine := removeAll (chunk_request_id r i False) (engine s)\<rparr>"
| "chunk_step r sps s (Reply i t) =
     (if i < length (phases s) \<and> phases s ! i = InEngine \<and> chunk_request_id r i False \<notin> set (engine s) then chunk_end r i (Finished t) s else s)"
| "chunk_step r sps s (ErrorReply i) =
     (if i < length (phases s) \<and> phases s ! i = InEngine \<and> chunk_request_id r i False \<notin> set (engine s) then chunk_end r i Failed s else s)"
| "chunk_step r sps s GatherDone =
     (if outcome s = Running \<and> list_all (\<lambda>p. case p of Finished _ \<Rightarrow> True | _ \<Rightarrow> False) (phases s)
      then s\<lparr>outcome := Returned (map text_of (phases s))\<rparr> else s)"
| "chunk_step r sps s (Cleanup disconnect abort_ok) =
     (if outcome s = Running \<and> (disconnect \<or> Failed \<in> set (phases s)) then cleanup abort_ok s else s)"

section \<open>Ordered chunks\<close>

text \<open>
  With previous-text conditioning the speech chunks are decoded one after the other; \<open>decode\<close> is the engine, \<open>prompt_of\<close> and
  \<open>should_retry\<close> are methods of the adapter.
\<close>

fun ordered_chunks ::
  "(chunk_span \<Rightarrow> ustring option \<Rightarrow> bool \<Rightarrow> 'e + ustring) \<Rightarrow> (ustring option \<Rightarrow> ustring option \<Rightarrow> bool \<Rightarrow> ustring option) \<Rightarrow> (ustring \<Rightarrow> bool) \<Rightarrow>
   ustring option \<Rightarrow> ustring option \<Rightarrow> bool \<Rightarrow> chunk_span list \<Rightarrow> 'e + ustring list" where
  "ordered_chunks decode prompt_of should_retry caller prev first [] = Inr []"
| "ordered_chunks decode prompt_of should_retry caller prev first (sp # sps) =
     (if \<not> has_speech sp then rbind (ordered_chunks decode prompt_of should_retry caller prev first sps) (\<lambda>ts. Inr ([] # ts))
      else
        rbind (decode sp (prompt_of caller prev first) False) (\<lambda>t1.
        rbind (if should_retry t1 then decode sp None True else Inr t1) (\<lambda>t.
        rbind (ordered_chunks decode prompt_of should_retry caller (Some t) False sps) (\<lambda>ts. Inr (t # ts)))))"

text \<open>\<^verbatim>\<open>WhisperTranscriptionAdapter.chunk_prompt\<close>.\<close>

definition whisper_chunk_prompt :: "ustring option \<Rightarrow> ustring option \<Rightarrow> bool \<Rightarrow> ustring option" where
  "whisper_chunk_prompt caller prev first = (if first then caller else prev)"

section \<open>Invariant of a run\<close>

lemma chunk_id_inj: "chunk_request_id r i False = chunk_request_id r j False \<longleftrightarrow> i = j"
  by (simp add: chunk_request_id_def show_nat_inj)

definition holds_permit :: "chunk_phase \<Rightarrow> bool" where
  "holds_permit p \<longleftrightarrow> p = Encoding \<or> p = InEngine"

definition engine_ids :: "string \<Rightarrow> chunk_phase list \<Rightarrow> string set" where
  "engine_ids r ps = {chunk_request_id r i False |i. i < length ps \<and> ps ! i = InEngine}"

text \<open>What holds of a state after the events \<open>E\<close>.\<close>

definition run_ok :: "string \<Rightarrow> nat \<Rightarrow> chunk_span list \<Rightarrow> chunk_ev set \<Rightarrow> chunk_run \<Rightarrow> bool" where
  "run_ok r n sps E s \<longleftrightarrow>
     length (phases s) = length sps \<and> distinct (engine s) \<and>
     (\<forall>i t. i < length sps \<longrightarrow> phases s ! i = Finished t \<longrightarrow> (if has_speech (sps ! i) then Reply i t \<in> E else t = [])) \<and>
     (\<forall>i. i < length sps \<longrightarrow> holds_permit (phases s ! i) \<longrightarrow> has_speech (sps ! i)) \<and>
     (outcome s = Raised \<longrightarrow>
        (\<forall>p\<in>set (phases s). \<not> holds_permit p \<and> p \<noteq> Waiting) \<and> (\<forall>x\<in>set (engine s). \<exists>d ok. Cleanup d ok \<in> E \<and> \<not> ok x)) \<and>
     (outcome s \<noteq> Raised \<longrightarrow>
        permits s + length (filter holds_permit (phases s)) = n \<and> set (in_flight s) = engine_ids r (phases s) \<and> set (engine s) \<subseteq> set (in_flight s)) \<and>
     (\<forall>ts. outcome s = Returned ts \<longrightarrow> ts = map text_of (phases s) \<and> list_all (\<lambda>p. \<exists>t. p = Finished t) (phases s))"

lemma length_filter_update:
  "i < length xs \<Longrightarrow> length (filter P (xs[i := y])) + of_bool (P (xs ! i)) = length (filter P xs) + of_bool (P y)"
proof (induction xs arbitrary: i)
  case (Cons x xs)
  show ?case
  proof (cases i)
    case (Suc j)
    with Cons.IH [of j] Cons.prems show ?thesis by simp
  qed simp
qed simp

lemma engine_ids_update:
  "i < length ps \<Longrightarrow> engine_ids r (ps[i := p]) = (if p = InEngine then insert (chunk_request_id r i False) (engine_ids r ps)
     else engine_ids r ps - {chunk_request_id r i False})"
  by (auto simp: engine_ids_def nth_list_update chunk_id_inj) 

lemma run_ok_mono: "run_ok r n sps E s \<Longrightarrow> E \<subseteq> E' \<Longrightarrow> run_ok r n sps E' s"
  unfolding run_ok_def by (smt (verit) subsetD)

text \<open>Moving one task keeps the invariant when the bookkeeping moves along.\<close>

lemma run_ok_move:
  assumes ok: "run_ok r n sps E s" and i: "i < length (phases s)" "\<not> (\<exists>t. phases s ! i = Finished t)" "holds_permit (phases s ! i) \<or> phases s ! i = Waiting"
    and fin: "\<And>t. p = Finished t \<Longrightarrow> if has_speech (sps ! i) then Reply i t \<in> E else t = []"
    and sp: "holds_permit p \<Longrightarrow> has_speech (sps ! i)"
    and s': "phases s' = (phases s)[i := p]" "outcome s' = outcome s" "distinct (engine s')"
    and pm: "permits s' + of_bool (holds_permit p) = permits s + of_bool (holds_permit (phases s ! i))"
    and fl: "set (in_flight s') = (if p = InEngine then insert (chunk_request_id r i False) (set (in_flight s)) else set (in_flight s) - {chunk_request_id r i False})"
    and en: "set (engine s') \<subseteq> set (in_flight s')"
  shows "run_ok r n sps E s'"
proof -
  have o: "outcome s = Running" using ok i by (cases "outcome s") (auto simp: run_ok_def list_all_length dest: nth_mem)
  have "permits s' + length (filter holds_permit (phases s')) = n"
    using ok o pm length_filter_update [OF i(1), of holds_permit p] by (auto simp: run_ok_def s'(1))
  moreover have "set (in_flight s') = engine_ids r (phases s')" using ok o fl i(1) by (auto simp: run_ok_def s'(1) engine_ids_update)
  ultimately show ?thesis using ok o s' en fin sp i(1) by (auto simp: run_ok_def nth_list_update)
qed

lemma run_ok_active:
  assumes "run_ok r n sps E s" "i < length (phases s)" "holds_permit (phases s ! i) \<or> phases s ! i = Waiting"
  shows "outcome s = Running"
  using assms by (cases "outcome s") (auto simp: run_ok_def list_all_length holds_permit_def dest: nth_mem)

lemma not_in_flight:
  assumes "run_ok r n sps E s" "i < length (phases s)" "phases s ! i \<noteq> InEngine" "outcome s = Running"
  shows "chunk_request_id r i False \<notin> set (in_flight s)"
  using assms by (auto simp: run_ok_def engine_ids_def chunk_id_inj)

lemma run_ok_running:
  assumes "run_ok r n sps E s" "outcome s = Running"
  shows "set (engine s) \<subseteq> set (in_flight s)" "distinct (engine s)"
  using assms by (auto simp: run_ok_def)

lemma chunk_enter_ok:
  assumes ok: "run_ok r n sps E s" and i: "i < length (phases s)" "phases s ! i = Waiting"
  shows "run_ok r n sps E (chunk_enter (sps ! i) i s)"
proof -
  have o: "outcome s = Running" using run_ok_active [OF ok i(1)] i(2) by simp
  note f = not_in_flight [OF ok i(1) _ o] run_ok_running [OF ok o]
  show ?thesis
  proof (cases "has_speech (sps ! i)")
    case False
    with f i show ?thesis
      by (intro run_ok_move [OF ok i(1), where p = "Finished []"]) (auto simp: chunk_enter_def set_phase_def holds_permit_def)
  next
    case True
    show ?thesis
    proof (cases "permits s")
      case (Suc k)
      with True f i show ?thesis
        by (intro run_ok_move [OF ok i(1), where p = Encoding]) (auto simp: chunk_enter_def set_phase_def holds_permit_def)
    qed (use ok True in \<open>simp add: chunk_enter_def\<close>)
  qed
qed

lemma chunk_submit_ok:
  assumes ok: "run_ok r n sps E s" and i: "i < length (phases s)" "phases s ! i = Encoding"
  shows "run_ok r n sps E (chunk_submit r i s)"
proof -
  have o: "outcome s = Running" using run_ok_active [OF ok i(1)] i(2) by (simp add: holds_permit_def)
  have "has_speech (sps ! i)" using ok i by (auto simp: run_ok_def holds_permit_def)
  with run_ok_running [OF ok o] i show ?thesis
    by (intro run_ok_move [OF ok i(1), where p = InEngine]) (auto simp: chunk_submit_def set_phase_def holds_permit_def Let_def)
qed

lemma chunk_end_ok:
  assumes ok: "run_ok r n sps E s" and i: "i < length (phases s)" "holds_permit (phases s ! i)" "chunk_request_id r i False \<notin> set (engine s)"
    and p: "p = Failed \<or> (\<exists>t. p = Finished t \<and> Reply i t \<in> E)"
  shows "run_ok r n sps E (chunk_end r i p s)"
proof -
  have o: "outcome s = Running" using run_ok_active [OF ok i(1)] i(2) by simp
  have "has_speech (sps ! i)" using ok i by (auto simp: run_ok_def)
  with run_ok_running [OF ok o] i p show ?thesis
    by (intro run_ok_move [OF ok i(1), where p = p]) (auto simp: chunk_end_def set_phase_def holds_permit_def)
qed

lemma cleanup_ok:
  assumes ok: "run_ok r n sps E s" and e: "Cleanup d abort_ok \<in> E" and o: "outcome s = Running"
  shows "run_ok r n sps E (cleanup abort_ok s)"
proof -
  let ?f = "\<lambda>p. case p of Finished t \<Rightarrow> Finished t | Failed \<Rightarrow> Failed | _ \<Rightarrow> Cancelled"
  have f: "?f p = Finished t \<longleftrightarrow> p = Finished t" "\<not> holds_permit (?f p)" "?f p \<noteq> Waiting" for p t
    by (auto simp: holds_permit_def split: chunk_phase.splits)
  have "set (engine s) \<subseteq> set (in_flight s)" by (rule run_ok_running [OF ok o])
  with ok e show ?thesis unfolding run_ok_def cleanup_def Let_def by (auto simp: f)
qed

lemma chunk_step_ok:
  assumes ok: "run_ok r n sps E s" and e: "ev \<in> E"
  shows "run_ok r n sps E (chunk_step r sps s ev)"
proof (cases ev)
  case (EncodeError i)
  have "chunk_request_id r i False \<notin> set (engine s)" if "i < length (phases s)" "phases s ! i = Encoding"
    using that not_in_flight [OF ok that(1)] run_ok_active [OF ok that(1)] run_ok_running [OF ok] by (auto simp: holds_permit_def)
  with EncodeError ok show ?thesis by (auto simp: holds_permit_def intro: chunk_end_ok)
next
  case (EngineEnds i)
  with ok show ?thesis by (auto simp: run_ok_def distinct_removeAll)
next
  case GatherDone
  have "list_all (\<lambda>p. case p of Finished _ \<Rightarrow> True | _ \<Rightarrow> False) ps = list_all (\<lambda>p. \<exists>t. p = Finished t) ps" for ps
    by (intro list_all_cong) (auto split: chunk_phase.splits)
  with GatherDone ok show ?thesis by (auto simp: run_ok_def)
qed (use ok e in \<open>auto simp: holds_permit_def intro: chunk_enter_ok chunk_submit_ok chunk_end_ok cleanup_ok\<close>)

lemma run_ok_run: "run_ok r n sps (set evs) (run (chunk_step r sps) (start_chunks n sps) evs)"
proof (induction evs rule: rev_induct)
  case Nil
  show ?case by (simp add: run_ok_def start_chunks_def holds_permit_def engine_ids_def filter_empty_conv)
next
  case (snoc ev evs)
  then have "run_ok r n sps (set (evs @ [ev])) (run (chunk_step r sps) (start_chunks n sps) evs)" by (rule run_ok_mono) auto
  from chunk_step_ok [OF this, of ev] show ?case by (simp add: run_append)
qed

section \<open>Properties\<close>



text \<open>
  The texts of the chunks come back in the order of the audio. When the upload completes there is one text per chunk, at its
  position: the reply to that chunk, however the replies were ordered, and the empty text for a silent chunk; and no engine request is running.
\<close>

theorem chunk_results_in_order:
  assumes s: "s = run (chunk_step r sps) (start_chunks n sps) evs" and ts: "outcome s = Returned ts"
  shows "length ts = length sps \<and> engine s = [] \<and>
    (\<forall>i<length sps. if has_speech (sps ! i) then Reply i (ts ! i) \<in> set evs else ts ! i = [])"
proof -
  have ok: "run_ok r n sps (set evs) s" unfolding s by (rule run_ok_run)
  then have l: "length (phases s) = length sps" "ts = map text_of (phases s)" and f: "list_all (\<lambda>p. \<exists>t. p = Finished t) (phases s)"
    and e: "set (engine s) \<subseteq> engine_ids r (phases s)"
    using ts by (auto simp: run_ok_def)
  have fin: "phases s ! i = Finished (ts ! i)" if "i < length sps" for i
    using f l that by (auto simp: list_all_length)
  then have "engine_ids r (phases s) = {}" using l(1) by (auto simp: engine_ids_def)
  with e have "engine s = []" by simp
  moreover have "length ts = length sps" using l by simp
  moreover have "if has_speech (sps ! i) then Reply i (ts ! i) \<in> set evs else ts ! i = []" if "i < length sps" for i
    using ok fin [OF that] that unfolding run_ok_def by blast
  ultimately show ?thesis by blast
qed

definition demo_spans :: "chunk_span list" where
  "demo_spans = map (\<lambda>(i, b). \<lparr>cs_index = i, start_sample = 0, end_sample = 1, start_s = 0, end_s = 1, has_speech = b\<rparr>) [(0, True), (1, False), (2, True)]"


theorem chunk_results_in_order_witness:
  "let s = run (chunk_step ''r'' demo_spans) (start_chunks 1 demo_spans)
     [Enter 2, EncodeDone 2, Enter 1, EngineEnds 2, Reply 2 [98], Enter 0, EncodeDone 0, EngineEnds 0, Reply 0 [97], GatherDone] in
   outcome s = Returned [[97], [], [98]] \<and> engine s = []"
proof -
  let ?evs = "[Enter 2, EncodeDone 2, Enter 1, EngineEnds 2, Reply 2 [98], Enter 0, EncodeDone 0, EngineEnds 0, Reply 0 [97], GatherDone]"
  define s where "s = run (chunk_step ''r'' demo_spans) (start_chunks 1 demo_spans) ?evs"
  have "outcome s = Returned [[97], [], [98]]"
    by (simp add: s_def demo_spans_def start_chunks_def chunk_enter_def chunk_submit_def chunk_end_def set_phase_def cleanup_def chunk_id_inj Let_def)
  with chunk_results_in_order [OF s_def this] show ?thesis unfolding Let_def s_def [symmetric] by blast
qed

text \<open>Ordered decoding also gives one text per chunk, silent chunks the empty one.\<close>

lemma ordered_chunks_texts:
  "ordered_chunks decode prompt_of should_retry caller prev first sps = Inr ts \<Longrightarrow>
   length ts = length sps \<and> (\<forall>i<length sps. \<not> has_speech (sps ! i) \<longrightarrow> ts ! i = [])"
  by (induction decode prompt_of should_retry caller prev first sps arbitrary: ts rule: ordered_chunks.induct)
    (auto simp: rbind_eq_Inr nth_Cons split: if_splits nat.splits)

text \<open>
  Long uploads respect the limits of the model and of the deployment. A transcription that is accepted with chunking enabled and a known
  duration is either sent as one request, then the probed duration is within one clip or the decoded audio is within one chunk, or is
  chunked, then the decoded duration respects the total limit and every chunk the clip limit; a streamed one is within the native limit.
\<close>

theorem transcription_limits:
  assumes "create_transcription sp rate c cap fmt stream no_audio probed wav = Inr rt" "allow_audio_chunking c" "0 < probed"
  shows "case rt of
      StreamIt \<Rightarrow> probed \<le> stream_clip_limit_s c
    | SingleRequest _ \<Rightarrow> probed \<le> max_audio_clip_s c \<or> int (length wav) \<le> chunk_samples c rate
    | Chunked p \<Rightarrow> plan_audio_chunks sp rate c wav = Some p \<and> check_total_duration (of_nat (length wav) / of_int rate) c = Inr () \<and>
        check_total_duration probed c = Inr () \<and> (\<forall>s\<in>set (spans p). end_sample s - start_sample s \<le> chunk_samples c rate)"
proof (cases stream)
  case True
  with assms show ?thesis by (auto simp: create_transcription_def rbind_eq_Inr Let_def split: if_splits)
next
  case False
  show ?thesis
  proof (cases "needs_chunking probed c")
    case True
    with False assms obtain u where u: "check_total_duration probed c = Inr u"
      by (auto simp: create_transcription_def Let_def split: if_splits sum.splits)
    show ?thesis
    proof (cases "plan_audio_chunks sp rate c wav")
      case None
      with False True u assms show ?thesis
        by (auto simp: create_transcription_def plan_audio_chunks_def Let_def split: if_splits)
    next
      case (Some p)
      have "plan_duration_s p = of_nat (length wav) / of_int rate" using Some by (auto simp: plan_audio_chunks_def Let_def split: if_splits)
      with False True u assms Some plan_chunks_bounded [OF Some] show ?thesis
        by (auto simp: create_transcription_def Let_def split: if_splits sum.splits)
    qed
  qed (use False assms in \<open>auto simp: create_transcription_def needs_chunking_def Let_def split: if_splits\<close>)
qed

theorem transcription_limits_witness:
  "create_transcription \<lparr>search_window_s = 2, energy_window_samples = 2\<rparr> 1 demo_chunking True '' Text'' False False 9 [1, 1, 1, 0, 1, 1, 0, 1, 1] =
     Inr (Chunked (the (plan_audio_chunks \<lparr>search_window_s = 2, energy_window_samples = 2\<rparr> 1 demo_chunking [1, 1, 1, 0, 1, 1, 0, 1, 1]))) \<and>
   check_total_duration 9 demo_chunking = Inr ()"
proof -
  let ?sp = "\<lparr>search_window_s = 2, energy_window_samples = 2\<rparr> :: rms_splitter" and ?w = "[1, 1, 1, 0, 1, 1, 0, 1, 1] :: real list"
  let ?p = "the (plan_audio_chunks ?sp 1 demo_chunking ?w)"
  have p: "plan_audio_chunks ?sp 1 demo_chunking ?w = Some ?p" "plan_duration_s ?p = 9"
    by (simp_all add: plan_audio_chunks_def chunk_samples_def demo_chunking_def py_trunc_def Let_def)
  have f: "py_lower (py_strip '' Text'') = ''text''"
    by (simp add: py_lower_def py_strip_def py_space_def lower_char_def char_of_def bit_0)
  have d: "needs_chunking 9 demo_chunking" "check_total_duration 9 demo_chunking = Inr ()"
    by (simp_all add: needs_chunking_def check_total_duration_def demo_chunking_def)
  have r: "create_transcription ?sp 1 demo_chunking True '' Text'' False False 9 ?w = Inr (Chunked ?p)"
    by (simp add: create_transcription_def f SEGMENT_RESPONSE_FORMATS_def Let_def d) (subst p(1), simp add: p(2) d)
  from transcription_limits [OF this] have "check_total_duration 9 demo_chunking = Inr ()" by (simp add: demo_chunking_def)
  with r show ?thesis by blast
qed

end
