(* ===== verification/Simple_Scheduler.thy ===== *)
theory Simple_Scheduler
  imports Prelude
begin

text \<open>
  The scheduler of the non-autoregressive stages, \<^verbatim>\<open>scheduling/simple_scheduler.py\<close>: the serial loop with its batching, the
  concurrent workers, and aborts from other threads. The loop is cut into the sections between which an abort or a new message can come:
  taking a message, every message added to a batch, the computation, every message answered. Computations are
  functions of the payloads that return or raise. The iteration order of a Python \<^verbatim>\<open>set\<close> is an argument.
\<close>

section \<open>Messages and state\<close>

datatype 'p content = NewRequest 'p | StreamChunk | StreamDone

type_synonym 'p in_msg = "string \<times> 'p content"

datatype 'e sched_exn = Exn 'e | ResultCount nat nat

datatype ('r, 'e) sched_out = ResultMsg string 'r | ErrorMsg string "'e sched_exn"

primrec out_id :: "('r, 'e) sched_out \<Rightarrow> string" where
  "out_id (ResultMsg r _) = r"
| "out_id (ErrorMsg r _) = r"

record ('p, 'r, 'e) sched_config =
  compute_fn :: "'p \<Rightarrow> 'e + 'r"
  batch_fn :: "('p list \<Rightarrow> 'e + 'r list) option"
  max_batch_size :: nat
  request_cost_fn :: "('p \<Rightarrow> 'e + int) option"
  max_batch_cost :: "int option"
  set_order :: "string list \<Rightarrow> string list"

text \<open>Where a loop is: between messages, collecting a batch with its cost, before or after a computation, or answering what is left of a batch.\<close>

datatype ('p, 'r, 'e) loop_phase =
    Idle
  | Collecting "(string \<times> 'p) list" int
  | Single string 'p
  | SingleDone string "'e + 'r"
  | Batch "(string \<times> 'p) list"
  | Emitting "(string \<times> 'r) list"
  | Failing "string list" "'e sched_exn"

text \<open>\<open>suppressed\<close> lists the requests \<^verbatim>\<open>_consume_if_aborted\<close> dropped, for each of which it runs the abort clean-up.\<close>

record ('p, 'r, 'e) simple_state =
  ss_inbox :: "'p in_msg list"
  ss_pending :: "'p in_msg list"
  ss_aborted :: "string list"
  ss_outbox :: "('r, 'e) sched_out list"
  suppressed :: "string list"
  loop :: "('p, 'r, 'e) loop_phase"

definition simple_init :: "('p, 'r, 'e) simple_state" where
  "simple_init = \<lparr>ss_inbox = [], ss_pending = [], ss_aborted = [], ss_outbox = [], suppressed = [], loop = Idle\<rparr>"

section \<open>Operations\<close>

definition emit :: "('r, 'e) sched_out \<Rightarrow> ('p, 'r, 'e) simple_state \<Rightarrow> ('p, 'r, 'e) simple_state" where
  "emit m s = s\<lparr>ss_outbox := ss_outbox s @ [m]\<rparr>"

text \<open>\<^verbatim>\<open>_consume_if_aborted\<close>, with what happens to the message otherwise.\<close>

definition unless_aborted ::
  "string \<Rightarrow> (('p, 'r, 'e) simple_state \<Rightarrow> ('p, 'r, 'e) simple_state) \<Rightarrow> ('p, 'r, 'e) simple_state \<Rightarrow> ('p, 'r, 'e) simple_state" where
  "unless_aborted r f s =
     (if r \<in> set (ss_aborted s) then s\<lparr>ss_aborted := removeAll r (ss_aborted s), suppressed := suppressed s @ [r]\<rparr> else f s)"

text \<open>\<^verbatim>\<open>abort\<close>: more than 10000 marks are cut down to 5000, in whatever order the set iterates.\<close>

definition abort :: "(string list \<Rightarrow> string list) \<Rightarrow> string \<Rightarrow> ('p, 'r, 'e) simple_state \<Rightarrow> ('p, 'r, 'e) simple_state" where
  "abort order r s =
     (let a = List.insert r (ss_aborted s) in
      s\<lparr>ss_aborted := (if 10000 < length a then filter (\<lambda>x. x \<notin> set (take (length a - 5000) (order a))) a else a)\<rparr>)"

text \<open>\<^verbatim>\<open>_message_cost\<close> of a new request.\<close>

definition message_cost :: "('p, 'r, 'e) sched_config \<Rightarrow> 'p \<Rightarrow> 'e + int" where
  "message_cost c p = (case request_cost_fn c of None \<Rightarrow> Inr 0 | Some f \<Rightarrow> rbind (f p) (\<lambda>v. Inr (max v 0)))"

definition batching :: "('p, 'r, 'e) sched_config \<Rightarrow> bool" where
  "batching c \<longleftrightarrow> batch_fn c \<noteq> None \<and> 1 < max 1 (max_batch_size c)"

text \<open>\<^verbatim>\<open>_next_message\<close> and the head of the loop body.\<close>

definition next_message :: "('p, 'r, 'e) simple_state \<Rightarrow> ('p in_msg \<times> ('p, 'r, 'e) simple_state) option" where
  "next_message s =
     (case ss_pending s of
        m # ms \<Rightarrow> Some (m, s\<lparr>ss_pending := ms\<rparr>)
      | [] \<Rightarrow> (case ss_inbox s of [] \<Rightarrow> None | m # ms \<Rightarrow> Some (m, s\<lparr>ss_inbox := ms\<rparr>)))"

definition begin_batch :: "('p, 'r, 'e) sched_config \<Rightarrow> string \<Rightarrow> 'p \<Rightarrow> ('p, 'r, 'e) simple_state \<Rightarrow> ('p, 'r, 'e) simple_state" where
  "begin_batch c r p s =
     (if batching c then
        (case message_cost c p of
           Inl e \<Rightarrow> s\<lparr>loop := Failing [r] (Exn e)\<rparr>
         | Inr cost \<Rightarrow> s\<lparr>loop := Collecting [(r, p)] cost\<rparr>)
      else s\<lparr>loop := Single r p\<rparr>)"

definition take_step :: "('p, 'r, 'e) sched_config \<Rightarrow> ('p, 'r, 'e) simple_state \<Rightarrow> ('p, 'r, 'e) simple_state" where
  "take_step c s =
     (case next_message s of
        None \<Rightarrow> s
      | Some ((r, NewRequest p), s') \<Rightarrow> unless_aborted r (begin_batch c r p) s'
      | Some (_, s') \<Rightarrow> s')"

definition run_batch :: "(string \<times> 'p) list \<Rightarrow> ('p, 'r, 'e) simple_state \<Rightarrow> ('p, 'r, 'e) simple_state" where
  "run_batch b s = s\<lparr>loop := (case b of [(r, p)] \<Rightarrow> Single r p | _ \<Rightarrow> Batch b)\<rparr>"

text \<open>
  One round of \<^verbatim>\<open>_collect_batch\<close>: \<open>timed_out\<close> says that an empty inbox ends the wait. An exception of the cost function leaves the
  method, and the caller still has the batch that holds only the first message.
\<close>

definition collect_step ::
  "('p, 'r, 'e) sched_config \<Rightarrow> bool \<Rightarrow> (string \<times> 'p) list \<Rightarrow> int \<Rightarrow> ('p, 'r, 'e) simple_state \<Rightarrow> ('p, 'r, 'e) simple_state" where
  "collect_step c timed_out b cost s =
     (if max 1 (max_batch_size c) \<le> length b then run_batch b s
      else case ss_inbox s of
        [] \<Rightarrow> if timed_out then run_batch b s else s
      | (r, NewRequest p) # ms \<Rightarrow>
          (let s1 = s\<lparr>ss_inbox := ms\<rparr> in
           case max_batch_cost c of
             None \<Rightarrow> s1\<lparr>loop := Collecting (b @ [(r, p)]) cost\<rparr>
           | Some limit \<Rightarrow>
               (case message_cost c p of
                  Inl e \<Rightarrow> s1\<lparr>loop := Failing [fst (hd b)] (Exn e)\<rparr>
                | Inr mc \<Rightarrow>
                    if b \<noteq> [] \<and> max limit 0 < cost + mc then run_batch b (s1\<lparr>ss_pending := (r, NewRequest p) # ss_pending s1\<rparr>)
                    else s1\<lparr>loop := Collecting (b @ [(r, p)]) (cost + mc)\<rparr>))
      | m # ms \<Rightarrow> s\<lparr>ss_inbox := ms, ss_pending := ss_pending s @ [m]\<rparr>)"

text \<open>\<^verbatim>\<open>_run_single\<close>: before the computation, and after it.\<close>

definition single_step :: "('p, 'r, 'e) sched_config \<Rightarrow> string \<Rightarrow> 'p \<Rightarrow> ('p, 'r, 'e) simple_state \<Rightarrow> ('p, 'r, 'e) simple_state" where
  "single_step c r p s = unless_aborted r (\<lambda>s. s\<lparr>loop := SingleDone r (compute_fn c p)\<rparr>) (s\<lparr>loop := Idle\<rparr>)"

definition single_done :: "string \<Rightarrow> 'e + 'r \<Rightarrow> ('p, 'r, 'e) simple_state \<Rightarrow> ('p, 'r, 'e) simple_state" where
  "single_done r res s =
     (case res of
        Inl e \<Rightarrow> unless_aborted r (\<lambda>s. s\<lparr>loop := Failing [r] (Exn e)\<rparr>) (s\<lparr>loop := Idle\<rparr>)
      | Inr x \<Rightarrow> unless_aborted r (emit (ResultMsg r x)) (s\<lparr>loop := Idle\<rparr>))"

text \<open>\<^verbatim>\<open>_run_batch\<close> with a batch function.\<close>

definition batch_step :: "('p, 'r, 'e) sched_config \<Rightarrow> (string \<times> 'p) list \<Rightarrow> ('p, 'r, 'e) simple_state \<Rightarrow> ('p, 'r, 'e) simple_state" where
  "batch_step c b s =
     (case batch_fn c of
        None \<Rightarrow> s
      | Some f \<Rightarrow>
          (case f (map snd b) of
             Inl e \<Rightarrow> s\<lparr>loop := Failing (map fst b) (Exn e)\<rparr>
           | Inr rs \<Rightarrow>
               if length rs \<noteq> length b then s\<lparr>loop := Failing (map fst b) (ResultCount (length rs) (length b))\<rparr>
               else s\<lparr>loop := Emitting (zip (map fst b) rs)\<rparr>))"

text \<open>One section of the serial loop.\<close>

definition loop_step :: "('p, 'r, 'e) sched_config \<Rightarrow> bool \<Rightarrow> ('p, 'r, 'e) simple_state \<Rightarrow> ('p, 'r, 'e) simple_state" where
  "loop_step c timed_out s =
     (case loop s of
        Idle \<Rightarrow> take_step c s
      | Collecting b cost \<Rightarrow> collect_step c timed_out b cost s
      | Single r p \<Rightarrow> single_step c r p s
      | SingleDone r res \<Rightarrow> single_done r res s
      | Batch b \<Rightarrow> batch_step c b s
      | Emitting [] \<Rightarrow> s\<lparr>loop := Idle\<rparr>
      | Emitting ((r, x) # xs) \<Rightarrow> unless_aborted r (emit (ResultMsg r x)) (s\<lparr>loop := Emitting xs\<rparr>)
      | Failing [] e \<Rightarrow> s\<lparr>loop := Idle\<rparr>
      | Failing (r # rs) e \<Rightarrow> unless_aborted r (emit (ErrorMsg r e)) (s\<lparr>loop := Failing rs e\<rparr>))"

datatype 'p simple_ev = Put "'p in_msg" | Abort string | LoopStep bool

fun simple_step :: "('p, 'r, 'e) sched_config \<Rightarrow> ('p, 'r, 'e) simple_state \<Rightarrow> 'p simple_ev \<Rightarrow> ('p, 'r, 'e) simple_state" where
  "simple_step c s (Put m) = s\<lparr>ss_inbox := ss_inbox s @ [m]\<rparr>"
| "simple_step c s (Abort r) = abort (set_order c) r s"
| "simple_step c s (LoopStep timed_out) = loop_step c timed_out s"

section \<open>Every request is held somewhere\<close>

definition is_new :: "'p in_msg \<Rightarrow> bool" where
  "is_new m = (case snd m of NewRequest _ \<Rightarrow> True | _ \<Rightarrow> False)"

definition new_ids :: "'p in_msg list \<Rightarrow> string list" where
  "new_ids ms = map fst (filter is_new ms)"

lemma new_ids_simps [simp]:
  "new_ids [] = []" "new_ids ((r, NewRequest p) # ms) = r # new_ids ms" "new_ids ((r, StreamChunk) # ms) = new_ids ms"
  "new_ids ((r, StreamDone) # ms) = new_ids ms" "new_ids (xs @ ys) = new_ids xs @ new_ids ys"
  by (simp_all add: new_ids_def is_new_def)

primrec phase_ids :: "('p, 'r, 'e) loop_phase \<Rightarrow> string list" where
  "phase_ids Idle = []"
| "phase_ids (Collecting b _) = map fst b"
| "phase_ids (Single r _) = [r]"
| "phase_ids (SingleDone r _) = [r]"
| "phase_ids (Batch b) = map fst b"
| "phase_ids (Emitting xs) = map fst xs"
| "phase_ids (Failing rs _) = rs"

definition held :: "('p, 'r, 'e) simple_state \<Rightarrow> string multiset" where
  "held s = mset (new_ids (ss_inbox s)) + mset (new_ids (ss_pending s)) + mset (phase_ids (loop s)) + mset (map out_id (ss_outbox s)) + mset (suppressed s)"

definition cost_ok :: "('p, 'r, 'e) sched_config \<Rightarrow> bool" where
  "cost_ok c \<longleftrightarrow> (\<forall>f p. request_cost_fn c = Some f \<longrightarrow> (\<exists>v. f p = Inr v))"

lemma cost_ok_message: "cost_ok c \<Longrightarrow> \<exists>v. message_cost c p = Inr v"
  by (cases "request_cost_fn c") (auto simp: cost_ok_def message_cost_def rbind_eq_Inr)

lemma cost_ok_not_Inl: "cost_ok c \<Longrightarrow> message_cost c p \<noteq> Inl e"
  using cost_ok_message [of c p] by auto

lemma held_unless_aborted:
  assumes "held (f s) = held s + {#r#}"
  shows "held (unless_aborted r f s) = held s + {#r#}"
  using assms by (auto simp: unless_aborted_def held_def)

lemma held_emit: "held (emit m s) = held s + {#out_id m#}"
  by (simp add: emit_def held_def)

lemma held_run_batch: "loop s = Collecting b cost \<Longrightarrow> held (run_batch b s) = held s"
  by (auto simp: run_batch_def held_def split: list.splits)

lemma held_set_loop: "held (s\<lparr>loop := p\<rparr>) + mset (phase_ids (loop s)) = held s + mset (phase_ids p)"
  by (simp add: held_def)

lemma begin_batch_held: "loop s = Idle \<Longrightarrow> held (begin_batch c r p s) = held s + {#r#}"
  by (auto simp: begin_batch_def held_def split: sum.splits)

lemma take_step_held:
  assumes "loop s = Idle"
  shows "held (take_step c s) = held s"
proof (cases "next_message s")
  case (Some ms)
  obtain r ct s' where ms: "ms = ((r, ct), s')" by (metis prod.exhaust)
  have h: "held s = held s' + (case ct of NewRequest _ \<Rightarrow> {#r#} | _ \<Rightarrow> {#})" "loop s' = Idle"
    using Some assms unfolding ms by (auto simp: next_message_def held_def split: list.splits content.splits)
  show ?thesis
  proof (cases ct)
    case (NewRequest p)
    with h Some ms show ?thesis by (simp add: take_step_def held_unless_aborted begin_batch_held)
  qed (use h Some ms in \<open>simp_all add: take_step_def\<close>)
qed (simp add: take_step_def)

lemma collect_step_held:
  assumes "cost_ok c" "loop s = Collecting b cost"
  shows "held (collect_step c t b cost s) = held s"
proof -
  have run: "held (run_batch b (s\<lparr>ss_inbox := i, ss_pending := q\<rparr>)) = held (s\<lparr>ss_inbox := i, ss_pending := q\<rparr>)" for i q
    by (rule held_run_batch) (simp add: assms(2))
  show ?thesis using assms(2) cost_ok_not_Inl [OF assms(1)]
    by (auto simp: collect_step_def run held_run_batch Let_def split: list.splits content.splits option.splits sum.splits)
      (auto simp: held_def)
qed

lemma single_step_held: "loop s = Single r p \<Longrightarrow> held (single_step c r p s) = held s"
  by (auto simp: single_step_def unless_aborted_def held_def)

lemma single_done_held: "loop s = SingleDone r res \<Longrightarrow> held (single_done r res s) = held s"
  by (auto simp: single_done_def unless_aborted_def emit_def held_def split: sum.splits)

lemma batch_step_held: "loop s = Batch b \<Longrightarrow> held (batch_step c b s) = held s"
  by (auto simp: batch_step_def held_def split: option.splits sum.splits)

lemma loop_step_held:
  assumes "cost_ok c"
  shows "held (loop_step c t s) = held s"
proof (cases "loop s")
  case (Emitting xs)
  then show ?thesis by (cases xs) (auto simp: loop_step_def unless_aborted_def emit_def held_def)
next
  case (Failing rs e)
  then show ?thesis by (cases rs) (auto simp: loop_step_def unless_aborted_def emit_def held_def)
qed (use assms in \<open>simp_all add: loop_step_def take_step_held collect_step_held single_step_held single_done_held batch_step_held\<close>)

fun puts :: "'p simple_ev list \<Rightarrow> 'p in_msg list" where
  "puts [] = []"
| "puts (Put m # evs) = m # puts evs"
| "puts (_ # evs) = puts evs"

lemma puts_append: "puts (xs @ ys) = puts xs @ puts ys"
  by (induction xs rule: puts.induct) simp_all

lemma simple_held_run:
  assumes "cost_ok c"
  shows "held (run (simple_step c) s evs) = held s + mset (new_ids (puts evs))"
proof (induction evs arbitrary: s)
  case (Cons ev evs)
  show ?case
  proof (cases ev)
    case (Put m)
    obtain r ct where m: "m = (r, ct)" by (cases m)
    have "held (s\<lparr>ss_inbox := ss_inbox s @ [m]\<rparr>) = held s + mset (new_ids [m])" by (simp add: held_def)
    with Put Cons m show ?thesis by (cases ct) simp_all
  next
    case (Abort r)
    have "held (abort (set_order c) r s) = held s" by (simp add: abort_def held_def Let_def)
    with Abort Cons show ?thesis by simp
  next
    case (LoopStep t)
    with loop_step_held [OF assms, of t s] Cons show ?thesis by simp
  qed
qed simp

section \<open>Only aborted requests are dropped\<close>

definition marks_ok :: "string set \<Rightarrow> ('p, 'r, 'e) simple_state \<Rightarrow> bool" where
  "marks_ok A s \<longleftrightarrow> set (ss_aborted s) \<subseteq> A \<and> set (suppressed s) \<subseteq> A"

lemma marks_unless_aborted:
  "marks_ok A s \<Longrightarrow> (ss_aborted (f s) = ss_aborted s \<and> suppressed (f s) = suppressed s) \<Longrightarrow> marks_ok A (unless_aborted r f s)"
  by (auto simp: unless_aborted_def marks_ok_def)

lemma marks_set_loop [simp]: "marks_ok A (s\<lparr>loop := p\<rparr>) = marks_ok A s" "marks_ok A (s\<lparr>ss_inbox := i\<rparr>) = marks_ok A s"
  "marks_ok A (s\<lparr>ss_pending := q\<rparr>) = marks_ok A s" "marks_ok A (run_batch b s) = marks_ok A s"
  by (simp_all add: marks_ok_def run_batch_def)

lemma begin_batch_marks: "ss_aborted (begin_batch c r p s) = ss_aborted s" "suppressed (begin_batch c r p s) = suppressed s"
  by (simp_all add: begin_batch_def split: sum.split)

lemma loop_step_marks:
  assumes "marks_ok A s"
  shows "marks_ok A (loop_step c t s)"
proof (cases "loop s")
  case Idle
  have "marks_ok A s'" if "next_message s = Some (m, s')" for m s'
    using that assms by (auto simp: next_message_def split: list.splits)
  with Idle assms show ?thesis
    by (auto simp: loop_step_def take_step_def begin_batch_marks split: option.split content.split intro!: marks_unless_aborted)
next
  case (Collecting b cost)
  with assms show ?thesis
    by (auto simp: loop_step_def collect_step_def Let_def split: list.split content.split option.split sum.split)
next
  case (SingleDone r res)
  with assms show ?thesis by (auto simp: loop_step_def single_done_def emit_def split: sum.split intro!: marks_unless_aborted)
next
  case (Batch b)
  with assms show ?thesis by (auto simp: loop_step_def batch_step_def split: option.split sum.split)
next
  case (Emitting xs)
  with assms show ?thesis by (cases xs) (auto simp: loop_step_def emit_def intro!: marks_unless_aborted)
next
  case (Failing rs e)
  with assms show ?thesis by (cases rs) (auto simp: loop_step_def emit_def intro!: marks_unless_aborted)
qed (use assms in \<open>auto simp: loop_step_def single_step_def intro!: marks_unless_aborted\<close>)

lemma marks_run:
  "marks_ok A s \<Longrightarrow> {r. Abort r \<in> set evs} \<subseteq> A \<Longrightarrow> marks_ok A (run (simple_step c) s evs)"
proof (induction evs arbitrary: s)
  case (Cons ev evs)
  have "marks_ok A (simple_step c s ev)"
    using Cons.prems loop_step_marks [OF Cons.prems(1)] by (cases ev) (auto simp: marks_ok_def abort_def Let_def)
  with Cons show ?case by auto
qed simp

section \<open>The loop comes to rest\<close>

definition at_rest :: "('p, 'r, 'e) simple_state \<Rightarrow> bool" where
  "at_rest s \<longleftrightarrow> loop s = Idle \<and> ss_inbox s = [] \<and> ss_pending s = []"

primrec phase_weight :: "('p, 'r, 'e) loop_phase \<Rightarrow> nat" where
  "phase_weight Idle = 0"
| "phase_weight (Collecting b _) = 5 + length b"
| "phase_weight (Single _ _) = 4"
| "phase_weight (SingleDone _ _) = 3"
| "phase_weight (Batch b) = 2 + length b"
| "phase_weight (Emitting xs) = 1 + length xs"
| "phase_weight (Failing rs _) = 1 + length rs"

definition weight :: "('p, 'r, 'e) simple_state \<Rightarrow> nat" where
  "weight s = 8 * length (ss_inbox s) + 7 * length (ss_pending s) + phase_weight (loop s)"

definition batch_ready :: "('p, 'r, 'e) sched_config \<Rightarrow> ('p, 'r, 'e) simple_state \<Rightarrow> bool" where
  "batch_ready c s = (case loop s of Collecting b _ \<Rightarrow> batch_fn c \<noteq> None \<and> b \<noteq> [] | Batch _ \<Rightarrow> batch_fn c \<noteq> None | _ \<Rightarrow> True)"

lemma weight_unless_aborted: "weight (unless_aborted r f s) = (if r \<in> set (ss_aborted s) then weight s else weight (f s))"
  by (simp add: unless_aborted_def weight_def)

lemma ready_unless_aborted: "batch_ready c s \<Longrightarrow> batch_ready c (f s) \<Longrightarrow> batch_ready c (unless_aborted r f s)"
  by (simp add: unless_aborted_def batch_ready_def)

lemma weight_run_batch: "b \<noteq> [] \<Longrightarrow> weight (run_batch b s) < weight (s\<lparr>loop := Collecting b cost\<rparr>)"
  by (auto simp: run_batch_def weight_def split: list.split)

lemma ready_run_batch: "batch_fn c \<noteq> None \<Longrightarrow> batch_ready c (run_batch b s)"
  by (auto simp: run_batch_def batch_ready_def split: list.split)

lemma begin_batch_rest:
  "weight (begin_batch c r p s) \<le> 8 * length (ss_inbox s) + 7 * length (ss_pending s) + 6" "batch_ready c (begin_batch c r p s)"
  by (auto simp: begin_batch_def weight_def batch_ready_def batching_def split: sum.split)

lemma take_step_rest:
  assumes l: "loop s = Idle" and w: "\<not> at_rest s"
  shows "weight (take_step c s) < weight s \<and> batch_ready c (take_step c s)"
proof -
  obtain r ct s' where n: "next_message s = Some ((r, ct), s')"
    using w l by (cases "ss_pending s"; cases "ss_inbox s") (auto simp: next_message_def at_rest_def)
  have s': "loop s' = Idle" "8 * length (ss_inbox s') + 7 * length (ss_pending s') + 7 \<le> weight s"
    using n l by (auto simp: next_message_def weight_def split: list.splits)
  then have ws: "weight s' < weight s" "batch_ready c s'" by (auto simp: weight_def batch_ready_def)
  show ?thesis
  proof (cases ct)
    case (NewRequest p)
    with begin_batch_rest [of c r p s'] n ws s' show ?thesis
      by (auto simp: take_step_def weight_unless_aborted intro: ready_unless_aborted)
  qed (use n ws in \<open>simp_all add: take_step_def\<close>)
qed

lemma collect_step_rest:
  assumes l: "loop s = Collecting b cost" and r: "batch_ready c s"
  shows "weight (collect_step c True b cost s) < weight s \<and> batch_ready c (collect_step c True b cost s)"
proof -
  have b: "b \<noteq> []" "batch_fn c \<noteq> None" using r l by (auto simp: batch_ready_def)
  note ready = ready_run_batch [OF b(2)]
  have wr: "weight (run_batch b (s\<lparr>ss_inbox := i, ss_pending := q\<rparr>)) < 8 * length i + 7 * length q + 5 + length b" for i q
    using weight_run_batch [OF b(1), of "s\<lparr>ss_inbox := i, ss_pending := q\<rparr>" cost] by (simp add: weight_def)
  have w: "weight s = 8 * length (ss_inbox s) + 7 * length (ss_pending s) + 5 + length b" by (simp add: weight_def l)
  have now: "weight (run_batch b s) < weight s" using wr [where i = "ss_inbox s" and q = "ss_pending s"] w by simp
  show ?thesis
  proof (cases "ss_inbox s")
    case Nil
    with now ready show ?thesis by (simp add: collect_step_def)
  next
    case (Cons m ms)
    obtain r' ct where m: "m = (r', ct)" by (cases m)
    show ?thesis
    proof (cases ct)
      case (NewRequest p)
      with Cons m now ready w b wr [where i = ms and q = "m # ss_pending s"] show ?thesis
        by (auto simp: collect_step_def weight_def batch_ready_def Let_def split: option.split sum.split)
    qed (use Cons m now ready w b l in \<open>auto simp: collect_step_def weight_def batch_ready_def\<close>)
  qed
qed

lemma loop_step_rest:
  assumes "\<not> at_rest s" "batch_ready c s"
  shows "weight (loop_step c True s) < weight s \<and> batch_ready c (loop_step c True s)"
proof (cases "loop s")
  case Idle
  with assms(1) show ?thesis by (simp add: loop_step_def take_step_rest)
next
  case (Collecting b cost)
  with assms(2) show ?thesis by (simp add: loop_step_def collect_step_rest)
next
  case (Batch b)
  with assms(2) show ?thesis by (auto simp: loop_step_def batch_step_def batch_ready_def weight_def split: option.split sum.split)
next
  case (Emitting xs)
  then show ?thesis by (cases xs) (auto simp: loop_step_def unless_aborted_def emit_def weight_def batch_ready_def)
next
  case (Failing rs e)
  then show ?thesis by (cases rs) (auto simp: loop_step_def unless_aborted_def emit_def weight_def batch_ready_def)
qed (auto simp: loop_step_def single_step_def single_done_def unless_aborted_def emit_def weight_def batch_ready_def split: sum.split)

lemma loop_reaches_rest: "batch_ready c s \<Longrightarrow> \<exists>k. at_rest (run (simple_step c) s (replicate k (LoopStep True)))"
proof (induction "weight s" arbitrary: s rule: less_induct)
  case less
  show ?case
  proof (cases "at_rest s")
    case True
    then show ?thesis by (intro exI [of _ 0]) simp
  next
    case False
    from loop_step_rest [OF this less.prems] less.hyps [of "loop_step c True s"]
    obtain k where "at_rest (run (simple_step c) (loop_step c True s) (replicate k (LoopStep True)))" by auto
    then show ?thesis by (intro exI [of _ "Suc k"]) simp
  qed
qed

lemma batch_ready_step:
  assumes "batch_ready c s"
  shows "batch_ready c (simple_step c s ev)"
proof (cases ev)
  case (LoopStep t)
  show ?thesis
  proof (cases "t \<or> (\<forall>b cost. loop s \<noteq> Collecting b cost) \<or> ss_inbox s \<noteq> []")
    case True
    then have "loop_step c t s = loop_step c True s" by (auto simp: loop_step_def collect_step_def split: loop_phase.split list.split)
    moreover have "at_rest s \<Longrightarrow> loop_step c True s = s"
      by (simp add: at_rest_def loop_step_def take_step_def next_message_def)
    ultimately show ?thesis using loop_step_rest [of s c] assms LoopStep by (cases "at_rest s") auto
  next
    case False
    then obtain b cost where l: "loop s = Collecting b cost" "ss_inbox s = []" by auto
    with assms have "batch_fn c \<noteq> None" by (simp add: batch_ready_def)
    with l assms LoopStep show ?thesis by (simp add: loop_step_def collect_step_def ready_run_batch)
  qed
qed (use assms in \<open>simp_all add: batch_ready_def abort_def Let_def\<close>)

interpretation sched: machine "simple_step c" "batch_ready c" for c
  by unfold_locales (rule batch_ready_step)

text \<open>
  C21: every request is answered. Whatever messages and aborts arrive at whatever moments of the loop, the loop then comes to rest within
  finitely many sections, and by then every request that was put has been answered exactly once, by a result or an error, except
  those dropped because they were aborted; provided that the cost function does not raise.
\<close>

theorem simple_scheduler_answers:
  assumes "cost_ok c"
  shows "\<exists>k. let s = run (simple_step c) simple_init (evs @ replicate k (LoopStep True)) in
    at_rest s \<and> mset (new_ids (puts evs)) = mset (map out_id (ss_outbox s)) + mset (suppressed s) \<and> set (suppressed s) \<subseteq> {r. Abort r \<in> set evs}"
proof -
  let ?s = "run (simple_step c) simple_init evs"
  have "batch_ready c ?s" by (rule sched.inv_run) (simp add: batch_ready_def simple_init_def)
  then obtain k where k: "at_rest (run (simple_step c) ?s (replicate k (LoopStep True)))" using loop_reaches_rest by blast
  define s where "s = run (simple_step c) simple_init (evs @ replicate k (LoopStep True))"
  have "at_rest s" using k by (simp add: s_def run_append)
  moreover have "puts (replicate k (LoopStep True)) = ([] :: 'a in_msg list)" by (induction k) simp_all
  then have "held s = mset (new_ids (puts evs))"
    using simple_held_run [OF assms, of simple_init "evs @ replicate k (LoopStep True)"] by (simp add: s_def puts_append held_def simple_init_def)
  moreover have "marks_ok {r. Abort r \<in> set evs} s" unfolding s_def by (rule marks_run) (auto simp: marks_ok_def simple_init_def)
  ultimately show ?thesis by (intro exI [of _ k]) (auto simp: s_def [symmetric] at_rest_def held_def marks_ok_def)
qed

text \<open>A scheduler that batches up to three payloads of total cost ten; the cost of payload 0 raises when \<open>b\<close> is set.\<close>

definition demo_config :: "bool \<Rightarrow> (nat, nat, string) sched_config" where
  "demo_config b = \<lparr>compute_fn = Inr, batch_fn = Some Inr, max_batch_size = 3,
     request_cost_fn = Some (\<lambda>p. if b \<and> p = 0 then Inl ''bad payload'' else Inr (int p)), max_batch_cost = Some 10, set_order = id\<rparr>"

theorem simple_scheduler_answers_witness:
  "\<exists>k. let s = run (simple_step (demo_config False)) simple_init
      ([Put (''a'', NewRequest 7), Put (''b'', NewRequest 7), Put (''x'', StreamDone), Abort ''b''] @ replicate k (LoopStep True)) in
    at_rest s \<and> {#''a'', ''b''#} = mset (map out_id (ss_outbox s)) + mset (suppressed s) \<and> set (suppressed s) \<subseteq> {''b''}"
proof -
  have "cost_ok (demo_config False)" by (simp add: cost_ok_def demo_config_def)
  from simple_scheduler_answers [OF this, of "[Put (''a'', NewRequest 7), Put (''b'', NewRequest 7), Put (''x'', StreamDone), Abort ''b'']"]
  show ?thesis by (simp add: Let_def)
qed

text \<open>
  An exception of the cost function loses requests. When it raises for a message that was taken from the inbox while a batch is collected,
  only the first request of the batch is failed; that message and all others collected so far leave the scheduler with no answer.
\<close>

theorem cost_error_loses_requests:
  assumes "loop s = Collecting ((r0, p0) # b) cost" "ss_inbox s = (r, NewRequest p) # ms" "Suc (length b) < max_batch_size c"
    and "max_batch_cost c = Some limit" "message_cost c p = Inl e"
  shows "loop_step c t s = s\<lparr>ss_inbox := ms, loop := Failing [r0] (Exn e)\<rparr> \<and> held (loop_step c t s) + mset (r # map fst b) = held s"
  using assms by (simp add: loop_step_def collect_step_def Let_def held_def)

theorem cost_error_loses_requests_witness:
  "let s = run (simple_step (demo_config True)) simple_init
      [Put (''a'', NewRequest 1), Put (''b'', NewRequest 2), Put (''c'', NewRequest 0), LoopStep True, LoopStep True] in
   loop_step (demo_config True) True s = s\<lparr>ss_inbox := [], loop := Failing [''a''] (Exn ''bad payload'')\<rparr> \<and>
   held (loop_step (demo_config True) True s) + {#''c'', ''b''#} = held s"
proof -
  define s where "s = run (simple_step (demo_config True)) simple_init
      [Put (''a'', NewRequest 1), Put (''b'', NewRequest 2), Put (''c'', NewRequest 0), LoopStep True, LoopStep True]"
  have s: "loop s = Collecting [(''a'', 1), (''b'', 2)] 3" "ss_inbox s = [(''c'', NewRequest 0)]"
    by (simp_all add: s_def simple_init_def loop_step_def take_step_def next_message_def unless_aborted_def begin_batch_def batching_def message_cost_def
        collect_step_def demo_config_def Let_def)
  have c: "Suc (length [(''b'', 2 :: nat)]) < max_batch_size (demo_config True)" "max_batch_cost (demo_config True) = Some 10"
    "message_cost (demo_config True) 0 = Inl ''bad payload''"
    by (simp_all add: demo_config_def message_cost_def)
  show ?thesis unfolding Let_def s_def [symmetric] using cost_error_loses_requests [OF s c, of True] by auto
qed

section \<open>Batches respect their limits\<close>

definition payload_cost :: "('p, 'r, 'e) sched_config \<Rightarrow> 'p \<Rightarrow> int" where
  "payload_cost c p = (case message_cost c p of Inr v \<Rightarrow> v | Inl _ \<Rightarrow> 0)"

definition batch_fits :: "('p, 'r, 'e) sched_config \<Rightarrow> (string \<times> 'p) list \<Rightarrow> bool" where
  "batch_fits c b \<longleftrightarrow>
     length b \<le> max 1 (max_batch_size c) \<and>
     (\<forall>limit. max_batch_cost c = Some limit \<longrightarrow> length b \<le> 1 \<or> sum_list (map (payload_cost c \<circ> snd) b) \<le> max limit 0)"

definition fits_inv :: "('p, 'r, 'e) sched_config \<Rightarrow> ('p, 'r, 'e) simple_state \<Rightarrow> bool" where
  "fits_inv c s = (case loop s of
     Collecting b cost \<Rightarrow> b \<noteq> [] \<and> batch_fits c b \<and> (max_batch_cost c \<noteq> None \<longrightarrow> cost = sum_list (map (payload_cost c \<circ> snd) b))
   | Batch b \<Rightarrow> batch_fits c b | _ \<Rightarrow> True)"

lemma fits_unless_aborted: "fits_inv c s \<Longrightarrow> fits_inv c (f s) \<Longrightarrow> fits_inv c (unless_aborted r f s)"
  by (simp add: unless_aborted_def fits_inv_def)

lemma begin_batch_fits: "fits_inv c (begin_batch c r p s)"
  by (auto simp: begin_batch_def fits_inv_def batch_fits_def batching_def payload_cost_def split: sum.split)

lemma run_batch_fits: "batch_fits c b \<Longrightarrow> fits_inv c (run_batch b s)"
  by (auto simp: run_batch_def fits_inv_def split: list.split)

lemma collect_step_fits:
  assumes "loop s = Collecting b cost" "fits_inv c s"
  shows "fits_inv c (collect_step c t b cost s)"
proof -
  have b: "b \<noteq> []" "batch_fits c b" "max_batch_cost c \<noteq> None \<Longrightarrow> cost = sum_list (map (payload_cost c \<circ> snd) b)"
    using assms by (auto simp: fits_inv_def)
  show ?thesis
  proof (cases "ss_inbox s")
    case (Cons m ms)
    obtain r ct where m: "m = (r, ct)" by (cases m)
    show ?thesis
    proof (cases ct)
      case (NewRequest p)
      with Cons m b show ?thesis
        by (auto simp: collect_step_def run_batch_fits Let_def split: option.split sum.split)
          (auto simp: fits_inv_def batch_fits_def payload_cost_def)
    qed (use Cons m run_batch_fits [OF b(2), of s] assms in \<open>auto simp: collect_step_def fits_inv_def\<close>)
  qed (use assms b in \<open>simp add: collect_step_def run_batch_fits\<close>)
qed

lemma fits_step:
  assumes "fits_inv c s"
  shows "fits_inv c (simple_step c s ev)"
proof (cases ev)
  case (LoopStep t)
  show ?thesis
  proof (cases "loop s")
    case Idle
    have "fits_inv c s'" if "next_message s = Some (m, s')" for m s'
      using that assms Idle by (auto simp: next_message_def fits_inv_def split: list.splits)
    with Idle assms LoopStep show ?thesis
      by (auto simp: loop_step_def take_step_def begin_batch_fits split: option.split content.split intro!: fits_unless_aborted)
  next
    case (Collecting b cost)
    with assms LoopStep show ?thesis by (simp add: loop_step_def collect_step_fits)
  next
    case (Batch b)
    with assms LoopStep show ?thesis by (auto simp: loop_step_def batch_step_def fits_inv_def split: option.split sum.split)
  next
    case (Emitting xs)
    with LoopStep show ?thesis by (cases xs) (auto simp: loop_step_def unless_aborted_def emit_def fits_inv_def)
  next
    case (Failing rs e)
    with LoopStep show ?thesis by (cases rs) (auto simp: loop_step_def unless_aborted_def emit_def fits_inv_def)
  qed (use LoopStep in \<open>auto simp: loop_step_def single_step_def single_done_def unless_aborted_def emit_def fits_inv_def split: sum.split\<close>)
qed (use assms in \<open>simp_all add: fits_inv_def abort_def Let_def\<close>)

interpretation fits: machine "simple_step c" "fits_inv c" for c
  by unfold_locales (rule fits_step)

text \<open>
  Batches respect their limits. Every batch that is handed to the batch function has at most the configured number of requests, and, unless it
  is a single request, at most the configured total cost.
\<close>

theorem simple_batch_bounds:
  "case loop (run (simple_step c) simple_init evs) of Batch b \<Rightarrow> batch_fits c b | _ \<Rightarrow> True"
proof -
  have "fits_inv c (run (simple_step c) simple_init evs)" by (rule fits.inv_run) (simp add: fits_inv_def simple_init_def)
  then show ?thesis by (simp add: fits_inv_def split: loop_phase.splits)
qed

section \<open>Concurrent workers\<close>

text \<open>
  \<^verbatim>\<open>_run_workers\<close>: a bridge moves messages from the inbox to the queue of the event loop, from which several workers take them. A worker
  holds the request it computes together with the outcome the computation will have.
\<close>

record ('p, 'r, 'e) conc_state =
  conc_base :: "('p, 'r, 'e) simple_state"
  async_inbox :: "'p in_msg list"
  workers :: "(string \<times> ('e + 'r)) option list"

definition bridge_inbox :: "('p, 'r, 'e) conc_state \<Rightarrow> ('p, 'r, 'e) conc_state" where
  "bridge_inbox s =
     (case ss_inbox (conc_base s) of
        [] \<Rightarrow> s
      | m # ms \<Rightarrow> s\<lparr>conc_base := (conc_base s)\<lparr>ss_inbox := ms\<rparr>, async_inbox := async_inbox s @ [m]\<rparr>)"

definition worker_take :: "('p, 'r, 'e) sched_config \<Rightarrow> nat \<Rightarrow> ('p, 'r, 'e) conc_state \<Rightarrow> ('p, 'r, 'e) conc_state" where
  "worker_take c i s =
     (case async_inbox s of
        [] \<Rightarrow> s
      | (r, NewRequest p) # ms \<Rightarrow>
          (let s1 = s\<lparr>async_inbox := ms\<rparr> in
           if r \<in> set (ss_aborted (conc_base s)) then s1\<lparr>conc_base := unless_aborted r id (conc_base s1)\<rparr>
           else s1\<lparr>workers := (workers s)[i := Some (r, compute_fn c p)]\<rparr>)
      | _ # ms \<Rightarrow> s\<lparr>async_inbox := ms\<rparr>)"

definition worker_finish :: "nat \<Rightarrow> string \<Rightarrow> 'e + 'r \<Rightarrow> ('p, 'r, 'e) conc_state \<Rightarrow> ('p, 'r, 'e) conc_state" where
  "worker_finish i r res s =
     s\<lparr>conc_base := unless_aborted r (emit (case res of Inl e \<Rightarrow> ErrorMsg r (Exn e) | Inr x \<Rightarrow> ResultMsg r x)) (conc_base s),
       workers := (workers s)[i := None]\<rparr>"

datatype 'p conc_ev = CPut "'p in_msg" | CAbort string | Bridge | Worker nat

fun conc_step :: "('p, 'r, 'e) sched_config \<Rightarrow> ('p, 'r, 'e) conc_state \<Rightarrow> 'p conc_ev \<Rightarrow> ('p, 'r, 'e) conc_state" where
  "conc_step c s (CPut m) = s\<lparr>conc_base := simple_step c (conc_base s) (Put m)\<rparr>"
| "conc_step c s (CAbort r) = s\<lparr>conc_base := simple_step c (conc_base s) (Abort r)\<rparr>"
| "conc_step c s Bridge = bridge_inbox s"
| "conc_step c s (Worker i) =
     (if i < length (workers s) then
        (case workers s ! i of None \<Rightarrow> worker_take c i s | Some (r, res) \<Rightarrow> worker_finish i r res s)
      else s)"

definition conc_held :: "('p, 'r, 'e) conc_state \<Rightarrow> string multiset" where
  "conc_held s = held (conc_base s) + mset (new_ids (async_inbox s)) + mset (map fst (List.map_filter id (workers s)))"

lemma workers_update:
  "i < length ws \<Longrightarrow> mset (map fst (List.map_filter id (ws[i := w]))) + mset (map fst (case ws ! i of None \<Rightarrow> [] | Some x \<Rightarrow> [x])) =
    mset (map fst (List.map_filter id ws)) + mset (map fst (case w of None \<Rightarrow> [] | Some x \<Rightarrow> [x]))"
proof (induction ws arbitrary: i)
  case (Cons a ws)
  show ?case
  proof (cases i)
    case 0
    then show ?thesis by (cases a; cases w) (auto simp: List.map_filter_simps)
  next
    case (Suc j)
    with Cons.IH [of j] Cons.prems show ?thesis by (cases a) (auto simp: List.map_filter_simps)
  qed
qed simp

lemma worker_take_held:
  assumes "i < length (workers s)" "workers s ! i = None"
  shows "conc_held (worker_take c i s) = conc_held s"
proof (cases "async_inbox s")
  case (Cons m ms)
  obtain r ct where m: "m = (r, ct)" by (cases m)
  show ?thesis
  proof (cases ct)
    case (NewRequest p)
    have "held (unless_aborted r id (conc_base s)) = held (conc_base s) + {#r#}" if "r \<in> set (ss_aborted (conc_base s))"
      using that by (simp add: unless_aborted_def held_def)
    with NewRequest Cons m workers_update [OF assms(1), of "Some (r, compute_fn c p)"] assms(2) show ?thesis
      by (auto simp: worker_take_def conc_held_def Let_def)
  qed (use Cons m in \<open>simp_all add: worker_take_def conc_held_def\<close>)
qed (simp add: worker_take_def)

lemma worker_finish_held:
  assumes "i < length (workers s)" "workers s ! i = Some (r, res)"
  shows "conc_held (worker_finish i r res s) = conc_held s"
proof -
  have "held (unless_aborted r (emit (case res of Inl e \<Rightarrow> ErrorMsg r (Exn e) | Inr x \<Rightarrow> ResultMsg r x)) (conc_base s)) = held (conc_base s) + {#r#}"
    by (intro held_unless_aborted) (simp add: held_emit split: sum.split)
  with workers_update [OF assms(1), of None] assms(2) show ?thesis by (simp add: worker_finish_def conc_held_def)
qed

text \<open>The workers too keep every request: it waits, is computed, was answered once, or was dropped as aborted.\<close>

lemma conc_step_held:
  "conc_held (conc_step c s ev) = conc_held s + (case ev of CPut m \<Rightarrow> mset (new_ids [m]) | _ \<Rightarrow> {#})"
proof (cases ev)
  case (CAbort r)
  then show ?thesis by (simp add: conc_held_def held_def abort_def Let_def)
next
  case Bridge
  show ?thesis
  proof (cases "ss_inbox (conc_base s)")
    case (Cons m ms)
    obtain r ct where "m = (r, ct)" by (cases m)
    with Cons Bridge show ?thesis by (cases ct) (simp_all add: bridge_inbox_def conc_held_def held_def)
  qed (simp add: Bridge bridge_inbox_def)
next
  case (Worker i)
  then show ?thesis by (auto simp: worker_take_held worker_finish_held split: option.split)
qed (simp add: conc_held_def held_def)

end
