(* ===== verification/Threaded_Scheduler.thy ===== *)
theory Threaded_Scheduler
  imports Simple_Scheduler
begin

text \<open>
  The scheduler of blocking stages, \<^verbatim>\<open>scheduling/threaded_simple_scheduler.py\<close>: one loop thread takes requests from a counting inbox and
  submits them to a thread pool, worker threads compute, and aborts come from any thread. Each section under the scheduler lock, each queue
  operation, each transition of a future and each output is one step, and steps interleave freely. A done callback that Python runs inside
  the thread that finishes or cancels the future is a step of its own here, which only adds interleavings.
\<close>

section \<open>State\<close>

datatype ('r, 'e) fut_status = FutPending | FutRunning | FutFinished "'e + 'r" | FutCancelled

text \<open>The done callback \<^verbatim>\<open>_finish\<close> of a future: not yet added, added, running before its lock, past its lock with the flag \<^verbatim>\<open>aborted\<close>, and ended, silently or not.\<close>

datatype callback_state = NotAdded | Added | Due | Locked bool | Ended bool

record ('p, 'r, 'e) fut =
  fut_owner :: string
  fut_work :: 'p
  fut_state :: "('r, 'e) fut_status"
  fut_callback :: callback_state

datatype 'p th_loop = AtWait | AtGet | AtClaim string 'p | AtCallback nat | Stopped

text \<open>
  \<open>th_futures\<close> lists all futures ever submitted, so that an index names one. \<open>cancelling\<close> lists the aborts that have left the lock,
  \<open>abort_calls\<close> and \<open>th_dropped\<close> record the calls of \<^verbatim>\<open>_run_abort_callback\<close> and the requests that a tombstone suppressed.
\<close>

record ('p, 'r, 'e) th_state =
  th_inbox :: "'p in_msg list"
  request_counts :: "(string, nat) dict"
  claimed_counts :: "(string, nat) dict"
  th_outbox :: "('r, 'e) sched_out list"
  th_futures :: "('p, 'r, 'e) fut list"
  th_pending :: "(string, nat) dict"
  queued_aborts :: "string list"
  speculative_aborts :: "string list"
  aborted_futures :: "nat list"
  cancelling :: "(string \<times> nat option) list"
  abort_calls :: "string list"
  th_dropped :: "string list"
  th_running :: bool
  th_loop :: "'p th_loop"

record ('p, 'r, 'e) th_config =
  th_fn :: "'p \<Rightarrow> 'e + 'r"
  max_concurrency :: int

definition th_init :: "('p, 'r, 'e) th_state" where
  "th_init = \<lparr>th_inbox = [], request_counts = [], claimed_counts = [], th_outbox = [], th_futures = [], th_pending = [], queued_aborts = [],
     speculative_aborts = [], aborted_futures = [], cancelling = [], abort_calls = [], th_dropped = [], th_running = True, th_loop = AtWait\<rparr>"

definition th_workers :: "('p, 'r, 'e) th_config \<Rightarrow> nat" where
  "th_workers c = nat (max (max_concurrency c) 1)"

section \<open>The counting inbox\<close>

definition count_up :: "(string, nat) dict \<Rightarrow> string \<Rightarrow> (string, nat) dict" where
  "count_up d r = dset d r (case dget d r of None \<Rightarrow> 1 | Some n \<Rightarrow> Suc n)"

definition count_down :: "(string, nat) dict \<Rightarrow> string \<Rightarrow> (string, nat) dict" where
  "count_down d r = (case dget d r of Some (Suc (Suc n)) \<Rightarrow> dset d r (Suc n) | _ \<Rightarrow> ddel d r)"

definition inbox_put :: "'p in_msg \<Rightarrow> ('p, 'r, 'e) th_state \<Rightarrow> ('p, 'r, 'e) th_state" where
  "inbox_put m s =
     (let s1 = s\<lparr>th_inbox := th_inbox s @ [m]\<rparr> in
      if is_new m then s1\<lparr>request_counts := count_up (request_counts s1) (fst m)\<rparr> else s1)"

definition inbox_get :: "('p, 'r, 'e) th_state \<Rightarrow> ('p in_msg \<times> ('p, 'r, 'e) th_state) option" where
  "inbox_get s =
     (case th_inbox s of
        [] \<Rightarrow> None
      | m # ms \<Rightarrow>
          Some (m,
            if is_new m then
              s\<lparr>th_inbox := ms, request_counts := count_down (request_counts s) (fst m), claimed_counts := count_up (claimed_counts s) (fst m)\<rparr>
            else s\<lparr>th_inbox := ms\<rparr>))"

definition inbox_reachable :: "string \<Rightarrow> ('p, 'r, 'e) th_state \<Rightarrow> bool" where
  "inbox_reachable r s \<longleftrightarrow> dhas (request_counts s) r \<or> dhas (claimed_counts s) r"

definition release_claim :: "string \<Rightarrow> ('p, 'r, 'e) th_state \<Rightarrow> ('p, 'r, 'e) th_state" where
  "release_claim r s = s\<lparr>claimed_counts := count_down (claimed_counts s) r\<rparr>"

section \<open>Tombstones\<close>

text \<open>The first keys go while at least 5000 are left.\<close>

fun evict_oldest :: "string list \<Rightarrow> string list" where
  "evict_oldest [] = []"
| "evict_oldest (x # xs) = (if 5000 \<le> length (x # xs) then evict_oldest xs else x # xs)"

definition record_speculative_abort :: "string \<Rightarrow> ('p, 'r, 'e) th_state \<Rightarrow> ('p, 'r, 'e) th_state" where
  "record_speculative_abort r s =
     (if r \<in> set (speculative_aborts s) then s
      else
        let sp = (if 10000 \<le> length (speculative_aborts s) then evict_oldest (speculative_aborts s) else speculative_aborts s)
        in s\<lparr>speculative_aborts := sp @ [r]\<rparr>)"

definition consume_reachable_tombstone :: "string \<Rightarrow> ('p, 'r, 'e) th_state \<Rightarrow> bool \<times> ('p, 'r, 'e) th_state" where
  "consume_reachable_tombstone r s =
     (if r \<in> set (queued_aborts s) then
        (True, s\<lparr>queued_aborts := removeAll r (queued_aborts s), speculative_aborts := removeAll r (speculative_aborts s)\<rparr>)
      else if r \<in> set (speculative_aborts s) then (True, s\<lparr>speculative_aborts := removeAll r (speculative_aborts s)\<rparr>)
      else (False, s))"

definition has_tombstone :: "string \<Rightarrow> ('p, 'r, 'e) th_state \<Rightarrow> bool" where
  "has_tombstone r s \<longleftrightarrow> r \<in> set (queued_aborts s) \<or> r \<in> set (speculative_aborts s)"

definition th_enqueue :: "'p in_msg \<Rightarrow> ('p, 'r, 'e) th_state \<Rightarrow> ('p, 'r, 'e) th_state" where
  "th_enqueue m s =
     (if \<not> is_new m then inbox_put m s
      else if fst m \<in> set (speculative_aborts s) then
        inbox_put m (s\<lparr>speculative_aborts := removeAll (fst m) (speculative_aborts s), queued_aborts := List.insert (fst m) (queued_aborts s)\<rparr>)
      else inbox_put m s)"

section \<open>Futures\<close>

definition is_done :: "('r, 'e) fut_status \<Rightarrow> bool" where
  "is_done st = (case st of FutFinished _ \<Rightarrow> True | FutCancelled \<Rightarrow> True | _ \<Rightarrow> False)"

definition callback_runs :: "callback_state \<Rightarrow> callback_state" where
  "callback_runs cb = (if cb = Added then Due else cb)"

definition cancel_fut :: "('p, 'r, 'e) fut \<Rightarrow> ('p, 'r, 'e) fut" where
  "cancel_fut f = (case fut_state f of FutPending \<Rightarrow> f\<lparr>fut_state := FutCancelled, fut_callback := callback_runs (fut_callback f)\<rparr> | _ \<Rightarrow> f)"

definition upd_fut :: "nat \<Rightarrow> (('p, 'r, 'e) fut \<Rightarrow> ('p, 'r, 'e) fut) \<Rightarrow> ('p, 'r, 'e) th_state \<Rightarrow> ('p, 'r, 'e) th_state" where
  "upd_fut i g s = s\<lparr>th_futures := (th_futures s)[i := g (th_futures s ! i)]\<rparr>"

definition n_running :: "('p, 'r, 'e) th_state \<Rightarrow> nat" where
  "n_running s = length (filter (\<lambda>f. fut_state f = FutRunning) (th_futures s))"

text \<open>A worker thread of the pool takes a future that is not cancelled, and stores what \<^verbatim>\<open>_run_one\<close> returned or raised.\<close>

definition worker_start :: "('p, 'r, 'e) th_config \<Rightarrow> nat \<Rightarrow> ('p, 'r, 'e) th_state \<Rightarrow> ('p, 'r, 'e) th_state" where
  "worker_start c i s =
     (if i < length (th_futures s) \<and> fut_state (th_futures s ! i) = FutPending \<and> n_running s < th_workers c
      then upd_fut i (\<lambda>f. f\<lparr>fut_state := FutRunning\<rparr>) s else s)"

definition worker_done :: "('p, 'r, 'e) th_config \<Rightarrow> nat \<Rightarrow> ('p, 'r, 'e) th_state \<Rightarrow> ('p, 'r, 'e) th_state" where
  "worker_done c i s =
     (if i < length (th_futures s) \<and> fut_state (th_futures s ! i) = FutRunning
      then upd_fut i (\<lambda>f. f\<lparr>fut_state := FutFinished (th_fn c (fut_work f)), fut_callback := callback_runs (fut_callback f)\<rparr>) s else s)"

section \<open>Aborts\<close>

definition th_abort :: "string \<Rightarrow> ('p, 'r, 'e) th_state \<Rightarrow> ('p, 'r, 'e) th_state" where
  "th_abort r s =
     (case dget (th_pending s) r of
        Some i \<Rightarrow> s\<lparr>th_pending := ddel (th_pending s) r, aborted_futures := List.insert i (aborted_futures s), cancelling := cancelling s @ [(r, Some i)]\<rparr>
      | None \<Rightarrow>
          (let s1 = (if inbox_reachable r s then s\<lparr>queued_aborts := List.insert r (queued_aborts s)\<rparr> else record_speculative_abort r s)
           in s1\<lparr>cancelling := cancelling s1 @ [(r, None)]\<rparr>))"

definition run_abort_callback :: "string \<Rightarrow> ('p, 'r, 'e) th_state \<Rightarrow> ('p, 'r, 'e) th_state" where
  "run_abort_callback r s = s\<lparr>abort_calls := abort_calls s @ [r]\<rparr>"

text \<open>The rest of \<^verbatim>\<open>abort\<close>, after the lock.\<close>

definition th_abort_rest :: "nat \<Rightarrow> ('p, 'r, 'e) th_state \<Rightarrow> ('p, 'r, 'e) th_state" where
  "th_abort_rest k s =
     (if k < length (cancelling s) then
        (let (r, fi) = cancelling s ! k;
             s1 = s\<lparr>cancelling := take k (cancelling s) @ drop (Suc k) (cancelling s)\<rparr>
         in run_abort_callback r (case fi of None \<Rightarrow> s1 | Some i \<Rightarrow> if i < length (th_futures s1) then upd_fut i cancel_fut s1 else s1))
      else s)"

section \<open>The completion callback\<close>

definition finish_lock :: "nat \<Rightarrow> ('p, 'r, 'e) th_state \<Rightarrow> ('p, 'r, 'e) th_state" where
  "finish_lock i s =
     (if i < length (th_futures s) \<and> fut_callback (th_futures s ! i) = Due then
        (let r = fut_owner (th_futures s ! i);
             s1 = (if dget (th_pending s) r = Some i then s\<lparr>th_pending := ddel (th_pending s) r\<rparr> else s);
             aborted = (i \<in> set (aborted_futures s))
         in upd_fut i (\<lambda>f. f\<lparr>fut_callback := Locked aborted\<rparr>) (s1\<lparr>aborted_futures := removeAll i (aborted_futures s)\<rparr>))
      else s)"

definition result_msg :: "string \<Rightarrow> 'e + 'r \<Rightarrow> ('r, 'e) sched_out" where
  "result_msg r x = (case x of Inl e \<Rightarrow> ErrorMsg r (Exn e) | Inr v \<Rightarrow> ResultMsg r v)"

definition finish_emit :: "nat \<Rightarrow> ('p, 'r, 'e) th_state \<Rightarrow> ('p, 'r, 'e) th_state" where
  "finish_emit i s =
     (if i < length (th_futures s) then
        (case fut_callback (th_futures s ! i) of
           Locked aborted \<Rightarrow>
             (let f = th_futures s ! i in
              case fut_state f of
                FutFinished x \<Rightarrow>
                  if aborted then run_abort_callback (fut_owner f) (upd_fut i (\<lambda>f. f\<lparr>fut_callback := Ended True\<rparr>) s)
                  else upd_fut i (\<lambda>f. f\<lparr>fut_callback := Ended False\<rparr>) (s\<lparr>th_outbox := th_outbox s @ [result_msg (fut_owner f) x]\<rparr>)
              | _ \<Rightarrow> run_abort_callback (fut_owner f) (upd_fut i (\<lambda>f. f\<lparr>fut_callback := Ended True\<rparr>) s))
         | _ \<Rightarrow> s)
      else s)"

section \<open>The loop\<close>

text \<open>\<^verbatim>\<open>shutdown(wait=False, cancel_futures=True)\<close> cancels what no worker has taken.\<close>

definition shut_down :: "('p, 'r, 'e) th_state \<Rightarrow> ('p, 'r, 'e) th_state" where
  "shut_down s = s\<lparr>th_futures := map cancel_fut (th_futures s), th_loop := Stopped\<rparr>"

definition wait_for_capacity :: "('p, 'r, 'e) th_config \<Rightarrow> ('p, 'r, 'e) th_state \<Rightarrow> ('p, 'r, 'e) th_state" where
  "wait_for_capacity c s =
     (if \<not> th_running s then shut_down s
      else if length (th_pending s) < th_workers c then s\<lparr>th_loop := AtGet\<rparr> else s)"

definition get_step :: "('p, 'r, 'e) th_state \<Rightarrow> ('p, 'r, 'e) th_state" where
  "get_step s =
     (if \<not> th_running s then shut_down s
      else case inbox_get s of
        None \<Rightarrow> s\<lparr>th_loop := AtWait\<rparr>
      | Some ((r, NewRequest p), s1) \<Rightarrow> s1\<lparr>th_loop := AtClaim r p\<rparr>
      | Some (_, s1) \<Rightarrow> s1\<lparr>th_loop := AtWait\<rparr>)"

definition submit :: "string \<Rightarrow> 'p \<Rightarrow> ('p, 'r, 'e) th_state \<Rightarrow> ('p, 'r, 'e) th_state" where
  "submit r p s =
     s\<lparr>th_futures := th_futures s @ [\<lparr>fut_owner = r, fut_work = p, fut_state = FutPending, fut_callback = NotAdded\<rparr>],
       th_pending := dset (th_pending s) r (length (th_futures s)), th_loop := AtCallback (length (th_futures s))\<rparr>"

definition claim_step :: "string \<Rightarrow> 'p \<Rightarrow> ('p, 'r, 'e) th_state \<Rightarrow> ('p, 'r, 'e) th_state" where
  "claim_step r p s =
     (case consume_reachable_tombstone r s of
        (True, s1) \<Rightarrow> release_claim r (s1\<lparr>th_dropped := th_dropped s1 @ [r], th_loop := AtWait\<rparr>)
      | (False, s1) \<Rightarrow> release_claim r (submit r p s1))"

definition add_callback :: "nat \<Rightarrow> ('p, 'r, 'e) th_state \<Rightarrow> ('p, 'r, 'e) th_state" where
  "add_callback i s = (upd_fut i (\<lambda>f. f\<lparr>fut_callback := (if is_done (fut_state f) then Due else Added)\<rparr>) s)\<lparr>th_loop := AtWait\<rparr>"

definition th_loop_step :: "('p, 'r, 'e) th_config \<Rightarrow> ('p, 'r, 'e) th_state \<Rightarrow> ('p, 'r, 'e) th_state" where
  "th_loop_step c s =
     (case th_loop s of
        AtWait \<Rightarrow> wait_for_capacity c s
      | AtGet \<Rightarrow> get_step s
      | AtClaim r p \<Rightarrow> claim_step r p s
      | AtCallback i \<Rightarrow> add_callback i s
      | Stopped \<Rightarrow> s)"

datatype 'p th_ev =
    ThEnqueue "'p in_msg" | ThAbort string | ThAbortRest nat | ThLoop | ThStart nat | ThDone nat | ThFinish nat | ThEmit nat | ThStop

fun th_step :: "('p, 'r, 'e) th_config \<Rightarrow> ('p, 'r, 'e) th_state \<Rightarrow> 'p th_ev \<Rightarrow> ('p, 'r, 'e) th_state" where
  "th_step c s (ThEnqueue m) = th_enqueue m s"
| "th_step c s (ThAbort r) = th_abort r s"
| "th_step c s (ThAbortRest k) = th_abort_rest k s"
| "th_step c s ThLoop = th_loop_step c s"
| "th_step c s (ThStart i) = worker_start c i s"
| "th_step c s (ThDone i) = worker_done c i s"
| "th_step c s (ThFinish i) = finish_lock i s"
| "th_step c s (ThEmit i) = finish_emit i s"
| "th_step c s ThStop = s\<lparr>th_running := False\<rparr>"

abbreviation th_run :: "('p, 'r, 'e) th_config \<Rightarrow> 'p th_ev list \<Rightarrow> ('p, 'r, 'e) th_state" where
  "th_run c es \<equiv> run (th_step c) th_init es"

end
