(* ===== verification/Threaded_Properties.thy ===== *)
theory Threaded_Properties
  imports Threaded_Scheduler
begin

text \<open>
  Correctness of the threaded scheduler: where each request is, what each future means, and from both that a request is answered exactly
  once unless it was aborted, that an abort before the answer is decided silences the request, and that nothing leaks.
\<close>

section \<open>Every request is in one place\<close>

definition claim_ids :: "'p th_loop \<Rightarrow> string list" where
  "claim_ids l = (case l of AtClaim r _ \<Rightarrow> [r] | _ \<Rightarrow> [])"

lemma claim_ids_simps [simp]:
  "claim_ids AtWait = []" "claim_ids AtGet = []" "claim_ids (AtClaim r p) = [r]" "claim_ids (AtCallback i) = []" "claim_ids Stopped = []"
  by (simp_all add: claim_ids_def)

text \<open>Requests that the loop has not dealt with yet.\<close>

definition waiting :: "('p, 'r, 'e) th_state \<Rightarrow> string multiset" where
  "waiting s = mset (new_ids (th_inbox s)) + mset (claim_ids (th_loop s))"

definition th_places :: "('p, 'r, 'e) th_state \<Rightarrow> string multiset" where
  "th_places s = waiting s + mset (th_dropped s) + mset (map fut_owner (th_futures s))"

definition enq_ids :: "'p th_ev list \<Rightarrow> string list" where
  "enq_ids es = new_ids (concat (map (\<lambda>e. case e of ThEnqueue m \<Rightarrow> [m] | _ \<Rightarrow> []) es))"

lemma enq_ids_append [simp]: "enq_ids (xs @ ys) = enq_ids xs @ enq_ids ys"
  by (simp add: enq_ids_def)

lemma enq_ids_Cons [simp]: "enq_ids [] = []" "enq_ids (ThEnqueue m # es) = new_ids [m] @ enq_ids es"
  "enq_ids (ThAbort r # es) = enq_ids es" "enq_ids (ThAbortRest k # es) = enq_ids es" "enq_ids (ThLoop # es) = enq_ids es"
  "enq_ids (ThStart i # es) = enq_ids es" "enq_ids (ThDone i # es) = enq_ids es" "enq_ids (ThFinish i # es) = enq_ids es"
  "enq_ids (ThEmit i # es) = enq_ids es" "enq_ids (ThStop # es) = enq_ids es"
  by (simp_all add: enq_ids_def new_ids_def)

lemma new_ids_Cons: "new_ids (m # ms) = (if is_new m then fst m # new_ids ms else new_ids ms)"
  by (simp add: new_ids_def)

lemma cancel_fut_simps [simp]: "fut_owner (cancel_fut f) = fut_owner f" "fut_work (cancel_fut f) = fut_work f"
  by (auto simp: cancel_fut_def split: fut_status.splits)

lemma owners_upd:
  assumes "fut_owner y = fut_owner (xs ! i)"
  shows "map fut_owner (xs[i := y]) = map fut_owner xs"
  by (rule nth_equalityI, simp, cases "i < length xs") (auto simp: nth_list_update assms list_update_beyond)

lemma mset_owners_upd: "fut_owner y = fut_owner (xs ! i) \<Longrightarrow> image_mset fut_owner (mset (xs[i := y])) = image_mset fut_owner (mset xs)"
  using arg_cong [where f = mset, OF owners_upd] by simp

lemma mset_owners_cancel: "image_mset fut_owner (image_mset cancel_fut M) = image_mset fut_owner M"
  by (simp add: multiset.map_comp comp_def)

lemmas place_defs = mset_owners_cancel th_places_def waiting_def upd_fut_def mset_owners_upd run_abort_callback_def Let_def

lemma th_places_abort: "th_places (th_abort r s) = th_places s"
  by (auto simp: th_abort_def record_speculative_abort_def place_defs split: option.splits)

lemma th_places_th_abort_rest: "th_places (th_abort_rest k s) = th_places s"
  by (auto simp: th_abort_rest_def place_defs split: option.splits prod.splits)

lemma th_places_worker: "th_places (worker_start c i s) = th_places s" "th_places (worker_done c i s) = th_places s"
  by (auto simp: worker_start_def worker_done_def place_defs)

lemma th_places_finish: "th_places (finish_lock i s) = th_places s" "th_places (finish_emit i s) = th_places s"
  by (auto simp: finish_lock_def finish_emit_def place_defs split: callback_state.splits fut_status.splits)

lemma th_places_claim: "th_loop s = AtClaim r p \<Longrightarrow> th_places (claim_step r p s) = th_places s"
  by (auto simp: claim_step_def consume_reachable_tombstone_def release_claim_def submit_def place_defs)

lemma th_places_get: "th_loop s = AtGet \<Longrightarrow> th_places (get_step s) = th_places s"
  by (auto simp: get_step_def shut_down_def inbox_get_def place_defs is_new_def split: list.splits content.splits prod.splits if_splits)

lemma th_places_wait: "th_loop s = AtWait \<Longrightarrow> th_places (wait_for_capacity c s) = th_places s"
  by (auto simp: wait_for_capacity_def shut_down_def place_defs)

lemma th_places_add_callback: "th_loop s = AtCallback i \<Longrightarrow> th_places (add_callback i s) = th_places s"
  by (simp add: add_callback_def place_defs)

lemma th_places_loop: "th_places (th_loop_step c s) = th_places s"
  by (cases "th_loop s")
    (simp_all add: th_loop_step_def th_places_claim th_places_get th_places_wait th_places_add_callback)

lemma th_places_enqueue: "th_places (th_enqueue m s) = th_places s + mset (new_ids [m])"
  by (auto simp: th_enqueue_def inbox_put_def place_defs new_ids_Cons)

lemma th_places_running: "th_places (s\<lparr>th_running := b\<rparr>) = th_places s"
  by (simp add: place_defs)

lemma th_places_step: "th_places (th_step c s e) = th_places s + mset (enq_ids [e])"
  by (cases e) (simp_all add: th_places_abort th_places_th_abort_rest th_places_worker th_places_finish th_places_loop th_places_enqueue
      th_places_running)

lemma th_places_run: "th_places (th_run c es) = mset (enq_ids es)"
proof (induction es rule: rev_induct)
  case Nil
  show ?case by (simp add: th_init_def th_places_def waiting_def)
next
  case (snoc e es)
  then show ?case by (simp add: run_append th_places_step)
qed

section \<open>The counters of the inbox\<close>

definition counts_of :: "(string, nat) dict \<Rightarrow> string multiset \<Rightarrow> bool" where
  "counts_of d ms \<longleftrightarrow> (\<forall>r. dget d r = (if r \<in># ms then Some (count ms r) else None))"

lemma counts_of_up: "counts_of d ms \<Longrightarrow> counts_of (count_up d r) (add_mset r ms)"
  by (auto simp: counts_of_def count_up_def)
    (auto simp: not_in_iff)

lemma counts_of_down: "counts_of d (add_mset r ms) \<Longrightarrow> counts_of (count_down d r) ms"
  by (auto simp: counts_of_def count_down_def split: option.splits nat.splits)
    (auto simp flip: count_greater_zero_iff)

lemma counts_of_dhas: "counts_of d ms \<Longrightarrow> dhas d r \<longleftrightarrow> r \<in># ms"
  by (simp add: counts_of_def dhas_dget)

definition inbox_ok :: "('p, 'r, 'e) th_state \<Rightarrow> bool" where
  "inbox_ok s \<longleftrightarrow> counts_of (request_counts s) (mset (new_ids (th_inbox s))) \<and> counts_of (claimed_counts s) (mset (claim_ids (th_loop s)))"

lemma inbox_ok_reachable: "inbox_ok s \<Longrightarrow> inbox_reachable r s \<longleftrightarrow> r \<in># waiting s"
  by (auto simp: inbox_ok_def inbox_reachable_def counts_of_dhas waiting_def)

lemma inbox_ok_cong:
  "th_inbox t = th_inbox s \<Longrightarrow> th_loop t = th_loop s \<Longrightarrow> request_counts t = request_counts s \<Longrightarrow> claimed_counts t = claimed_counts s \<Longrightarrow>
   inbox_ok t = inbox_ok s"
  by (simp add: inbox_ok_def)

lemma inbox_ok_put:
  assumes "inbox_ok s"
  shows "inbox_ok (inbox_put m s)"
  using assms by (auto simp: inbox_put_def inbox_ok_def Let_def new_ids_Cons intro: counts_of_up)

lemma inbox_ok_get: "inbox_ok s \<Longrightarrow> th_loop s = AtGet \<Longrightarrow> inbox_ok (get_step s)"
  by (auto simp: get_step_def shut_down_def inbox_get_def inbox_ok_def new_ids_Cons is_new_def counts_of_down counts_of_up
      split: list.splits content.splits if_splits prod.splits)

lemma inbox_ok_claim: "inbox_ok s \<Longrightarrow> th_loop s = AtClaim r p \<Longrightarrow> inbox_ok (claim_step r p s)"
  by (auto simp: claim_step_def consume_reachable_tombstone_def release_claim_def submit_def inbox_ok_def intro: counts_of_down)

lemma inbox_ok_loop: "inbox_ok s \<Longrightarrow> inbox_ok (th_loop_step c s)"
  by (cases "th_loop s")
    (auto simp: th_loop_step_def inbox_ok_get inbox_ok_claim wait_for_capacity_def shut_down_def add_callback_def upd_fut_def,
     auto simp: inbox_ok_def)

text \<open>Steps that leave the inbox and the loop alone.\<close>

fun keeps_inbox :: "'p th_ev \<Rightarrow> bool" where
  "keeps_inbox (ThEnqueue _) = False" | "keeps_inbox ThLoop = False" | "keeps_inbox _ = True"

lemma keeps_inbox_step:
  assumes "keeps_inbox e"
  shows "th_inbox (th_step c s e) = th_inbox s \<and> th_loop (th_step c s e) = th_loop s \<and> request_counts (th_step c s e) = request_counts s \<and>
    claimed_counts (th_step c s e) = claimed_counts s \<and> th_dropped (th_step c s e) = th_dropped s"
  using assms
  by (cases e)
    (auto simp: th_abort_def record_speculative_abort_def th_abort_rest_def upd_fut_def run_abort_callback_def worker_start_def worker_done_def
      finish_lock_def finish_emit_def Let_def split: option.splits prod.splits callback_state.splits fut_status.splits)

lemma keeps_inbox_waiting: "keeps_inbox e \<Longrightarrow> waiting (th_step c s e) = waiting s"
  using keeps_inbox_step [of e c s] by (simp add: waiting_def)

lemma inbox_ok_enqueue: "inbox_ok s \<Longrightarrow> inbox_ok (th_enqueue m s)"
proof -
  assume s: "inbox_ok s"
  then have "inbox_ok (s\<lparr>speculative_aborts := a, queued_aborts := b\<rparr>)" for a b by (simp add: inbox_ok_def)
  with s show ?thesis by (auto simp: th_enqueue_def intro: inbox_ok_put)
qed

lemma inbox_ok_step: "inbox_ok s \<Longrightarrow> inbox_ok (th_step c s e)"
proof (cases "keeps_inbox e")
  case True
  assume "inbox_ok s"
  with keeps_inbox_step [OF True, of c s] show ?thesis by (simp add: inbox_ok_def)
next
  case False
  assume "inbox_ok s"
  with False show ?thesis by (cases e) (auto simp: inbox_ok_loop inbox_ok_enqueue)
qed

section \<open>Tombstones belong to waiting requests, and are bounded\<close>

lemma evict_oldest_props: "length (evict_oldest xs) < 5000 \<and> length (evict_oldest xs) \<le> length xs \<and> set (evict_oldest xs) \<subseteq> set xs"
  by (induction xs) auto

definition tombs_ok :: "('p, 'r, 'e) th_state \<Rightarrow> bool" where
  "tombs_ok s \<longleftrightarrow> inbox_ok s \<and> (\<forall>r\<in>set (queued_aborts s). r \<in># waiting s) \<and> length (speculative_aborts s) \<le> 10000"

lemma length_removeAll_le: "length xs \<le> n \<Longrightarrow> length (removeAll x xs) \<le> n"
  using le_trans [OF length_filter_le [of "\<lambda>y. x \<noteq> y" xs]] by (simp add: removeAll_filter_not_eq)

lemma tombs_ok_record: "length (speculative_aborts s) \<le> 10000 \<Longrightarrow> length (speculative_aborts (record_speculative_abort r s)) \<le> 10000"
  using evict_oldest_props [of "speculative_aborts s"] by (auto simp: record_speculative_abort_def Let_def)

lemma tombs_ok_abort: "tombs_ok s \<Longrightarrow> tombs_ok (th_abort r s)"
proof -
  assume m: "tombs_ok s"
  have w: "waiting (th_abort r s) = waiting s" "inbox_ok (th_abort r s)"
    using keeps_inbox_waiting [of "ThAbort r" undefined s] inbox_ok_step [of s undefined "ThAbort r"] m by (simp_all add: tombs_ok_def)
  have "set (queued_aborts (th_abort r s)) \<subseteq> set (queued_aborts s) \<union> {x. x = r \<and> inbox_reachable r s}"
    by (auto simp: th_abort_def record_speculative_abort_def Let_def split: option.splits)
  moreover have "length (speculative_aborts (th_abort r s)) \<le> 10000"
    using m tombs_ok_record [of s r] by (auto simp: th_abort_def tombs_ok_def Let_def split: option.splits)
  ultimately show ?thesis using m w by (auto simp: tombs_ok_def inbox_ok_reachable)
qed

lemma marks_kept:
  assumes "keeps_inbox e" "\<And>r. e \<noteq> ThAbort r"
  shows "queued_aborts (th_step c s e) = queued_aborts s \<and> speculative_aborts (th_step c s e) = speculative_aborts s"
  using assms
  by (cases e)
    (auto simp: th_abort_rest_def upd_fut_def run_abort_callback_def worker_start_def worker_done_def
      finish_lock_def finish_emit_def Let_def split: option.splits prod.splits callback_state.splits fut_status.splits)

lemma tombs_ok_enqueue: "tombs_ok s \<Longrightarrow> tombs_ok (th_enqueue m s)"
proof -
  assume m: "tombs_ok s"
  then have "inbox_ok (th_enqueue m s)" by (simp add: tombs_ok_def inbox_ok_enqueue)
  moreover have "waiting (th_enqueue m s) = waiting s + mset (new_ids [m])"
    by (auto simp: th_enqueue_def inbox_put_def waiting_def Let_def new_ids_Cons)
  ultimately show ?thesis using m
    by (auto simp: tombs_ok_def th_enqueue_def inbox_put_def Let_def new_ids_Cons length_removeAll_le)
qed

lemma waiting_get: "th_loop s = AtGet \<Longrightarrow> waiting (get_step s) = waiting s"
  by (auto simp: get_step_def shut_down_def inbox_get_def waiting_def is_new_def split: list.splits content.splits prod.splits if_splits)

lemma waiting_claim: "th_loop s = AtClaim r p \<Longrightarrow> waiting s = add_mset r (waiting (claim_step r p s))"
  by (auto simp: claim_step_def consume_reachable_tombstone_def release_claim_def submit_def waiting_def)

lemma marks_claim:
  "set (queued_aborts (claim_step r p s)) = set (queued_aborts s) - {r}"
  "length (speculative_aborts (claim_step r p s)) \<le> length (speculative_aborts s)"
  by (auto simp: claim_step_def consume_reachable_tombstone_def release_claim_def submit_def length_removeAll_le)

lemma marks_get: "queued_aborts (get_step s) = queued_aborts s" "speculative_aborts (get_step s) = speculative_aborts s"
  by (auto simp: get_step_def shut_down_def inbox_get_def split: list.splits content.splits prod.splits)

lemma tombs_ok_loop: "tombs_ok s \<Longrightarrow> tombs_ok (th_loop_step c s)"
proof -
  assume m: "tombs_ok s"
  then have i: "inbox_ok (th_loop_step c s)" by (simp add: tombs_ok_def inbox_ok_loop)
  show ?thesis
  proof (cases "th_loop s")
    case (AtClaim r p)
    with m i show ?thesis
      using waiting_claim [OF AtClaim] marks_claim [where r = r and p = p and s = s] by (fastforce simp: tombs_ok_def th_loop_step_def)
  next
    case AtGet
    with m i show ?thesis by (simp add: tombs_ok_def th_loop_step_def waiting_get marks_get)
  qed (use m i in \<open>auto simp: tombs_ok_def th_loop_step_def wait_for_capacity_def shut_down_def add_callback_def upd_fut_def waiting_def\<close>)
qed

lemma tombs_ok_step: "tombs_ok s \<Longrightarrow> tombs_ok (th_step c s e)"
proof (cases "keeps_inbox e \<and> (\<forall>r. e \<noteq> ThAbort r)")
  case True
  assume "tombs_ok s"
  with True marks_kept [of e c s] keeps_inbox_waiting [of e c s] inbox_ok_step [of s c e] show ?thesis by (simp add: tombs_ok_def)
next
  case False
  assume "tombs_ok s"
  with False show ?thesis by (cases e) (auto simp: tombs_ok_loop tombs_ok_enqueue tombs_ok_abort)
qed

lemma tombs_ok_init: "tombs_ok th_init"
  by (simp add: tombs_ok_def th_init_def inbox_ok_def counts_of_def)

section \<open>What the futures mean\<close>

definition early :: "callback_state \<Rightarrow> bool" where
  "early cb \<longleftrightarrow> cb = NotAdded \<or> cb = Added \<or> cb = Due"

lemma early_simps [simp]: "early NotAdded" "early Added" "early Due" "\<not> early (Locked b)" "\<not> early (Ended b)"
  by (simp_all add: early_def)

lemma is_done_simps [simp]: "\<not> is_done FutPending" "\<not> is_done FutRunning" "is_done (FutFinished x)" "is_done FutCancelled"
  by (simp_all add: is_done_def)

lemma callback_runs_simps [simp]:
  "early (callback_runs cb) = early cb" "callback_runs cb = NotAdded \<longleftrightarrow> cb = NotAdded" "callback_runs cb = Locked b \<longleftrightarrow> cb = Locked b"
  "callback_runs cb = Ended b \<longleftrightarrow> cb = Ended b"
  by (auto simp: callback_runs_def)

text \<open>A future is consistent: its result is that of the computation, and its callback runs only when it is done.\<close>

definition fut_ok :: "('p, 'r, 'e) th_config \<Rightarrow> ('p, 'r, 'e) fut \<Rightarrow> bool" where
  "fut_ok c f \<longleftrightarrow>
     (\<forall>x. fut_state f = FutFinished x \<longrightarrow> x = th_fn c (fut_work f)) \<and>
     (fut_callback f = Due \<or> \<not> early (fut_callback f) \<longrightarrow> is_done (fut_state f)) \<and>
     (fut_callback f = Ended False \<longrightarrow> fut_state f \<noteq> FutCancelled)"

definition futs_ok :: "('p, 'r, 'e) th_config \<Rightarrow> ('p, 'r, 'e) th_state \<Rightarrow> bool" where
  "futs_ok c s \<longleftrightarrow>
     (\<forall>i<length (th_futures s). fut_ok c (th_futures s ! i)) \<and>
     (\<forall>i. th_loop s = AtCallback i \<longrightarrow> i < length (th_futures s) \<and> fut_callback (th_futures s ! i) = NotAdded)"

lemma cancel_fut_cases: "cancel_fut f = f \<or> fut_state f = FutPending \<and> cancel_fut f = f\<lparr>fut_state := FutCancelled, fut_callback := callback_runs (fut_callback f)\<rparr>"
  by (auto simp: cancel_fut_def split: fut_status.splits)

lemma cancel_fut_callback [simp]: "early (fut_callback (cancel_fut f)) = early (fut_callback f)" "fut_callback (cancel_fut f) = NotAdded \<longleftrightarrow> fut_callback f = NotAdded"
  "fut_callback (cancel_fut f) = Locked b \<longleftrightarrow> fut_callback f = Locked b" "fut_callback (cancel_fut f) = Ended b \<longleftrightarrow> fut_callback f = Ended b"
  using cancel_fut_cases [of f] by auto

lemma fut_ok_cancel: "fut_ok c f \<Longrightarrow> fut_ok c (cancel_fut f)"
  using cancel_fut_cases [of f] by (auto simp: fut_ok_def)

lemma fut_ok_updates:
  "fut_ok c f \<Longrightarrow> fut_state f = FutPending \<Longrightarrow> fut_ok c (f\<lparr>fut_state := FutRunning\<rparr>)"
  "fut_ok c f \<Longrightarrow> fut_state f = FutRunning \<Longrightarrow> fut_ok c (f\<lparr>fut_state := FutFinished (th_fn c (fut_work f)), fut_callback := callback_runs (fut_callback f)\<rparr>)"
  "fut_ok c f \<Longrightarrow> fut_callback f = Due \<Longrightarrow> fut_ok c (f\<lparr>fut_callback := Locked b\<rparr>)"
  "fut_ok c f \<Longrightarrow> fut_callback f = Locked b \<Longrightarrow> fut_ok c (f\<lparr>fut_callback := Ended True\<rparr>)"
  "fut_ok c f \<Longrightarrow> fut_callback f = Locked b \<Longrightarrow> fut_state f \<noteq> FutCancelled \<Longrightarrow> fut_ok c (f\<lparr>fut_callback := Ended False\<rparr>)"
  "fut_ok c f \<Longrightarrow> is_done (fut_state f) \<Longrightarrow> fut_ok c (f\<lparr>fut_callback := Due\<rparr>)"
  "fut_ok c f \<Longrightarrow> fut_ok c (f\<lparr>fut_callback := Added\<rparr>)"
  by (auto simp: fut_ok_def)

lemma nth_upd: "xs[i := y] ! j = (if i = j \<and> i < length xs then y else xs ! j)"
  by (cases "i < length xs") (auto simp: nth_list_update list_update_beyond)

lemma futs_ok_same: "futs_ok c s \<Longrightarrow> th_loop t = th_loop s \<Longrightarrow> th_futures t = th_futures s \<Longrightarrow> futs_ok c t"
  by (simp add: futs_ok_def)

lemma futs_okD: "futs_ok c s \<Longrightarrow> i < length (th_futures s) \<Longrightarrow> fut_ok c (th_futures s ! i)"
  by (simp add: futs_ok_def)

lemma futs_ok_abort: "futs_ok c s \<Longrightarrow> futs_ok c (th_abort r s)"
  by (erule futs_ok_same) (auto simp: th_abort_def record_speculative_abort_def Let_def split: option.splits)

lemma futs_ok_th_abort_rest: "futs_ok c s \<Longrightarrow> futs_ok c (th_abort_rest k s)"
  by (auto simp: th_abort_rest_def upd_fut_def run_abort_callback_def Let_def split: option.splits prod.splits
      simp: futs_ok_def nth_upd intro: fut_ok_cancel)

lemma futs_ok_worker: "futs_ok c s \<Longrightarrow> futs_ok c (worker_start c i s)" "futs_ok c s \<Longrightarrow> futs_ok c (worker_done c i s)"
  by (auto simp: worker_start_def worker_done_def upd_fut_def simp: futs_ok_def nth_upd intro: fut_ok_updates)

lemma futs_ok_finish_lock: "futs_ok c s \<Longrightarrow> futs_ok c (finish_lock i s)"
  by (auto simp: finish_lock_def upd_fut_def Let_def simp: futs_ok_def nth_upd intro: fut_ok_updates)

lemma futs_ok_finish_emit: "futs_ok c s \<Longrightarrow> futs_ok c (finish_emit i s)"
  by (auto simp: finish_emit_def upd_fut_def run_abort_callback_def Let_def split: callback_state.splits fut_status.splits
      simp: futs_ok_def nth_upd intro: fut_ok_updates)

lemma futs_ok_enqueue: "futs_ok c s \<Longrightarrow> futs_ok c (th_enqueue m s)"
  by (erule futs_ok_same) (auto simp: th_enqueue_def inbox_put_def Let_def)

lemma futs_ok_shut_down: "futs_ok c s \<Longrightarrow> futs_ok c (shut_down s)"
  by (auto simp: shut_down_def futs_ok_def intro: fut_ok_cancel)

lemma futs_ok_get: "futs_ok c s \<Longrightarrow> futs_ok c (get_step s)"
  by (auto simp: get_step_def futs_ok_shut_down inbox_get_def split: list.splits content.splits prod.splits) (auto simp: futs_ok_def)

lemma futs_ok_claim: "futs_ok c s \<Longrightarrow> futs_ok c (claim_step r p s)"
  by (auto simp: claim_step_def consume_reachable_tombstone_def release_claim_def submit_def futs_ok_def nth_append fut_ok_def)

lemma futs_ok_add_callback: "futs_ok c s \<Longrightarrow> th_loop s = AtCallback i \<Longrightarrow> futs_ok c (add_callback i s)"
  by (auto simp: add_callback_def upd_fut_def futs_ok_def nth_upd intro: fut_ok_updates)

lemma futs_ok_loop: "futs_ok c s \<Longrightarrow> futs_ok c (th_loop_step c s)"
  by (cases "th_loop s") (auto simp: th_loop_step_def futs_ok_get futs_ok_claim futs_ok_add_callback wait_for_capacity_def futs_ok_shut_down,
    auto simp: futs_ok_def)

lemma futs_ok_step: "futs_ok c s \<Longrightarrow> futs_ok c (th_step c s e)"
  by (cases e) (simp_all add: futs_ok_abort futs_ok_th_abort_rest futs_ok_worker futs_ok_finish_lock futs_ok_finish_emit futs_ok_enqueue futs_ok_loop,
    simp add: futs_ok_def)

section \<open>Pending and aborted futures\<close>

text \<open>A future in \<^verbatim>\<open>_pending\<close> or \<^verbatim>\<open>_aborted_futures\<close> is not past the lock of its callback, and is in only one of them.\<close>

definition pend_ok :: "('p, 'r, 'e) th_state \<Rightarrow> bool" where
  "pend_ok s \<longleftrightarrow> dict_ok (th_pending s) \<and>
     (\<forall>r i. dget (th_pending s) r = Some i \<longrightarrow>
        i < length (th_futures s) \<and> fut_owner (th_futures s ! i) = r \<and> early (fut_callback (th_futures s ! i)) \<and> i \<notin> set (aborted_futures s)) \<and>
     (\<forall>i\<in>set (aborted_futures s). i < length (th_futures s) \<and> early (fut_callback (th_futures s ! i)))"

lemma pend_ok_same: "pend_ok s \<Longrightarrow> th_pending t = th_pending s \<Longrightarrow> aborted_futures t = aborted_futures s \<Longrightarrow> th_futures t = th_futures s \<Longrightarrow> pend_ok t"
  by (simp add: pend_ok_def)

lemma pend_okD:
  assumes "pend_ok s" "dget (th_pending s) r = Some i"
  shows "i < length (th_futures s)" "fut_owner (th_futures s ! i) = r" "early (fut_callback (th_futures s ! i))" "i \<notin> set (aborted_futures s)"
  using assms by (auto simp: pend_ok_def)

lemma pend_ok_dict: "pend_ok s \<Longrightarrow> dict_ok (th_pending s)"
  unfolding pend_ok_def by blast

lemma pend_ok_aborted: "pend_ok s \<Longrightarrow> i \<in> set (aborted_futures s) \<Longrightarrow> i < length (th_futures s) \<and> early (fut_callback (th_futures s ! i))"
  unfolding pend_ok_def by blast

lemma pend_ok_inj: "pend_ok s \<Longrightarrow> dget (th_pending s) r = Some i \<Longrightarrow> dget (th_pending s) r' = Some i \<Longrightarrow> r = r'"
  using pend_okD(2) by metis

lemma pend_ok_upd:
  assumes "pend_ok s" "th_pending t = th_pending s" "aborted_futures t = aborted_futures s" "th_futures t = (th_futures s)[i := y]"
    "fut_owner y = fut_owner (th_futures s ! i)" "early (fut_callback (th_futures s ! i)) \<Longrightarrow> early (fut_callback y)"
  shows "pend_ok t"
  using assms unfolding pend_ok_def by (simp add: nth_upd)

lemma pend_ok_abort: "pend_ok s \<Longrightarrow> pend_ok (th_abort r s)"
proof (cases "dget (th_pending s) r")
  case None
  assume "pend_ok s"
  then show ?thesis by (rule pend_ok_same) (simp_all add: th_abort_def record_speculative_abort_def Let_def None)
next
  case (Some i)
  assume s: "pend_ok s"
  note i = pend_okD [OF s Some]
  have "dget (th_pending s) r' \<noteq> Some i" if "r' \<noteq> r" for r' using pend_ok_inj [OF s Some] that by metis
  with s i show ?thesis unfolding pend_ok_def by (auto simp: th_abort_def Some)
qed

lemma pend_ok_th_abort_rest: "pend_ok s \<Longrightarrow> pend_ok (th_abort_rest k s)"
  by (auto simp: th_abort_rest_def upd_fut_def run_abort_callback_def Let_def split: option.splits prod.splits
      elim: pend_ok_same intro: pend_ok_upd)

lemma pend_ok_worker: "pend_ok s \<Longrightarrow> pend_ok (worker_start c i s)" "pend_ok s \<Longrightarrow> pend_ok (worker_done c i s)"
  by (auto simp: worker_start_def worker_done_def upd_fut_def intro: pend_ok_upd)

lemma finish_lock_fields:
  assumes "i < length (th_futures s)" "fut_callback (th_futures s ! i) = Due"
  shows "th_pending (finish_lock i s) =
      (if dget (th_pending s) (fut_owner (th_futures s ! i)) = Some i then ddel (th_pending s) (fut_owner (th_futures s ! i)) else th_pending s)"
    "aborted_futures (finish_lock i s) = removeAll i (aborted_futures s)"
    "th_futures (finish_lock i s) = (th_futures s)[i := (th_futures s ! i)\<lparr>fut_callback := Locked (i \<in> set (aborted_futures s))\<rparr>]"
    "th_loop (finish_lock i s) = th_loop s" "th_outbox (finish_lock i s) = th_outbox s"
  using assms by (simp_all add: finish_lock_def upd_fut_def Let_def)

lemma pend_ok_finish_lock: "pend_ok s \<Longrightarrow> pend_ok (finish_lock i s)"
proof (cases "i < length (th_futures s) \<and> fut_callback (th_futures s ! i) = Due")
  case True
  assume s: "pend_ok s"
  from True have i: "i < length (th_futures s)" "fut_callback (th_futures s ! i) = Due" by simp_all
  note f = finish_lock_fields [OF i]
  define d where "d = fut_owner (th_futures s ! i)"
  have own: "dget (th_pending s) r = Some i \<Longrightarrow> r = d" for r using pend_okD(2) [OF s] unfolding d_def by simp
  have pend: "dget (th_pending s) r = Some j \<and> j \<noteq> i" if "dget (th_pending (finish_lock i s)) r = Some j" for r j
  proof (cases "dget (th_pending s) d = Some i")
    case True
    with that f(1) have "r \<noteq> d" "dget (th_pending s) r = Some j" by (simp_all add: d_def split: if_splits)
    with own show ?thesis by blast
  next
    case False
    with that f(1) have "dget (th_pending s) r = Some j" by (simp add: d_def)
    with own False show ?thesis by blast
  qed
  have "dict_ok (th_pending (finish_lock i s))" using pend_ok_dict [OF s] by (simp add: f(1))
  moreover have "j < length (th_futures (finish_lock i s)) \<and> fut_owner (th_futures (finish_lock i s) ! j) = r \<and>
      early (fut_callback (th_futures (finish_lock i s) ! j)) \<and> j \<notin> set (aborted_futures (finish_lock i s))"
    if "dget (th_pending (finish_lock i s)) r = Some j" for r j
    using pend [OF that] pend_okD [OF s, of r j] by (simp add: f(2,3) nth_upd)
  moreover have "j < length (th_futures (finish_lock i s)) \<and> early (fut_callback (th_futures (finish_lock i s) ! j))"
    if "j \<in> set (aborted_futures (finish_lock i s))" for j
    using that pend_ok_aborted [OF s, of j] by (simp add: f(2,3) nth_upd)
  ultimately show ?thesis unfolding pend_ok_def by blast
qed (auto simp: finish_lock_def)

lemma pend_ok_finish_emit: "pend_ok s \<Longrightarrow> pend_ok (finish_emit i s)"
  by (auto simp: finish_emit_def upd_fut_def run_abort_callback_def Let_def split: callback_state.splits fut_status.splits intro: pend_ok_upd)

lemma pend_ok_enqueue: "pend_ok s \<Longrightarrow> pend_ok (th_enqueue m s)"
  by (erule pend_ok_same) (auto simp: th_enqueue_def inbox_put_def Let_def)

lemma pend_ok_shut_down: "pend_ok s \<Longrightarrow> pend_ok (shut_down s)"
  by (auto simp: shut_down_def pend_ok_def)

lemma pend_ok_get: "pend_ok s \<Longrightarrow> pend_ok (get_step s)"
  by (auto simp: get_step_def pend_ok_shut_down inbox_get_def split: list.splits content.splits prod.splits) (auto simp: pend_ok_def)

lemma pend_ok_claim: "pend_ok s \<Longrightarrow> pend_ok (claim_step r p s)"
  by (fastforce simp: claim_step_def consume_reachable_tombstone_def release_claim_def submit_def pend_ok_def nth_append)

lemma pend_ok_loop: "pend_ok s \<Longrightarrow> pend_ok (th_loop_step c s)"
  by (cases "th_loop s") (auto simp: th_loop_step_def pend_ok_get pend_ok_claim wait_for_capacity_def pend_ok_shut_down,
    auto simp: pend_ok_def add_callback_def upd_fut_def nth_upd)

lemma pend_ok_step: "pend_ok s \<Longrightarrow> pend_ok (th_step c s e)"
  by (cases e) (simp_all add: pend_ok_abort pend_ok_th_abort_rest pend_ok_worker pend_ok_finish_lock pend_ok_finish_emit pend_ok_enqueue pend_ok_loop,
    simp add: pend_ok_def)

text \<open>The loop submits only below the concurrency limit.\<close>

definition capacity_ok :: "('p, 'r, 'e) th_config \<Rightarrow> ('p, 'r, 'e) th_state \<Rightarrow> bool" where
  "capacity_ok c s \<longleftrightarrow> (case th_loop s of AtGet \<Rightarrow> length (th_pending s) < th_workers c | AtClaim _ _ \<Rightarrow> length (th_pending s) < th_workers c
     | _ \<Rightarrow> length (th_pending s) \<le> th_workers c)"

lemma capacity_ok_le: "capacity_ok c s \<Longrightarrow> th_loop t = th_loop s \<Longrightarrow> length (th_pending t) \<le> length (th_pending s) \<Longrightarrow> capacity_ok c t"
  by (auto simp: capacity_ok_def split: th_loop.splits)

lemma capacity_ok_kept: "keeps_inbox e \<Longrightarrow> length (th_pending (th_step c s e)) \<le> length (th_pending s)"
  by (cases e) (auto simp: th_abort_def record_speculative_abort_def th_abort_rest_def upd_fut_def run_abort_callback_def worker_start_def worker_done_def
      finish_lock_def finish_emit_def Let_def length_ddel_le split: option.splits prod.splits callback_state.splits fut_status.splits)

lemma capacity_ok_loop: "capacity_ok c s \<Longrightarrow> capacity_ok c (th_loop_step c s)"
  by (cases "th_loop s")
    (auto simp: th_loop_step_def wait_for_capacity_def get_step_def shut_down_def inbox_get_def claim_step_def consume_reachable_tombstone_def
      release_claim_def submit_def add_callback_def upd_fut_def capacity_ok_def length_dset split: list.splits content.splits prod.splits)

lemma capacity_ok_step: "capacity_ok c s \<Longrightarrow> capacity_ok c (th_step c s e)"
proof (cases "keeps_inbox e")
  case True
  assume "capacity_ok c s"
  then show ?thesis
    by (rule capacity_ok_le) (use True keeps_inbox_step [OF True, of c s] capacity_ok_kept [OF True, of c s] in auto)
next
  case False
  assume "capacity_ok c s"
  with False show ?thesis
    by (cases e) (auto simp: capacity_ok_loop th_enqueue_def inbox_put_def Let_def elim!: capacity_ok_le)
qed

section \<open>The outbox holds the answers of the futures that ended aloud\<close>

definition spoken :: "('p, 'r, 'e) th_config \<Rightarrow> ('p, 'r, 'e) fut list \<Rightarrow> ('r, 'e) sched_out multiset" where
  "spoken c fs = mset (map (\<lambda>f. result_msg (fut_owner f) (th_fn c (fut_work f))) (filter (\<lambda>f. fut_callback f = Ended False) fs))"

lemma spoken_simps [simp]: "spoken c [] = {#}" "spoken c (xs @ ys) = spoken c xs + spoken c ys"
  by (simp_all add: spoken_def)

lemma spoken_silent: "fut_callback f \<noteq> Ended False \<Longrightarrow> spoken c [f] = {#}"
  by (simp add: spoken_def)

lemma spoken_upd:
  assumes "i < length fs"
  shows "spoken c (fs[i := y]) + spoken c [fs ! i] = spoken c fs + spoken c [y]"
proof -
  have fs: "fs = take i fs @ [fs ! i] @ drop (Suc i) fs" using assms by (simp add: id_take_nth_drop [symmetric])
  have "spoken c (take i fs @ [x] @ drop (Suc i) fs) = spoken c (take i fs) + spoken c [x] + spoken c (drop (Suc i) fs)" for x
    by (simp only: spoken_simps add.assoc)
  note sp = this
  have "fs[i := y] = take i fs @ [y] @ drop (Suc i) fs" using assms by (simp add: upd_conv_take_nth_drop)
  then have "spoken c (fs[i := y]) = spoken c (take i fs) + spoken c [y] + spoken c (drop (Suc i) fs)" by (simp only: sp)
  moreover have "spoken c fs = spoken c (take i fs) + spoken c [fs ! i] + spoken c (drop (Suc i) fs)" by (subst fs) (simp only: sp)
  ultimately show ?thesis by simp
qed

definition outbox_ok :: "('p, 'r, 'e) th_config \<Rightarrow> ('p, 'r, 'e) th_state \<Rightarrow> bool" where
  "outbox_ok c s \<longleftrightarrow> futs_ok c s \<and> mset (th_outbox s) = spoken c (th_futures s)"

lemma outbox_ok_same: "outbox_ok c s \<Longrightarrow> futs_ok c t \<Longrightarrow> th_outbox t = th_outbox s \<Longrightarrow> th_futures t = th_futures s \<Longrightarrow> outbox_ok c t"
  by (simp add: outbox_ok_def)

lemma outbox_ok_upd:
  assumes "outbox_ok c s" "futs_ok c t" "i < length (th_futures s)" "th_outbox t = th_outbox s" "th_futures t = (th_futures s)[i := y]"
    "spoken c [y] = spoken c [th_futures s ! i]"
  shows "outbox_ok c t"
  using assms spoken_upd [of i "th_futures s" c y] by (simp add: outbox_ok_def)

lemma spoken_map_cancel: "spoken c (map cancel_fut fs) = spoken c fs"
  by (simp add: spoken_def filter_map comp_def)

lemma spoken_cancel: "spoken c [cancel_fut f] = spoken c [f]"
  using spoken_map_cancel [of c "[f]"] by simp

lemma outbox_ok_shut_down: "outbox_ok c s \<Longrightarrow> outbox_ok c (shut_down s)"
  using futs_ok_shut_down [of c s] by (simp add: outbox_ok_def shut_down_def spoken_map_cancel)

lemma outbox_ok_finish_emit:
  assumes "outbox_ok c s"
  shows "outbox_ok c (finish_emit i s)"
proof -
  have f: "futs_ok c (finish_emit i s)" using assms futs_ok_finish_emit [of c s i] by (simp add: outbox_ok_def)
  show ?thesis
  proof (cases "i < length (th_futures s) \<and> fut_callback (th_futures s ! i) = Locked False \<and> (\<exists>x. fut_state (th_futures s ! i) = FutFinished x)")
    case True
    then obtain x where i: "i < length (th_futures s)" "fut_callback (th_futures s ! i) = Locked False" "fut_state (th_futures s ! i) = FutFinished x" by blast
    have x: "x = th_fn c (fut_work (th_futures s ! i))" using futs_okD [OF _ i(1)] assms i(3) by (simp add: outbox_ok_def fut_ok_def)
    show ?thesis using assms f i spoken_upd [OF i(1), of c "(th_futures s ! i)\<lparr>fut_callback := Ended False\<rparr>"] x
      by (simp add: outbox_ok_def finish_emit_def upd_fut_def spoken_def Let_def)
  next
    case False
    with assms f show ?thesis
      by (cases "i < length (th_futures s)")
        (auto simp: finish_emit_def upd_fut_def run_abort_callback_def Let_def spoken_silent intro: outbox_ok_upd
          split: callback_state.splits fut_status.splits)
  qed
qed

lemma outbox_ok_quiet:
  assumes "outbox_ok c s" "keeps_inbox e" "\<And>i. e \<noteq> ThEmit i"
  shows "outbox_ok c (th_step c s e)"
proof -
  have f: "futs_ok c (th_step c s e)" and s: "futs_ok c s" using assms(1) futs_ok_step by (auto simp: outbox_ok_def)
  have nd: "fut_callback (th_futures s ! i) \<noteq> Ended b" if "\<not> is_done (fut_state (th_futures s ! i))" "i < length (th_futures s)" for i b
    using that futs_okD [OF s, of i] by (auto simp: fut_ok_def)
  show ?thesis
  proof (cases e)
    case (ThAbort r)
    then show ?thesis using f by (auto intro!: outbox_ok_same [OF assms(1)]
        simp: th_abort_def record_speculative_abort_def Let_def split: option.splits)
  next
    case (ThAbortRest k)
    then show ?thesis using f
      by (auto simp: th_abort_rest_def upd_fut_def run_abort_callback_def Let_def spoken_cancel split: option.splits prod.splits
          intro: outbox_ok_same [OF assms(1)] outbox_ok_upd [OF assms(1)])
  next
    case (ThStart i)
    then show ?thesis using f assms(1)
      by (auto simp: worker_start_def upd_fut_def spoken_silent nd intro!: outbox_ok_upd [OF assms(1)])
  next
    case (ThDone i)
    then show ?thesis using f assms(1)
      by (auto simp: worker_done_def upd_fut_def spoken_silent nd intro!: outbox_ok_upd [OF assms(1)])
  next
    case (ThFinish i)
    then show ?thesis using f assms(1)
      by (auto simp: finish_lock_def upd_fut_def Let_def spoken_silent intro!: outbox_ok_upd [OF assms(1)])
  next
    case ThStop
    then show ?thesis using f by (auto intro!: outbox_ok_same [OF assms(1)])
  qed (use assms in auto)
qed

lemma outbox_ok_loop: "outbox_ok c s \<Longrightarrow> outbox_ok c (th_loop_step c s)"
proof -
  assume s: "outbox_ok c s"
  then have f: "futs_ok c (th_loop_step c s)" and fs: "futs_ok c s" using futs_ok_loop by (auto simp: outbox_ok_def)
  have app: "spoken c (th_futures s @ [\<lparr>fut_owner = r, fut_work = p, fut_state = FutPending, fut_callback = NotAdded\<rparr>]) = spoken c (th_futures s)" for r p
    by (simp add: spoken_silent)
  show ?thesis
  proof (cases "th_loop s")
    case AtWait
    with s f show ?thesis by (auto simp: th_loop_step_def wait_for_capacity_def outbox_ok_shut_down intro: outbox_ok_same [OF s])
  next
    case AtGet
    with s f show ?thesis
      by (auto simp: th_loop_step_def get_step_def outbox_ok_shut_down inbox_get_def intro!: outbox_ok_same [OF s]
          split: list.splits content.splits prod.splits)
  next
    case (AtClaim r p)
    with s f app show ?thesis
      by (auto simp: th_loop_step_def claim_step_def consume_reachable_tombstone_def release_claim_def submit_def outbox_ok_def)
  next
    case (AtCallback i)
    with fs have "i < length (th_futures s)" "fut_callback (th_futures s ! i) = NotAdded" by (auto simp: futs_ok_def)
    with AtCallback f show ?thesis
      by (auto simp: th_loop_step_def add_callback_def upd_fut_def spoken_silent intro!: outbox_ok_upd [OF s])
  qed (use s in \<open>simp add: th_loop_step_def\<close>)
qed

lemma outbox_ok_step: "outbox_ok c s \<Longrightarrow> outbox_ok c (th_step c s e)"
proof (cases e)
  case (ThEnqueue m)
  assume s: "outbox_ok c s"
  then have "futs_ok c (th_enqueue m s)" using futs_ok_enqueue [of c s m] by (simp add: outbox_ok_def)
  then show ?thesis by (auto simp: ThEnqueue th_enqueue_def inbox_put_def Let_def intro!: outbox_ok_same [OF s] split: if_splits)
qed (auto simp: outbox_ok_loop outbox_ok_finish_emit outbox_ok_quiet [where e = "ThAbort r" for r, simplified]
    outbox_ok_quiet [where e = "ThAbortRest k" for k, simplified] outbox_ok_quiet [where e = "ThStart k" for k, simplified]
    outbox_ok_quiet [where e = "ThDone k" for k, simplified] outbox_ok_quiet [where e = "ThFinish k" for k, simplified]
    outbox_ok_quiet [where e = ThStop, simplified])

section \<open>The invariant\<close>

definition th_ok :: "('p, 'r, 'e) th_config \<Rightarrow> ('p, 'r, 'e) th_state \<Rightarrow> bool" where
  "th_ok c s \<longleftrightarrow> tombs_ok s \<and> pend_ok s \<and> capacity_ok c s \<and> outbox_ok c s"

interpretation threaded: machine "th_step c" "th_ok c" for c
  by unfold_locales (simp add: th_ok_def tombs_ok_step pend_ok_step capacity_ok_step outbox_ok_step)

lemma th_ok_run: "th_ok c (th_run c es)"
proof (rule threaded.inv_run)
  show "th_ok c th_init"
    using tombs_ok_init by (simp add: th_ok_def) (simp add: th_init_def pend_ok_def capacity_ok_def outbox_ok_def futs_ok_def)
qed

end
