(* ===== verification/Threaded_Life_Cycle.thy ===== *)
theory Threaded_Life_Cycle
  imports Threaded_Properties
begin

text \<open>
  The life of one request in the threaded scheduler: it is answered exactly once unless it is aborted, an abort before the answer is decided
  silences it, and a scheduler with nothing left to do keeps nothing.
\<close>

section \<open>Only an abort or a stop suppresses a request\<close>

definition aborted_ids :: "'p th_ev list \<Rightarrow> string set" where
  "aborted_ids es = {r. ThAbort r \<in> set es}"

lemma aborted_ids_append [simp]: "aborted_ids (xs @ ys) = aborted_ids xs \<union> aborted_ids ys"
  by (auto simp: aborted_ids_def)

text \<open>Every suppression, cancellation and silent end is due to an abort in \<open>A\<close>, or the scheduler was stopped.\<close>

definition muted :: "('p, 'r, 'e) fut \<Rightarrow> bool" where
  "muted f \<longleftrightarrow> fut_state f = FutCancelled \<or> fut_callback f = Locked True \<or> fut_callback f = Ended True"

definition blamed :: "string set \<Rightarrow> ('p, 'r, 'e) th_state \<Rightarrow> bool" where
  "blamed A s \<longleftrightarrow>
     set (queued_aborts s) \<union> set (speculative_aborts s) \<union> set (th_dropped s) \<subseteq> A \<and>
     (\<forall>r i. (r, Some i) \<in> set (cancelling s) \<longrightarrow> i < length (th_futures s) \<and> fut_owner (th_futures s ! i) \<in> A) \<and>
     (\<forall>i\<in>set (aborted_futures s). i < length (th_futures s) \<and> fut_owner (th_futures s ! i) \<in> A) \<and>
     (th_running s \<longrightarrow> (\<forall>f\<in>set (th_futures s). muted f \<longrightarrow> fut_owner f \<in> A))"

lemma set_upd_cases: "f \<in> set (xs[i := y]) \<Longrightarrow> f = y \<or> f \<in> set xs"
  using set_update_subset_insert by fastforce

lemma blamed_mono: "blamed A s \<Longrightarrow> A \<subseteq> B \<Longrightarrow> blamed B s"
  unfolding blamed_def by blast

lemma blamed_abort:
  assumes "pend_ok s" "blamed A s" "r \<in> A"
  shows "blamed A (th_abort r s)"
proof (cases "dget (th_pending s) r")
  case None
  have "set (evict_oldest xs) \<subseteq> set xs" for xs using evict_oldest_props by blast
  then show ?thesis using assms(2,3) unfolding blamed_def
    by (auto simp: th_abort_def None record_speculative_abort_def Let_def)
next
  case (Some i)
  note i = pend_okD [OF assms(1) Some]
  show ?thesis using assms(2,3) i(1,2) unfolding blamed_def by (auto simp: th_abort_def Some)
qed

lemma blamed_upd:
  assumes "blamed A s" "queued_aborts t = queued_aborts s" "speculative_aborts t = speculative_aborts s" "th_dropped t = th_dropped s"
    "set (cancelling t) \<subseteq> set (cancelling s)" "set (aborted_futures t) \<subseteq> set (aborted_futures s)" "th_running t = th_running s"
    "th_futures t = (th_futures s)[i := y]" "i < length (th_futures s)" "fut_owner y = fut_owner (th_futures s ! i)"
    "muted y \<Longrightarrow> muted (th_futures s ! i) \<or> fut_owner (th_futures s ! i) \<in> A"
  shows "blamed A t"
proof -
  have own: "j < length (th_futures s) \<Longrightarrow> fut_owner (th_futures t ! j) = fut_owner (th_futures s ! j)" for j
    using assms(8-10) by (simp add: nth_upd)
  have "fut_owner f \<in> A" if "th_running s" "f \<in> set (th_futures t)" "muted f" for f
  proof (cases "f = y")
    case True
    with that(1,3) assms(1,9-11) show ?thesis unfolding blamed_def by (metis nth_mem)
  next
    case False
    with that assms(8) have "f \<in> set (th_futures s)" using set_upd_cases by metis
    with that(1,3) assms(1) show ?thesis unfolding blamed_def by blast
  qed
  moreover have len: "length (th_futures t) = length (th_futures s)" using assms(8) by simp
  moreover have "i < length (th_futures t) \<and> fut_owner (th_futures t ! i) \<in> A" if "(r, Some i) \<in> set (cancelling t)" for r i
    using that assms(1,5) own [of i] unfolding blamed_def len by auto
  moreover have "i < length (th_futures t) \<and> fut_owner (th_futures t ! i) \<in> A" if "i \<in> set (aborted_futures t)" for i
    using that assms(1,6) own [of i] unfolding blamed_def len by auto
  ultimately show ?thesis using assms(1-4,7) unfolding blamed_def by auto
qed

lemma blamed_same:
  assumes "blamed A s" "set (queued_aborts t) \<subseteq> A" "set (speculative_aborts t) \<subseteq> A" "set (th_dropped t) \<subseteq> A"
    "set (cancelling t) \<subseteq> set (cancelling s)" "aborted_futures t = aborted_futures s" "th_running t \<Longrightarrow> th_running s" "th_futures t = th_futures s"
  shows "blamed A t"
  using assms unfolding blamed_def by (simp add: subset_iff) blast

lemma blamed_subs: "blamed A s \<Longrightarrow> set (queued_aborts s) \<subseteq> A" "blamed A s \<Longrightarrow> set (speculative_aborts s) \<subseteq> A" "blamed A s \<Longrightarrow> set (th_dropped s) \<subseteq> A"
  unfolding blamed_def by blast+

lemma blamed_th_abort_rest:
  assumes "blamed A s"
  shows "blamed A (th_abort_rest k s)"
proof (cases "k < length (cancelling s)")
  case True
  obtain r fi where c: "cancelling s ! k = (r, fi)" by (cases "cancelling s ! k")
  have sub: "set (take k (cancelling s) @ drop (Suc k) (cancelling s)) \<subseteq> set (cancelling s)"
    using set_take_subset set_drop_subset by fastforce
  have fi: "i < length (th_futures s) \<and> fut_owner (th_futures s ! i) \<in> A" if "fi = Some i" for i
    using assms True c that nth_mem [OF True] unfolding blamed_def by fastforce
  show ?thesis
  proof (cases fi)
    case None
    show ?thesis
      by (rule blamed_same [OF assms]) (use True c None sub blamed_subs [OF assms] in \<open>auto simp: th_abort_rest_def run_abort_callback_def\<close>)
  next
    case (Some i)
    show ?thesis
      by (rule blamed_upd [OF assms, where i = i and y = "cancel_fut (th_futures s ! i)"])
        (use True c Some sub fi in \<open>auto simp: th_abort_rest_def run_abort_callback_def upd_fut_def\<close>)
  qed
qed (simp add: th_abort_rest_def assms)

lemma muted_updates [simp]:
  "fut_state f = FutPending \<Longrightarrow> muted (f\<lparr>fut_state := FutRunning\<rparr>) \<longleftrightarrow> muted f"
  "fut_state f = FutRunning \<Longrightarrow> muted (f\<lparr>fut_state := FutFinished x, fut_callback := callback_runs (fut_callback f)\<rparr>) \<longleftrightarrow> muted f"
  by (auto simp: muted_def)

lemma blamed_worker: "blamed A s \<Longrightarrow> blamed A (worker_start c i s)" "blamed A s \<Longrightarrow> blamed A (worker_done c i s)"
  by (auto simp: worker_start_def worker_done_def upd_fut_def intro: blamed_upd)

lemma blamed_finish_lock:
  assumes "blamed A s"
  shows "blamed A (finish_lock i s)"
proof (cases "i < length (th_futures s) \<and> fut_callback (th_futures s ! i) = Due")
  case True
  then have i: "i < length (th_futures s)" "fut_callback (th_futures s ! i) = Due" by simp_all
  have "i \<in> set (aborted_futures s) \<Longrightarrow> fut_owner (th_futures s ! i) \<in> A" using assms unfolding blamed_def by blast
  then show ?thesis
    by (intro blamed_upd [OF assms, where i = i and y = "(th_futures s ! i)\<lparr>fut_callback := Locked (i \<in> set (aborted_futures s))\<rparr>"])
      (use i in \<open>auto simp: finish_lock_def upd_fut_def Let_def muted_def\<close>)
qed (auto simp: finish_lock_def assms)

lemma blamed_finish_emit: "futs_ok c s \<Longrightarrow> blamed A s \<Longrightarrow> blamed A (finish_emit i s)"
  using futs_okD [of c s i]
  by (auto simp: finish_emit_def upd_fut_def run_abort_callback_def Let_def fut_ok_def muted_def intro: blamed_upd
      split: callback_state.splits fut_status.splits)

lemma blamed_enqueue: "blamed A s \<Longrightarrow> blamed A (th_enqueue m s)"
  using blamed_subs [of A s] by (auto simp: th_enqueue_def inbox_put_def Let_def elim!: blamed_same)

lemma blamed_shut_down: "blamed A s \<Longrightarrow> \<not> th_running s \<Longrightarrow> blamed A (shut_down s)"
  unfolding blamed_def shut_down_def by auto

lemma blamed_loop:
  assumes "blamed A s" "futs_ok c s"
  shows "blamed A (th_loop_step c s)"
proof (cases "th_loop s")
  case AtWait
  with assms blamed_subs [OF assms(1)] show ?thesis
    by (auto simp: th_loop_step_def wait_for_capacity_def blamed_shut_down intro!: blamed_same [OF assms(1)])
next
  case AtGet
  with assms blamed_subs [OF assms(1)] show ?thesis
    by (auto simp: th_loop_step_def get_step_def blamed_shut_down inbox_get_def intro!: blamed_same [OF assms(1)]
        split: list.splits content.splits prod.splits)
next
  case (AtClaim r p)
  with assms(1) show ?thesis unfolding blamed_def
    by (auto simp: th_loop_step_def claim_step_def consume_reachable_tombstone_def release_claim_def submit_def nth_append muted_def
        less_Suc_eq)
next
  case (AtCallback i)
  with assms(2) have "i < length (th_futures s)" "fut_callback (th_futures s ! i) = NotAdded" by (auto simp: futs_ok_def)
  then show ?thesis using AtCallback
    by (auto simp: th_loop_step_def add_callback_def upd_fut_def muted_def intro!: blamed_upd [OF assms(1)])
qed (use assms in \<open>simp add: th_loop_step_def\<close>)

lemma blamed_step:
  assumes "blamed A s" "th_ok c s" "aborted_ids [e] \<subseteq> A"
  shows "blamed A (th_step c s e)"
  using assms
  by (cases e)
    (auto simp: th_ok_def outbox_ok_def aborted_ids_def blamed_abort blamed_th_abort_rest blamed_worker blamed_finish_lock blamed_finish_emit
      blamed_enqueue blamed_loop, auto simp: blamed_def)

lemma blamed_run: "blamed (aborted_ids es) (th_run c es)"
proof (induction es rule: rev_induct)
  case Nil
  show ?case by (simp add: th_init_def blamed_def)
next
  case (snoc e es)
  have "blamed (aborted_ids (es @ [e])) (th_run c es)" by (rule blamed_mono [OF snoc]) simp
  then show ?case by (simp add: run_append blamed_step th_ok_run)
qed

section \<open>The payload of a future is that of its request\<close>

definition enq_pairs :: "'p th_ev list \<Rightarrow> (string \<times> 'p) list" where
  "enq_pairs es = concat (map (\<lambda>e. case e of ThEnqueue (r, NewRequest p) \<Rightarrow> [(r, p)] | _ \<Rightarrow> []) es)"

lemma enq_pairs_append [simp]: "enq_pairs [] = []" "enq_pairs (xs @ ys) = enq_pairs xs @ enq_pairs ys"
  by (simp_all add: enq_pairs_def)

lemma enq_ids_pairs: "enq_ids es = map fst (enq_pairs es)"
  by (induction es)
    (auto simp: enq_ids_def enq_pairs_def new_ids_def is_new_def split: th_ev.splits content.splits)

definition traced :: "(string \<times> 'p) set \<Rightarrow> ('p, 'r, 'e) th_state \<Rightarrow> bool" where
  "traced E s \<longleftrightarrow>
     (\<forall>r p. (r, NewRequest p) \<in> set (th_inbox s) \<longrightarrow> (r, p) \<in> E) \<and>
     (\<forall>r p. th_loop s = AtClaim r p \<longrightarrow> (r, p) \<in> E) \<and>
     (\<forall>f\<in>set (th_futures s). (fut_owner f, fut_work f) \<in> E)"

lemma traced_mono: "traced E s \<Longrightarrow> E \<subseteq> F \<Longrightarrow> traced F s"
  unfolding traced_def by blast

lemma traced_upd:
  assumes "traced E s" "th_inbox t = th_inbox s" "th_loop t = th_loop s" "th_futures t = (th_futures s)[i := y]" "i < length (th_futures s)"
    "fut_owner y = fut_owner (th_futures s ! i)" "fut_work y = fut_work (th_futures s ! i)"
  shows "traced E t"
proof -
  have "(fut_owner f, fut_work f) \<in> E" if "f \<in> set (th_futures t)" for f
    using that assms set_upd_cases [of f "th_futures s" i y] nth_mem [OF assms(5)] unfolding traced_def by force
  with assms show ?thesis unfolding traced_def by simp
qed

lemma traced_same: "traced E s \<Longrightarrow> th_inbox t = th_inbox s \<Longrightarrow> th_loop t = th_loop s \<Longrightarrow> th_futures t = th_futures s \<Longrightarrow> traced E t"
  by (simp add: traced_def)

lemma traced_kept: "traced E s \<Longrightarrow> keeps_inbox e \<Longrightarrow> traced E (th_step c s e)"
  by (cases e)
    (auto simp: th_abort_def record_speculative_abort_def th_abort_rest_def upd_fut_def run_abort_callback_def worker_start_def worker_done_def
      finish_lock_def finish_emit_def Let_def split: option.splits prod.splits callback_state.splits fut_status.splits
      intro: traced_upd elim: traced_same)

lemma traced_loop:
  assumes "traced E s" "futs_ok c s"
  shows "traced E (th_loop_step c s)"
proof (cases "th_loop s")
  case (AtCallback i)
  with assms(2) have "i < length (th_futures s)" by (simp add: futs_ok_def)
  moreover have "traced E (s\<lparr>th_loop := AtWait\<rparr>)" using assms(1) by (simp add: traced_def)
  ultimately show ?thesis
    using traced_upd [of E "s\<lparr>th_loop := AtWait\<rparr>" "add_callback i s" i] AtCallback by (simp add: th_loop_step_def add_callback_def upd_fut_def)
qed (use assms(1) in \<open>auto simp: traced_def th_loop_step_def wait_for_capacity_def shut_down_def get_step_def inbox_get_def claim_step_def
      consume_reachable_tombstone_def release_claim_def submit_def split: list.splits content.splits prod.splits\<close>)

lemma traced_step:
  assumes "traced E s" "th_ok c s" "set (enq_pairs [e]) \<subseteq> E"
  shows "traced E (th_step c s e)"
proof (cases e)
  case (ThEnqueue m)
  with assms(1,3) show ?thesis
    by (cases m) (auto simp: traced_def th_enqueue_def inbox_put_def Let_def enq_pairs_def split: content.splits)
qed (use assms in \<open>auto simp: traced_loop th_ok_def outbox_ok_def
      traced_kept [where e = "ThAbort r" for r, simplified] traced_kept [where e = "ThAbortRest k" for k, simplified]
      traced_kept [where e = "ThStart k" for k, simplified] traced_kept [where e = "ThDone k" for k, simplified]
      traced_kept [where e = "ThFinish k" for k, simplified] traced_kept [where e = "ThEmit k" for k, simplified]
      traced_kept [where e = ThStop, simplified]\<close>)

lemma traced_run: "traced (set (enq_pairs es)) (th_run c es)"
proof (induction es rule: rev_induct)
  case Nil
  show ?case by (simp add: th_init_def traced_def)
next
  case (snoc e es)
  have "traced (set (enq_pairs (es @ [e]))) (th_run c es)" by (rule traced_mono [OF snoc]) auto
  then show ?case by (simp add: run_append traced_step th_ok_run)
qed

section \<open>Exactly one answer\<close>

definition th_quiet :: "('p, 'r, 'e) th_state \<Rightarrow> bool" where
  "th_quiet s \<longleftrightarrow> th_inbox s = [] \<and> claim_ids (th_loop s) = [] \<and>
     list_all (\<lambda>f. case fut_callback f of Ended _ \<Rightarrow> True | _ \<Rightarrow> False) (th_futures s)"

lemma out_id_result [simp]: "out_id (result_msg r x) = r"
  by (simp add: result_msg_def split: sum.splits)

lemma spoken_ids: "image_mset out_id (spoken c fs) \<subseteq># mset (map fut_owner fs)"
proof -
  have "image_mset out_id (spoken c fs) = mset (map fut_owner (filter (\<lambda>f. fut_callback f = Ended False) fs))"
    by (simp add: spoken_def multiset.map_comp comp_def)
  then show ?thesis by (simp add: image_mset_subseteq_mono)
qed

lemma outbox_ids: "outbox_ok c s \<Longrightarrow> mset (map out_id (th_outbox s)) \<subseteq># th_places s"
  using spoken_ids [of c "th_futures s"] by (auto simp: outbox_ok_def th_places_def intro: subset_mset.order_trans)

lemma spoken_member:
  assumes "outbox_ok c s"
  shows "m \<in> set (th_outbox s) \<longleftrightarrow> (\<exists>f\<in>set (th_futures s). fut_callback f = Ended False \<and> m = result_msg (fut_owner f) (th_fn c (fut_work f)))"
proof -
  have "m \<in> set (th_outbox s) \<longleftrightarrow> m \<in># spoken c (th_futures s)" using assms by (simp add: outbox_ok_def flip: set_mset_mset)
  then show ?thesis by (auto simp: spoken_def)
qed

lemma quiet_no_waiting: "th_quiet s \<Longrightarrow> waiting s = {#}"
  by (simp add: th_quiet_def waiting_def)

lemma quiet_ended: "th_quiet s \<Longrightarrow> f \<in> set (th_futures s) \<Longrightarrow> \<exists>b. fut_callback f = Ended b"
  by (cases "fut_callback f") (force simp: th_quiet_def list_all_iff)+

lemma filter_single: "distinct (map k xs) \<Longrightarrow> x \<in> set xs \<Longrightarrow> filter (\<lambda>y. k y = k x) xs = [x]"
  by (induction xs) (auto simp: filter_empty_conv, metis imageI)

lemma distinct_submset:
  assumes "mset ys \<subseteq># mset xs" "distinct xs"
  shows "distinct ys"
proof -
  have "count (mset ys) a = (if a \<in> set ys then 1 else 0)" for a
  proof -
    have "count (mset ys) a \<le> count (mset xs) a" using assms(1) by (simp add: subseteq_mset_def)
    also have "\<dots> \<le> 1" using assms(2) by (simp add: distinct_count_atmost_1)
    finally have "count (mset ys) a \<le> 1" .
    moreover have "count (mset ys) a \<noteq> 0" if "a \<in> set ys" using that by (simp add: count_eq_zero_iff)
    ultimately show ?thesis by (cases "a \<in> set ys") (simp_all add: count_eq_zero_iff le_Suc_eq)
  qed
  then show ?thesis by (simp add: distinct_count_atmost_1)
qed

lemma distinct_outbox: "distinct (enq_ids es) \<Longrightarrow> distinct (map out_id (th_outbox (th_run c es)))"
proof (erule distinct_submset [rotated])
  have "outbox_ok c (th_run c es)" using th_ok_run [of c es] by (simp add: th_ok_def)
  from outbox_ids [OF this] show "mset (map out_id (th_outbox (th_run c es))) \<subseteq># mset (enq_ids es)" by (simp only: th_places_run)
qed

text \<open>
  C22: When every request has its own id, the threaded scheduler sends at most one message for each, in every interleaving of its loop, worker
  threads and aborts. Once nothing is left to do, a request that was not aborted has been answered exactly once, with the result or
  the exception of its own computation.
\<close>

theorem threaded_answers_once:
  assumes "distinct (enq_ids es)"
  shows "distinct (map out_id (th_outbox (th_run c es))) \<and>
    (th_quiet (th_run c es) \<and> th_running (th_run c es) \<and> (r, p) \<in> set (enq_pairs es) \<and> r \<notin> aborted_ids es \<longrightarrow>
      filter (\<lambda>m. out_id m = r) (th_outbox (th_run c es)) = [result_msg r (th_fn c p)])"
proof (intro conjI impI; (elim conjE)?)
  show d: "distinct (map out_id (th_outbox (th_run c es)))" by (rule distinct_outbox [OF assms])
  assume q: "th_quiet (th_run c es)" and run: "th_running (th_run c es)" and rp: "(r, p) \<in> set (enq_pairs es)" and na: "r \<notin> aborted_ids es"
  let ?s = "th_run c es"
  have o: "outbox_ok c ?s" using th_ok_run [of c es] by (simp add: th_ok_def)
  have "r \<in> set (enq_ids es)" using rp by (force simp: enq_ids_pairs)
  then have "r \<in># th_places ?s" by (simp add: th_places_run)
  moreover have "r \<notin> set (th_dropped ?s)" using blamed_subs(3) [OF blamed_run [of es c]] na by blast
  ultimately obtain f where f: "f \<in> set (th_futures ?s)" "fut_owner f = r"
    using quiet_no_waiting [OF q] by (auto simp: th_places_def)
  have "\<not> muted f" using blamed_run [of es c] run f na unfolding blamed_def by blast
  then have e: "fut_callback f = Ended False" using quiet_ended [OF q f(1)] by (auto simp: muted_def)
  have "(r, fut_work f) \<in> set (enq_pairs es)" using traced_run [of es c] f unfolding traced_def by blast
  with rp assms have "fut_work f = p" by (metis enq_ids_pairs eq_key_imp_eq_value)
  with f e o have "result_msg r (th_fn c p) \<in> set (th_outbox ?s)" by (auto simp: spoken_member)
  from filter_single [OF d this] show "filter (\<lambda>m. out_id m = r) (th_outbox ?s) = [result_msg r (th_fn c p)]" by simp
qed

text \<open>Two requests over one worker, of which the second raises.\<close>

definition th_demo :: "(nat, nat, string) th_config" where
  "th_demo = \<lparr>th_fn = (\<lambda>n. if n = 0 then Inl ''empty'' else Inr (2 * n)), max_concurrency = 1\<rparr>"

definition th_demo_run :: "nat th_ev list" where
  "th_demo_run = [ThEnqueue (''a'', NewRequest 5), ThEnqueue (''b'', NewRequest 0), ThLoop, ThLoop, ThLoop, ThLoop, ThStart 0, ThDone 0, ThFinish 0,
     ThEmit 0, ThLoop, ThLoop, ThLoop, ThLoop, ThStart 1, ThDone 1, ThFinish 1, ThEmit 1]"

theorem threaded_answers_once_witness:
  "filter (\<lambda>m. out_id m = ''b'') (th_outbox (th_run th_demo th_demo_run)) = [ErrorMsg ''b'' (Exn ''empty'')]"
proof -
  have "distinct (enq_ids th_demo_run)" by code_simp
  moreover have "th_quiet (th_run th_demo th_demo_run)" by code_simp
  moreover have "th_running (th_run th_demo th_demo_run)" by code_simp
  moreover have "(''b'', 0) \<in> set (enq_pairs th_demo_run)" by code_simp
  moreover have "''b'' \<notin> aborted_ids th_demo_run" by (simp add: aborted_ids_def th_demo_run_def)
  ultimately show ?thesis using threaded_answers_once [of th_demo_run th_demo "''b''" 0] by (simp add: th_demo_def result_msg_def)
qed

section \<open>An abort before the decision silences the request\<close>

lemma two_owners:
  assumes "i < length (th_futures s)" "j < length (th_futures s)" "i \<noteq> j" "fut_owner (th_futures s ! i) = r" "fut_owner (th_futures s ! j) = r"
  shows "2 \<le> count (th_places s) r"
proof -
  let ?I = "{k. k < length (th_futures s) \<and> fut_owner (th_futures s ! k) = r}"
  have "card {i, j} \<le> card ?I" by (rule card_mono) (use assms in auto)
  moreover have "count (mset (map fut_owner (th_futures s))) r = card ?I"
    by (simp add: count_mset count_list_eq_length_filter length_filter_conv_card del: mset_map) (rule arg_cong [where f = card], auto)
  ultimately show ?thesis using assms(3) by (simp add: th_places_def)
qed

text \<open>A future on its way to an answer is the pending one, as long as its id was used once.\<close>

definition tracked :: "('p, 'r, 'e) th_state \<Rightarrow> bool" where
  "tracked s \<longleftrightarrow> (\<forall>i<length (th_futures s). early (fut_callback (th_futures s ! i)) \<and> i \<notin> set (aborted_futures s) \<and>
     count (th_places s) (fut_owner (th_futures s ! i)) \<le> 1 \<longrightarrow> dget (th_pending s) (fut_owner (th_futures s ! i)) = Some i)"

lemma trackedD:
  assumes "tracked s" "i < length (th_futures s)" "early (fut_callback (th_futures s ! i))" "i \<notin> set (aborted_futures s)"
    "count (th_places s) (fut_owner (th_futures s ! i)) \<le> 1"
  shows "dget (th_pending s) (fut_owner (th_futures s ! i)) = Some i"
  using assms unfolding tracked_def by blast

lemma tracked_upd:
  assumes "tracked s" "th_pending t = th_pending s" "aborted_futures t = aborted_futures s" "th_places t = th_places s"
    "th_futures t = (th_futures s)[i := y]" "fut_owner y = fut_owner (th_futures s ! i)" "early (fut_callback y) \<Longrightarrow> early (fut_callback (th_futures s ! i))"
  shows "tracked t"
  unfolding tracked_def
proof (intro allI impI, elim conjE)
  fix j assume j: "j < length (th_futures t)" "early (fut_callback (th_futures t ! j))" "j \<notin> set (aborted_futures t)"
    "count (th_places t) (fut_owner (th_futures t ! j)) \<le> 1"
  have "fut_owner (th_futures t ! j) = fut_owner (th_futures s ! j)" "early (fut_callback (th_futures s ! j))"
    using assms(5-7) j(2) by (auto simp: nth_upd split: if_splits)
  with j assms(2-5) trackedD [OF assms(1), of j] show "dget (th_pending t) (fut_owner (th_futures t ! j)) = Some j" by simp
qed

lemma tracked_same:
  assumes "tracked s" "th_pending t = th_pending s" "aborted_futures t = aborted_futures s" "th_places s \<subseteq># th_places t" "th_futures t = th_futures s"
  shows "tracked t"
proof -
  have "count (th_places s) r \<le> 1" if "count (th_places t) r \<le> 1" for r
    using that assms(4) le_trans by (fastforce simp: subseteq_mset_def)
  with assms(1) show ?thesis unfolding tracked_def assms(2,3,5) by blast
qed

lemma tracked_abort:
  assumes "tracked s" "pend_ok s"
  shows "tracked (th_abort r s)"
proof (cases "dget (th_pending s) r")
  case None
  show ?thesis by (rule tracked_same [OF assms(1)]) (auto simp: th_places_abort, auto simp: th_abort_def None record_speculative_abort_def Let_def)
next
  case (Some i)
  note i = pend_okD [OF assms(2) Some]
  have t: "th_futures (th_abort r s) = th_futures s" "th_pending (th_abort r s) = ddel (th_pending s) r"
    "set (aborted_futures (th_abort r s)) = insert i (set (aborted_futures s))" by (auto simp: th_abort_def Some)
  show ?thesis unfolding tracked_def t th_places_abort
  proof (intro allI impI, elim conjE)
    fix j assume j: "j < length (th_futures s)" "early (fut_callback (th_futures s ! j))" "j \<notin> insert i (set (aborted_futures s))"
      "count (th_places s) (fut_owner (th_futures s ! j)) \<le> 1"
    then have "fut_owner (th_futures s ! j) \<noteq> r" using two_owners [OF i(1) j(1) _ i(2)] by auto
    with j trackedD [OF assms(1), of j] show "dget (ddel (th_pending s) r) (fut_owner (th_futures s ! j)) = Some j" by simp
  qed
qed

lemma tracked_finish_lock:
  assumes "tracked s"
  shows "tracked (finish_lock i s)"
proof (cases "i < length (th_futures s) \<and> fut_callback (th_futures s ! i) = Due")
  case True
  then have i: "i < length (th_futures s)" "fut_callback (th_futures s ! i) = Due" by simp_all
  note f = finish_lock_fields [OF i]
  show ?thesis unfolding tracked_def th_places_finish
  proof (intro allI impI, elim conjE)
    fix j assume j: "j < length (th_futures (finish_lock i s))" "early (fut_callback (th_futures (finish_lock i s) ! j))"
      "j \<notin> set (aborted_futures (finish_lock i s))" "count (th_places s) (fut_owner (th_futures (finish_lock i s) ! j)) \<le> 1"
    then have ne: "j \<noteq> i" "j < length (th_futures s)" by (auto simp: f(3) nth_upd)
    then have own: "th_futures (finish_lock i s) ! j = th_futures s ! j" by (simp add: f(3))
    have "fut_owner (th_futures s ! j) \<noteq> fut_owner (th_futures s ! i)" using two_owners [OF i(1) ne(2)] ne(1) j(4) own by fastforce
    with j ne own trackedD [OF assms, of j] show "dget (th_pending (finish_lock i s)) (fut_owner (th_futures (finish_lock i s) ! j)) = Some j"
      by (simp add: f(1,2))
  qed
qed (auto simp: finish_lock_def assms)

lemma tracked_shut_down:
  assumes "tracked s" "th_places (shut_down s) = th_places s"
  shows "tracked (shut_down s)"
  using assms unfolding tracked_def by (auto simp: shut_down_def)

lemma tracked_claim:
  assumes "tracked s" "th_loop s = AtClaim r p"
  shows "tracked (claim_step r p s)"
proof (cases "r \<in> set (queued_aborts s) \<or> r \<in> set (speculative_aborts s)")
  case True
  show ?thesis
    by (rule tracked_same [OF assms(1)]) (use True in \<open>auto simp: th_places_claim [OF assms(2)]\<close>,
      auto simp: claim_step_def consume_reachable_tombstone_def release_claim_def)
next
  case False
  let ?t = "claim_step r p s"
  let ?n = "length (th_futures s)"
  have t: "th_futures ?t = th_futures s @ [\<lparr>fut_owner = r, fut_work = p, fut_state = FutPending, fut_callback = NotAdded\<rparr>]"
    "th_pending ?t = dset (th_pending s) r ?n" "aborted_futures ?t = aborted_futures s"
    using False by (simp_all add: claim_step_def consume_reachable_tombstone_def release_claim_def submit_def)
  have n: "?n < length (th_futures ?t)" "fut_owner (th_futures ?t ! ?n) = r" by (simp_all add: t)
  show ?thesis unfolding tracked_def
  proof (intro allI impI, elim conjE)
    fix j assume j: "j < length (th_futures ?t)" "early (fut_callback (th_futures ?t ! j))" "j \<notin> set (aborted_futures ?t)"
      "count (th_places ?t) (fut_owner (th_futures ?t ! j)) \<le> 1"
    show "dget (th_pending ?t) (fut_owner (th_futures ?t ! j)) = Some j"
    proof (cases "j = ?n")
      case True
      then show ?thesis using n by (simp add: t(2))
    next
      case False
      with j(1) have lt: "j < ?n" by (simp add: t(1))
      then have own: "th_futures ?t ! j = th_futures s ! j" by (simp add: t(1) nth_append)
      have "fut_owner (th_futures s ! j) \<noteq> r" using two_owners [OF n(1) j(1) _ n(2)] False j(4) own by fastforce
      with j lt own trackedD [OF assms(1), of j] show ?thesis by (simp add: t(2,3) th_places_claim [OF assms(2)])
    qed
  qed
qed

lemma tracked_loop:
  assumes "tracked s" "futs_ok c s"
  shows "tracked (th_loop_step c s)"
proof -
  have places: "th_places (th_loop_step c s) = th_places s" by (rule th_places_loop)
  show ?thesis
  proof (cases "th_loop s")
    case AtWait
    with places assms(1) show ?thesis
      by (auto simp: th_loop_step_def wait_for_capacity_def intro: tracked_shut_down tracked_same split: if_splits)
  next
    case AtGet
    with places assms(1) show ?thesis
      by (cases "th_running s") (auto simp: th_loop_step_def get_step_def inbox_get_def intro: tracked_shut_down tracked_same
          split: list.splits content.splits prod.splits if_splits)
  next
    case (AtClaim r p)
    with assms(1) show ?thesis by (simp add: th_loop_step_def tracked_claim)
  next
    case (AtCallback i)
    with assms(2) have "fut_callback (th_futures s ! i) = NotAdded" by (simp add: futs_ok_def)
    with AtCallback places assms(1) show ?thesis
      by (auto simp: th_loop_step_def add_callback_def upd_fut_def intro!: tracked_upd [OF assms(1)])
  next
    case Stopped
    with assms(1) show ?thesis by (simp add: th_loop_step_def)
  qed
qed

lemma tracked_step:
  assumes "tracked s" "th_ok c s"
  shows "tracked (th_step c s e)"
proof (cases e)
  case (ThEnqueue m)
  have "th_places s \<subseteq># th_places (th_enqueue m s)" by (simp add: th_places_enqueue)
  then show ?thesis by (auto simp: ThEnqueue th_enqueue_def inbox_put_def Let_def intro: tracked_same [OF assms(1)] split: if_splits)
next
  case (ThAbortRest k)
  have p: "th_places (th_abort_rest k s) = th_places s" by (rule th_places_th_abort_rest)
  have "th_pending (th_abort_rest k s) = th_pending s \<and> aborted_futures (th_abort_rest k s) = aborted_futures s \<and>
      (th_futures (th_abort_rest k s) = th_futures s \<or> (\<exists>i. th_futures (th_abort_rest k s) = (th_futures s)[i := cancel_fut (th_futures s ! i)]))"
    by (auto simp: th_abort_rest_def upd_fut_def run_abort_callback_def Let_def split: option.splits prod.splits)
  with p have "tracked (th_abort_rest k s)" using tracked_same [OF assms(1)] tracked_upd [OF assms(1)] by fastforce
  then show ?thesis by (simp add: ThAbortRest)
next
  case (ThStart i)
  have "th_places (worker_start c i s) = th_places s" by (rule th_places_worker)
  then show ?thesis using assms(1) by (auto simp: ThStart worker_start_def upd_fut_def intro: tracked_upd split: if_splits)
next
  case (ThDone i)
  have "th_places (worker_done c i s) = th_places s" by (rule th_places_worker)
  then show ?thesis using assms(1) by (auto simp: ThDone worker_done_def upd_fut_def intro: tracked_upd split: if_splits)
next
  case (ThEmit i)
  have "th_places (finish_emit i s) = th_places s" by (rule th_places_finish)
  then show ?thesis using assms(1)
    by (auto simp: ThEmit finish_emit_def upd_fut_def run_abort_callback_def Let_def intro!: tracked_upd [OF assms(1)]
        split: callback_state.splits fut_status.splits if_splits)
next
  case ThStop
  show ?thesis by (rule tracked_same [OF assms(1)]) (simp_all add: ThStop th_places_running)
qed (use assms in \<open>simp_all add: th_ok_def outbox_ok_def tracked_abort tracked_finish_lock tracked_loop\<close>)

lemma tracked_run: "tracked (th_run c es)"
proof (induction es rule: rev_induct)
  case Nil
  show ?case by (simp add: th_init_def tracked_def)
next
  case (snoc e es)
  then show ?case by (simp add: run_append tracked_step th_ok_run)
qed

text \<open>The lock of the completion callback of the request was taken and found no abort, so that its answer is on its way or sent.\<close>

definition decided :: "string \<Rightarrow> ('p, 'r, 'e) th_state \<Rightarrow> bool" where
  "decided r s \<longleftrightarrow> list_ex (\<lambda>f. fut_owner f = r \<and> (fut_callback f = Locked False \<or> fut_callback f = Ended False)) (th_futures s)"

text \<open>The request carries a mark that keeps it from being answered.\<close>

definition silenced :: "string \<Rightarrow> ('p, 'r, 'e) th_state \<Rightarrow> bool" where
  "silenced r s \<longleftrightarrow> r \<in> set (queued_aborts s) \<or> r \<in> set (th_dropped s) \<or>
     (\<exists>i<length (th_futures s). fut_owner (th_futures s ! i) = r \<and>
       (i \<in> set (aborted_futures s) \<or> fut_callback (th_futures s ! i) = Locked True \<or> fut_callback (th_futures s ! i) = Ended True))"

lemma silencedI:
  "i < length (th_futures s) \<Longrightarrow> fut_owner (th_futures s ! i) = r \<Longrightarrow>
   i \<in> set (aborted_futures s) \<or> fut_callback (th_futures s ! i) = Locked True \<or> fut_callback (th_futures s ! i) = Ended True \<Longrightarrow> silenced r s"
  unfolding silenced_def by blast

lemma silenced_upd:
  assumes "silenced r s" "set (queued_aborts s) \<subseteq> set (queued_aborts t)" "th_dropped t = th_dropped s" "th_futures t = (th_futures s)[i := y]"
    "fut_owner y = fut_owner (th_futures s ! i)" "set (aborted_futures s) - {i} \<subseteq> set (aborted_futures t)"
    "fut_callback (th_futures s ! i) = Locked True \<or> fut_callback (th_futures s ! i) = Ended True \<Longrightarrow> fut_callback y = Locked True \<or> fut_callback y = Ended True"
    "i \<in> set (aborted_futures s) \<Longrightarrow> i \<in> set (aborted_futures t) \<or> fut_callback y = Locked True"
  shows "silenced r t"
proof (cases "\<exists>j<length (th_futures s). fut_owner (th_futures s ! j) = r \<and>
       (j \<in> set (aborted_futures s) \<or> fut_callback (th_futures s ! j) = Locked True \<or> fut_callback (th_futures s ! j) = Ended True)")
  case True
  then obtain j where j: "j < length (th_futures s)" "fut_owner (th_futures s ! j) = r"
    "j \<in> set (aborted_futures s) \<or> fut_callback (th_futures s ! j) = Locked True \<or> fut_callback (th_futures s ! j) = Ended True" by blast
  show ?thesis
    by (rule silencedI [of j]) (use j assms(4-8) in \<open>auto simp: nth_upd split: if_splits\<close>)
qed (use assms(1-3) in \<open>auto simp: silenced_def\<close>)

lemma silenced_same:
  "silenced r s \<Longrightarrow> set (queued_aborts s) \<subseteq> set (queued_aborts t) \<Longrightarrow> th_dropped t = th_dropped s \<Longrightarrow> th_futures t = th_futures s \<Longrightarrow>
   set (aborted_futures s) \<subseteq> set (aborted_futures t) \<Longrightarrow> silenced r t"
  unfolding silenced_def by auto

lemma silenced_abort: "silenced r s \<Longrightarrow> silenced r (th_abort r' s)"
  by (erule silenced_same) (auto simp: th_abort_def record_speculative_abort_def Let_def split: option.splits)

lemma silenced_kept:
  assumes "silenced r s" "keeps_inbox e"
  shows "silenced r (th_step c s e)"
proof (cases e)
  case (ThAbort r')
  with assms show ?thesis by (simp add: silenced_abort)
next
  case (ThAbortRest k)
  have "th_futures (th_abort_rest k s) = th_futures s \<or> (\<exists>i. th_futures (th_abort_rest k s) = (th_futures s)[i := cancel_fut (th_futures s ! i)])"
    "th_dropped (th_abort_rest k s) = th_dropped s" "queued_aborts (th_abort_rest k s) = queued_aborts s" "aborted_futures (th_abort_rest k s) = aborted_futures s"
    by (auto simp: th_abort_rest_def upd_fut_def run_abort_callback_def Let_def split: option.splits prod.splits)
  then have "silenced r (th_abort_rest k s)" using silenced_same [OF assms(1)] silenced_upd [OF assms(1)] by fastforce
  then show ?thesis by (simp add: ThAbortRest)
next
  case (ThFinish i)
  then show ?thesis using assms(1)
    by (auto simp: finish_lock_def upd_fut_def Let_def intro!: silenced_upd [OF assms(1), where i = i])
next
  case (ThEmit i)
  then show ?thesis using assms(1)
    by (auto simp: finish_emit_def upd_fut_def run_abort_callback_def Let_def intro!: silenced_upd [OF assms(1), where i = i]
        split: callback_state.splits fut_status.splits)
qed (use assms in \<open>auto simp: worker_start_def worker_done_def upd_fut_def intro: silenced_upd elim: silenced_same\<close>)

lemma silenced_loop:
  assumes "silenced r s" "futs_ok c s"
  shows "silenced r (th_loop_step c s)"
proof (cases "th_loop s")
  case (AtClaim r' p)
  with assms(1) show ?thesis unfolding silenced_def
    by (auto simp: th_loop_step_def claim_step_def consume_reachable_tombstone_def release_claim_def submit_def nth_append less_Suc_eq)
next
  case (AtCallback i)
  with assms(2) have "fut_callback (th_futures s ! i) = NotAdded" by (simp add: futs_ok_def)
  with AtCallback show ?thesis
    by (auto simp: th_loop_step_def add_callback_def upd_fut_def intro!: silenced_upd [OF assms(1), where i = i])
qed (use assms(1) in \<open>auto simp: th_loop_step_def wait_for_capacity_def get_step_def inbox_get_def shut_down_def silenced_def
      split: list.splits content.splits prod.splits\<close>)

lemma silenced_step:
  assumes "silenced r s" "th_ok c s"
  shows "silenced r (th_step c s e)"
proof (cases "keeps_inbox e")
  case False
  then consider m where "e = ThEnqueue m" | "e = ThLoop" by (cases e) auto
  then show ?thesis
  proof cases
    case 1
    show ?thesis by (rule silenced_same [OF assms(1)]) (auto simp: 1 th_enqueue_def inbox_put_def Let_def)
  next
    case 2
    with assms show ?thesis by (simp add: th_ok_def outbox_ok_def silenced_loop)
  qed
qed (simp add: silenced_kept assms(1))

lemma silenced_run: "silenced r s \<Longrightarrow> th_ok c s \<Longrightarrow> silenced r (run (th_step c) s es)"
  by (induction es arbitrary: s) (simp_all add: silenced_step threaded.inv_step)

lemma silenced_not_answered:
  assumes "silenced r s" "th_ok c s" "count (th_places s) r \<le> 1"
  shows "r \<notin> out_id ` set (th_outbox s)"
proof
  assume "r \<in> out_id ` set (th_outbox s)"
  then obtain f where "f \<in> set (th_futures s)" "fut_callback f = Ended False" "fut_owner f = r"
    using assms(2) by (auto simp: th_ok_def spoken_member)
  then obtain j where j: "j < length (th_futures s)" "fut_callback (th_futures s ! j) = Ended False" "fut_owner (th_futures s ! j) = r"
    by (metis in_set_conv_nth)
  have owned: "0 < count (mset (map fut_owner (th_futures s))) r" using j by (force simp: in_set_conv_nth simp flip: mset_map)
  from assms(1) consider "r \<in> set (queued_aborts s)" | "r \<in> set (th_dropped s)"
    | i where "i < length (th_futures s)" "fut_owner (th_futures s ! i) = r"
        "i \<in> set (aborted_futures s) \<or> fut_callback (th_futures s ! i) = Locked True \<or> fut_callback (th_futures s ! i) = Ended True"
    unfolding silenced_def by blast
  then show False
  proof cases
    case 1
    then have "r \<in># waiting s" using assms(2) by (simp add: th_ok_def tombs_ok_def)
    then have "0 < count (waiting s) r" by simp
    with owned assms(3) show ?thesis unfolding th_places_def count_union by linarith
  next
    case 2
    then have "0 < count (mset (th_dropped s)) r" by simp
    with owned assms(3) show ?thesis unfolding th_places_def count_union by linarith
  next
    case (3 i)
    then have "i = j" using two_owners [OF 3(1) j(1) _ 3(2) j(3)] assms(3) by fastforce
    with 3 j(2) have "i \<in> set (aborted_futures s)" by simp
    with \<open>i = j\<close> j(2) assms(2) show ?thesis using pend_ok_aborted [of s i] by (simp add: th_ok_def)
  qed
qed

lemma abort_silences:
  assumes "th_ok c s" "tracked s" "r \<in># th_places s" "count (th_places s) r \<le> 1" "\<not> decided r s"
  shows "silenced r (th_abort r s)"
proof (cases "dget (th_pending s) r")
  case (Some i)
  have "pend_ok s" using assms(1) by (simp add: th_ok_def)
  note i = pend_okD [OF this Some]
  show ?thesis by (rule silencedI [of i]) (use i in \<open>auto simp: th_abort_def Some\<close>)
next
  case None
  have io: "inbox_ok s" using assms(1) by (simp add: th_ok_def tombs_ok_def)
  from assms(3) consider "r \<in># waiting s" | "r \<in> set (th_dropped s)" | f where "f \<in> set (th_futures s)" "fut_owner f = r"
    by (auto simp: th_places_def)
  then show ?thesis
  proof cases
    case 1
    then have "r \<in> set (queued_aborts (th_abort r s))" by (simp add: th_abort_def None inbox_ok_reachable [OF io] Let_def)
    then show ?thesis by (simp add: silenced_def)
  next
    case 2
    then show ?thesis by (intro silenced_abort) (simp add: silenced_def)
  next
    case (3 f)
    then obtain i where i: "i < length (th_futures s)" "th_futures s ! i = f" by (metis in_set_conv_nth)
    have "\<not> (early (fut_callback f) \<and> i \<notin> set (aborted_futures s))" using trackedD [OF assms(2) i(1)] assms(4) i(2) 3(2) None by auto
    moreover have "fut_callback f \<noteq> Locked False \<and> fut_callback f \<noteq> Ended False" using assms(5) 3 by (auto simp: decided_def list_ex_iff)
    ultimately have "i \<in> set (aborted_futures s) \<or> fut_callback f = Locked True \<or> fut_callback f = Ended True"
      by (cases "fut_callback f") auto
    then show ?thesis using i 3 by (intro silenced_abort silencedI [of i]) auto
  qed
qed

section \<open>An abort that comes before the request\<close>

definition is_abort :: "'p th_ev \<Rightarrow> bool" where
  "is_abort e = (case e of ThAbort _ \<Rightarrow> True | _ \<Rightarrow> False)"

definition n_aborts :: "'p th_ev list \<Rightarrow> nat" where
  "n_aborts es = length (filter is_abort es)"

lemma speculative_loop: "length (speculative_aborts (th_loop_step c s)) \<le> length (speculative_aborts s)"
  by (cases "th_loop s")
    (auto simp: th_loop_step_def marks_get marks_claim(2) wait_for_capacity_def shut_down_def add_callback_def upd_fut_def)

lemma speculative_step: "length (speculative_aborts (th_step c s e)) \<le> length (speculative_aborts s) + n_aborts [e]"
proof (cases "\<exists>r. e = ThAbort r")
  case True
  then show ?thesis using evict_oldest_props [of "speculative_aborts s"]
    by (auto simp: n_aborts_def is_abort_def th_abort_def record_speculative_abort_def Let_def split: option.splits)
next
  case False
  show ?thesis
  proof (cases "keeps_inbox e")
    case True
    with False show ?thesis using marks_kept [of e c s] by simp
  next
    case False
    then show ?thesis by (cases e) (auto simp: th_enqueue_def inbox_put_def Let_def length_removeAll_le intro: le_SucI trans_le_add1 speculative_loop)
  qed
qed

lemma speculative_run: "length (speculative_aborts (th_run c es)) \<le> n_aborts es"
proof (induction es rule: rev_induct)
  case Nil
  show ?case by (simp add: th_init_def)
next
  case (snoc e es)
  then show ?case using speculative_step [of c "th_run c es" e] by (simp add: run_append n_aborts_def)
qed

definition forewarned :: "string \<Rightarrow> ('p, 'r, 'e) th_state \<Rightarrow> bool" where
  "forewarned r s \<longleftrightarrow> r \<in> set (speculative_aborts s) \<and> r \<notin> fut_owner ` set (th_futures s)"

lemma owners_kept: "keeps_inbox e \<Longrightarrow> map fut_owner (th_futures (th_step c s e)) = map fut_owner (th_futures s)"
  by (cases e)
    (auto simp: th_abort_def record_speculative_abort_def th_abort_rest_def upd_fut_def run_abort_callback_def worker_start_def worker_done_def
      finish_lock_def finish_emit_def owners_upd Let_def split: option.splits prod.splits callback_state.splits fut_status.splits)

lemma owner_set_upd: "fut_owner y = fut_owner (xs ! i) \<Longrightarrow> fut_owner ` set (xs[i := y]) = fut_owner ` set xs"
  using owners_upd [of y xs i] by (metis list.set_map)

lemma owner_set_kept: "keeps_inbox e \<Longrightarrow> fut_owner ` set (th_futures (th_step c s e)) = fut_owner ` set (th_futures s)"
  using owners_kept [of e c s] by (metis list.set_map)

lemma forewarned_step:
  assumes "forewarned r s" "futs_ok c s" "is_abort e \<Longrightarrow> length (speculative_aborts s) < 10000"
  shows "forewarned r (th_step c s e) \<or> silenced r (th_step c s e)"
proof (cases "keeps_inbox e")
  case True
  have "set (speculative_aborts s) \<subseteq> set (speculative_aborts (th_step c s e))"
    using assms(3) marks_kept [OF True, of c s]
    by (cases e) (auto simp: is_abort_def th_abort_def record_speculative_abort_def Let_def split: option.splits)
  with assms(1) show ?thesis by (auto simp: forewarned_def owner_set_kept [OF True])
next
  case False
  then consider m where "e = ThEnqueue m" | "e = ThLoop" by (cases e) auto
  then show ?thesis
  proof cases
    case 1
    with assms(1) show ?thesis by (auto simp: forewarned_def silenced_def th_enqueue_def inbox_put_def Let_def)
  next
    case 2
    show ?thesis
    proof (cases "th_loop s")
      case (AtClaim r' p)
      with assms(1) show ?thesis
        by (auto simp: 2 forewarned_def silenced_def th_loop_step_def claim_step_def consume_reachable_tombstone_def release_claim_def submit_def)
    next
      case (AtCallback i)
      with assms(1) show ?thesis by (simp add: 2 forewarned_def th_loop_step_def add_callback_def upd_fut_def owner_set_upd)
    qed (use assms(1) in \<open>auto simp: 2 forewarned_def th_loop_step_def wait_for_capacity_def get_step_def inbox_get_def shut_down_def
        split: list.splits content.splits prod.splits\<close>)
  qed
qed

lemma n_aborts_simps [simp]: "n_aborts [] = 0" "n_aborts (e # es) = (if is_abort e then Suc (n_aborts es) else n_aborts es)"
  "n_aborts (xs @ ys) = n_aborts xs + n_aborts ys"
  by (simp_all add: n_aborts_def)

lemma forewarned_run:
  assumes "forewarned r s \<or> silenced r s" "th_ok c s" "length (speculative_aborts s) + n_aborts es \<le> 10000"
  shows "forewarned r (run (th_step c) s es) \<or> silenced r (run (th_step c) s es)"
  using assms
proof (induction es arbitrary: s)
  case (Cons e es)
  have f: "futs_ok c s" using Cons.prems(2) by (simp add: th_ok_def outbox_ok_def)
  have "forewarned r (th_step c s e) \<or> silenced r (th_step c s e)"
    using Cons.prems(1)
  proof
    assume "forewarned r s"
    then show ?thesis by (rule forewarned_step [OF _ f]) (use Cons.prems(3) in simp)
  qed (use silenced_step [OF _ Cons.prems(2)] in blast)
  moreover have "length (speculative_aborts (th_step c s e)) + n_aborts es \<le> 10000"
    using Cons.prems(3) speculative_step [of c s e] by (simp split: if_splits)
  ultimately show ?case using Cons.IH threaded.inv_step [OF Cons.prems(2)] by simp
qed simp

lemma forewarned_not_answered: "forewarned r s \<Longrightarrow> outbox_ok c s \<Longrightarrow> r \<notin> out_id ` set (th_outbox s)"
  by (auto simp: forewarned_def spoken_member)

text \<open>
  C23: An abort silences its request. Whenever \<^verbatim>\<open>abort\<close> is called before the completion callback of the request has decided to answer, no
  message of that request is ever sent, whatever the threads do afterwards: the request may be in the inbox, between the inbox and the pool,
  computing or computed. The abort may even come before the request, provided that fewer than 10000 other aborts are made, so that its
  mark is not evicted.
\<close>

theorem threaded_abort_silences:
  assumes "distinct (enq_ids (es1 @ es2))" "\<not> decided r (th_run c es1)"
    and "r \<in> set (enq_ids es1) \<or> n_aborts (es1 @ es2) < 10000"
  shows "r \<notin> out_id ` set (th_outbox (th_run c (es1 @ ThAbort r # es2)))"
proof -
  let ?s = "th_run c es1" and ?t = "th_run c (es1 @ [ThAbort r])" and ?u = "th_run c (es1 @ ThAbort r # es2)"
  have u: "?u = run (th_step c) ?t es2" and t: "?t = th_abort r ?s" by (simp_all add: run_append)
  have once: "count (mset (enq_ids (es1 @ es2))) r \<le> 1" using assms(1) by (simp add: distinct_count_atmost_1)
  have places: "count (th_places ?s) r \<le> 1" "count (th_places ?u) r \<le> 1" using once by (simp_all add: th_places_run)
  have "(silenced r ?u) \<or> (forewarned r ?u)"
  proof (cases "r \<in> set (enq_ids es1)")
    case True
    then have "silenced r ?t" unfolding t
      by (intro abort_silences [OF th_ok_run tracked_run _ places(1) assms(2)]) (simp add: th_places_run)
    then show ?thesis unfolding u using silenced_run th_ok_run by blast
  next
    case False
    then have np: "r \<notin># th_places ?s" by (simp add: th_places_run)
    have ok: "inbox_ok ?s" "pend_ok ?s" using th_ok_run [of c es1] by (simp_all add: th_ok_def tombs_ok_def)
    have own: "r \<notin> fut_owner ` set (th_futures ?s)" and wait: "\<not> inbox_reachable r ?s"
      using np by (auto simp: th_places_def inbox_ok_reachable [OF ok(1)])
    have "dget (th_pending ?s) r = None"
    proof (cases "dget (th_pending ?s) r")
      case (Some i)
      from pend_okD(1,2) [OF ok(2) Some] own show ?thesis by (metis imageI nth_mem)
    qed
    then have "forewarned r ?t"
      using own wait by (auto simp: t forewarned_def th_abort_def record_speculative_abort_def Let_def)
    moreover have "length (speculative_aborts ?t) + n_aborts es2 \<le> 10000"
      using speculative_run [of c "es1 @ [ThAbort r]"] assms(3) False by (simp add: is_abort_def)
    ultimately show ?thesis unfolding u using forewarned_run [OF _ th_ok_run] by blast
  qed
  then show ?thesis
  proof
    assume "silenced r ?u"
    then show ?thesis by (rule silenced_not_answered [OF _ th_ok_run places(2)])
  next
    assume "forewarned r ?u"
    then show ?thesis by (rule forewarned_not_answered) (use th_ok_run [of c] in \<open>auto simp: th_ok_def\<close>)
  qed
qed

theorem threaded_abort_silences_witness:
  "''a'' \<notin> out_id ` set (th_outbox (th_run th_demo (take 8 th_demo_run @ ThAbort ''a'' # drop 8 th_demo_run)))"
proof (rule threaded_abort_silences)
  show "distinct (enq_ids (take 8 th_demo_run @ drop 8 th_demo_run))" by code_simp
  show "\<not> decided ''a'' (th_run th_demo (take 8 th_demo_run))" by code_simp
  show "''a'' \<in> set (enq_ids (take 8 th_demo_run)) \<or> n_aborts (take 8 th_demo_run @ drop 8 th_demo_run) < 10000" by code_simp
qed

text \<open>
  C24: The threaded scheduler is bounded and keeps nothing. At every moment at most \<^verbatim>\<open>max_concurrency\<close> requests are pending and at
  most 10000 speculative marks are kept; and once nothing is left to do, the tables of pending and aborted futures, of queued aborts and of
  inbox counters are empty.
\<close>

theorem threaded_keeps_nothing:
  "length (th_pending (th_run c es)) \<le> th_workers c \<and> length (speculative_aborts (th_run c es)) \<le> 10000 \<and>
   (th_quiet (th_run c es) \<longrightarrow>
      th_pending (th_run c es) = [] \<and> aborted_futures (th_run c es) = [] \<and> queued_aborts (th_run c es) = [] \<and>
      request_counts (th_run c es) = [] \<and> claimed_counts (th_run c es) = [])"
proof -
  let ?s = "th_run c es"
  have ok: "tombs_ok ?s" "pend_ok ?s" "capacity_ok c ?s" using th_ok_run [of c es] by (simp_all add: th_ok_def)
  have bounds: "length (th_pending ?s) \<le> th_workers c" "length (speculative_aborts ?s) \<le> 10000"
    using ok(1,3) by (auto simp: tombs_ok_def capacity_ok_def split: th_loop.splits)
  have "th_pending ?s = [] \<and> aborted_futures ?s = [] \<and> queued_aborts ?s = [] \<and> request_counts ?s = [] \<and> claimed_counts ?s = []"
    if q: "th_quiet ?s"
  proof -
    have late: "i < length (th_futures ?s) \<Longrightarrow> \<not> early (fut_callback (th_futures ?s ! i))" for i
      using quiet_ended [OF q nth_mem, of i] by auto
    have none: "counts_of d {#} \<Longrightarrow> d = []" for d by (cases d) (auto simp: counts_of_def split: if_splits)
    have "dget (th_pending ?s) r = None" for r using pend_okD(1,3) [OF ok(2), of r] late by (cases "dget (th_pending ?s) r") auto
    then have "th_pending ?s = []" by (simp add: map_of_eq_None_iff) (metis image_is_empty all_not_in_conv set_empty)
    moreover have "aborted_futures ?s = []"
    proof (rule ccontr)
      assume "aborted_futures ?s \<noteq> []"
      then have "hd (aborted_futures ?s) \<in> set (aborted_futures ?s)" by simp
      with pend_ok_aborted [OF ok(2)] late show False by blast
    qed
    moreover have "set (queued_aborts ?s) = {}" using ok(1) quiet_no_waiting [OF q] by (auto simp: tombs_ok_def)
    moreover have "request_counts ?s = []" "claimed_counts ?s = []"
      using ok(1) q none by (auto simp: tombs_ok_def inbox_ok_def th_quiet_def)
    ultimately show ?thesis by simp
  qed
  with bounds show ?thesis by blast
qed

theorem threaded_keeps_nothing_witness:
  "th_pending (th_run th_demo th_demo_run) = [] \<and> length (speculative_aborts (th_run th_demo th_demo_run)) \<le> 10000"
proof -
  have "th_quiet (th_run th_demo th_demo_run)" by code_simp
  with threaded_keeps_nothing [of th_demo th_demo_run] show ?thesis by simp
qed

end
