(* ===== verification/Vocoder_Scheduler.thy ===== *)
theory Vocoder_Scheduler
  imports Prelude
begin

text \<open>
  The scheduler of streaming vocoder stages: \<^verbatim>\<open>scheduling/streaming_simple_scheduler.py\<close> with the request lifecycle of
  \<^verbatim>\<open>scheduling/streaming_vocoder.py\<close>, for vocoders that decode chunk by chunk. The hooks of the concrete vocoder are arguments. The loop thread is
  cut where an abort of another thread can come in between: after each of its two abort checks, and between the outputs of a handler.
  An abort first marks the request and then, under the state lock, clears it.
\<close>

section \<open>Hooks, messages and state\<close>

record 'c stream_item =
  it_metadata :: "(string option \<times> bool option) option"
  it_tensor :: "'c option"

datatype 'e voc_exn =
    Hook 'e | MissingMetadata | BadModality string | MissingStreamFlag | NotATensor | NotAStreamItem | NoCompute

record ('p, 'c, 's, 'w, 'd, 'e) voc_hooks =
  stream_input_modality :: string
  is_streaming_payload :: "'p \<Rightarrow> 'e + bool"
  create_stream_state :: "string \<Rightarrow> 's"
  latch_payload :: "'s \<Rightarrow> 'p \<Rightarrow> 'e + 's"
  latch_metadata :: "'s \<Rightarrow> string option \<times> bool option \<Rightarrow> 'e + 's"
  validate_chunk :: "'s \<Rightarrow> 'c \<Rightarrow> 'e + 'c"
  ingest :: "'s \<Rightarrow> 'c \<Rightarrow> 's"
  should_decode :: "'s \<Rightarrow> bool"
  decode_delta :: "'s \<Rightarrow> bool \<Rightarrow> 'e + 'w option \<times> 's"
  fallback_full_decode :: "'p \<Rightarrow> 's \<Rightarrow> 'e + 'w option"
  final_result_data :: "'p \<Rightarrow> 's \<Rightarrow> 'e + 'd"
  validate_non_streaming :: "'p \<Rightarrow> 'e + unit"
  voc_compute :: "('p \<Rightarrow> 'e + 'd) option"
  iter_order :: "string list \<Rightarrow> string list"

datatype ('p, 'c) voc_msg = VNew string 'p | VChunk string "'c stream_item option" | VDone string

primrec msg_id :: "('p, 'c) voc_msg \<Rightarrow> string" where
  "msg_id (VNew r _) = r"
| "msg_id (VChunk r _) = r"
| "msg_id (VDone r) = r"

datatype ('w, 'd, 'e) voc_out = OStream string 'w | OResult string 'd | OError string "'e voc_exn"

primrec voc_out_id :: "('w, 'd, 'e) voc_out \<Rightarrow> string" where
  "voc_out_id (OStream r _) = r"
| "voc_out_id (OResult r _) = r"
| "voc_out_id (OError r _) = r"

datatype ('p, 'c) voc_loop = VIdle | VTaken "('p, 'c) voc_msg" | VRegister string 'p | VCompute string 'p

text \<open>\<open>created\<close> and \<open>released\<close> log the calls of \<^verbatim>\<open>create_stream_state\<close> and \<^verbatim>\<open>release_stream_resources\<close>; \<open>clearing\<close> lists the aborts between mark and clear.\<close>

record ('p, 'c, 's, 'w, 'd, 'e) voc_state =
  vs_inbox :: "('p, 'c) voc_msg list"
  pending_done :: "string list"
  stream_payloads :: "(string, 'p) dict"
  aborted_ids :: "string list"
  completed_plain :: "string list"
  stream_states :: "(string, 's) dict"
  emitted_ids :: "string list"
  completed_streams :: "string list"
  vs_outbox :: "('w, 'd, 'e) voc_out list"
  created :: "string list"
  released :: "string list"
  clearing :: "string list"
  vloop :: "('p, 'c) voc_loop"

definition voc_init :: "('p, 'c, 's, 'w, 'd, 'e) voc_state" where
  "voc_init = \<lparr>vs_inbox = [], pending_done = [], stream_payloads = [], aborted_ids = [], completed_plain = [], stream_states = [], emitted_ids = [],
     completed_streams = [], vs_outbox = [], created = [], released = [], clearing = [], vloop = VIdle\<rparr>"

section \<open>Registry\<close>

definition is_aborted :: "('p, 'c, 's, 'w, 'd, 'e) voc_state \<Rightarrow> string \<Rightarrow> bool" where
  "is_aborted s r \<longleftrightarrow> r \<in> set (aborted_ids s)"

definition put_out :: "('w, 'd, 'e) voc_out \<Rightarrow> ('p, 'c, 's, 'w, 'd, 'e) voc_state \<Rightarrow> ('p, 'c, 's, 'w, 'd, 'e) voc_state" where
  "put_out m s = s\<lparr>vs_outbox := vs_outbox s @ [m]\<rparr>"

text \<open>The two bounded sets: past the limit an excess is dropped in the order the set iterates.\<close>

definition prune :: "(string list \<Rightarrow> string list) \<Rightarrow> string list \<Rightarrow> string list" where
  "prune order xs = (if 10000 < length xs then filter (\<lambda>x. x \<notin> set (take (length xs - 5000) (order xs))) xs else xs)"

definition record_aborted :: "(string list \<Rightarrow> string list) \<Rightarrow> string \<Rightarrow> ('p, 'c, 's, 'w, 'd, 'e) voc_state \<Rightarrow> ('p, 'c, 's, 'w, 'd, 'e) voc_state" where
  "record_aborted order r s = s\<lparr>aborted_ids := prune order (List.insert r (aborted_ids s))\<rparr>"

definition record_completed_plain :: "(string list \<Rightarrow> string list) \<Rightarrow> string \<Rightarrow> ('p, 'c, 's, 'w, 'd, 'e) voc_state \<Rightarrow> ('p, 'c, 's, 'w, 'd, 'e) voc_state" where
  "record_completed_plain order r s = s\<lparr>completed_plain := prune order (List.insert r (completed_plain s))\<rparr>"

text \<open>\<^verbatim>\<open>_record_completed_stream_request_id\<close>: an ordered dictionary, so the oldest go first.\<close>

definition record_completed_stream :: "string \<Rightarrow> ('p, 'c, 's, 'w, 'd, 'e) voc_state \<Rightarrow> ('p, 'c, 's, 'w, 'd, 'e) voc_state" where
  "record_completed_stream r s =
     (let xs = (if r \<in> set (completed_streams s) then completed_streams s else completed_streams s @ [r]) in
      s\<lparr>completed_streams := (if 10000 < length xs then drop (length xs - 5000) xs else xs)\<rparr>)"

definition clear_stream_state :: "string \<Rightarrow> ('p, 'c, 's, 'w, 'd, 'e) voc_state \<Rightarrow> ('p, 'c, 's, 'w, 'd, 'e) voc_state" where
  "clear_stream_state r s =
     s\<lparr>emitted_ids := removeAll r (emitted_ids s), stream_states := ddel (stream_states s) r,
       released := (if dhas (stream_states s) r then released s @ [r] else released s)\<rparr>"

definition voc_clear_request :: "bool \<Rightarrow> string \<Rightarrow> ('p, 'c, 's, 'w, 'd, 'e) voc_state \<Rightarrow> ('p, 'c, 's, 'w, 'd, 'e) voc_state" where
  "voc_clear_request keep_aborted r s =
     (let s1 = clear_stream_state r (s\<lparr>stream_payloads := ddel (stream_payloads s) r, pending_done := removeAll r (pending_done s)\<rparr>) in
      if keep_aborted then s1 else s1\<lparr>aborted_ids := removeAll r (aborted_ids s1)\<rparr>)"

text \<open>\<^verbatim>\<open>abort\<close> on the loop thread, whole.\<close>

definition abort_here :: "(string list \<Rightarrow> string list) \<Rightarrow> string \<Rightarrow> ('p, 'c, 's, 'w, 'd, 'e) voc_state \<Rightarrow> ('p, 'c, 's, 'w, 'd, 'e) voc_state" where
  "abort_here order r s = voc_clear_request True r (record_aborted order r s)"

definition get_or_create ::
  "('p, 'c, 's, 'w, 'd, 'e) voc_hooks \<Rightarrow> string \<Rightarrow> ('p, 'c, 's, 'w, 'd, 'e) voc_state \<Rightarrow> 's option \<times> ('p, 'c, 's, 'w, 'd, 'e) voc_state" where
  "get_or_create h r s =
     (case dget (stream_states s) r of
        Some st \<Rightarrow> (Some st, s)
      | None \<Rightarrow>
          if is_aborted s r \<or> r \<in> set (completed_streams s) then (None, s)
          else (let st = create_stream_state h r in (Some st, s\<lparr>stream_states := dset (stream_states s) r st, created := created s @ [r]\<rparr>)))"

definition store_state :: "string \<Rightarrow> 's \<Rightarrow> ('p, 'c, 's, 'w, 'd, 'e) voc_state \<Rightarrow> ('p, 'c, 's, 'w, 'd, 'e) voc_state" where
  "store_state r st s = s\<lparr>stream_states := dset (stream_states s) r st\<rparr>"

definition mark_emitted :: "string \<Rightarrow> ('p, 'c, 's, 'w, 'd, 'e) voc_state \<Rightarrow> ('p, 'c, 's, 'w, 'd, 'e) voc_state" where
  "mark_emitted r s = s\<lparr>emitted_ids := List.insert r (emitted_ids s)\<rparr>"

definition lift_hook :: "'e + 'a \<Rightarrow> 'e voc_exn + 'a" where
  "lift_hook x = (case x of Inl e \<Rightarrow> Inl (Hook e) | Inr y \<Rightarrow> Inr y)"

section \<open>Chunks and the end of a stream\<close>

text \<open>The checks of \<^verbatim>\<open>_ingest_stream_item\<close> and the hooks it calls, on the state of the stream.\<close>

definition ingest_checked :: "('p, 'c, 's, 'w, 'd, 'e) voc_hooks \<Rightarrow> 'c stream_item \<Rightarrow> 's \<Rightarrow> 'e voc_exn + 's" where
  "ingest_checked h it st =
     (case it_metadata it of
        None \<Rightarrow> Inl MissingMetadata
      | Some (modality, flag) \<Rightarrow>
          rbind (case modality of
             Some m \<Rightarrow> if m \<noteq> stream_input_modality h then Inl (BadModality m) else Inr ()
           | None \<Rightarrow> Inr ()) (\<lambda>_.
          rbind (if flag = None then Inl MissingStreamFlag else Inr ()) (\<lambda>_.
          rbind (lift_hook (latch_metadata h st (modality, flag))) (\<lambda>st1.
          case it_tensor it of
             None \<Rightarrow> Inl NotATensor
           | Some codes \<Rightarrow> rbind (lift_hook (validate_chunk h st1 codes)) (\<lambda>c. Inr (ingest h st1 c))))))"

text \<open>A handler returns its outputs, or raises, together with the state it leaves.\<close>

type_synonym ('p, 'c, 's, 'w, 'd, 'e) handled = "('e voc_exn + ('w, 'd, 'e) voc_out list) \<times> ('p, 'c, 's, 'w, 'd, 'e) voc_state"

definition decode_and_emit ::
  "('p, 'c, 's, 'w, 'd, 'e) voc_hooks \<Rightarrow> string \<Rightarrow> 's \<Rightarrow> ('p, 'c, 's, 'w, 'd, 'e) voc_state \<Rightarrow> ('p, 'c, 's, 'w, 'd, 'e) handled" where
  "decode_and_emit h r st s =
     (if \<not> should_decode h st then (Inr [], store_state r st s)
      else case decode_delta h st False of
        Inl e \<Rightarrow> (Inl (Hook e), store_state r st s)
      | Inr (None, st1) \<Rightarrow> (Inr [], store_state r st1 s)
      | Inr (Some w, st1) \<Rightarrow> (Inr [OStream r w], mark_emitted r (store_state r st1 s)))"

definition voc_on_chunk ::
  "('p, 'c, 's, 'w, 'd, 'e) voc_hooks \<Rightarrow> string \<Rightarrow> 'c stream_item \<Rightarrow> ('p, 'c, 's, 'w, 'd, 'e) voc_state \<Rightarrow> ('p, 'c, 's, 'w, 'd, 'e) handled" where
  "voc_on_chunk h r it s =
     (case get_or_create h r s of
        (None, s1) \<Rightarrow> (Inr [], s1)
      | (Some st, s1) \<Rightarrow>
          (case ingest_checked h it st of
             Inl e \<Rightarrow> (Inl e, s1)
           | Inr st1 \<Rightarrow> decode_and_emit h r st1 s1))"

definition final_waveform :: "('p, 'c, 's, 'w, 'd, 'e) voc_hooks \<Rightarrow> bool \<Rightarrow> 'p \<Rightarrow> 's \<Rightarrow> 'e + 'w option \<times> 's" where
  "final_waveform h has_emitted payload st =
     rbind (decode_delta h st True) (\<lambda>(w, st1).
       if w = None \<and> \<not> has_emitted then rbind (fallback_full_decode h payload st1) (\<lambda>w1. Inr (w1, st1)) else Inr (w, st1))"

definition voc_on_done ::
  "('p, 'c, 's, 'w, 'd, 'e) voc_hooks \<Rightarrow> string \<Rightarrow> 'p \<Rightarrow> ('p, 'c, 's, 'w, 'd, 'e) voc_state \<Rightarrow> ('p, 'c, 's, 'w, 'd, 'e) handled" where
  "voc_on_done h r payload s =
     (case get_or_create h r s of
        (None, s1) \<Rightarrow> (Inr [], s1)
      | (Some st, s1) \<Rightarrow>
          (case final_waveform h (r \<in> set (emitted_ids s1)) payload st of
             Inl e \<Rightarrow> (Inl (Hook e), s1)
           | Inr (w, st1) \<Rightarrow>
               (let s2 = store_state r st1 s1; s3 = (if w = None then s2 else mark_emitted r s2) in
                case final_result_data h payload st1 of
                  Inl e \<Rightarrow> (Inl (Hook e), s3)
                | Inr d \<Rightarrow> (Inr (map (OStream r) (case w of None \<Rightarrow> [] | Some x \<Rightarrow> [x]) @ [OResult r d]), record_completed_stream r s3))))"

section \<open>The loop\<close>

definition abort_mark :: "('p, 'c, 's, 'w, 'd, 'e) voc_hooks \<Rightarrow> string \<Rightarrow> ('p, 'c, 's, 'w, 'd, 'e) voc_state \<Rightarrow> ('p, 'c, 's, 'w, 'd, 'e) voc_state" where
  "abort_mark h r s = (record_aborted (iter_order h) r s)\<lparr>clearing := r # clearing s\<rparr>"

text \<open>The outputs are put one by one unless the request is aborted; \<open>mid = Some k\<close>: an abort marks it after \<open>k\<close> of them.\<close>

definition put_unless_aborted :: "string \<Rightarrow> ('w, 'd, 'e) voc_out list \<Rightarrow> ('p, 'c, 's, 'w, 'd, 'e) voc_state \<Rightarrow> ('p, 'c, 's, 'w, 'd, 'e) voc_state" where
  "put_unless_aborted r os s = (if is_aborted s r then s else fold put_out os s)"

definition put_outs ::
  "('p, 'c, 's, 'w, 'd, 'e) voc_hooks \<Rightarrow> string \<Rightarrow> nat option \<Rightarrow> ('w, 'd, 'e) voc_out list \<Rightarrow> ('p, 'c, 's, 'w, 'd, 'e) voc_state \<Rightarrow>
   ('p, 'c, 's, 'w, 'd, 'e) voc_state" where
  "put_outs h r mid os s =
     (case mid of
        None \<Rightarrow> put_unless_aborted r os s
      | Some k \<Rightarrow> put_unless_aborted r (drop k os) (abort_mark h r (put_unless_aborted r (take k os) s)))"

text \<open>What the loop does when a handler raises.\<close>

definition fail_request :: "('p, 'c, 's, 'w, 'd, 'e) voc_hooks \<Rightarrow> string \<Rightarrow> 'e voc_exn \<Rightarrow> ('p, 'c, 's, 'w, 'd, 'e) voc_state \<Rightarrow> ('p, 'c, 's, 'w, 'd, 'e) voc_state" where
  "fail_request h r e s = abort_here (iter_order h) r (put_out (OError r e) s)"

definition handle_stream_chunk ::
  "('p, 'c, 's, 'w, 'd, 'e) voc_hooks \<Rightarrow> nat option \<Rightarrow> string \<Rightarrow> 'c stream_item option \<Rightarrow> ('p, 'c, 's, 'w, 'd, 'e) voc_state \<Rightarrow> ('p, 'c, 's, 'w, 'd, 'e) voc_state" where
  "handle_stream_chunk h mid r item s =
     (case item of
        None \<Rightarrow> fail_request h r NotAStreamItem s
      | Some it \<Rightarrow>
          (case voc_on_chunk h r it s of
             (Inl e, s1) \<Rightarrow> fail_request h r e s1
           | (Inr os, s1) \<Rightarrow> put_outs h r mid os s1))"

definition handle_stream_done ::
  "('p, 'c, 's, 'w, 'd, 'e) voc_hooks \<Rightarrow> nat option \<Rightarrow> string \<Rightarrow> ('p, 'c, 's, 'w, 'd, 'e) voc_state \<Rightarrow> ('p, 'c, 's, 'w, 'd, 'e) voc_state" where
  "handle_stream_done h mid r s =
     (case dget (stream_payloads s) r of
        None \<Rightarrow>
          if r \<in> set (completed_plain s) then s else s\<lparr>pending_done := List.insert r (pending_done s)\<rparr>
      | Some payload \<Rightarrow>
          (case voc_on_done h r payload s of
             (Inl e, s1) \<Rightarrow> fail_request h r e s1
           | (Inr os, s1) \<Rightarrow>
               (let s2 = put_outs h r mid os s1 in
                if is_aborted s2 r then s2 else voc_clear_request False r s2)))"

text \<open>\<^verbatim>\<open>_handle_streaming_new_request\<close>, after the last abort check.\<close>

definition handle_streaming_new_request ::
  "('p, 'c, 's, 'w, 'd, 'e) voc_hooks \<Rightarrow> nat option \<Rightarrow> string \<Rightarrow> 'p \<Rightarrow> ('p, 'c, 's, 'w, 'd, 'e) voc_state \<Rightarrow> ('p, 'c, 's, 'w, 'd, 'e) voc_state" where
  "handle_streaming_new_request h mid r payload s =
     (let s1 = s\<lparr>aborted_ids := removeAll r (aborted_ids s), completed_plain := removeAll r (completed_plain s),
                 stream_payloads := dset (stream_payloads s) r payload, completed_streams := removeAll r (completed_streams s)\<rparr> in
      case get_or_create h r s1 of
        (None, s2) \<Rightarrow> s2
      | (Some st, s2) \<Rightarrow>
          (case latch_payload h st payload of
             Inl e \<Rightarrow> fail_request h r (Hook e) s2
           | Inr st1 \<Rightarrow>
               (let s3 = store_state r st1 s2 in
                if r \<in> set (pending_done s3)
                then handle_stream_done h mid r (s3\<lparr>pending_done := removeAll r (pending_done s3)\<rparr>) else s3)))"

text \<open>The non-streaming path for one request: before the computation, and what follows it.\<close>

definition begin_plain :: "('p, 'c, 's, 'w, 'd, 'e) voc_hooks \<Rightarrow> string \<Rightarrow> 'p \<Rightarrow> ('p, 'c, 's, 'w, 'd, 'e) voc_state \<Rightarrow> ('p, 'c, 's, 'w, 'd, 'e) voc_state" where
  "begin_plain h r payload s =
     (if is_aborted s r then s
      else
        (let s1 = s\<lparr>pending_done := removeAll r (pending_done s)\<rparr> in
         case validate_non_streaming h payload of
           Inl e \<Rightarrow> record_completed_plain (iter_order h) r (put_out (OError r (Hook e)) s1)
         | Inr _ \<Rightarrow> s1\<lparr>vloop := VCompute r payload\<rparr>))"

definition finish_plain :: "('p, 'c, 's, 'w, 'd, 'e) voc_hooks \<Rightarrow> string \<Rightarrow> 'p \<Rightarrow> ('p, 'c, 's, 'w, 'd, 'e) voc_state \<Rightarrow> ('p, 'c, 's, 'w, 'd, 'e) voc_state" where
  "finish_plain h r payload s =
     (if is_aborted s r then s
      else record_completed_plain (iter_order h) r
        (put_out (case voc_compute h of
                    None \<Rightarrow> OError r NoCompute
                  | Some f \<Rightarrow> (case f payload of Inl e \<Rightarrow> OError r (Hook e) | Inr d \<Rightarrow> OResult r d)) s))"

text \<open>The head of the loop takes a message and checks for an abort; a new request is sorted by its kind.\<close>

definition voc_take :: "('p, 'c, 's, 'w, 'd, 'e) voc_state \<Rightarrow> ('p, 'c, 's, 'w, 'd, 'e) voc_state" where
  "voc_take s =
     (case vs_inbox s of
        [] \<Rightarrow> s
      | m # ms \<Rightarrow> (let s1 = s\<lparr>vs_inbox := ms\<rparr> in if is_aborted s1 (msg_id m) then s1 else s1\<lparr>vloop := VTaken m\<rparr>))"

definition handle_message ::
  "('p, 'c, 's, 'w, 'd, 'e) voc_hooks \<Rightarrow> nat option \<Rightarrow> ('p, 'c) voc_msg \<Rightarrow> ('p, 'c, 's, 'w, 'd, 'e) voc_state \<Rightarrow> ('p, 'c, 's, 'w, 'd, 'e) voc_state" where
  "handle_message h mid m s =
     (case m of
        VNew r payload \<Rightarrow>
          (case is_streaming_payload h payload of
             Inl e \<Rightarrow> fail_request h r (Hook e) s
           | Inr True \<Rightarrow> if is_aborted s r then s else s\<lparr>vloop := VRegister r payload\<rparr>
           | Inr False \<Rightarrow> begin_plain h r payload s)
      | VChunk r item \<Rightarrow> handle_stream_chunk h mid r item s
      | VDone r \<Rightarrow> handle_stream_done h mid r s)"

definition voc_loop_step :: "('p, 'c, 's, 'w, 'd, 'e) voc_hooks \<Rightarrow> nat option \<Rightarrow> ('p, 'c, 's, 'w, 'd, 'e) voc_state \<Rightarrow> ('p, 'c, 's, 'w, 'd, 'e) voc_state" where
  "voc_loop_step h mid s =
     (case vloop s of
        VIdle \<Rightarrow> voc_take s
      | VTaken m \<Rightarrow> handle_message h mid m (s\<lparr>vloop := VIdle\<rparr>)
      | VRegister r payload \<Rightarrow> handle_streaming_new_request h mid r payload (s\<lparr>vloop := VIdle\<rparr>)
      | VCompute r payload \<Rightarrow> finish_plain h r payload (s\<lparr>vloop := VIdle\<rparr>))"

text \<open>The second half of an abort, and the shutdown of the states.\<close>

definition abort_clear :: "string \<Rightarrow> ('p, 'c, 's, 'w, 'd, 'e) voc_state \<Rightarrow> ('p, 'c, 's, 'w, 'd, 'e) voc_state" where
  "abort_clear r s =
     (if r \<in> set (clearing s) then (voc_clear_request True r s)\<lparr>clearing := remove1 r (clearing s)\<rparr> else s)"

definition shutdown_stream_states :: "('p, 'c, 's, 'w, 'd, 'e) voc_state \<Rightarrow> ('p, 'c, 's, 'w, 'd, 'e) voc_state" where
  "shutdown_stream_states s =
     (fold clear_stream_state (map fst (stream_states s)) s)\<lparr>emitted_ids := [], completed_streams := []\<rparr>"

datatype ('p, 'c) voc_ev = VPut "('p, 'c) voc_msg" | AbortMark string | AbortClear string | VStep "nat option"

fun voc_step :: "('p, 'c, 's, 'w, 'd, 'e) voc_hooks \<Rightarrow> ('p, 'c, 's, 'w, 'd, 'e) voc_state \<Rightarrow> ('p, 'c) voc_ev \<Rightarrow> ('p, 'c, 's, 'w, 'd, 'e) voc_state" where
  "voc_step h s (VPut m) = s\<lparr>vs_inbox := vs_inbox s @ [m]\<rparr>"
| "voc_step h s (AbortMark r) = abort_mark h r s"
| "voc_step h s (AbortClear r) = abort_clear r s"
| "voc_step h s (VStep mid) = voc_loop_step h mid s"

section \<open>Accounting of stream states\<close>

text \<open>
  Every created state is live or was released once, and live states belong to requests that are neither completed nor aborted, unless an abort
  is about to clear them. \<open>X\<close> exempts requests whose completion is in progress.
\<close>

definition voc_ok :: "string set \<Rightarrow> ('p, 'c, 's, 'w, 'd, 'e) voc_state \<Rightarrow> bool" where
  "voc_ok X s \<longleftrightarrow>
     (\<forall>r. count_list (created s) r = count_list (released s) r + of_bool (dhas (stream_states s) r)) \<and>
     (\<forall>r. dhas (stream_states s) r \<longrightarrow> is_aborted s r \<longrightarrow> r \<in> set (clearing s)) \<and>
     (\<forall>r. r \<notin> X \<longrightarrow> dhas (stream_states s) r \<longrightarrow> r \<in> set (completed_streams s) \<longrightarrow> r \<in> set (clearing s))"

lemma voc_ok_fields:
  assumes "voc_ok X s" "created s' = created s" "released s' = released s" "stream_states s' = stream_states s" "clearing s' = clearing s"
    and "set (aborted_ids s') \<subseteq> set (aborted_ids s)" "set (completed_streams s') \<subseteq> set (completed_streams s)"
  shows "voc_ok X s'"
  using assms unfolding voc_ok_def is_aborted_def by (metis subsetD)

lemma voc_ok_simple [simp]:
  "voc_ok X (put_out m s) = voc_ok X s" "voc_ok X (s\<lparr>vs_inbox := i\<rparr>) = voc_ok X s" "voc_ok X (s\<lparr>vloop := l\<rparr>) = voc_ok X s"
  "voc_ok X (s\<lparr>pending_done := d\<rparr>) = voc_ok X s" "voc_ok X (mark_emitted r s) = voc_ok X s" "voc_ok X (record_completed_plain order r s) = voc_ok X s"
  by (simp_all add: voc_ok_def put_out_def mark_emitted_def record_completed_plain_def is_aborted_def)

lemma set_prune: "set (prune order xs) \<subseteq> set xs"
  by (auto simp: prune_def)

lemma count_list_snoc: "count_list (xs @ [y]) x = count_list xs x + of_bool (x = y)"
  by (simp add: count_list_append)

lemma clear_stream_ok:
  "voc_ok X s \<Longrightarrow> voc_ok (X - {r}) (clear_stream_state r s)"
  unfolding voc_ok_def clear_stream_state_def is_aborted_def by (auto simp: count_list_snoc of_bool_def split: if_splits)

lemma clear_request_ok:
  assumes "voc_ok X s"
  shows "voc_ok (X - {r}) (voc_clear_request keep r s)"
proof -
  let ?s = "s\<lparr>stream_payloads := ddel (stream_payloads s) r, pending_done := removeAll r (pending_done s)\<rparr>"
  have "voc_ok X ?s" using assms by (auto simp: voc_ok_def is_aborted_def)
  from clear_stream_ok [OF this, of r] have c: "voc_ok (X - {r}) (clear_stream_state r ?s)" .
  then have "voc_ok (X - {r}) ((clear_stream_state r ?s)\<lparr>aborted_ids := removeAll r (aborted_ids (clear_stream_state r ?s))\<rparr>)"
    by (rule voc_ok_fields) auto
  with c show ?thesis by (simp add: voc_clear_request_def Let_def)
qed

lemma states_clear [simp]:
  "stream_states (voc_clear_request keep r s) = ddel (stream_states s) r" "clearing (voc_clear_request keep r s) = clearing s"
  "completed_streams (voc_clear_request keep r s) = completed_streams s"
  "aborted_ids (voc_clear_request keep r s) = (if keep then aborted_ids s else removeAll r (aborted_ids s))"
  "created (voc_clear_request keep r s) = created s"
  by (simp_all add: voc_clear_request_def clear_stream_state_def Let_def)

lemma voc_ok_aborted:
  "voc_ok X s \<Longrightarrow> (\<And>x. x \<in> set A \<Longrightarrow> dhas (stream_states s) x \<Longrightarrow> x \<in> set (aborted_ids s)) \<Longrightarrow> voc_ok X (s\<lparr>aborted_ids := A\<rparr>)"
  by (auto simp: voc_ok_def is_aborted_def)

text \<open>An abort whole: its mark makes no difference for other requests, and the request itself loses its state.\<close>

lemma mark_clear_ok:
  assumes "voc_ok X s"
  shows "voc_ok (X - {r}) (voc_clear_request True r (record_aborted order r s))"
proof -
  let ?c = "voc_clear_request True r s" and ?a = "voc_clear_request True r (record_aborted order r s)"
  have c: "voc_ok (X - {r}) ?c" by (rule clear_request_ok [OF assms])
  have a: "?a = ?c\<lparr>aborted_ids := prune order (List.insert r (aborted_ids s))\<rparr>"
    by (simp add: voc_clear_request_def clear_stream_state_def record_aborted_def Let_def)
  show ?thesis unfolding a
  proof (rule voc_ok_aborted [OF c])
    fix x assume x: "x \<in> set (prune order (List.insert r (aborted_ids s)))" "dhas (stream_states ?c) x"
    then have "x \<noteq> r" "x \<in> set (List.insert r (aborted_ids s))" using set_prune [of order "List.insert r (aborted_ids s)"] by auto
    then show "x \<in> set (aborted_ids ?c)" by simp
  qed
qed

lemma abort_here_ok: "voc_ok X s \<Longrightarrow> voc_ok (X - {r}) (abort_here order r s)"
  by (simp add: abort_here_def mark_clear_ok)

lemma fail_request_ok: "voc_ok X s \<Longrightarrow> voc_ok (X - {r}) (fail_request h r e s)"
  by (simp add: fail_request_def abort_here_ok)

lemma abort_mark_ok:
  assumes "voc_ok X s"
  shows "voc_ok X (abort_mark h r s)"
proof -
  have "x \<in> set (clearing (abort_mark h r s))" if "is_aborted (abort_mark h r s) x" "dhas (stream_states s) x" for x
    using that assms set_prune [of "iter_order h" "List.insert r (aborted_ids s)"]
    by (auto simp: abort_mark_def record_aborted_def is_aborted_def voc_ok_def)
  then show ?thesis using assms by (auto simp: voc_ok_def abort_mark_def record_aborted_def)
qed

lemma put_unless_ok [simp]: "voc_ok X (put_unless_aborted r os s) = voc_ok X s"
proof -
  have "voc_ok X (fold put_out os s) = voc_ok X s" by (induction os arbitrary: s) simp_all
  then show ?thesis by (simp add: put_unless_aborted_def)
qed

lemma put_outs_ok: "voc_ok X s \<Longrightarrow> voc_ok X (put_outs h r mid os s)"
  by (simp add: put_outs_def abort_mark_ok split: option.split)

lemma get_or_create_ok:
  assumes "voc_ok X s" "get_or_create h r s = (st, s1)"
  shows "voc_ok X s1" "st \<noteq> None \<Longrightarrow> dhas (stream_states s1) r" "stream_payloads s1 = stream_payloads s"
  using assms
  by (auto simp: get_or_create_def voc_ok_def is_aborted_def Let_def dhas_dget count_list_snoc split: option.splits if_splits)

lemma store_state_ok: "voc_ok X s \<Longrightarrow> dhas (stream_states s) r \<Longrightarrow> voc_ok X (store_state r st s)"
  by (auto simp: voc_ok_def store_state_def is_aborted_def)

lemma record_completed_ok: "voc_ok X s \<Longrightarrow> voc_ok (insert r X) (record_completed_stream r s)"
  by (auto simp: voc_ok_def record_completed_stream_def is_aborted_def Let_def dest: in_set_dropD split: if_splits)

lemma voc_ok_weaken: "voc_ok X s \<Longrightarrow> X \<subseteq> Y \<Longrightarrow> voc_ok Y s"
  by (auto simp: voc_ok_def)

lemma voc_on_chunk_ok:
  assumes "voc_ok X s"
  shows "voc_ok X (snd (voc_on_chunk h r it s))"
proof -
  obtain st s1 where g: "get_or_create h r s = (st, s1)" by (cases "get_or_create h r s")
  note G = get_or_create_ok [OF assms g]
  have "voc_ok X (snd (decode_and_emit h r st1 s1))" if "st \<noteq> None" for st1
    using G(1,2) that by (auto simp: decode_and_emit_def store_state_ok split: sum.split prod.split option.split)
  with G(1) g show ?thesis by (cases st) (auto simp: voc_on_chunk_def split: sum.split)
qed

lemma voc_on_done_ok:
  assumes "voc_ok X s"
  shows "voc_ok (insert r X) (snd (voc_on_done h r payload s))"
proof -
  obtain st s1 where g: "get_or_create h r s = (st, s1)" by (cases "get_or_create h r s")
  note G = get_or_create_ok [OF assms g]
  have "voc_ok X (store_state r st1 s1)" if "st \<noteq> None" for st1 using G(1,2) that by (simp add: store_state_ok)
  with G(1) g show ?thesis
    by (cases st) (auto simp: voc_on_done_def Let_def intro: voc_ok_weaken record_completed_ok split: sum.split prod.split option.split)
qed

lemma fail_request_ok0: "voc_ok {} s \<Longrightarrow> voc_ok {} (fail_request h r e s)" "voc_ok {r} s \<Longrightarrow> voc_ok {} (fail_request h r e s)"
  using fail_request_ok [of "{}" s r h e] fail_request_ok [of "{r}" s r h e] by simp_all

lemma handle_stream_chunk_ok:
  assumes "voc_ok {} s"
  shows "voc_ok {} (handle_stream_chunk h mid r item s)"
proof (cases item)
  case (Some it)
  obtain res s1 where o: "voc_on_chunk h r it s = (res, s1)" by (cases "voc_on_chunk h r it s")
  with voc_on_chunk_ok [OF assms, of h r it] have "voc_ok {} s1" by simp
  with Some o show ?thesis by (cases res) (simp_all add: handle_stream_chunk_def fail_request_ok0 put_outs_ok)
qed (simp add: handle_stream_chunk_def fail_request_ok0 assms)

lemma handle_stream_done_ok:
  assumes "voc_ok {} s"
  shows "voc_ok {} (handle_stream_done h mid r s)"
proof (cases "dget (stream_payloads s) r")
  case (Some payload)
  obtain res s1 where o: "voc_on_done h r payload s = (res, s1)" by (cases "voc_on_done h r payload s")
  with voc_on_done_ok [OF assms, of r h payload] have s1: "voc_ok {r} s1" by simp
  show ?thesis
  proof (cases res)
    case (Inr os)
    let ?s2 = "put_outs h r mid os s1"
    have s2: "voc_ok {r} ?s2" by (rule put_outs_ok [OF s1])
    have "voc_ok {} ?s2" if "is_aborted ?s2 r" using s2 that by (auto simp: voc_ok_def)
    moreover have "voc_ok {} (voc_clear_request False r ?s2)" using clear_request_ok [OF s2, of r] by simp
    ultimately show ?thesis using Some o Inr by (simp add: handle_stream_done_def Let_def)
  qed (use Some o s1 in \<open>simp add: handle_stream_done_def fail_request_ok0\<close>)
qed (use assms in \<open>simp add: handle_stream_done_def\<close>)

lemma handle_new_ok:
  assumes "voc_ok {} s"
  shows "voc_ok {} (handle_streaming_new_request h mid r payload s)"
proof -
  let ?s1 = "s\<lparr>aborted_ids := removeAll r (aborted_ids s), completed_plain := removeAll r (completed_plain s),
     stream_payloads := dset (stream_payloads s) r payload, completed_streams := removeAll r (completed_streams s)\<rparr>"
  have s1: "voc_ok {} ?s1" by (rule voc_ok_fields [OF assms]) auto
  obtain st s2 where g: "get_or_create h r ?s1 = (st, s2)" by (cases "get_or_create h r ?s1")
  note G = get_or_create_ok [OF s1 g]
  show ?thesis
  proof (cases st)
    case (Some x)
    then have "voc_ok {} (store_state r st1 s2)" for st1 using G by (simp add: store_state_ok)
    with Some g G(1) show ?thesis
      by (auto simp: handle_streaming_new_request_def Let_def fail_request_ok0 handle_stream_done_ok split: sum.split)
  qed (use g G(1) in \<open>simp add: handle_streaming_new_request_def Let_def\<close>)
qed

lemma voc_step_ok:
  assumes "voc_ok {} s"
  shows "voc_ok {} (voc_step h s ev)"
proof (cases ev)
  case (AbortClear r)
  have "voc_ok {} (voc_clear_request True r s)" using clear_request_ok [OF assms, of r True] by simp
  then have "voc_ok {} ((voc_clear_request True r s)\<lparr>clearing := remove1 r (clearing s)\<rparr>)"
    by (auto simp: voc_ok_def is_aborted_def in_set_remove1)
  with AbortClear assms show ?thesis by (simp add: abort_clear_def)
next
  case (VStep mid)
  have m: "voc_ok {} (handle_message h mid m (s\<lparr>vloop := VIdle\<rparr>))" for m
    using assms
    by (auto simp: handle_message_def begin_plain_def Let_def fail_request_ok0 handle_stream_chunk_ok handle_stream_done_ok
        split: voc_msg.split sum.split bool.split)
  show ?thesis using assms VStep
    by (auto simp: voc_loop_step_def voc_take_def finish_plain_def m handle_new_ok Let_def split: voc_loop.split list.split)
qed (use assms in \<open>simp_all add: abort_mark_ok\<close>)

interpretation voc: machine "voc_step h" "voc_ok {}" for h :: "('p, 'c, 's, 'w, 'd, 'e) voc_hooks"
  by unfold_locales (rule voc_step_ok)

lemma shutdown_states:
  assumes "voc_ok X s"
  shows "\<exists>Y. voc_ok Y (fold clear_stream_state rs s) \<and> (\<forall>r. dhas (stream_states (fold clear_stream_state rs s)) r \<longleftrightarrow> dhas (stream_states s) r \<and> r \<notin> set rs)"
  using assms
proof (induction rs arbitrary: s X)
  case (Cons x rs)
  from Cons.IH [OF clear_stream_ok [OF Cons.prems, of x]] show ?case by (auto simp: clear_stream_state_def)
qed auto

lemma shutdown_accounted:
  assumes "voc_ok {} s"
  shows "count_list (created (shutdown_stream_states s)) r = count_list (released (shutdown_stream_states s)) r"
proof -
  let ?f = "fold clear_stream_state (map fst (stream_states s)) s"
  from shutdown_states [OF assms, of "map fst (stream_states s)"] obtain Y where "voc_ok Y ?f" "\<not> dhas (stream_states ?f) r"
    by (auto simp: dhas_iff)
  then show ?thesis by (simp add: voc_ok_def shutdown_stream_states_def)
qed

text \<open>
  C25: no stream state is leaked. However messages, handlers, failures and the two halves of concurrent aborts interleave, every stream state that was created
  has been released exactly once or is live; once no abort is in progress, no state is live for a request that has completed or is marked aborted; and a shutdown
  releases what is left.
\<close>

theorem vocoder_states_accounted:
  "let s = run (voc_step h) voc_init evs in
    count_list (created s) r = count_list (released s) r + of_bool (dhas (stream_states s) r) \<and>
    \<not> (clearing s = [] \<and> dhas (stream_states s) r \<and> (r \<in> set (completed_streams s) \<or> is_aborted s r)) \<and>
    count_list (created (shutdown_stream_states s)) r = count_list (released (shutdown_stream_states s)) r"
proof -
  have ok: "voc_ok {} (run (voc_step h) voc_init evs)" by (rule voc.inv_run) (simp add: voc_ok_def voc_init_def)
  from shutdown_accounted [OF this, of r] ok show ?thesis unfolding Let_def voc_ok_def by auto
qed

section \<open>The end of a stream\<close>

lemma fold_put_out: "vs_outbox (fold put_out os s) = vs_outbox s @ os"
  by (induction os arbitrary: s) (simp_all add: put_out_def)

lemma fold_put_out_fields:
  "stream_states (fold put_out os s) = stream_states s" "stream_payloads (fold put_out os s) = stream_payloads s" "aborted_ids (fold put_out os s) = aborted_ids s"
  by (induction os arbitrary: s) (simp_all add: put_out_def)

text \<open>
  The end of a stream. For a registered request that is not aborted and whose hooks return, the end of its stream puts the remaining audio, or the whole
  utterance when no audio was put before, and then one result as the last message of the request; nothing of the request is kept.
\<close>

theorem stream_done_finishes:
  assumes p: "dget (stream_payloads s) r = Some payload" "\<not> is_aborted s r" and g: "get_or_create h r s = (Some st, s1)"
    and f: "final_waveform h (r \<in> set (emitted_ids s)) payload st = Inr (w, st1)" "final_result_data h payload st1 = Inr d"
  shows "let s' = handle_stream_done h None r s in
    vs_outbox s' = vs_outbox s @ map (OStream r) (case w of None \<Rightarrow> [] | Some x \<Rightarrow> [x]) @ [OResult r d] \<and>
    \<not> dhas (stream_states s') r \<and> \<not> dhas (stream_payloads s') r \<and> r \<notin> set (pending_done s')"
proof -
  have g1: "emitted_ids s1 = emitted_ids s" "vs_outbox s1 = vs_outbox s" "aborted_ids s1 = aborted_ids s" "stream_payloads s1 = stream_payloads s"
    using g by (auto simp: get_or_create_def Let_def split: option.splits if_splits)
  define s3 where "s3 = record_completed_stream r (if w = None then store_state r st1 s1 else mark_emitted r (store_state r st1 s1))"
  have s3: "vs_outbox s3 = vs_outbox s" "aborted_ids s3 = aborted_ids s"
    by (simp_all add: s3_def record_completed_stream_def store_state_def mark_emitted_def Let_def g1)
  have "voc_on_done h r payload s = (Inr (map (OStream r) (case w of None \<Rightarrow> [] | Some x \<Rightarrow> [x]) @ [OResult r d]), s3)"
    using g f g1(1) by (simp add: voc_on_done_def Let_def s3_def)
  with p s3 show ?thesis
    by (auto simp: handle_stream_done_def put_outs_def put_unless_aborted_def is_aborted_def fold_put_out
        fold_put_out_fields voc_clear_request_def clear_stream_state_def put_out_def Let_def)
qed

text \<open>A chunk that comes after its request was completed or aborted is dropped and creates nothing.\<close>

lemma late_chunk_dropped:
  assumes "\<not> dhas (stream_states s) r" "r \<in> set (completed_streams s) \<or> is_aborted s r"
  shows "handle_stream_chunk h None r (Some it) s = s"
proof -
  have "get_or_create h r s = (None, s)" using assms by (auto simp: get_or_create_def not_dhas_dget)
  then show ?thesis by (simp add: handle_stream_chunk_def voc_on_chunk_def put_outs_def put_unless_aborted_def)
qed

section \<open>An abort can be lost\<close>

text \<open>
  An abort during the registration of a stream is lost. When a request is aborted after the scheduler last checked for an abort and before it registers the
  stream, the abort completes, and the registration then removes its mark and creates the state: the request runs as if it had not been aborted.
\<close>

theorem abort_lost_at_registration:
  assumes "vloop s = VRegister r payload" "latch_payload h (create_stream_state h r) payload = Inr st"
  shows "let s' = run (voc_step h) s [AbortMark r, AbortClear r, VStep None] in
    \<not> is_aborted s' r \<and> dget (stream_payloads s') r = Some payload \<and> dget (stream_states s') r = Some st"
proof -
  define s2 where "s2 = run (voc_step h) s [AbortMark r, AbortClear r]"
  have s2: "vloop s2 = VRegister r payload" "dget (stream_states s2) r = None" "r \<notin> set (pending_done s2)"
    using assms(1) by (simp_all add: s2_def abort_mark_def abort_clear_def record_aborted_def voc_clear_request_def clear_stream_state_def Let_def)
  have "run (voc_step h) s [AbortMark r, AbortClear r, VStep None] = voc_step h s2 (VStep None)" by (simp add: s2_def)
  with s2 assms(2) show ?thesis
    by (simp add: voc_loop_step_def handle_streaming_new_request_def get_or_create_def store_state_def is_aborted_def Let_def)
qed

text \<open>A vocoder over numbers: a state is the list of ingested codes, decoded as their number.\<close>

definition demo_hooks :: "(bool, nat, nat list, nat, nat, string) voc_hooks" where
  "demo_hooks = \<lparr>stream_input_modality = ''audio_codes'', is_streaming_payload = Inr, create_stream_state = (\<lambda>_. []), latch_payload = (\<lambda>st _. Inr st),
     latch_metadata = (\<lambda>st _. Inr st), validate_chunk = (\<lambda>_. Inr), ingest = (\<lambda>st c. st @ [c]), should_decode = (\<lambda>st. 2 \<le> length st),
     decode_delta = (\<lambda>st _. Inr (if st = [] then None else Some (length st), [])), fallback_full_decode = (\<lambda>_ _. Inr (Some 0)),
     final_result_data = (\<lambda>_ _. Inr 1), validate_non_streaming = (\<lambda>_. Inr ()), voc_compute = None, iter_order = id\<rparr>"

theorem abort_lost_at_registration_witness:
  "let s' = run (voc_step demo_hooks) (run (voc_step demo_hooks) voc_init [VPut (VNew ''r'' True), VStep None, VStep None]) [AbortMark ''r'', AbortClear ''r'', VStep None] in
   \<not> is_aborted s' ''r'' \<and> dget (stream_payloads s') ''r'' = Some True \<and> dget (stream_states s') ''r'' = Some []"
  by (rule abort_lost_at_registration)
    (simp_all add: voc_init_def voc_loop_step_def voc_take_def handle_message_def demo_hooks_def is_aborted_def Let_def)

theorem stream_done_finishes_witness:
  "let s' = handle_stream_done demo_hooks None ''r'' (voc_init\<lparr>stream_payloads := [(''r'', True)], stream_states := [(''r'', [5, 6, 7])]\<rparr>) in
   vs_outbox s' = [OStream ''r'' 3, OResult ''r'' 1] \<and> \<not> dhas (stream_states s') ''r''"
proof -
  let ?s = "voc_init\<lparr>stream_payloads := [(''r'', True)], stream_states := [(''r'', [5, 6, 7])]\<rparr> :: (bool, nat, nat list, nat, nat, string) voc_state"
  have "dget (stream_payloads ?s) ''r'' = Some True" "\<not> is_aborted ?s ''r''" "get_or_create demo_hooks ''r'' ?s = (Some [5, 6, 7], ?s)"
    "final_waveform demo_hooks (''r'' \<in> set (emitted_ids ?s)) True [5, 6, 7] = Inr (Some 3, [])" "final_result_data demo_hooks True [] = Inr 1"
    by (simp_all add: voc_init_def is_aborted_def get_or_create_def final_waveform_def demo_hooks_def)
  from stream_done_finishes [OF this] show ?thesis by (simp add: Let_def voc_init_def)
qed

end
