(* ===== verification/Voice_Routing.thy ===== *)
theory Voice_Routing
  imports Router_Worker
begin

text \<open>
  Exact-owner routing of uploaded voices, \<^verbatim>\<open>sglang_omni_router/python/voice_routing.py\<close>, with the way \<^verbatim>\<open>proxy.py\<close> drives a voice upload or
  deletion through it. The registry of the owner is part of the environment: it changes when the owner commits a mutation, at any moment while the
  request is open, and is read at some moment of a refresh.
\<close>

section \<open>Names and payloads\<close>

text \<open>What a decoded JSON document or an argument of unchecked type can be.\<close>

datatype json = JString string | JObject "(string, json) dict" | JArray "json list" | JNull | JOther nat

definition normalize_voice_name :: "json \<Rightarrow> string option" where
  "normalize_voice_name v =
     (case v of JString s \<Rightarrow> (let n = py_lower (py_strip s) in if n = [] then None else Some n) | _ \<Rightarrow> None)"

datatype voice_error = NotAnObject | NotAList | BadName | MissingVoices | BadMetadata

definition jget :: "(string, json) dict \<Rightarrow> string \<Rightarrow> json" where
  "jget d k = (case dget d k of None \<Rightarrow> JNull | Some v \<Rightarrow> v)"

definition metadata_name :: "json \<Rightarrow> voice_error + string" where
  "metadata_name item =
     (case item of
        JObject d \<Rightarrow> (case normalize_voice_name (jget d ''name'') of None \<Rightarrow> Inl BadName | Some n \<Rightarrow> Inr n)
      | _ \<Rightarrow> Inl BadMetadata)"

definition uploaded_voice_names :: "json \<Rightarrow> voice_error + string list" where
  "uploaded_voice_names payload =
     (case payload of
        JObject d \<Rightarrow>
          (case jget d ''uploaded_voice_names'' of
             JArray xs \<Rightarrow> rbind (rmap (\<lambda>x. case normalize_voice_name x of None \<Rightarrow> Inl BadName | Some n \<Rightarrow> Inr n) xs) (\<lambda>ns. Inr (remdups ns))
           | JNull \<Rightarrow>
               (case jget d ''uploaded_voices'' of
                  JArray xs \<Rightarrow> rbind (rmap metadata_name xs) (\<lambda>ns. Inr (remdups ns))
                | _ \<Rightarrow> Inl MissingVoices)
           | _ \<Rightarrow> Inl NotAList)
      | _ \<Rightarrow> Inl NotAnObject)"

section \<open>Routing state\<close>

record voice_state =
  vr_workers :: "worker list"
  owner_url :: "string option"
  uploaded_names :: "string list"
  is_active :: bool
  is_hydrated :: bool
  is_registry_dirty :: bool
  is_reconciling :: bool
  mutations_inflight :: nat
  last_refresh_error :: "string option"
  registry_generation :: nat
  refresh_requested :: bool

definition new_voice_state :: "worker list \<Rightarrow> string option \<Rightarrow> voice_state" where
  "new_voice_state ws url =
     \<lparr>vr_workers = ws, owner_url = url, uploaded_names = [], is_active = False, is_hydrated = False, is_registry_dirty = False, is_reconciling = False,
      mutations_inflight = 0, last_refresh_error = None, registry_generation = 0, refresh_requested = False\<rparr>"

definition VOICE_OWNER_CAPABILITIES :: "string list" where
  "VOICE_OWNER_CAPABILITIES = [''speech'', ''audio_input'']"

definition can_own_uploaded_voices :: "string list \<Rightarrow> bool" where
  "can_own_uploaded_voices caps = list_all (\<lambda>c. c \<in> set caps) VOICE_OWNER_CAPABILITIES"

definition owner :: "voice_state \<Rightarrow> worker option" where
  "owner s = (case owner_url s of None \<Rightarrow> None | Some u \<Rightarrow> List.find (\<lambda>w. w_url w = u) (vr_workers s))"

definition ensure_owner :: "voice_state \<Rightarrow> worker option \<times> voice_state" where
  "ensure_owner s =
     (if owner s \<noteq> None \<or> owner_url s \<noteq> None then (owner s, s)
      else case List.find (\<lambda>w. is_routable w \<and> can_own_uploaded_voices (w_capabilities w)) (vr_workers s) of
        None \<Rightarrow> (None, s)
      | Some w \<Rightarrow> (Some w, s\<lparr>owner_url := Some (w_url w)\<rparr>))"

definition request_refresh :: "voice_state \<Rightarrow> voice_state" where
  "request_refresh s = (if is_active s \<and> \<not> is_reconciling s then s\<lparr>refresh_requested := True\<rparr> else s)"

definition activate :: "voice_state \<Rightarrow> voice_state" where
  "activate s = (if is_active s then s else request_refresh (s\<lparr>is_active := True\<rparr>))"

definition mark_uncertain :: "voice_state \<Rightarrow> voice_state" where
  "mark_uncertain s =
     s\<lparr>is_active := True, is_registry_dirty := True, last_refresh_error := Some ''mutation outcome is uncertain'', refresh_requested := True\<rparr>"

definition begin_mutation :: "voice_state \<Rightarrow> voice_state" where
  "begin_mutation s =
     s\<lparr>is_active := True, mutations_inflight := Suc (mutations_inflight s), registry_generation := Suc (registry_generation s)\<rparr>"

definition mark_mutation_dispatched :: "voice_state \<Rightarrow> voice_state" where
  "mark_mutation_dispatched s = s\<lparr>is_registry_dirty := True\<rparr>"

definition end_mutation :: "voice_state \<Rightarrow> voice_state" where
  "end_mutation s =
     (let n = mutations_inflight s - 1 in
      s\<lparr>mutations_inflight := n, refresh_requested := (if n = 0 then True else refresh_requested s)\<rparr>)"

datatype voice_mutation = Upload string | Delete string

definition apply_mutation :: "voice_mutation \<Rightarrow> voice_state \<Rightarrow> voice_state" where
  "apply_mutation m s =
     (case m of
        Upload n \<Rightarrow> s\<lparr>uploaded_names := List.insert n (uploaded_names s)\<rparr>
      | Delete n \<Rightarrow> s\<lparr>uploaded_names := removeAll n (uploaded_names s)\<rparr>)"

text \<open>\<^verbatim>\<open>requires_owner\<close> of the voices a request names.\<close>

definition requires_owner :: "json list \<Rightarrow> bool \<Rightarrow> voice_state \<Rightarrow> bool \<times> voice_state" where
  "requires_owner voice_names over_limit s =
     (case ensure_owner s of
        (None, s1) \<Rightarrow> (False, s1)
      | (Some _, s1) \<Rightarrow>
          if over_limit then (True, s1)
          else
            (let names = filter (\<lambda>n. n \<noteq> ''default'') (List.map_filter normalize_voice_name voice_names) in
             if names = [] then (False, s1)
             else
               (let s2 = activate s1 in
                if \<not> is_hydrated s2 \<or> is_registry_dirty s2 \<or> 0 < mutations_inflight s2 then (True, request_refresh s2)
                else (list_ex (\<lambda>n. n \<in> set (uploaded_names s2)) names, s2))))"

text \<open>\<^verbatim>\<open>_reconcile_once\<close> up to the fetch (\<open>Inl\<close>: no fetch, and whether to retry), and after it.\<close>

definition reconcile_start :: "voice_state \<Rightarrow> (bool + nat) \<times> voice_state" where
  "reconcile_start s =
     (if 0 < mutations_inflight s then (Inl False, s)
      else case owner s of
        None \<Rightarrow> (Inl (\<not> is_hydrated s \<or> is_registry_dirty s), s)
      | Some w \<Rightarrow>
          if \<not> is_routable w then (Inl (\<not> is_hydrated s \<or> is_registry_dirty s), s)
          else (Inr (registry_generation s), s\<lparr>is_reconciling := True\<rparr>))"

definition reconcile_done :: "nat \<Rightarrow> string + string list \<Rightarrow> voice_state \<Rightarrow> bool \<times> voice_state" where
  "reconcile_done gen fetched s =
     (let s0 = s\<lparr>is_reconciling := False\<rparr> in
      case fetched of
        Inl err \<Rightarrow> (True, s0\<lparr>last_refresh_error := Some err\<rparr>)
      | Inr names \<Rightarrow>
          if registry_generation s \<noteq> gen \<or> 0 < mutations_inflight s then (True, s0)
          else (False, s0\<lparr>uploaded_names := names, is_hydrated := True, is_registry_dirty := False, last_refresh_error := None\<rparr>))"

definition registry_state :: "voice_state \<Rightarrow> string" where
  "registry_state s =
     (if owner s = None then ''unassigned''
      else if \<not> is_active s then ''inactive''
      else if 0 < mutations_inflight s then ''mutating''
      else if is_reconciling s then (if is_hydrated s then ''refreshing'' else ''hydrating'')
      else if \<not> is_hydrated s then (if last_refresh_error s \<noteq> None then ''degraded'' else ''pending'')
      else if is_registry_dirty s then ''degraded''
      else if last_refresh_error s \<noteq> None then ''stale''
      else ''ready'')"

section \<open>Router and owner together\<close>

text \<open>
  A mutation request from its first to its last touch of the routing state. Once it is sent, the proxy either receives the response headers
  (\<^verbatim>\<open>mark_mutation_dispatched\<close>) or an error (\<^verbatim>\<open>mark_uncertain\<close>) before it ends; both are \<open>noted\<close>.
\<close>

record mutation_request =
  mu_op :: voice_mutation
  mu_sent :: bool
  mu_committed :: bool
  mu_noted :: bool

record voice_system =
  vsys :: voice_state
  registry :: "string list"
  muts :: "(nat, mutation_request) dict"
  fetching :: "(nat \<times> string list option) option"
  retrying :: bool

definition commit :: "voice_mutation \<Rightarrow> string list \<Rightarrow> string list" where
  "commit m reg = (case m of Upload n \<Rightarrow> List.insert n reg | Delete n \<Rightarrow> removeAll n reg)"

datatype voice_ev =
    MutBegin nat voice_mutation
  | MutSend nat
  | MutCommit nat
  | MutDispatched nat
  | MutUncertain nat
  | MutApply nat
  | MutEnd nat
  | RefreshStart
  | RetryTimer
  | FetchRead
  | RefreshDone "string option"
  | Query "json list" bool
  | WorkersChange "worker list"
  | LateCommit voice_mutation

definition upd_mut :: "nat \<Rightarrow> (mutation_request \<Rightarrow> mutation_request) \<Rightarrow> voice_system \<Rightarrow> voice_system" where
  "upd_mut i f s = (case dget (muts s) i of None \<Rightarrow> s | Some m \<Rightarrow> s\<lparr>muts := dset (muts s) i (f m)\<rparr>)"

definition guarded :: "nat \<Rightarrow> (mutation_request \<Rightarrow> bool) \<Rightarrow> (mutation_request \<Rightarrow> voice_system \<Rightarrow> voice_system) \<Rightarrow> voice_system \<Rightarrow> voice_system" where
  "guarded i P f s = (case dget (muts s) i of None \<Rightarrow> s | Some m \<Rightarrow> if P m then f m s else s)"

text \<open>
  \<open>RefreshStart\<close>, \<open>FetchRead\<close> and \<open>RefreshDone\<close> are one round of the loop \<^verbatim>\<open>_run_reconciliation\<close>, which starts only when a refresh is
  requested and clears the request; \<open>RetryTimer\<close> is the timer armed when a round asks for a retry.
  \<open>LateCommit\<close> is a mutation the owner commits after the router has given up on it (a request that timed out or was cancelled).
\<close>

fun voice_step :: "voice_system \<Rightarrow> voice_ev \<Rightarrow> voice_system" where
  "voice_step s (MutBegin i m) =
     (if dhas (muts s) i then s
      else s\<lparr>vsys := begin_mutation (vsys s), muts := dset (muts s) i \<lparr>mu_op = m, mu_sent = False, mu_committed = False, mu_noted = False\<rparr>\<rparr>)"
| "voice_step s (MutSend i) = upd_mut i (\<lambda>m. m\<lparr>mu_sent := True\<rparr>) s"
| "voice_step s (MutCommit i) =
     guarded i (\<lambda>m. mu_sent m \<and> \<not> mu_committed m)
       (\<lambda>m s. upd_mut i (\<lambda>m. m\<lparr>mu_committed := True\<rparr>) (s\<lparr>registry := commit (mu_op m) (registry s)\<rparr>)) s"
| "voice_step s (MutDispatched i) =
     guarded i mu_sent (\<lambda>_ s. upd_mut i (\<lambda>m. m\<lparr>mu_noted := True\<rparr>) (s\<lparr>vsys := mark_mutation_dispatched (vsys s)\<rparr>)) s"
| "voice_step s (MutUncertain i) =
     guarded i mu_sent (\<lambda>_ s. upd_mut i (\<lambda>m. m\<lparr>mu_noted := True\<rparr>) (s\<lparr>vsys := mark_uncertain (vsys s)\<rparr>)) s"
| "voice_step s (MutApply i) = guarded i mu_noted (\<lambda>m s. s\<lparr>vsys := apply_mutation (mu_op m) (vsys s)\<rparr>) s"
| "voice_step s (MutEnd i) =
     guarded i (\<lambda>m. mu_noted m \<or> \<not> mu_sent m) (\<lambda>_ s. s\<lparr>vsys := end_mutation (vsys s), muts := ddel (muts s) i\<rparr>) s"
| "voice_step s RefreshStart =
     (if fetching s \<noteq> None \<or> \<not> refresh_requested (vsys s) then s
      else case reconcile_start ((vsys s)\<lparr>refresh_requested := False\<rparr>) of
        (Inl retry, v) \<Rightarrow> s\<lparr>vsys := v, retrying := retry\<rparr>
      | (Inr gen, v) \<Rightarrow> s\<lparr>vsys := v, fetching := Some (gen, None), retrying := False\<rparr>)"
| "voice_step s RetryTimer = (if retrying s then s\<lparr>vsys := (vsys s)\<lparr>refresh_requested := True\<rparr>, retrying := False\<rparr> else s)"
| "voice_step s FetchRead =
     (case fetching s of Some (gen, None) \<Rightarrow> s\<lparr>fetching := Some (gen, Some (registry s))\<rparr> | _ \<Rightarrow> s)"
| "voice_step s (RefreshDone err) =
     (case (fetching s, err) of
        (Some (gen, _), Some e) \<Rightarrow>
          (case reconcile_done gen (Inl e) (vsys s) of (retry, v) \<Rightarrow> s\<lparr>vsys := v, fetching := None, retrying := retry\<rparr>)
      | (Some (gen, Some names), None) \<Rightarrow>
          (case reconcile_done gen (Inr names) (vsys s) of (retry, v) \<Rightarrow> s\<lparr>vsys := v, fetching := None, retrying := retry\<rparr>)
      | _ \<Rightarrow> s)"
| "voice_step s (Query names over_limit) = s\<lparr>vsys := snd (requires_owner names over_limit (vsys s))\<rparr>"
| "voice_step s (WorkersChange ws) = s\<lparr>vsys := (vsys s)\<lparr>vr_workers := ws\<rparr>\<rparr>"
| "voice_step s (LateCommit m) = s\<lparr>registry := commit m (registry s)\<rparr>"

definition voice_start :: "worker list \<Rightarrow> string option \<Rightarrow> string list \<Rightarrow> voice_system" where
  "voice_start ws url reg = \<lparr>vsys = new_voice_state ws url, registry = reg, muts = [], fetching = None, retrying = False\<rparr>"

section \<open>Invariant\<close>


definition clean :: "voice_state \<Rightarrow> bool" where
  "clean v \<longleftrightarrow> is_hydrated v \<and> \<not> is_registry_dirty v"

definition mutation_ok :: "voice_state \<Rightarrow> mutation_request \<Rightarrow> bool" where
  "mutation_ok v m \<longleftrightarrow> (mu_committed m \<longrightarrow> mu_sent m) \<and> (mu_noted m \<longrightarrow> is_registry_dirty v)"

definition uncommitted :: "(nat, mutation_request) dict \<Rightarrow> bool" where
  "uncommitted d \<longleftrightarrow> (\<forall>i m. dget d i = Some m \<longrightarrow> \<not> mu_committed m)"

definition mutations_ok :: "voice_state \<Rightarrow> (nat, mutation_request) dict \<Rightarrow> bool" where
  "mutations_ok v d \<longleftrightarrow> (\<forall>i m. dget d i = Some m \<longrightarrow> mutation_ok v m)"





definition voice_inv :: "voice_system \<Rightarrow> bool" where
  "voice_inv s \<longleftrightarrow>
     mutations_inflight (vsys s) = length (muts s) \<and> dict_ok (muts s) \<and>
     mutations_ok (vsys s) (muts s) \<and>
     (clean (vsys s) \<longrightarrow> uncommitted (muts s) \<longrightarrow> set (uploaded_names (vsys s)) = set (registry s)) \<and>
     (case fetching s of
        None \<Rightarrow> True
      | Some (gen, snap) \<Rightarrow>
          gen \<le> registry_generation (vsys s) \<and>
          (gen = registry_generation (vsys s) \<longrightarrow> muts s = [] \<and> (\<forall>names. snap = Some names \<longrightarrow> set names = set (registry s))))"




lemma voice_inv_retrying [simp]: "voice_inv (s\<lparr>retrying := b\<rparr>) = voice_inv s"
  by (simp add: voice_inv_def split: option.split)


lemma fetching_muts: "voice_inv s \<Longrightarrow> fetching s = Some (gen, snap) \<Longrightarrow> muts s \<noteq> [] \<Longrightarrow> gen < registry_generation (vsys s)"
  by (auto simp: voice_inv_def)








section \<open>Properties\<close>




text \<open>A router with one worker that owns the voices, and an upload whose request fails after it was sent.\<close>

definition demo_owner :: worker where
  "demo_owner = (new_worker ''u'' None [''speech'', ''audio_input''] ''i'')\<lparr>w_state := Healthy\<rparr>"

definition failed_upload :: "voice_ev list" where
  "failed_upload = [MutBegin 0 (Upload ''bob''), MutSend 0, MutUncertain 0, MutEnd 0, RefreshStart, FetchRead, RefreshDone None]"



text \<open>
  The case left out above is real. An upload that fails at the router after it was sent marks the registry dirty, but the first refresh that
  succeeds makes it clean again; when the owner commits the upload only after that refresh, the router believes to know the registry and sends requests
  for the new voice to any worker, and no refresh is pending that would notice: only a later mutation starts one.
\<close>

theorem late_commit_misroutes:
  "\<exists>s. s = run voice_step (voice_start [demo_owner] None []) (Query [JString ''x''] False # failed_upload @ [LateCommit (Upload ''bob'')]) \<and>
     ''bob'' \<in> set (registry s) \<and> registry_state (vsys s) = ''ready'' \<and> \<not> refresh_requested (vsys s) \<and> \<not> retrying s \<and>
     fst (requires_owner [JString ''bob''] False (vsys s)) = False \<and> snd (requires_owner [JString ''bob''] False (vsys s)) = vsys s"
proof -
  let ?s = "run voice_step (voice_start [demo_owner] None []) (Query [JString ''x''] False # failed_upload @ [LateCommit (Upload ''bob'')])"
  have "''bob'' \<in> set (registry ?s)" by code_simp
  moreover have "registry_state (vsys ?s) = ''ready''" by code_simp
  moreover have "\<not> refresh_requested (vsys ?s) \<and> \<not> retrying ?s" by code_simp
  moreover have "fst (requires_owner [JString ''bob''] False (vsys ?s)) = False" by code_simp
  moreover have "snd (requires_owner [JString ''bob''] False (vsys ?s)) = vsys ?s" by code_simp
  ultimately show ?thesis by blast
qed

end
