(* ===== verification/Omni_Scheduler.thy ===== *)
theory Omni_Scheduler
  imports Prelude
begin

text \<open>
  Admission and life cycle of requests in the autoregressive scheduler, \<^verbatim>\<open>scheduling/omni_scheduler.py\<close>: the inbox, the buffered stream input of
  requests that are not built yet, the request-build pool with its backlog, deferred payloads and deferred admissions, the waiting queue, aborts and
  terminal outputs. The upstream SGLang scheduler (batch selection, priorities, the forward pass) is the environment: it moves requests of the waiting
  queue into batches, fails a batch, aborts a request or finishes it. The four batch variables of the code, which share their requests, are one list.
  Every event of \<open>omni_step\<close> is a section of the scheduler thread, of a build worker or of the thread that aborts; sections interleave freely.
\<close>

section \<open>Data\<close>

record ('b, 'c) build_payload =
  bp_id :: string
  bp_body :: 'b
  prefetched_chunks :: "'c list"
  prefetched_stream_done :: bool

text \<open>An upstream request with its \<^verbatim>\<open>_omni_data\<close>; \<open>has_data\<close> is False once the data is detached.\<close>

record 'c omni_req =
  rid :: string
  input_len :: int
  max_new_tokens :: "int option"
  enforce_request_limits :: bool
  has_data :: bool
  stream_chunks :: "'c list"
  stream_done :: bool
  terminal_claimed :: bool
  req_finished :: bool
  is_retracted :: bool
  to_finish_abort :: bool

datatype 'e omni_exn = QueueFullExn | KvCapacityExn int int int | Raised 'e

datatype ('e, 'r) omni_out = OErr "'e omni_exn" | ORes 'r

text \<open>What a request builder returns: a request, or one whose admission waits for a future (its value is \<open>None\<close> while it is running).\<close>

datatype ('c, 'e) built = Built "'c omni_req" | DeferredAdmission "'c omni_req" "('e + unit) option"

datatype ('b, 'c) omni_msg = NewRequest "('b, 'c) build_payload" | StreamChunk string 'c | StreamDone string

fun omni_msg_id :: "('b, 'c) omni_msg \<Rightarrow> string" where
  "omni_msg_id (NewRequest p) = bp_id p"
| "omni_msg_id (StreamChunk r _) = r"
| "omni_msg_id (StreamDone r) = r"

record ('b, 'c, 'e) omni_config =
  has_executor :: bool
  max_queued_requests :: "int option"
  request_build_max_pending :: nat
  request_build_backlog_limit :: "nat option"
  max_req_len :: int
  is_entry_rank :: bool
  is_request_build_ready :: "('b, 'c) build_payload \<Rightarrow> bool \<Rightarrow> bool"
  recheck_on_stream_chunk :: bool
  request_builder :: "('b, 'c) build_payload \<Rightarrow> nat \<Rightarrow> 'e + ('c, 'e) built"
  prepare_limits :: "'c omni_req \<Rightarrow> 'e + 'c omni_req"
  set_or_validate_priority :: "'c omni_req \<Rightarrow> 'e + 'c omni_req"
  abort_on_queued_limit :: "'c omni_req \<Rightarrow> 'c omni_req list \<Rightarrow> (string \<times> 'e) option"

text \<open>
  The last fields are the work in hand: messages taken from the inbox, new payloads, payloads selected and rejected by the staging, the payload that
  passed the first check, the payload whose builder runs on the scheduler thread, and the second halves of aborts.
\<close>

record ('b, 'c, 'e, 'r) omni_state =
  inbox :: "('b, 'c) omni_msg list"
  outbox :: "(string \<times> ('e, 'r) omni_out) list"
  aborted_request_ids :: "string list"
  completed_request_ids :: "string list"
  pending_stream_ingress :: "(string, 'c list \<times> bool) dict"
  pending_request_builds :: "(string, ('b, 'c) build_payload \<times> bool \<times> ('e + ('c, 'e) built) option) dict"
  pending_request_admissions :: "(string, ('b, 'c) build_payload \<times> bool \<times> 'c omni_req \<times> ('e + unit) option) dict"
  backlogged_payloads :: "('b, 'c) build_payload list"
  deferred_request_payloads :: "(string, ('b, 'c) build_payload) dict"
  dirty_deferred_ids :: "string list"
  waiting_queue :: "'c omni_req list"
  batches :: "'c omni_req list"
  abort_callbacks :: "string list"
  recv_msgs :: "('b, 'c) omni_msg list"
  new_reqs :: "('b, 'c) build_payload list"
  selected_reqs :: "('b, 'c) build_payload list"
  rejected_reqs :: "('b, 'c) build_payload list"
  checked_req :: "('b, 'c) build_payload option"
  building_req :: "(('b, 'c) build_payload \<times> bool) option"
  aborting :: "(string \<times> bool) list"

definition omni_init :: "('b, 'c, 'e, 'r) omni_state" where
  "omni_init = \<lparr>inbox = [], outbox = [], aborted_request_ids = [], completed_request_ids = [], pending_stream_ingress = [], pending_request_builds = [],
     pending_request_admissions = [], backlogged_payloads = [], deferred_request_payloads = [], dirty_deferred_ids = [], waiting_queue = [], batches = [],
     abort_callbacks = [], recv_msgs = [], new_reqs = [], selected_reqs = [], rejected_reqs = [], checked_req = None, building_req = None, aborting = []\<rparr>"

definition ABORTED_REQUEST_ID_LIMIT :: nat where "ABORTED_REQUEST_ID_LIMIT = 10000"
definition ABORTED_REQUEST_ID_RETAINED :: nat where "ABORTED_REQUEST_ID_RETAINED = 5000"
definition COMPLETED_REQUEST_ID_LIMIT :: nat where "COMPLETED_REQUEST_ID_LIMIT = 10000"
definition PENDING_STREAM_REQUEST_LIMIT :: nat where "PENDING_STREAM_REQUEST_LIMIT = 10000"
definition PENDING_STREAM_REQUEST_RETAINED :: nat where "PENDING_STREAM_REQUEST_RETAINED = 5000"

section \<open>Aborts\<close>

definition emit_request_error :: "('b, 'c, 'e) omni_config \<Rightarrow> string \<Rightarrow> 'e omni_exn \<Rightarrow> ('b, 'c, 'e, 'r) omni_state \<Rightarrow> ('b, 'c, 'e, 'r) omni_state" where
  "emit_request_error c r e s = (if is_entry_rank c then s\<lparr>outbox := outbox s @ [(r, OErr e)]\<rparr> else s)"

definition remember_aborted :: "string \<Rightarrow> string list \<Rightarrow> string list" where
  "remember_aborted r ids =
     (if r \<in> set ids then ids
      else (if ABORTED_REQUEST_ID_LIMIT \<le> length ids then drop (length ids - ABORTED_REQUEST_ID_RETAINED + 1) ids else ids) @ [r])"

text \<open>\<^verbatim>\<open>_mark_running_request_aborted\<close>: whether a request of that id was marked or is being finished, and the batches.\<close>

definition mark_one :: "string \<Rightarrow> 'c omni_req \<Rightarrow> bool \<times> 'c omni_req" where
  "mark_one r q =
     (if rid q \<noteq> r then (False, q)
      else if terminal_claimed q then (has_data q, q)
      else if req_finished q \<or> is_retracted q then (False, q)
      else (True, q\<lparr>to_finish_abort := True\<rparr>))"

definition mark_running_request_aborted :: "string \<Rightarrow> 'c omni_req list \<Rightarrow> bool \<times> 'c omni_req list" where
  "mark_running_request_aborted r qs = (list_ex (fst \<circ> mark_one r) qs, map (snd \<circ> mark_one r) qs)"

text \<open>\<^verbatim>\<open>abort\<close>: the part under the admission lock, and the rest.\<close>

definition abort_locked :: "string \<Rightarrow> bool \<Rightarrow> ('b, 'c, 'e, 'r) omni_state \<Rightarrow> bool \<times> ('b, 'c, 'e, 'r) omni_state" where
  "abort_locked r defer_running_cleanup s =
     (let (running_abort, qs) = (if defer_running_cleanup then mark_running_request_aborted r (batches s) else (False, batches s)) in
      (running_abort,
       s\<lparr>aborted_request_ids := remember_aborted r (aborted_request_ids s), batches := qs,
         pending_request_builds := ddel (pending_request_builds s) r, pending_request_admissions := ddel (pending_request_admissions s) r,
         backlogged_payloads := filter (\<lambda>p. bp_id p \<noteq> r) (backlogged_payloads s), waiting_queue := filter (\<lambda>q. rid q \<noteq> r) (waiting_queue s)\<rparr>))"

definition abort_rest :: "string \<Rightarrow> bool \<Rightarrow> ('b, 'c, 'e, 'r) omni_state \<Rightarrow> ('b, 'c, 'e, 'r) omni_state" where
  "abort_rest r running_abort s =
     s\<lparr>abort_callbacks := (if running_abort then abort_callbacks s else abort_callbacks s @ [r]),
       pending_stream_ingress := ddel (pending_stream_ingress s) r, deferred_request_payloads := ddel (deferred_request_payloads s) r,
       dirty_deferred_ids := removeAll r (dirty_deferred_ids s),
       batches := (if running_abort then batches s else filter (\<lambda>q. rid q \<noteq> r) (batches s)),
       inbox := filter (\<lambda>m. omni_msg_id m \<noteq> r) (inbox s)\<rparr>"

definition omni_abort :: "string \<Rightarrow> bool \<Rightarrow> ('b, 'c, 'e, 'r) omni_state \<Rightarrow> ('b, 'c, 'e, 'r) omni_state" where
  "omni_abort r defer_running_cleanup s = (case abort_locked r defer_running_cleanup s of (b, s') \<Rightarrow> abort_rest r b s')"

text \<open>An error for the request and its abort, the pattern of every failure before scheduling.\<close>

definition fail_and_abort :: "('b, 'c, 'e) omni_config \<Rightarrow> string \<Rightarrow> 'e omni_exn \<Rightarrow> bool \<Rightarrow> ('b, 'c, 'e, 'r) omni_state \<Rightarrow> ('b, 'c, 'e, 'r) omni_state" where
  "fail_and_abort c r e defer_running s = omni_abort r defer_running (emit_request_error c r e s)"

section \<open>Stream input\<close>

definition find_req :: "string \<Rightarrow> 'c omni_req list \<Rightarrow> 'c omni_req option" where
  "find_req r qs = List.find (\<lambda>q. rid q = r) qs"

fun upd_req :: "string \<Rightarrow> ('c omni_req \<Rightarrow> 'c omni_req) \<Rightarrow> 'c omni_req list \<Rightarrow> 'c omni_req list" where
  "upd_req r f [] = []"
| "upd_req r f (q # qs) = (if rid q = r then f q # qs else q # upd_req r f qs)"

text \<open>\<^verbatim>\<open>_find_request_data\<close>, as the update of the data it finds.\<close>

definition upd_request_data ::
  "string \<Rightarrow> ('c omni_req \<Rightarrow> 'c omni_req) \<Rightarrow> ('b, 'c, 'e, 'r) omni_state \<Rightarrow> ('b, 'c, 'e, 'r) omni_state option" where
  "upd_request_data r f s =
     (case find_req r (batches s) of
        Some q \<Rightarrow> if has_data q then Some (s\<lparr>batches := upd_req r f (batches s)\<rparr>) else None
      | None \<Rightarrow>
          (case find_req r (waiting_queue s) of
             Some q \<Rightarrow> if has_data q then Some (s\<lparr>waiting_queue := upd_req r f (waiting_queue s)\<rparr>) else None
           | None \<Rightarrow> None))"

definition append_stream_chunk :: "'c \<Rightarrow> 'c omni_req \<Rightarrow> 'c omni_req" where
  "append_stream_chunk ch q = q\<lparr>stream_chunks := stream_chunks q @ [ch]\<rparr>"

definition mark_stream_done :: "'c omni_req \<Rightarrow> 'c omni_req" where
  "mark_stream_done q = q\<lparr>stream_done := True\<rparr>"

definition reserve_pending_stream_request :: "string \<Rightarrow> (string, 'c list \<times> bool) dict \<Rightarrow> (string, 'c list \<times> bool) dict" where
  "reserve_pending_stream_request r pending =
     (if dhas pending r \<or> length pending < PENDING_STREAM_REQUEST_LIMIT then pending
      else drop (length pending - PENDING_STREAM_REQUEST_RETAINED + 1) pending)"

definition ingress_of :: "(string, 'c list \<times> bool) dict \<Rightarrow> string \<Rightarrow> 'c list \<times> bool" where
  "ingress_of d r = (case dget d r of None \<Rightarrow> ([], False) | Some x \<Rightarrow> x)"

definition omni_stream_chunk :: "('b, 'c, 'e) omni_config \<Rightarrow> string \<Rightarrow> 'c \<Rightarrow> ('b, 'c, 'e, 'r) omni_state \<Rightarrow> ('b, 'c, 'e, 'r) omni_state" where
  "omni_stream_chunk c r ch s =
     (if r \<in> set (completed_request_ids s) then s
      else case upd_request_data r (append_stream_chunk ch) s of
        Some s' \<Rightarrow> s'
      | None \<Rightarrow>
          (let d = reserve_pending_stream_request r (pending_stream_ingress s); (chs, dn) = ingress_of d r in
           s\<lparr>pending_stream_ingress := dset d r (chs @ [ch], dn),
             dirty_deferred_ids :=
               (if dhas (deferred_request_payloads s) r \<and> recheck_on_stream_chunk c then List.insert r (dirty_deferred_ids s) else dirty_deferred_ids s)\<rparr>))"

definition omni_stream_done :: "string \<Rightarrow> ('b, 'c, 'e, 'r) omni_state \<Rightarrow> ('b, 'c, 'e, 'r) omni_state" where
  "omni_stream_done r s =
     (if r \<in> set (completed_request_ids s) then s
      else case upd_request_data r mark_stream_done s of
        Some s' \<Rightarrow> s'
      | None \<Rightarrow>
          (let d = reserve_pending_stream_request r (pending_stream_ingress s); (chs, dn) = ingress_of d r in
           s\<lparr>pending_stream_ingress := dset d r (chs, True),
             dirty_deferred_ids := (if dhas (deferred_request_payloads s) r then List.insert r (dirty_deferred_ids s) else dirty_deferred_ids s)\<rparr>))"

text \<open>The body of the loop of \<^verbatim>\<open>recv_requests\<close>.\<close>

fun recv_message :: "('b, 'c, 'e) omni_config \<Rightarrow> ('b, 'c) omni_msg \<Rightarrow> ('b, 'c, 'e, 'r) omni_state \<Rightarrow> ('b, 'c, 'e, 'r) omni_state" where
  "recv_message c (NewRequest p) s =
     (if bp_id p \<in> set (aborted_request_ids s) then s
      else s\<lparr>completed_request_ids := removeAll (bp_id p) (completed_request_ids s), new_reqs := new_reqs s @ [p]\<rparr>)"
| "recv_message c (StreamChunk r ch) s = (if r \<in> set (aborted_request_ids s) then s else omni_stream_chunk c r ch s)"
| "recv_message c (StreamDone r) s = (if r \<in> set (aborted_request_ids s) then s else omni_stream_done r s)"

section \<open>Staging for the build pool\<close>

definition queued_admission_count :: "('b, 'c, 'e, 'r) omni_state \<Rightarrow> nat" where
  "queued_admission_count s =
     length (waiting_queue s) + length (pending_request_builds s) + length (pending_request_admissions s) + length (backlogged_payloads s)
       + length (deferred_request_payloads s)"

definition waiting_queue_is_full :: "('b, 'c, 'e) omni_config \<Rightarrow> ('b, 'c, 'e, 'r) omni_state \<Rightarrow> bool" where
  "waiting_queue_is_full c s = (case max_queued_requests c of None \<Rightarrow> False | Some n \<Rightarrow> n \<le> int (queued_admission_count s))"

definition admission_known :: "('b, 'c, 'e, 'r) omni_state \<Rightarrow> string \<Rightarrow> bool" where
  "admission_known s r \<longleftrightarrow>
     r \<in> set (aborted_request_ids s) \<or> dhas (pending_request_builds s) r \<or> dhas (pending_request_admissions s) r"

text \<open>The first loop: payloads of the backlog up to the capacity of the pool. The ids of the backlog are kept beside it.\<close>

fun take_backlog ::
  "('b, 'c, 'e, 'r) omni_state \<Rightarrow> nat \<Rightarrow> ('b, 'c) build_payload list \<Rightarrow> string list \<Rightarrow>
   ('b, 'c) build_payload list \<times> ('b, 'c) build_payload list \<times> string list \<times> nat" where
  "take_backlog s cap [] ids = ([], [], ids, cap)"
| "take_backlog s 0 backlog ids = ([], backlog, ids, 0)"
| "take_backlog s (Suc cap) (p # backlog) ids =
     (let ids' = removeAll (bp_id p) ids in
      if admission_known s (bp_id p) then take_backlog s (Suc cap) backlog ids'
      else case take_backlog s cap backlog ids' of (sel, rest, ids'', cap') \<Rightarrow> (p # sel, rest, ids'', cap'))"

record ('b, 'c) staging =
  sg_selected :: "('b, 'c) build_payload list"
  sg_rejected :: "('b, 'c) build_payload list"
  sg_backlog :: "('b, 'c) build_payload list"
  sg_backlog_ids :: "string list"
  sg_capacity :: nat
  sg_used :: nat

definition stage_one ::
  "('b, 'c, 'e) omni_config \<Rightarrow> ('b, 'c, 'e, 'r) omni_state \<Rightarrow> ('b, 'c) build_payload \<Rightarrow> ('b, 'c) staging \<Rightarrow> ('b, 'c) staging" where
  "stage_one c s p g =
     (if admission_known s (bp_id p) \<or> bp_id p \<in> set (sg_backlog_ids g) \<or> bp_id p \<in> bp_id ` set (sg_selected g) then g
      else if (case max_queued_requests c of None \<Rightarrow> False | Some n \<Rightarrow> n \<le> int (sg_used g)) then g\<lparr>sg_rejected := sg_rejected g @ [p]\<rparr>
      else if 0 < sg_capacity g then g\<lparr>sg_selected := sg_selected g @ [p], sg_capacity := sg_capacity g - 1, sg_used := Suc (sg_used g)\<rparr>
      else if (case request_build_backlog_limit c of None \<Rightarrow> False | Some n \<Rightarrow> n \<le> length (sg_backlog g))
        then g\<lparr>sg_rejected := sg_rejected g @ [p]\<rparr>
      else g\<lparr>sg_backlog := sg_backlog g @ [p], sg_backlog_ids := List.insert (bp_id p) (sg_backlog_ids g), sg_used := Suc (sg_used g)\<rparr>)"

definition stage_request_build_payloads ::
  "('b, 'c, 'e) omni_config \<Rightarrow> ('b, 'c) build_payload list \<Rightarrow> ('b, 'c, 'e, 'r) omni_state \<Rightarrow>
   (('b, 'c) build_payload list \<times> ('b, 'c) build_payload list) \<times> ('b, 'c, 'e, 'r) omni_state" where
  "stage_request_build_payloads c recv s =
     (if \<not> has_executor c then ((recv, []), s)
      else if waiting_queue_is_full c s then
        (([], filter (\<lambda>p. bp_id p \<notin> set (aborted_request_ids s)) (backlogged_payloads s) @
              filter (\<lambda>p. bp_id p \<notin> set (aborted_request_ids s) \<and> \<not> dhas (pending_request_builds s) (bp_id p)) recv),
         s\<lparr>backlogged_payloads := []\<rparr>)
      else
        (case take_backlog s (request_build_max_pending c - length (pending_request_builds s)) (backlogged_payloads s)
                (map bp_id (backlogged_payloads s)) of
           (sel, rest, ids, cap) \<Rightarrow>
             (let s1 = s\<lparr>backlogged_payloads := rest\<rparr>;
                  g = fold (stage_one c s) recv
                        \<lparr>sg_selected = sel, sg_rejected = [], sg_backlog = rest, sg_backlog_ids = ids, sg_capacity = cap,
                         sg_used = queued_admission_count s1 + length sel\<rparr> in
              ((sg_selected g, sg_rejected g), s1\<lparr>backlogged_payloads := sg_backlog g\<rparr>))))"

section \<open>Built requests\<close>

definition request_kv_capacity_error :: "('b, 'c, 'e) omni_config \<Rightarrow> 'c omni_req \<Rightarrow> 'e omni_exn option" where
  "request_kv_capacity_error c q =
     (let mn = (case max_new_tokens q of None \<Rightarrow> 0 | Some n \<Rightarrow> n) in
      if input_len q + mn \<le> max_req_len c then None else Some (KvCapacityExn (input_len q) mn (max_req_len c)))"

text \<open>The section of \<^verbatim>\<open>_enqueue_built_request\<close> under the lock; upstream may abort a request of the queue instead of the new one.\<close>

definition enqueue_if_live :: "('b, 'c, 'e) omni_config \<Rightarrow> 'c omni_req \<Rightarrow> ('b, 'c, 'e, 'r) omni_state \<Rightarrow> ('b, 'c, 'e, 'r) omni_state" where
  "enqueue_if_live c q s =
     (if rid q \<in> set (aborted_request_ids s) then s
      else case set_or_validate_priority c q of
        Inl e \<Rightarrow> fail_and_abort c (rid q) (Raised e) False s
      | Inr q' \<Rightarrow>
          (case abort_on_queued_limit c q' (waiting_queue s) of
             Some (r, e) \<Rightarrow>
               (let s' = fail_and_abort c r (Raised e) False s in
                if r = rid q' then s'
                else s'\<lparr>waiting_queue := waiting_queue s' @ [q'\<lparr>terminal_claimed := False, has_data := True\<rparr>]\<rparr>)
           | None \<Rightarrow> s\<lparr>waiting_queue := waiting_queue s @ [q'\<lparr>terminal_claimed := False, has_data := True\<rparr>]\<rparr>))"

definition enqueue_built_request ::
  "('b, 'c, 'e) omni_config \<Rightarrow> ('b, 'c) build_payload \<Rightarrow> bool \<Rightarrow> 'c omni_req \<Rightarrow> ('b, 'c, 'e, 'r) omni_state \<Rightarrow> ('b, 'c, 'e, 'r) omni_state" where
  "enqueue_built_request c p pending_done q s =
     (let s1 = s\<lparr>deferred_request_payloads := ddel (deferred_request_payloads s) (bp_id p)\<rparr> in
      case (if enforce_request_limits q then prepare_limits c q else Inr q) of
        Inl e \<Rightarrow> fail_and_abort c (rid q) (Raised e) True s1
      | Inr q1 \<Rightarrow>
          (case request_kv_capacity_error c q1 of
             Some e \<Rightarrow> fail_and_abort c (rid q) e True s1
           | None \<Rightarrow>
               (let (chs, dn) = ingress_of (pending_stream_ingress s1) (rid q);
                    q2 = q1\<lparr>stream_chunks := stream_chunks q1 @ prefetched_chunks p @ chs,
                            stream_done := stream_done q1 \<or> prefetched_stream_done p \<or> dn \<and> \<not> pending_done\<rparr> in
                enqueue_if_live c q2 (s1\<lparr>pending_stream_ingress := ddel (pending_stream_ingress s1) (rid q)\<rparr>))))"

definition admit_or_defer ::
  "('b, 'c, 'e) omni_config \<Rightarrow> ('b, 'c) build_payload \<Rightarrow> bool \<Rightarrow> ('c, 'e) built \<Rightarrow> ('b, 'c, 'e, 'r) omni_state \<Rightarrow> ('b, 'c, 'e, 'r) omni_state" where
  "admit_or_defer c p pending_done b s =
     (case b of
        Built q \<Rightarrow> enqueue_built_request c p pending_done q s
      | DeferredAdmission q ready \<Rightarrow>
          if bp_id p \<in> set (aborted_request_ids s) then s
          else (case ready of
             None \<Rightarrow> s\<lparr>pending_request_admissions := dset (pending_request_admissions s) (bp_id p) (p, pending_done, q, None)\<rparr>
           | Some (Inl e) \<Rightarrow> fail_and_abort c (bp_id p) (Raised e) True s
           | Some (Inr _) \<Rightarrow> enqueue_built_request c p pending_done q s))"

text \<open>One iteration of \<^verbatim>\<open>_drain_request_build_results\<close>: nothing happens while the oldest build is running.\<close>

definition drain_build :: "('b, 'c, 'e) omni_config \<Rightarrow> ('b, 'c, 'e, 'r) omni_state \<Rightarrow> ('b, 'c, 'e, 'r) omni_state" where
  "drain_build c s =
     (case pending_request_builds s of
        (r, p, pending_done, Some res) # _ \<Rightarrow>
          (let s1 = s\<lparr>pending_request_builds := ddel (pending_request_builds s) r\<rparr> in
           if r \<in> set (aborted_request_ids s) then s1
           else case res of
             Inl e \<Rightarrow> fail_and_abort c r (Raised e) True s1
           | Inr b \<Rightarrow> admit_or_defer c p pending_done b s1)
      | _ \<Rightarrow> s)"

definition drain_admission :: "('b, 'c, 'e) omni_config \<Rightarrow> string \<Rightarrow> ('b, 'c, 'e, 'r) omni_state \<Rightarrow> ('b, 'c, 'e, 'r) omni_state" where
  "drain_admission c r s =
     (case dget (pending_request_admissions s) r of
        None \<Rightarrow> s
      | Some (p, pending_done, q, ready) \<Rightarrow>
          (let s1 = s\<lparr>pending_request_admissions := ddel (pending_request_admissions s) r\<rparr> in
           if r \<in> set (aborted_request_ids s) then s1 else admit_or_defer c p pending_done (DeferredAdmission q ready) s1))"

definition drain_request_admission_results :: "('b, 'c, 'e) omni_config \<Rightarrow> ('b, 'c, 'e, 'r) omni_state \<Rightarrow> ('b, 'c, 'e, 'r) omni_state" where
  "drain_request_admission_results c s =
     fold (drain_admission c) (map fst (filter (\<lambda>(r, p, d, q, ready). ready \<noteq> None) (pending_request_admissions s))) s"

section \<open>One payload\<close>

definition reject_queue_full :: "('b, 'c, 'e) omni_config \<Rightarrow> ('b, 'c) build_payload \<Rightarrow> ('b, 'c, 'e, 'r) omni_state \<Rightarrow> ('b, 'c, 'e, 'r) omni_state" where
  "reject_queue_full c p s = fail_and_abort c (bp_id p) QueueFullExn True s"

definition take_deferred_request_payloads :: "('b, 'c, 'e, 'r) omni_state \<Rightarrow> ('b, 'c, 'e, 'r) omni_state" where
  "take_deferred_request_payloads s =
     s\<lparr>new_reqs := new_reqs s @ List.map_filter (dget (deferred_request_payloads s)) (dirty_deferred_ids s),
       deferred_request_payloads := fold (\<lambda>r d. ddel d r) (dirty_deferred_ids s) (deferred_request_payloads s), dirty_deferred_ids := []\<rparr>"

text \<open>
  The body of the loop of \<^verbatim>\<open>process_input_requests\<close> in three sections: the check under the lock, everything up to the submission to the pool or the call
  of the builder, and what follows the builder.
\<close>

definition check_payload :: "('b, 'c) build_payload \<Rightarrow> ('b, 'c, 'e, 'r) omni_state \<Rightarrow> ('b, 'c, 'e, 'r) omni_state" where
  "check_payload p s = (if admission_known s (bp_id p) then s else s\<lparr>checked_req := Some p\<rparr>)"

definition prefetch :: "('b, 'c) build_payload \<Rightarrow> 'c list \<times> bool \<Rightarrow> ('b, 'c) build_payload" where
  "prefetch p x = p\<lparr>prefetched_chunks := prefetched_chunks p @ fst x, prefetched_stream_done := snd x\<rparr>"

definition drop_ingress_chunks :: "(string, 'c list \<times> bool) dict \<Rightarrow> string \<Rightarrow> (string, 'c list \<times> bool) dict" where
  "drop_ingress_chunks d r = (case dget d r of None \<Rightarrow> d | Some (_, dn) \<Rightarrow> dset d r ([], dn))"

definition proceed_payload :: "('b, 'c, 'e) omni_config \<Rightarrow> ('b, 'c) build_payload \<Rightarrow> ('b, 'c, 'e, 'r) omni_state \<Rightarrow> ('b, 'c, 'e, 'r) omni_state" where
  "proceed_payload c p s =
     (if waiting_queue_is_full c s then reject_queue_full c p s
      else
        (let x = ingress_of (pending_stream_ingress s) (bp_id p); p' = prefetch p x;
             s1 = s\<lparr>pending_stream_ingress := drop_ingress_chunks (pending_stream_ingress s) (bp_id p)\<rparr> in
         if \<not> is_request_build_ready c p' (snd x) then s1\<lparr>deferred_request_payloads := dset (deferred_request_payloads s1) (bp_id p) p'\<rparr>
         else if has_executor c then
           (if admission_known s1 (bp_id p) then s1
            else s1\<lparr>pending_request_builds := dset (pending_request_builds s1) (bp_id p) (p', snd x, None)\<rparr>)
         else s1\<lparr>building_req := Some (p', snd x)\<rparr>))"

definition built_on_thread ::
  "('b, 'c, 'e) omni_config \<Rightarrow> ('b, 'c) build_payload \<Rightarrow> bool \<Rightarrow> 'e + ('c, 'e) built \<Rightarrow> ('b, 'c, 'e, 'r) omni_state \<Rightarrow> ('b, 'c, 'e, 'r) omni_state" where
  "built_on_thread c p pending_done res s =
     (case res of Inl e \<Rightarrow> fail_and_abort c (bp_id p) (Raised e) True s | Inr b \<Rightarrow> admit_or_defer c p pending_done b s)"

section \<open>Terminal outputs\<close>

definition remember_completed_request :: "string \<Rightarrow> ('b, 'c, 'e, 'r) omni_state \<Rightarrow> ('b, 'c, 'e, 'r) omni_state" where
  "remember_completed_request r s =
     (if r \<in> set (completed_request_ids s) then s
      else s\<lparr>completed_request_ids :=
               (if COMPLETED_REQUEST_ID_LIMIT \<le> length (completed_request_ids s) then tl (completed_request_ids s) else completed_request_ids s) @ [r],
             pending_stream_ingress := ddel (pending_stream_ingress s) r\<rparr>)"

definition detach :: "string \<Rightarrow> 'c omni_req list \<Rightarrow> 'c omni_req list" where
  "detach r qs = upd_req r (\<lambda>q. q\<lparr>has_data := False\<rparr>) qs"

text \<open>
  \<^verbatim>\<open>stream_output\<close> of a finished request: the claim under the lock, and the terminal output once the result adapter has returned or raised. A request
  whose finish reason is an abort is one that \<^verbatim>\<open>abort\<close> marked.
\<close>

definition finish_claim :: "string \<Rightarrow> ('b, 'c, 'e, 'r) omni_state \<Rightarrow> ('b, 'c, 'e, 'r) omni_state" where
  "finish_claim r s =
     (case find_req r (batches s) of
        None \<Rightarrow> s
      | Some q \<Rightarrow>
          (let s1 = s\<lparr>batches := upd_req r (\<lambda>q. q\<lparr>req_finished := True\<rparr>) (batches s)\<rparr> in
           if to_finish_abort q \<or> r \<in> set (aborted_request_ids s) then
             s1\<lparr>abort_callbacks := abort_callbacks s @ [r], batches := detach r (batches s1)\<rparr>
           else if terminal_claimed q then s1
           else if \<not> has_data q then remember_completed_request r s1
           else s1\<lparr>batches := upd_req r (\<lambda>q. q\<lparr>terminal_claimed := True\<rparr>) (batches s1)\<rparr>))"

definition finish_done :: "('b, 'c, 'e) omni_config \<Rightarrow> string \<Rightarrow> 'e + 'r \<Rightarrow> ('b, 'c, 'e, 'r) omni_state \<Rightarrow> ('b, 'c, 'e, 'r) omni_state" where
  "finish_done c r res s =
     (case find_req r (batches s) of
        None \<Rightarrow> s
      | Some q \<Rightarrow>
          if \<not> (terminal_claimed q \<and> has_data q) then s
          else
            (let s1 = remember_completed_request r (s\<lparr>batches := detach r (batches s)\<rparr>);
                 s2 = (if r \<in> set (aborted_request_ids s) then s1\<lparr>abort_callbacks := abort_callbacks s @ [r]\<rparr> else s1) in
             case res of
               Inl e \<Rightarrow> emit_request_error c r (Raised e) s2
             | Inr x \<Rightarrow> s2\<lparr>outbox := outbox s2 @ [(r, ORes x)]\<rparr>))"

section \<open>Steps\<close>

text \<open>The number given to a builder stands for everything it depends on besides the payload.\<close>

datatype ('b, 'c, 'e, 'r) omni_ev =
    PutMsg "('b, 'c) omni_msg"
  | DrainInbox
  | RecvNext
  | TakeDeferred
  | StagePayloads
  | RejectNext
  | CheckNext
  | Proceed
  | ThreadBuilt nat
  | BuildDone string nat
  | AdmissionReady string "'e + unit"
  | DrainBuild
  | DrainAdmissions
  | AbortBegin string
  | AbortEnd
  | Schedule "string list"
  | BatchFail "string list" 'e
  | UpstreamAbort string 'e
  | FinishClaim string
  | FinishDone string "'e + 'r"
  | FilterBatches

fun omni_step :: "('b, 'c, 'e) omni_config \<Rightarrow> ('b, 'c, 'e, 'r) omni_state \<Rightarrow> ('b, 'c, 'e, 'r) omni_ev \<Rightarrow> ('b, 'c, 'e, 'r) omni_state" where
  "omni_step c s (PutMsg m) = s\<lparr>inbox := inbox s @ [m]\<rparr>"
| "omni_step c s DrainInbox = s\<lparr>recv_msgs := recv_msgs s @ inbox s, inbox := []\<rparr>"
| "omni_step c s RecvNext = (case recv_msgs s of [] \<Rightarrow> s | m # ms \<Rightarrow> recv_message c m (s\<lparr>recv_msgs := ms\<rparr>))"
| "omni_step c s TakeDeferred = take_deferred_request_payloads s"
| "omni_step c s StagePayloads =
     (case stage_request_build_payloads c (new_reqs s) s of
        ((sel, rej), s') \<Rightarrow> s'\<lparr>new_reqs := [], selected_reqs := selected_reqs s' @ sel, rejected_reqs := rejected_reqs s' @ rej\<rparr>)"
| "omni_step c s RejectNext = (case rejected_reqs s of [] \<Rightarrow> s | p # ps \<Rightarrow> reject_queue_full c p (s\<lparr>rejected_reqs := ps\<rparr>))"
| "omni_step c s CheckNext =
     (case (checked_req s, building_req s, selected_reqs s) of
        (None, None, p # ps) \<Rightarrow> check_payload p (s\<lparr>selected_reqs := ps\<rparr>)
      | _ \<Rightarrow> s)"
| "omni_step c s Proceed = (case checked_req s of None \<Rightarrow> s | Some p \<Rightarrow> proceed_payload c p (s\<lparr>checked_req := None\<rparr>))"
| "omni_step c s (ThreadBuilt i) =
     (case building_req s of None \<Rightarrow> s | Some (p, d) \<Rightarrow> built_on_thread c p d (request_builder c p i) (s\<lparr>building_req := None\<rparr>))"
| "omni_step c s (BuildDone r i) =
     (case dget (pending_request_builds s) r of
        Some (p, d, None) \<Rightarrow> s\<lparr>pending_request_builds := dset (pending_request_builds s) r (p, d, Some (request_builder c p i))\<rparr>
      | _ \<Rightarrow> s)"
| "omni_step c s (AdmissionReady r res) =
     (case dget (pending_request_admissions s) r of
        Some (p, d, q, None) \<Rightarrow> s\<lparr>pending_request_admissions := dset (pending_request_admissions s) r (p, d, q, Some res)\<rparr>
      | _ \<Rightarrow> s)"
| "omni_step c s DrainBuild = drain_build c s"
| "omni_step c s DrainAdmissions = drain_request_admission_results c s"
| "omni_step c s (AbortBegin r) = (case abort_locked r True s of (b, s') \<Rightarrow> s'\<lparr>aborting := aborting s' @ [(r, b)]\<rparr>)"
| "omni_step c s AbortEnd = (case aborting s of [] \<Rightarrow> s | (r, b) # xs \<Rightarrow> abort_rest r b (s\<lparr>aborting := xs\<rparr>))"
| "omni_step c s (Schedule rs) =
     s\<lparr>batches := batches s @ filter (\<lambda>q. rid q \<in> set rs) (waiting_queue s), waiting_queue := filter (\<lambda>q. rid q \<notin> set rs) (waiting_queue s)\<rparr>"
| "omni_step c s (BatchFail rs e) =
     fold (\<lambda>r. fail_and_abort c r (Raised e) False) (map rid (filter (\<lambda>q. rid q \<in> set rs \<and> \<not> req_finished q) (batches s))) s"
| "omni_step c s (UpstreamAbort r e) = 
     (if list_ex (\<lambda>q. rid q = r \<and> \<not> req_finished q) (waiting_queue s @ batches s) then fail_and_abort c r (Raised e) False s else s)"
| "omni_step c s (FinishClaim r) = finish_claim r s"
| "omni_step c s (FinishDone r res) = finish_done c r res s"
| "omni_step c s FilterBatches = s\<lparr>batches := filter (\<lambda>q. \<not> (req_finished q \<and> \<not> has_data q)) (batches s)\<rparr>"

end
