(* ===== verification/Omni_Properties.thy ===== *)
theory Omni_Properties
  imports Omni_Scheduler
begin

text \<open>
  What the scheduler guarantees of a request between its arrival and its terminal output: the bound on queued requests, that every request is answered
  exactly once, and that its stream input reaches its request data complete and in order.
\<close>

section \<open>The bound on queued requests\<close>

abbreviation qcount :: "('b, 'c, 'e, 'r) omni_state \<Rightarrow> nat" where
  "qcount \<equiv> queued_admission_count"

lemma qcount_upd [simp]:
  "qcount (s\<lparr>inbox := x0\<rparr>) = qcount s" "qcount (s\<lparr>outbox := x1\<rparr>) = qcount s" "qcount (s\<lparr>aborted_request_ids := x2\<rparr>) = qcount s"
  "qcount (s\<lparr>completed_request_ids := x3\<rparr>) = qcount s" "qcount (s\<lparr>pending_stream_ingress := x4\<rparr>) = qcount s" "qcount (s\<lparr>dirty_deferred_ids := x5\<rparr>) = qcount s"
  "qcount (s\<lparr>batches := x6\<rparr>) = qcount s" "qcount (s\<lparr>abort_callbacks := x7\<rparr>) = qcount s" "qcount (s\<lparr>recv_msgs := x8\<rparr>) = qcount s"
  "qcount (s\<lparr>new_reqs := x9\<rparr>) = qcount s" "qcount (s\<lparr>selected_reqs := x10\<rparr>) = qcount s" "qcount (s\<lparr>rejected_reqs := x11\<rparr>) = qcount s"
  "qcount (s\<lparr>checked_req := x12\<rparr>) = qcount s" "qcount (s\<lparr>building_req := x13\<rparr>) = qcount s" "qcount (s\<lparr>aborting := x14\<rparr>) = qcount s"
  by (simp_all add: queued_admission_count_def)

lemma qcount_emit [simp]: "qcount (emit_request_error c r e s) = qcount s" "building_req (emit_request_error c r e s) = building_req s"
  "checked_req (emit_request_error c r e s) = checked_req s"
  by (simp_all add: emit_request_error_def queued_admission_count_def)

lemma abort_locked_snd: "abort_locked r d s = (b, s') \<Longrightarrow> qcount s' \<le> qcount s \<and> building_req s' = building_req s \<and> checked_req s' = checked_req s"
  by (auto simp: abort_locked_def queued_admission_count_def Let_def split: prod.splits intro!: add_mono length_ddel_le)

lemma abort_rest_snd: "qcount (abort_rest r b s) \<le> qcount s" "building_req (abort_rest r b s) = building_req s" "checked_req (abort_rest r b s) = checked_req s"
  by (auto simp: abort_rest_def queued_admission_count_def intro!: add_mono length_ddel_le)


lemma hand_abort [simp]: "building_req (omni_abort r d s) = building_req s" "checked_req (omni_abort r d s) = checked_req s"
  using abort_locked_snd [of r d s] by (auto simp: omni_abort_def abort_rest_snd split: prod.split)


lemma hand_fail [simp]: "building_req (fail_and_abort c r e d s) = building_req s" "checked_req (fail_and_abort c r e d s) = checked_req s"
  by (simp_all add: fail_and_abort_def)






lemma hand_enqueue_if_live [simp]: "building_req (enqueue_if_live c q s) = building_req s" "checked_req (enqueue_if_live c q s) = checked_req s"
  by (simp_all add: enqueue_if_live_def Let_def split: sum.split option.split)

lemma hand_admit [simp]: "building_req (admit_or_defer c p d b s) = building_req s" "checked_req (admit_or_defer c p d b s) = checked_req s"
  by (simp_all add: admit_or_defer_def enqueue_built_request_def Let_def split: built.split option.split sum.split prod.split)

















lemma length_upd_req [simp]: "length (upd_req r f qs) = length qs"
  by (induction qs) auto









section \<open>A full backlog is thrown away\<close>

definition staged :: "nat \<Rightarrow> ('b, 'c) build_payload list \<Rightarrow> ('b, 'c) staging" where
  "staged k ps = \<lparr>sg_selected = take k ps, sg_rejected = [], sg_backlog = drop k ps, sg_backlog_ids = rev (map bp_id (drop k ps)), sg_capacity = k - length ps,
     sg_used = length ps\<rparr>"

lemma stage_fresh:
  assumes "max_queued_requests c = Some (int n)" "request_build_backlog_limit c = Some (max k n)" "length ps \<le> n" "distinct (map bp_id ps)"
    and known: "\<And>p. p \<in> set ps \<Longrightarrow> \<not> admission_known s (bp_id p)"
  shows "fold (stage_one c s) ps (staged k []) = staged k ps"
  using assms(3,4) known
proof (induction ps rule: rev_induct)
  case (snoc p ps)
  then have IH: "fold (stage_one c s) ps (staged k []) = staged k ps" by simp
  have new: "bp_id p \<notin> bp_id ` set ps" using snoc.prems(2) by auto
  then have "bp_id p \<notin> bp_id ` set (take k ps)" "bp_id p \<notin> set (rev (map bp_id (drop k ps)))" by (auto dest: in_set_takeD in_set_dropD)
  moreover have "\<not> admission_known s (bp_id p)" using snoc.prems(3) by simp
  moreover have "length (drop k ps) < max k n" using snoc.prems(1) by auto
  ultimately have "stage_one c s p (staged k ps) = staged k (ps @ [p])"
    using assms(1,2) snoc.prems(1) by (auto simp: stage_one_def staged_def)
  with IH show ?case by simp
qed simp

definition arrivals :: "('b, 'c) build_payload list \<Rightarrow> ('b, 'c, 'e, 'r) omni_ev list" where
  "arrivals ps = map (PutMsg \<circ> NewRequest) ps @ [DrainInbox] @ replicate (length ps) RecvNext"

lemma run_puts: "run (omni_step c) s (map (PutMsg \<circ> NewRequest) ps) = s\<lparr>inbox := inbox s @ map NewRequest ps\<rparr>"
  by (induction ps arbitrary: s) simp_all

lemma run_recv:
  "recv_msgs s = map NewRequest ps \<Longrightarrow> aborted_request_ids s = [] \<Longrightarrow> completed_request_ids s = [] \<Longrightarrow>
   run (omni_step c) s (replicate (length ps) RecvNext) = s\<lparr>recv_msgs := [], new_reqs := new_reqs s @ ps\<rparr>"
  by (induction ps arbitrary: s) simp_all

lemma run_arrivals: "run (omni_step c) omni_init (arrivals ps) = omni_init\<lparr>new_reqs := ps\<rparr>"
  by (simp add: arrivals_def run_append run_puts run_recv omni_init_def)

definition building :: "('b, 'c) build_payload \<Rightarrow> string \<times> ('b, 'c) build_payload \<times> bool \<times> ('e + ('c, 'e) built) option" where
  "building p = (bp_id p, prefetch p ([], False), False, None)"

definition pool_state :: "('b, 'c) build_payload list \<Rightarrow> ('b, 'c) build_payload list \<Rightarrow> ('b, 'c) build_payload list \<Rightarrow> ('b, 'c, 'e, 'r) omni_state" where
  "pool_state qs rest started = omni_init\<lparr>selected_reqs := qs, backlogged_payloads := rest, pending_request_builds := map building started\<rparr>"

lemma building_fresh:
  fixes started :: "('b, 'c) build_payload list"
  assumes "bp_id p \<notin> bp_id ` set started"
  shows "\<not> dhas (map building started :: (string \<times> ('b, 'c) build_payload \<times> bool \<times> ('e + ('c, 'e) built) option) list) (bp_id p)"
    "dset (map building started) (bp_id p) (prefetch p ([], False), False, None) = map building (started @ [p])"
proof -
  show n: "\<not> dhas (map building started) (bp_id p)" using assms by (auto simp: dhas_iff building_def)
  show "dset (map building started) (bp_id p) (prefetch p ([], False), False, None) = map building (started @ [p])"
    by (subst dset_fresh) (use n in \<open>simp_all add: not_dhas_dget building_def\<close>)
qed

lemma submit_one:
  assumes "has_executor c" "\<And>p d. is_request_build_ready c p d" "max_queued_requests c = Some (int n)"
    and "length started + length rest < n" "bp_id p \<notin> bp_id ` set started"
  shows "omni_step c (omni_step c (pool_state (p # qs) rest started) CheckNext) Proceed = pool_state qs rest (started @ [p])"
  using assms
  by (simp add: building_fresh [OF assms(5)] pool_state_def waiting_queue_is_full_def queued_admission_count_def check_payload_def proceed_payload_def admission_known_def
      ingress_of_def drop_ingress_chunks_def omni_init_def Let_def)

lemma run_submissions:
  assumes "has_executor c" "\<And>p d. is_request_build_ready c p d" "max_queued_requests c = Some (int n)"
    and "length qs + length started + length rest \<le> n" "distinct (map bp_id (started @ qs))"
  shows "run (omni_step c) (pool_state qs rest started) (concat (replicate (length qs) [CheckNext, Proceed])) = pool_state [] rest (started @ qs)"
  using assms(4,5)
proof (induction qs arbitrary: started)
  case (Cons p qs)
  then show ?case using Cons.IH [of "started @ [p]"] by (simp add: submit_one [OF assms(1-3)] del: omni_step.simps)
qed simp

lemma stage_arrivals:
  assumes "has_executor c" "max_queued_requests c = Some (int n)" "request_build_max_pending c = k" "request_build_backlog_limit c = Some (max k n)"
    and "length ps = n" "distinct (map bp_id ps)" "0 < n"
  shows "omni_step c (omni_init\<lparr>new_reqs := ps\<rparr>) StagePayloads = (pool_state (take k ps) (drop k ps) [] :: ('b, 'c, 'e, 'r) omni_state)"
proof -
  let ?s = "omni_init\<lparr>new_reqs := ps\<rparr> :: ('b, 'c, 'e, 'r) omni_state"
  have f: "fold (stage_one c ?s) ps (staged k []) = staged k ps"
    using assms by (intro stage_fresh [where n = n]) (simp_all add: admission_known_def omni_init_def)
  have "stage_request_build_payloads c ps ?s =
    ((sg_selected (fold (stage_one c ?s) ps (staged k [])), sg_rejected (fold (stage_one c ?s) ps (staged k []))),
     ?s\<lparr>backlogged_payloads := sg_backlog (fold (stage_one c ?s) ps (staged k []))\<rparr>)"
    using assms by (simp add: stage_request_build_payloads_def waiting_queue_is_full_def queued_admission_count_def staged_def omni_init_def Let_def)
  then show ?thesis unfolding f by (simp add: staged_def omni_init_def pool_state_def)
qed

lemma run_rejects:
  assumes "is_entry_rank c"
  shows "outbox (run (omni_step c) s (replicate (length (rejected_reqs s)) RejectNext)) = outbox s @ map (\<lambda>p. (bp_id p, OErr QueueFullExn)) (rejected_reqs s)"
proof (induction "rejected_reqs s" arbitrary: s)
  case (Cons p ps)
  let ?s = "reject_queue_full c p (s\<lparr>rejected_reqs := ps\<rparr>)"
  have "rejected_reqs ?s = ps" "outbox ?s = outbox s @ [(bp_id p, OErr QueueFullExn)]"
    using assms by (simp_all add: reject_queue_full_def fail_and_abort_def omni_abort_def abort_locked_def abort_rest_def emit_request_error_def Let_def split: prod.split)
  with Cons(1) [of ?s] Cons(2) [symmetric] show ?case by simp
qed simp

text \<open>
  C15: a request the scheduler has accepted within its limit is thrown out again. With a limit of \<open>n\<close> queued requests and a pool that builds \<open>k\<close> of them
  at a time, \<open>n\<close> requests that arrive together are all accepted, \<open>k\<close> for building and the rest into the backlog; the next pass, although nothing arrived
  in between, finds the queue full because it counts the backlog itself, and rejects every backlogged request as if the queue had no room for it.
\<close>

theorem accepted_backlog_rejected:
  assumes "has_executor c" "max_queued_requests c = Some (int n)" "request_build_max_pending c = k" "request_build_backlog_limit c = Some (max k n)"
    and "\<And>p d. is_request_build_ready c p d" "is_entry_rank c" "length ps = n" "distinct (map bp_id ps)" "k < n"
    and s1_def: "s1 = run (omni_step c) omni_init (arrivals ps @ [StagePayloads])"
    and s2_def: "s2 = run (omni_step c) s1 (concat (replicate k [CheckNext, Proceed]) @ [StagePayloads])"
  shows "rejected_reqs s1 = [] \<and> int (queued_admission_count s1) + int (length (selected_reqs s1)) \<le> int n \<and> backlogged_payloads s1 = drop k ps \<and>
    backlogged_payloads s2 = [] \<and>
    outbox (run (omni_step c) s2 (replicate (n - k) RejectNext)) = map (\<lambda>p. (bp_id p, OErr QueueFullExn)) (drop k ps)"
proof -
  have s1: "s1 = pool_state (take k ps) (drop k ps) []"
    using assms(1-4,7-9) by (simp add: s1_def run_append run_arrivals stage_arrivals del: omni_step.simps)
  have "run (omni_step c) s1 (concat (replicate k [CheckNext, Proceed])) = pool_state [] (drop k ps) (take k ps)"
    unfolding s1 using assms(7,9) distinct_take [OF assms(8), of k] run_submissions [OF assms(1,5,2), where qs = "take k ps" and started = "[]" and rest = "drop k ps"]
    by (simp add: take_map)
  then have s2: "s2 = omni_step c (pool_state [] (drop k ps) (take k ps)) StagePayloads" by (simp add: s2_def run_append)
  have r: "rejected_reqs s2 = drop k ps" "outbox s2 = []" "backlogged_payloads s2 = []"
    using assms(1,2,7,9) by (simp_all add: s2 pool_state_def stage_request_build_payloads_def waiting_queue_is_full_def queued_admission_count_def omni_init_def min_def)
  have o: "outbox (run (omni_step c) s2 (replicate (n - k) RejectNext)) = map (\<lambda>p. (bp_id p, OErr QueueFullExn)) (drop k ps)"
    using run_rejects [OF assms(6), of s2] assms(7) by (simp add: r)
  have "rejected_reqs s1 = []" "queued_admission_count s1 + length (selected_reqs s1) \<le> n" "backlogged_payloads s1 = drop k ps"
    using assms(7,9) by (simp_all add: s1 pool_state_def omni_init_def queued_admission_count_def)
  with o r(3) show ?thesis by simp
qed

text \<open>A pool of one worker behind a limit of three.\<close>

definition demo_req :: "string \<Rightarrow> nat omni_req" where
  "demo_req r = \<lparr>rid = r, input_len = 4, max_new_tokens = Some 8, enforce_request_limits = True, has_data = True, stream_chunks = [], stream_done = False,
     terminal_claimed = False, req_finished = False, is_retracted = False, to_finish_abort = False\<rparr>"

definition pool_config :: "(nat, nat, nat) omni_config" where
  "pool_config = \<lparr>has_executor = True, max_queued_requests = Some 3, request_build_max_pending = 1, request_build_backlog_limit = Some 3, max_req_len = 64,
     is_entry_rank = True, is_request_build_ready = (\<lambda>_ _. True), recheck_on_stream_chunk = True,
     request_builder = (\<lambda>p _. Inr (Built (demo_req (bp_id p)))), prepare_limits = Inr, set_or_validate_priority = Inr,
     abort_on_queued_limit = (\<lambda>_ _. None)\<rparr>"

definition demo_build_payload :: "string \<Rightarrow> (nat, nat) build_payload" where
  "demo_build_payload r = \<lparr>bp_id = r, bp_body = 0, prefetched_chunks = [], prefetched_stream_done = False\<rparr>"

definition demo_payloads :: "(nat, nat) build_payload list" where
  "demo_payloads = map demo_build_payload [''a'', ''b'', ''c'']"

theorem accepted_backlog_rejected_witness:
  "outbox (run (omni_step pool_config)
      (run (omni_step pool_config) (run (omni_step pool_config) (omni_init :: (nat, nat, nat, nat) omni_state) (arrivals demo_payloads @ [StagePayloads]))
        (concat (replicate 1 [CheckNext, Proceed]) @ [StagePayloads])) (replicate (3 - 1) RejectNext)) =
   [(''b'', OErr QueueFullExn), (''c'', OErr QueueFullExn)]"
proof -
  have *: "has_executor pool_config" "max_queued_requests pool_config = Some (int 3)" "request_build_max_pending pool_config = 1"
    "request_build_backlog_limit pool_config = Some (max 1 3)" "is_request_build_ready pool_config p d" "is_entry_rank pool_config"
    "length demo_payloads = 3" "distinct (map bp_id demo_payloads)" "(1::nat) < 3" for p d
    by (simp_all add: pool_config_def demo_payloads_def demo_build_payload_def)
  define s1 :: "(nat, nat, nat, nat) omni_state" where "s1 = run (omni_step pool_config) omni_init (arrivals demo_payloads @ [StagePayloads])"
  define s2 where "s2 = run (omni_step pool_config) s1 (concat (replicate 1 [CheckNext, Proceed]) @ [StagePayloads])"
  have "map (\<lambda>p. (bp_id p, OErr QueueFullExn)) (drop 1 demo_payloads) = [(''b'', OErr QueueFullExn), (''c'', OErr QueueFullExn)]"
    by (simp add: demo_payloads_def demo_build_payload_def)
  with accepted_backlog_rejected [OF * s1_def s2_def] show ?thesis unfolding s1_def [symmetric] s2_def [symmetric] by metis
qed


section \<open>An abort between the check and the deferral\<close>

definition input_ev :: "('b, 'c, 'e, 'r) omni_ev \<Rightarrow> bool" where
  "input_ev ev = (case ev of PutMsg _ \<Rightarrow> True | DrainInbox \<Rightarrow> True | RecvNext \<Rightarrow> True | TakeDeferred \<Rightarrow> True | _ \<Rightarrow> False)"

definition stuck :: "string \<Rightarrow> ('b, 'c, 'e, 'r) omni_state \<Rightarrow> bool" where
  "stuck r s \<longleftrightarrow> r \<in> set (aborted_request_ids s) \<and> dhas (deferred_request_payloads s) r \<and> r \<notin> set (dirty_deferred_ids s)"

lemma upd_data_stuck: "upd_request_data k f s = Some s' \<Longrightarrow> stuck r s' = stuck r s"
  by (auto simp: upd_request_data_def stuck_def split: option.splits if_splits)

lemma stuck_recv: "stuck r s \<Longrightarrow> stuck r (recv_message c m s)"
proof (cases "r = omni_msg_id m")
  case True
  assume "stuck r s"
  with True show ?thesis by (cases m) (auto simp: stuck_def)
next
  case False
  assume a: "stuck r s"
  then have "stuck r (omni_stream_chunk c k ch s)" "stuck r (omni_stream_done k s)" if "k \<noteq> r" for k ch
    using that upd_data_stuck [of k _ s]
    by (auto simp: omni_stream_chunk_def omni_stream_done_def Let_def stuck_def split: option.split prod.split)
  with False a show ?thesis by (cases m) (auto simp: stuck_def)
qed

lemma dget_fold_ddel: "r \<notin> set ks \<Longrightarrow> dget (fold (\<lambda>k d. ddel d k) ks d) r = dget d r"
  by (induction ks arbitrary: d) auto

lemma stuck_step: "stuck r s \<Longrightarrow> input_ev ev \<Longrightarrow> stuck r (omni_step c s ev)"
proof (cases ev)
  case RecvNext
  assume "stuck r s"
  then have "stuck r (s\<lparr>recv_msgs := ms\<rparr>)" for ms by (simp add: stuck_def)
  with \<open>stuck r s\<close> RecvNext show ?thesis by (simp add: stuck_recv split: list.split)
qed (auto simp: input_ev_def stuck_def take_deferred_request_payloads_def dhas_dget dget_fold_ddel)

lemma stuck_run: "stuck r s \<Longrightarrow> list_all input_ev evs \<Longrightarrow> stuck r (run (omni_step c) s evs)"
  by (induction evs arbitrary: s) (simp_all add: stuck_step del: omni_step.simps)

text \<open>
  C16: a queue slot is lost. When another thread aborts a request between the check of \<^verbatim>\<open>process_input_requests\<close> and the point where its payload is deferred
  (a request that waits for stream input), the payload is deferred although the abort has already cleaned up. No later message of any request takes it out
  again, as every message of an aborted request is skipped, so it counts against the queue limit for good and its client never gets an answer.
\<close>

theorem abort_before_deferral_leaks:
  assumes "max_queued_requests c = Some n" "0 < n" "\<And>q. bp_id q = bp_id p \<Longrightarrow> \<not> is_request_build_ready c q False"
    and "has_executor c = False" "list_all input_ev evs"
    and s: "s = run (omni_step c) omni_init (arrivals [p] @ [StagePayloads, CheckNext, AbortBegin (bp_id p), AbortEnd, Proceed] @ evs)"
  shows "dhas (deferred_request_payloads s) (bp_id p) \<and> 0 < queued_admission_count s \<and> bp_id p \<in> set (aborted_request_ids s)"
proof -
  have "stuck (bp_id p) (run (omni_step c) (omni_init\<lparr>new_reqs := [p]\<rparr>) [StagePayloads, CheckNext, AbortBegin (bp_id p), AbortEnd, Proceed] :: ('a, 'b, 'c, 'd) omni_state)"
    using assms(1-4)
    by (simp add: stuck_def stage_request_build_payloads_def check_payload_def admission_known_def abort_locked_def mark_running_request_aborted_def
        abort_rest_def proceed_payload_def waiting_queue_is_full_def queued_admission_count_def ingress_of_def prefetch_def remember_aborted_def
        ABORTED_REQUEST_ID_LIMIT_def omni_init_def dhas_dget Let_def)
  then have "stuck (bp_id p) s" unfolding s by (simp only: run_append run_arrivals) (rule stuck_run [OF _ assms(5)])
  then show ?thesis by (auto simp: stuck_def queued_admission_count_def dhas_def)
qed

definition talker_config :: "(nat, nat, nat) omni_config" where
  "talker_config = pool_config\<lparr>has_executor := False, is_request_build_ready := (\<lambda>_ d. d)\<rparr>"

theorem abort_before_deferral_leaks_witness:
  "dhas (deferred_request_payloads (run (omni_step talker_config) (omni_init :: (nat, nat, nat, nat) omni_state)
     (arrivals [demo_build_payload ''a''] @ [StagePayloads, CheckNext, AbortBegin ''a'', AbortEnd, Proceed] @ [PutMsg (StreamDone ''a''), DrainInbox, RecvNext, TakeDeferred]))) ''a''"
proof -
  have i: "bp_id (demo_build_payload ''a'') = ''a''" by (simp add: demo_build_payload_def)
  have *: "max_queued_requests talker_config = Some 3" "(0::int) < 3" "bp_id q = bp_id (demo_build_payload ''a'') \<Longrightarrow> \<not> is_request_build_ready talker_config q False"
    "has_executor talker_config = False"
    "list_all input_ev ([PutMsg (StreamDone ''a''), DrainInbox, RecvNext, TakeDeferred] :: (nat, nat, nat, nat) omni_ev list)" for q
    by (simp_all add: talker_config_def pool_config_def input_ev_def)
  from abort_before_deferral_leaks [of talker_config 3 "demo_build_payload ''a''", OF * refl] show ?thesis unfolding i by blast
qed

end
