(* ===== verification/Omni_Accounting.thy ===== *)
theory Omni_Accounting
  imports Omni_Properties "HOL-Library.Multiset"
begin

text \<open>
  Every request of the autoregressive scheduler is in exactly one place or answered exactly once, and its stream input reaches its request data complete and
  in order. The invariant is stated for one request \<open>r\<close> that no client aborts; what the scheduler does for other requests leaves the view of \<open>r\<close> unchanged.
\<close>

section \<open>The places of a request\<close>

definition opt_list :: "'a option \<Rightarrow> 'a list" where
  "opt_list x = (case x of None \<Rightarrow> [] | Some y \<Rightarrow> [y])"

lemma opt_list_simps [simp]: "opt_list None = []" "opt_list (Some x) = [x]"
  by (simp_all add: opt_list_def)

fun new_payloads :: "('b, 'c) omni_msg list \<Rightarrow> ('b, 'c) build_payload list" where
  "new_payloads [] = []"
| "new_payloads (NewRequest p # ms) = p # new_payloads ms"
| "new_payloads (_ # ms) = new_payloads ms"

fun chunks_for :: "string \<Rightarrow> ('b, 'c) omni_msg list \<Rightarrow> 'c list" where
  "chunks_for r [] = []"
| "chunks_for r (StreamChunk k ch # ms) = (if k = r then ch # chunks_for r ms else chunks_for r ms)"
| "chunks_for r (_ # ms) = chunks_for r ms"

lemma new_payloads_append [simp]: "new_payloads (xs @ ys) = new_payloads xs @ new_payloads ys"
  by (induction xs rule: new_payloads.induct) simp_all

lemma chunks_for_append [simp]: "chunks_for r (xs @ ys) = chunks_for r xs @ chunks_for r ys"
  by (induction r xs rule: chunks_for.induct) simp_all

definition payloads :: "('b, 'c, 'e, 'r) omni_state \<Rightarrow> ('b, 'c) build_payload list" where
  "payloads s =
     new_payloads (recv_msgs s @ inbox s) @ new_reqs s @ selected_reqs s @ rejected_reqs s @ opt_list (checked_req s) @ map fst (opt_list (building_req s)) @
     backlogged_payloads s @ map (\<lambda>kv. fst (snd kv)) (pending_request_builds s) @ map (\<lambda>kv. fst (snd kv)) (pending_request_admissions s) @
     map snd (deferred_request_payloads s)"

definition parts :: "string \<Rightarrow> ('b, 'c) build_payload list \<Rightarrow> 'c list multiset" where
  "parts r ps = image_mset prefetched_chunks (filter_mset (\<lambda>p. bp_id p = r) (mset ps))"

lemma parts_simps [simp]:
  "parts r [] = {#}" "parts r (p # ps) = (if bp_id p = r then add_mset (prefetched_chunks p) (parts r ps) else parts r ps)"
  "parts r (ps @ qs) = parts r ps + parts r qs"
  by (simp_all add: parts_def)

lemma parts_filter: "parts r (filter (\<lambda>p. bp_id p \<noteq> k) ps) = (if k = r then {#} else parts r ps)"
  by (induction ps) auto

lemma parts_filter_keep: "(\<And>p. bp_id p = r \<Longrightarrow> P p) \<Longrightarrow> parts r (filter P ps) = parts r ps"
  by (induction ps) auto

lemma parts_empty: "parts r ps = {#} \<longleftrightarrow> r \<notin> bp_id ` set ps"
  by (induction ps) auto

definition reqs_of :: "string \<Rightarrow> ('b, 'c, 'e, 'r) omni_state \<Rightarrow> 'c omni_req multiset" where
  "reqs_of r s = filter_mset (\<lambda>q. rid q = r) (mset (waiting_queue s @ batches s))"

definition answers :: "string \<Rightarrow> ('b, 'c, 'e, 'r) omni_state \<Rightarrow> nat" where
  "answers r s = count_list (map fst (outbox s)) r"

text \<open>Dictionaries of payloads by request id.\<close>

definition keyed_by :: "('v \<Rightarrow> string) \<Rightarrow> (string, 'v) dict \<Rightarrow> bool" where
  "keyed_by f d \<longleftrightarrow> dict_ok d \<and> (\<forall>k v. dget d k = Some v \<longrightarrow> f v = k)"

lemma keyed_by_nil [simp]: "keyed_by f []"
  by (simp add: keyed_by_def)

lemma keyed_by_upd: "keyed_by f d \<Longrightarrow> f v = k \<Longrightarrow> keyed_by f (dset d k v)" "keyed_by f d \<Longrightarrow> keyed_by f (ddel d k)"
  by (auto simp: keyed_by_def)

lemma keyed_by_get: "keyed_by f d \<Longrightarrow> dget d k = Some v \<Longrightarrow> f v = k"
  by (simp add: keyed_by_def)

lemma parts_keyed:
  assumes "keyed_by (\<lambda>v. bp_id (g v)) d"
  shows "parts r (map (\<lambda>kv. g (snd kv)) d) = (case dget d r of None \<Rightarrow> {#} | Some v \<Rightarrow> {#prefetched_chunks (g v)#})"
  using assms
proof (induction d)
  case (Cons kv d)
  obtain k v where kv: "kv = (k, v)" by (cases kv)
  have n: "dget d k = None" using Cons.prems by (auto simp: kv keyed_by_def dict_ok_def map_of_eq_None_iff)
  have "bp_id (g w) = k'" if "dget d k' = Some w" for k' w
    using keyed_by_get [OF Cons.prems, of k' w] that n by (cases "k' = k") (auto simp: kv)
  then have "keyed_by (\<lambda>v. bp_id (g v)) d" using Cons.prems by (simp add: keyed_by_def kv dict_ok_def)
  moreover have "bp_id (g v) = k" using keyed_by_get [OF Cons.prems, of k v] by (simp add: kv)
  moreover note n
  ultimately show ?case using Cons.IH by (auto simp: kv split: option.split)
qed simp

lemmas parts_keyed_id = parts_keyed [where g = "\<lambda>x. x"]

section \<open>Invariant\<close>

definition fresh_req :: "'c omni_req \<Rightarrow> bool" where
  "fresh_req q \<longleftrightarrow> stream_chunks q = [] \<and> \<not> to_finish_abort q \<and> \<not> req_finished q"

fun built_req :: "('c, 'e) built \<Rightarrow> 'c omni_req" where
  "built_req (Built q) = q"
| "built_req (DeferredAdmission q _) = q"

text \<open>
  What the scheduler relies on: a builder makes a new request with the id of its payload, the upstream checks do not change what is of interest here, and
  upstream rejects the incoming request when its queue is full.
\<close>

definition keeps_req :: "'c omni_req \<Rightarrow> 'c omni_req \<Rightarrow> bool" where
  "keeps_req q q' \<longleftrightarrow> rid q' = rid q \<and> stream_chunks q' = stream_chunks q \<and> to_finish_abort q' = to_finish_abort q \<and> req_finished q' = req_finished q"

definition config_ok :: "('b, 'c, 'e) omni_config \<Rightarrow> bool" where
  "config_ok c \<longleftrightarrow>
     is_entry_rank c \<and>
     (\<forall>p i b. request_builder c p i = Inr b \<longrightarrow> rid (built_req b) = bp_id p \<and> fresh_req (built_req b)) \<and>
     (\<forall>q q'. prepare_limits c q = Inr q' \<longrightarrow> keeps_req q q') \<and> (\<forall>q q'. set_or_validate_priority c q = Inr q' \<longrightarrow> keeps_req q q') \<and>
     (\<forall>q ws r e. abort_on_queued_limit c q ws = Some (r, e) \<longrightarrow> r = rid q)"

definition omni_wf :: "string set \<Rightarrow> ('b, 'c, 'e, 'r) omni_state \<Rightarrow> bool" where
  "omni_wf K s \<longleftrightarrow>
     keyed_by (\<lambda>v. bp_id (fst v)) (pending_request_builds s) \<and> keyed_by (\<lambda>v. bp_id (fst v)) (pending_request_admissions s) \<and> keyed_by bp_id (deferred_request_payloads s) \<and>
     (\<forall>k p d b. dget (pending_request_builds s) k = Some (p, d, Some (Inr b)) \<longrightarrow> rid (built_req b) = k \<and> fresh_req (built_req b)) \<and>
     (\<forall>k p d q ready. dget (pending_request_admissions s) k = Some (p, d, q, ready) \<longrightarrow> rid q = k \<and> fresh_req q) \<and>
     distinct (dirty_deferred_ids s) \<and> dict_ok (pending_stream_ingress s) \<and> (\<forall>k. dhas (pending_stream_ingress s) k \<longrightarrow> k \<in> K) \<and>
     omni_msg_id ` set (recv_msgs s @ inbox s) \<subseteq> K \<and> (checked_req s \<noteq> None \<longrightarrow> building_req s = None)"

definition carries :: "'c list multiset \<Rightarrow> 'c list \<Rightarrow> bool" where
  "carries M x \<longleftrightarrow> M = {#} \<and> x = [] \<or> M = {#x#}"

definition places :: "string \<Rightarrow> ('b, 'c, 'e, 'r) omni_state \<Rightarrow> 'c list multiset" where
  "places r s = parts r (payloads s) + image_mset stream_chunks (filter_mset has_data (reqs_of r s))"

definition req_inv :: "string \<Rightarrow> bool \<Rightarrow> nat \<Rightarrow> 'c list \<Rightarrow> ('b, 'c, 'e, 'r) omni_state \<Rightarrow> bool" where
  "req_inv r small n cs s \<longleftrightarrow>
     size (places r s) + answers r s = n \<and> n \<le> 1 \<and>
     (r \<in> set (aborted_request_ids s) \<or> r \<in> set (completed_request_ids s) \<longrightarrow> answers r s = 1) \<and>
     (\<forall>q\<in>#reqs_of r s. (has_data q \<and> \<not> to_finish_abort q \<or> answers r s = 1 \<and> req_finished q) \<and> (terminal_claimed q \<longrightarrow> req_finished q)) \<and>
     (filter_mset has_data (reqs_of r s) \<noteq> {#} \<longrightarrow> dget (pending_stream_ingress s) r = None) \<and>
     r \<notin> fst ` set (aborting s) \<and>
     (answers r s = 0 \<longrightarrow> small \<longrightarrow>
        (\<exists>x. carries (places r s) x \<and> cs = x @ fst (ingress_of (pending_stream_ingress s) r) @ chunks_for r (recv_msgs s @ inbox s)))"

lemma parts_payloads:
  assumes "omni_wf K s"
  shows "parts r (payloads s) =
    parts r (new_payloads (recv_msgs s @ inbox s)) + parts r (new_reqs s) + parts r (selected_reqs s) + parts r (rejected_reqs s) +
    parts r (opt_list (checked_req s)) + parts r (map fst (opt_list (building_req s))) + parts r (backlogged_payloads s) +
    (case dget (pending_request_builds s) r of None \<Rightarrow> {#} | Some v \<Rightarrow> {#prefetched_chunks (fst v)#}) +
    (case dget (pending_request_admissions s) r of None \<Rightarrow> {#} | Some v \<Rightarrow> {#prefetched_chunks (fst v)#}) +
    (case dget (deferred_request_payloads s) r of None \<Rightarrow> {#} | Some p \<Rightarrow> {#prefetched_chunks p#})"
proof -
  have "keyed_by (\<lambda>v. bp_id (fst v)) (pending_request_builds s)" "keyed_by (\<lambda>v. bp_id (fst v)) (pending_request_admissions s)"
    "keyed_by bp_id (deferred_request_payloads s)"
    using assms by (simp_all add: omni_wf_def)
  then show ?thesis using parts_keyed_id [of "deferred_request_payloads s" r] by (simp add: payloads_def parts_keyed)
qed

definition same_view :: "string \<Rightarrow> ('b, 'c, 'e, 'r) omni_state \<Rightarrow> ('b, 'c, 'e, 'r) omni_state \<Rightarrow> bool" where
  "same_view r s s' \<longleftrightarrow>
     places r s' = places r s \<and> reqs_of r s' = reqs_of r s \<and> answers r s' = answers r s \<and>
     dget (pending_stream_ingress s') r = dget (pending_stream_ingress s) r \<and>
     chunks_for r (recv_msgs s' @ inbox s') = chunks_for r (recv_msgs s @ inbox s) \<and>
     (r \<in> set (aborted_request_ids s') \<longrightarrow> r \<in> set (aborted_request_ids s)) \<and>
     (r \<in> set (completed_request_ids s') \<longrightarrow> r \<in> set (completed_request_ids s)) \<and>
     (r \<in> fst ` set (aborting s') \<longrightarrow> r \<in> fst ` set (aborting s))"

lemma req_inv_same: "req_inv r small n cs s \<Longrightarrow> same_view r s s' \<Longrightarrow> req_inv r small n cs s'"
  unfolding req_inv_def same_view_def ingress_of_def by auto

lemma same_view_refl [simp]: "same_view r s s"
  by (simp add: same_view_def)

lemma same_view_trans [trans]: "same_view r s t \<Longrightarrow> same_view r t u \<Longrightarrow> same_view r s u"
  by (auto simp: same_view_def)

section \<open>Failures and aborts\<close>

lemma reqs_of_mark: "filter_mset (\<lambda>q. rid q = r) (mset (snd (mark_running_request_aborted k qs))) = filter_mset (\<lambda>q. rid q = r) (mset qs)" if "k \<noteq> r"
proof -
  have "snd (mark_one k q) = q" if "rid q = r" for q :: "'a omni_req" using that \<open>k \<noteq> r\<close> by (simp add: mark_one_def)
  moreover have "rid (snd (mark_one k q)) = rid q" for q :: "'a omni_req" by (simp add: mark_one_def)
  ultimately show ?thesis by (induction qs) (auto simp: mark_running_request_aborted_def)
qed

lemma omni_wf_abort_locked: "omni_wf K s \<Longrightarrow> omni_wf K (snd (abort_locked k d s))"
  by (auto simp: omni_wf_def abort_locked_def Let_def keyed_by_upd split: prod.split)

lemma omni_wf_abort_rest: "omni_wf K s \<Longrightarrow> omni_wf K (abort_rest k b s)"
  by (auto simp: omni_wf_def abort_rest_def keyed_by_upd distinct_removeAll image_subset_iff split: if_splits)

lemma omni_wf_emit: "omni_wf K (emit_request_error c k e s) = omni_wf K s"
  by (simp add: emit_request_error_def omni_wf_def)

lemma omni_wf_fail: "omni_wf K s \<Longrightarrow> omni_wf K (fail_and_abort c k e d s)"
  using omni_wf_abort_locked [of K "emit_request_error c k e s" k d]
  by (cases "abort_locked k d (emit_request_error c k e s)") (simp add: fail_and_abort_def omni_abort_def omni_wf_abort_rest omni_wf_emit)

lemma new_payloads_filter: "k \<noteq> r \<Longrightarrow> parts r (new_payloads (filter (\<lambda>m. omni_msg_id m \<noteq> k) ms)) = parts r (new_payloads ms)"
  by (induction ms rule: new_payloads.induct) auto

lemma chunks_for_filter: "k \<noteq> r \<Longrightarrow> chunks_for r (filter (\<lambda>m. omni_msg_id m \<noteq> k) ms) = chunks_for r ms"
  by (induction r ms rule: chunks_for.induct) auto

lemma remember_aborted_other: "k \<noteq> r \<Longrightarrow> r \<in> set (remember_aborted k ids) \<Longrightarrow> r \<in> set ids"
  by (auto simp: remember_aborted_def split: if_splits dest: in_set_dropD)

lemma filter_mset_filter: "k \<noteq> r \<Longrightarrow> filter_mset (\<lambda>q. rid q = r) (filter_mset (\<lambda>q. rid q \<noteq> k) M) = filter_mset (\<lambda>q. rid q = r) M"
  by (induction M) auto

lemma same_abort_locked:
  assumes "omni_wf K s" "k \<noteq> r"
  shows "same_view r s (snd (abort_locked k d s))"
proof -
  have "reqs_of r (snd (abort_locked k d s)) = reqs_of r s"
    using assms(2) reqs_of_mark [OF assms(2), of "batches s"]
    by (auto simp: reqs_of_def abort_locked_def Let_def filter_mset_filter split: prod.split)
  moreover have "parts r (payloads (snd (abort_locked k d s))) = parts r (payloads s)"
    unfolding parts_payloads [OF assms(1)] parts_payloads [OF omni_wf_abort_locked [OF assms(1)]]
    using assms(2) by (simp add: abort_locked_def Let_def parts_filter split: prod.split)
  ultimately show ?thesis using assms(2)
    by (auto simp: same_view_def places_def answers_def abort_locked_def Let_def dest: remember_aborted_other split: prod.splits)
qed

lemma same_abort_rest:
  assumes "omni_wf K s" "k \<noteq> r"
  shows "same_view r s (abort_rest k b s)"
proof -
  have "reqs_of r (abort_rest k b s) = reqs_of r s" using assms(2) by (simp add: reqs_of_def abort_rest_def filter_mset_filter)
  moreover have "parts r (payloads (abort_rest k b s)) = parts r (payloads s)"
    unfolding parts_payloads [OF assms(1)] parts_payloads [OF omni_wf_abort_rest [OF assms(1)]]
    using assms(2) by (simp add: abort_rest_def new_payloads_filter)
  ultimately show ?thesis using assms(2) by (auto simp: same_view_def places_def answers_def abort_rest_def chunks_for_filter)
qed

lemma same_fail:
  assumes "omni_wf K s" "k \<noteq> r"
  shows "same_view r s (fail_and_abort c k e d s)"
proof -
  let ?e = "emit_request_error c k e s"
  have "same_view r s ?e" using assms(2) by (auto simp: same_view_def places_def reqs_of_def answers_def payloads_def emit_request_error_def)
  also have "same_view r ?e (snd (abort_locked k d ?e))" using assms by (intro same_abort_locked [of K]) (simp_all add: omni_wf_emit)
  also have "same_view r (snd (abort_locked k d ?e)) (abort_rest k (fst (abort_locked k d ?e)) (snd (abort_locked k d ?e)))"
    using assms by (intro same_abort_rest [of K] omni_wf_abort_locked) (simp_all add: omni_wf_emit)
  finally show ?thesis by (simp add: fail_and_abort_def omni_abort_def split_beta)
qed

text \<open>
  Failing the request itself. Either it has just been taken out of its place, or it is a request of the waiting queue or a batch that upstream aborts. In both
  cases nothing of it is left but payloads of places an abort does not reach, of which there are none.
\<close>

definition unreached :: "string \<Rightarrow> ('b, 'c, 'e, 'r) omni_state \<Rightarrow> 'c list multiset" where
  "unreached r s =
     parts r (new_payloads (recv_msgs s)) + parts r (new_reqs s) + parts r (selected_reqs s) + parts r (rejected_reqs s) +
     parts r (opt_list (checked_req s)) + parts r (map fst (opt_list (building_req s)))"

lemma new_payloads_drop: "parts r (new_payloads (filter (\<lambda>m. omni_msg_id m \<noteq> r) ms)) = {#}"
  by (induction ms rule: new_payloads.induct) auto

lemma fail_parts:
  assumes "omni_wf K s"
  shows "parts r (payloads (fail_and_abort c r e d s)) = unreached r s"
  unfolding parts_payloads [OF omni_wf_fail [OF assms]]
  by (simp add: fail_and_abort_def omni_abort_def abort_locked_def abort_rest_def emit_request_error_def unreached_def Let_def new_payloads_drop parts_filter
      split: prod.split)

lemma unreached_le: "omni_wf K s \<Longrightarrow> unreached r s \<subseteq># parts r (payloads s)"
  by (simp add: parts_payloads unreached_def)

lemma filter_mset_none: "filter_mset P M = {#} \<longleftrightarrow> (\<forall>x\<in>#M. \<not> P x)"
  by (induction M) auto

lemma no_mark: "\<forall>q\<in>set qs. rid q \<noteq> r \<Longrightarrow> mark_running_request_aborted r qs = (False, qs)"
  by (induction qs) (auto simp: mark_running_request_aborted_def mark_one_def)

lemma reqs_of_empty: "reqs_of r s = {#} \<longleftrightarrow> (\<forall>q\<in>set (waiting_queue s) \<union> set (batches s). rid q \<noteq> r)"
  by (auto simp: reqs_of_def filter_mset_none)

lemma fail_reqs:
  assumes "\<not> d \<or> reqs_of r s = {#}"
  shows "reqs_of r (fail_and_abort c r e d s) = {#}"
proof (cases d)
  case True
  with assms have "mark_running_request_aborted r (batches s) = (False, batches s)" by (intro no_mark) (auto simp: reqs_of_empty)
  with True show ?thesis
    by (auto simp: reqs_of_empty fail_and_abort_def omni_abort_def abort_locked_def abort_rest_def emit_request_error_def Let_def)
qed (auto simp: reqs_of_empty fail_and_abort_def omni_abort_def abort_locked_def abort_rest_def emit_request_error_def Let_def)

lemma fail_answers: "is_entry_rank c \<Longrightarrow> answers r (fail_and_abort c r e d s) = Suc (answers r s)"
  "aborting (fail_and_abort c r e d s) = aborting s"
  by (simp_all add: answers_def fail_and_abort_def omni_abort_def abort_locked_def abort_rest_def emit_request_error_def Let_def split: prod.split)

lemma fail_own:
  assumes "omni_wf K s" "is_entry_rank c" "\<not> d \<or> reqs_of r s = {#}" "unreached r s = {#}" "answers r s = 0" "r \<notin> fst ` set (aborting s)"
  shows "req_inv r small 1 cs (fail_and_abort c r e d s)"
proof -
  have "places r (fail_and_abort c r e d s) = {#}" using assms by (simp add: places_def fail_parts fail_reqs)
  moreover have "answers r (fail_and_abort c r e d s) = 1" using assms by (simp add: fail_answers)
  ultimately show ?thesis using fail_reqs [OF assms(3)] assms(6) by (simp add: req_inv_def fail_answers)
qed

lemma fail_taken:
  assumes "omni_wf K s" "is_entry_rank c" "req_inv r small 0 cs' s"
  shows "req_inv r small 1 cs (fail_and_abort c r e d s)"
proof -
  have h: "places r s = {#}" "answers r s = 0" "r \<notin> fst ` set (aborting s)" using assms(3) by (auto simp: req_inv_def)
  then have "reqs_of r s = {#}" using assms(3) by (force simp: req_inv_def places_def filter_mset_none)
  moreover have "unreached r s = {#}" using h unreached_le [OF assms(1), of r] by (simp add: places_def)
  ultimately show ?thesis using assms h by (intro fail_own) auto
qed

section \<open>Putting a payload into a place\<close>

lemma put_payload:
  assumes "req_inv r small 0 cs s"
    and "parts r (payloads s') = add_mset x (parts r (payloads s))" "waiting_queue s' = waiting_queue s" "batches s' = batches s" "outbox s' = outbox s"
    and "aborted_request_ids s' = aborted_request_ids s" "completed_request_ids s' = completed_request_ids s" "aborting s' = aborting s"
    and "x @ fst (ingress_of (pending_stream_ingress s') r) @ chunks_for r (recv_msgs s' @ inbox s') =
      y @ fst (ingress_of (pending_stream_ingress s) r) @ chunks_for r (recv_msgs s @ inbox s)"
  shows "req_inv r small 1 (y @ cs) s'"
proof -
  have h: "places r s = {#}" "answers r s = 0" using assms(1) by (auto simp: req_inv_def)
  then have n: "reqs_of r s = {#}" using assms(1) by (force simp: req_inv_def places_def filter_mset_none)
  then have "places r s' = {#x#}" "reqs_of r s' = {#}" "answers r s' = 0"
    using assms h by (simp_all add: places_def reqs_of_def answers_def)
  then show ?thesis using assms(1,6-9) h by (auto simp: req_inv_def carries_def)
qed

section \<open>Built requests\<close>

lemma configD:
  assumes "config_ok c"
  shows "is_entry_rank c" "request_builder c p i = Inr b \<Longrightarrow> rid (built_req b) = bp_id p \<and> fresh_req (built_req b)"
    "prepare_limits c q = Inr q' \<Longrightarrow> keeps_req q q'" "set_or_validate_priority c q = Inr q' \<Longrightarrow> keeps_req q q'"
    "abort_on_queued_limit c q ws = Some (k, e) \<Longrightarrow> k = rid q"
  using assms unfolding config_ok_def by blast+

lemma omni_wf_drops:
  assumes "omni_wf K s"
  shows "omni_wf K (s\<lparr>deferred_request_payloads := ddel (deferred_request_payloads s) k\<rparr>)"
    "omni_wf K (s\<lparr>pending_stream_ingress := ddel (pending_stream_ingress s) k\<rparr>)"
    "omni_wf K (s\<lparr>pending_request_builds := ddel (pending_request_builds s) k\<rparr>)"
    "omni_wf K (s\<lparr>pending_request_admissions := ddel (pending_request_admissions s) k\<rparr>)"
    "omni_wf K (s\<lparr>waiting_queue := qs\<rparr>)" "omni_wf K (s\<lparr>batches := qs\<rparr>)"
  using assms by (auto simp: omni_wf_def keyed_by_upd)

lemma omni_wf_enqueue_if_live: "omni_wf K s \<Longrightarrow> omni_wf K (enqueue_if_live c q s)"
  by (simp add: enqueue_if_live_def Let_def omni_wf_fail omni_wf_drops split: sum.split option.split)

lemma omni_wf_enqueue:
  assumes "omni_wf K s"
  shows "omni_wf K (enqueue_built_request c p d q s)"
proof -
  define s1 where "s1 = s\<lparr>deferred_request_payloads := ddel (deferred_request_payloads s) (bp_id p)\<rparr>"
  have "omni_wf K s1" unfolding s1_def using assms by (rule omni_wf_drops)
  then show ?thesis
    by (simp add: enqueue_built_request_def s1_def [symmetric] Let_def omni_wf_fail omni_wf_drops omni_wf_enqueue_if_live split: sum.split option.split prod.split)
qed

text \<open>For another request than \<open>r\<close>.\<close>

lemma same_parts:
  assumes "omni_wf K s" "omni_wf K s'" "recv_msgs s' = recv_msgs s" "inbox s' = inbox s" "new_reqs s' = new_reqs s"
    "selected_reqs s' = selected_reqs s" "rejected_reqs s' = rejected_reqs s" "checked_req s' = checked_req s" "building_req s' = building_req s"
    "backlogged_payloads s' = backlogged_payloads s" "dget (pending_request_builds s') r = dget (pending_request_builds s) r"
    "dget (pending_request_admissions s') r = dget (pending_request_admissions s) r" "dget (deferred_request_payloads s') r = dget (deferred_request_payloads s) r"
  shows "parts r (payloads s') = parts r (payloads s)"
  unfolding parts_payloads [OF assms(1)] parts_payloads [OF assms(2)] by (simp add: assms)

lemma same_waiting:
  assumes "omni_wf K s" "rid q \<noteq> r"
  shows "same_view r s (s\<lparr>waiting_queue := waiting_queue s @ [q]\<rparr>)"
  using assms by (simp add: same_view_def places_def reqs_of_def answers_def payloads_def)

lemma same_enqueue_if_live:
  assumes "config_ok c" "omni_wf K s" "rid q \<noteq> r"
  shows "same_view r s (enqueue_if_live c q s)"
proof -
  have "rid q' \<noteq> r" if "set_or_validate_priority c q = Inr q'" for q'
    using configD(4) [OF assms(1) that] assms(3) by (simp add: keeps_req_def)
  then show ?thesis
    using assms configD(5) [OF assms(1)]
    by (auto simp: enqueue_if_live_def Let_def same_fail same_waiting split: sum.split option.split)
qed

lemma same_drops:
  assumes "omni_wf K s" "k \<noteq> r"
  shows "same_view r s (s\<lparr>deferred_request_payloads := ddel (deferred_request_payloads s) k\<rparr>)"
    "same_view r s (s\<lparr>pending_stream_ingress := ddel (pending_stream_ingress s) k\<rparr>)"
    "same_view r s (s\<lparr>pending_request_builds := ddel (pending_request_builds s) k\<rparr>)"
    "same_view r s (s\<lparr>pending_request_admissions := ddel (pending_request_admissions s) k\<rparr>)"
proof -
  note parts = omni_wf_drops(1-4) [OF assms(1), THEN same_parts [OF assms(1)], where r = r]
  show "same_view r s (s\<lparr>deferred_request_payloads := ddel (deferred_request_payloads s) k\<rparr>)"
    using assms(2) parts(1) [of k] by (simp add: same_view_def places_def reqs_of_def answers_def)
  show "same_view r s (s\<lparr>pending_stream_ingress := ddel (pending_stream_ingress s) k\<rparr>)"
    using assms(2) parts(2) [of k] by (simp add: same_view_def places_def reqs_of_def answers_def)
  show "same_view r s (s\<lparr>pending_request_builds := ddel (pending_request_builds s) k\<rparr>)"
    using assms(2) parts(3) [of k] by (simp add: same_view_def places_def reqs_of_def answers_def)
  show "same_view r s (s\<lparr>pending_request_admissions := ddel (pending_request_admissions s) k\<rparr>)"
    using assms(2) parts(4) [of k] by (simp add: same_view_def places_def reqs_of_def answers_def)
qed

text \<open>The outcomes of enqueueing a built request: an error and an abort, or a request with the buffered stream input.\<close>

lemma enqueue_built_cases:
  assumes c: "config_ok c" and s1: "s1 = s\<lparr>deferred_request_payloads := ddel (deferred_request_payloads s) (bp_id p)\<rparr>"
    and s2: "s2 = s1\<lparr>pending_stream_ingress := ddel (pending_stream_ingress s) (rid q)\<rparr>"
    and fail: "\<And>e. P (fail_and_abort c (rid q) e True s1)"
    and live: "\<And>q2. rid q2 = rid q \<Longrightarrow> to_finish_abort q2 = to_finish_abort q \<Longrightarrow> req_finished q2 = req_finished q \<Longrightarrow>
      stream_chunks q2 = stream_chunks q @ prefetched_chunks p @ fst (ingress_of (pending_stream_ingress s) (rid q)) \<Longrightarrow> P (enqueue_if_live c q2 s2)"
  shows "P (enqueue_built_request c p d q s)"
proof (cases "if enforce_request_limits q then prepare_limits c q else Inr q")
  case (Inl e)
  with fail [of "Raised e"] show ?thesis by (simp add: enqueue_built_request_def s1 Let_def)
next
  case (Inr q1)
  then have k: "keeps_req q q1" using configD(3) [OF c, of q q1] by (auto simp: keeps_req_def split: if_splits)
  obtain chs dn where g: "ingress_of (pending_stream_ingress s) (rid q) = (chs, dn)" by (cases "ingress_of (pending_stream_ingress s) (rid q)")
  let ?q2 = "q1\<lparr>stream_chunks := stream_chunks q1 @ prefetched_chunks p @ chs,
    stream_done := stream_done q1 \<or> prefetched_stream_done p \<or> dn \<and> \<not> d\<rparr>"
  have "P (enqueue_if_live c ?q2 s2)" using k g by (intro live) (simp_all add: keeps_req_def)
  with Inr fail g show ?thesis by (cases "request_kv_capacity_error c q1") (simp_all add: enqueue_built_request_def s1 s2 Let_def)
qed

lemma enqueue_live_cases:
  assumes c: "config_ok c" and "rid q \<in> set (aborted_request_ids s) \<Longrightarrow> P s" and fail: "\<And>e. P (fail_and_abort c (rid q) e False s)"
    and live: "\<And>q'. rid q \<notin> set (aborted_request_ids s) \<Longrightarrow> keeps_req q q' \<Longrightarrow> has_data q' \<Longrightarrow> \<not> terminal_claimed q' \<Longrightarrow>
      P (s\<lparr>waiting_queue := waiting_queue s @ [q']\<rparr>)"
  shows "P (enqueue_if_live c q s)"
proof (cases "set_or_validate_priority c q")
  case (Inl e)
  then show ?thesis using assms(2) fail by (simp add: enqueue_if_live_def)
next
  case (Inr q')
  have k: "keeps_req q q'" by (rule configD(4) [OF c Inr])
  have "k = rid q" if "abort_on_queued_limit c q' (waiting_queue s) = Some (k, e)" for k e
    using configD(5) [OF c that] \<open>keeps_req q q'\<close> by (simp add: keeps_req_def)
  moreover have "P (s\<lparr>waiting_queue := waiting_queue s @ [q'\<lparr>terminal_claimed := False, has_data := True\<rparr>]\<rparr>)"
    if "rid q \<notin> set (aborted_request_ids s)"
    using that k by (intro live) (simp_all add: keeps_req_def)
  ultimately show ?thesis using assms(2) fail Inr k
    by (cases "abort_on_queued_limit c q' (waiting_queue s)") (auto simp: enqueue_if_live_def keeps_req_def)
qed

lemma same_enqueue:
  assumes "config_ok c" "omni_wf K s" "bp_id p \<noteq> r" "rid q = bp_id p"
  shows "same_view r s (enqueue_built_request c p d q s)"
proof (rule enqueue_built_cases [OF assms(1) refl refl])
  let ?s1 = "s\<lparr>deferred_request_payloads := ddel (deferred_request_payloads s) (bp_id p)\<rparr>"
  let ?s2 = "?s1\<lparr>pending_stream_ingress := ddel (pending_stream_ingress s) (rid q)\<rparr>"
  have w1: "omni_wf K ?s1" using assms(2) by (rule omni_wf_drops)
  then have w2: "omni_wf K ?s2" using omni_wf_drops(2) [OF w1, of "rid q"] by simp
  have v: "same_view r s ?s1" using assms by (simp add: same_drops)
  have v2: "same_view r s ?s2" using same_view_trans [OF v same_drops(2) [OF w1, of "rid q"]] assms(3,4) by simp
  show "same_view r s (fail_and_abort c (rid q) e True ?s1)" for e
    using same_view_trans [OF v same_fail [OF w1]] assms(3,4) by simp
  show "same_view r s (enqueue_if_live c q2 ?s2)" if "rid q2 = rid q" for q2
    using same_view_trans [OF v2 same_enqueue_if_live [OF assms(1) w2]] that assms(3,4) by simp
qed

text \<open>For \<open>r\<close> itself.\<close>

lemma taken_reqs: "req_inv r small 0 cs s \<Longrightarrow> reqs_of r s = {#} \<and> parts r (payloads s) = {#} \<and> answers r s = 0 \<and> r \<notin> set (aborted_request_ids s) \<and>
    r \<notin> set (completed_request_ids s) \<and> r \<notin> fst ` set (aborting s)"
  by (force simp: req_inv_def places_def)

lemma own_enqueue_live:
  assumes c: "config_ok c" and w: "omni_wf K s" and inv: "req_inv r small 0 cs s" and q: "rid q = r" "\<not> to_finish_abort q" "\<not> req_finished q"
    and g: "dget (pending_stream_ingress s) r = None"
  shows "req_inv r small 1 (stream_chunks q @ cs) (enqueue_if_live c q s)"
proof (rule enqueue_live_cases [OF c])
  note t = taken_reqs [OF inv]
  show "req_inv r small 1 (stream_chunks q @ cs) s" if "rid q \<in> set (aborted_request_ids s)" using that t q(1) by simp
  show "req_inv r small 1 (stream_chunks q @ cs) (fail_and_abort c (rid q) e False s)" for e
    unfolding q(1) using configD(1) [OF c] w inv by (intro fail_taken)
  fix q' assume k: "keeps_req q q'" "has_data q'" "\<not> terminal_claimed q'"
  let ?s = "s\<lparr>waiting_queue := waiting_queue s @ [q']\<rparr>"
  have "reqs_of r ?s = {#q'#}" using t k(1) q(1) by (simp add: reqs_of_def keeps_req_def)
  moreover have "places r ?s = {#stream_chunks q#}"
    using t k calculation by (simp add: places_def payloads_def keeps_req_def)
  moreover have "answers r ?s = 0" using t by (simp add: answers_def)
  ultimately show "req_inv r small 1 (stream_chunks q @ cs) ?s"
    using t inv k q g by (auto simp: req_inv_def keeps_req_def carries_def)
qed

lemma own_enqueue:
  assumes c: "config_ok c" and w: "omni_wf K s" and inv: "req_inv r small 0 cs s" and p: "bp_id p = r" and q: "rid q = r" "fresh_req q"
  shows "req_inv r small 1 (prefetched_chunks p @ cs) (enqueue_built_request c p d q s)"
proof (rule enqueue_built_cases [OF c refl refl])
  let ?s1 = "s\<lparr>deferred_request_payloads := ddel (deferred_request_payloads s) (bp_id p)\<rparr>"
  let ?s2 = "?s1\<lparr>pending_stream_ingress := ddel (pending_stream_ingress s) (rid q)\<rparr>"
  note t = taken_reqs [OF inv]
  have w1: "omni_wf K ?s1" using w by (rule omni_wf_drops)
  then have w2: "omni_wf K ?s2" using omni_wf_drops(2) [OF w1, of "rid q"] by simp
  have e1: "dget (deferred_request_payloads s) r = None" using t by (auto simp: parts_payloads [OF w] split: option.splits)
  then have s1: "?s1 = s" by (simp add: p)
  show "req_inv r small 1 (prefetched_chunks p @ cs) (fail_and_abort c (rid q) e True ?s1)" for e
    unfolding q(1) s1 using configD(1) [OF c] w inv by (intro fail_taken)
  let ?ch = "fst (ingress_of (pending_stream_ingress s) r)" and ?m = "chunks_for r (recv_msgs s @ inbox s)"
  have m: "req_inv r small 0 ?m ?s2"
    using inv t unfolding s1 by (auto simp: req_inv_def places_def reqs_of_def answers_def payloads_def carries_def ingress_of_def q(1))
  have ch: "small \<Longrightarrow> cs = ?ch @ ?m" using inv t by (auto simp: req_inv_def carries_def places_def)
  show "req_inv r small 1 (prefetched_chunks p @ cs) (enqueue_if_live c q2 ?s2)"
    if q2: "rid q2 = rid q" "to_finish_abort q2 = to_finish_abort q" "req_finished q2 = req_finished q"
      "stream_chunks q2 = stream_chunks q @ prefetched_chunks p @ fst (ingress_of (pending_stream_ingress s) (rid q))" for q2
  proof -
    have "req_inv r small 1 (stream_chunks q2 @ ?m) (enqueue_if_live c q2 ?s2)"
      using q q2 m by (intro own_enqueue_live [OF c w2]) (simp_all add: fresh_req_def)
    then show ?thesis using q2(4) q ch by (cases small) (auto simp: fresh_req_def req_inv_def)
  qed
qed

end
