(* ===== verification/Omni_Exactly_Once.thy ===== *)
theory Omni_Exactly_Once
  imports Omni_Accounting
begin

text \<open>
  Every section of the autoregressive scheduler keeps the invariant of a request (\<open>Omni_Accounting\<close>), and what follows: each request is answered exactly
  once, and its stream input reaches its request data complete and in order.
\<close>

section \<open>Moving a payload\<close>

lemma req_inv_cs: "req_inv r small n cs s \<Longrightarrow> (small \<Longrightarrow> cs = cs') \<Longrightarrow> req_inv r small n cs' s"
  by (cases small) (auto simp: req_inv_def)

definition same_rest :: "('b, 'c, 'e, 'r) omni_state \<Rightarrow> ('b, 'c, 'e, 'r) omni_state \<Rightarrow> bool" where
  "same_rest s s' \<longleftrightarrow> waiting_queue s' = waiting_queue s \<and> batches s' = batches s \<and> outbox s' = outbox s \<and>
     aborted_request_ids s' = aborted_request_ids s \<and> completed_request_ids s' = completed_request_ids s \<and> aborting s' = aborting s"

lemma take_out:
  assumes inv: "req_inv r small n cs s" and x: "parts r (payloads s) = add_mset x (parts r (payloads s'))" and rest: "same_rest s s'"
    and "dget (pending_stream_ingress s') r = dget (pending_stream_ingress s) r"
    and "chunks_for r (recv_msgs s' @ inbox s') = chunks_for r (recv_msgs s @ inbox s)"
  shows "n = 1 \<and> (\<exists>cs'. req_inv r small 0 cs' s' \<and> (small \<longrightarrow> cs = x @ cs'))"
proof -
  have q: "reqs_of r s' = reqs_of r s" "answers r s' = answers r s" using rest by (simp_all add: same_rest_def reqs_of_def answers_def)
  have h: "places r s = add_mset x (places r s')" using x q by (simp add: places_def)
  have "n = 1" "places r s' = {#}" "answers r s = 0" using inv h by (auto simp: req_inv_def)
  moreover have "reqs_of r s = {#}"
    using inv calculation q by (auto simp: req_inv_def places_def)
  ultimately show ?thesis
    using inv rest assms(4,5) q h by (auto simp: req_inv_def same_rest_def carries_def ingress_of_def)
qed

lemma through:
  assumes "req_inv r small n cs s" "parts r (payloads s) = add_mset x (parts r (payloads s'))" "same_rest s s'"
    and "dget (pending_stream_ingress s') r = dget (pending_stream_ingress s) r"
    and "chunks_for r (recv_msgs s' @ inbox s') = chunks_for r (recv_msgs s @ inbox s)"
    and "\<And>cs'. req_inv r small 0 cs' s' \<Longrightarrow> req_inv r small 1 (x @ cs') t"
  shows "req_inv r small n cs t"
  using take_out [OF assms(1-5)] assms(6) by (auto intro: req_inv_cs)

section \<open>Results of builders\<close>

lemma omni_wf_admit:
  assumes "omni_wf K s" "rid (built_req b) = bp_id p" "fresh_req (built_req b)"
  shows "omni_wf K (admit_or_defer c p d b s)"
proof (cases b)
  case (DeferredAdmission q ready)
  have "omni_wf K (s\<lparr>pending_request_admissions := dset (pending_request_admissions s) (bp_id p) (p, d, q, x)\<rparr>)" for x
    using assms DeferredAdmission by (auto simp: omni_wf_def keyed_by_upd)
  with DeferredAdmission assms show ?thesis
    by (auto simp: admit_or_defer_def omni_wf_enqueue omni_wf_fail split: option.split sum.split)
qed (use assms in \<open>simp add: admit_or_defer_def omni_wf_enqueue\<close>)

lemma same_admissions:
  assumes "omni_wf K s" "omni_wf K (s\<lparr>pending_request_admissions := dset (pending_request_admissions s) k v\<rparr>)" "k \<noteq> r"
  shows "same_view r s (s\<lparr>pending_request_admissions := dset (pending_request_admissions s) k v\<rparr>)"
  using assms(3) same_parts [OF assms(1,2), of r] by (simp add: same_view_def places_def reqs_of_def answers_def)

lemma same_admit:
  assumes "config_ok c" "omni_wf K s" "bp_id p \<noteq> r" "rid (built_req b) = bp_id p" "fresh_req (built_req b)"
  shows "same_view r s (admit_or_defer c p d b s)"
proof (cases b)
  case (Built q)
  with assms show ?thesis by (simp add: admit_or_defer_def same_enqueue)
next
  case (DeferredAdmission q ready)
  then have "omni_wf K (s\<lparr>pending_request_admissions := dset (pending_request_admissions s) (bp_id p) (p, d, q, None)\<rparr>)"
    using assms by (auto simp: omni_wf_def keyed_by_upd)
  with DeferredAdmission assms show ?thesis
    by (auto simp: admit_or_defer_def same_enqueue same_fail same_admissions split: option.split sum.split)
qed

lemma own_admit:
  assumes c: "config_ok c" and w: "omni_wf K s" and inv: "req_inv r small 0 cs s" and p: "bp_id p = r"
    and b: "rid (built_req b) = r" "fresh_req (built_req b)"
  shows "req_inv r small 1 (prefetched_chunks p @ cs) (admit_or_defer c p d b s)"
proof (cases b)
  case (Built q)
  then show ?thesis using own_enqueue [OF c w inv p] b by (simp add: admit_or_defer_def)
next
  case (DeferredAdmission q ready)
  note t = taken_reqs [OF inv]
  let ?s = "s\<lparr>pending_request_admissions := dset (pending_request_admissions s) (bp_id p) (p, d, q, None)\<rparr>"
  have w': "omni_wf K ?s" using w p b DeferredAdmission by (auto simp: omni_wf_def keyed_by_upd)
  have "dget (pending_request_admissions s) r = None" using t by (auto simp: parts_payloads [OF w] split: option.splits)
  then have "parts r (payloads ?s) = add_mset (prefetched_chunks p) (parts r (payloads s))"
    unfolding parts_payloads [OF w] parts_payloads [OF w'] by (simp add: p)
  then have "req_inv r small 1 (prefetched_chunks p @ cs) ?s" by (rule put_payload [OF inv]) simp_all
  moreover have "req_inv r small 1 (prefetched_chunks p @ cs) (fail_and_abort c (bp_id p) e True s)" for e
    unfolding p using configD(1) [OF c] w inv by (intro fail_taken)
  moreover have "req_inv r small 1 (prefetched_chunks p @ cs) (enqueue_built_request c p d q s)"
    using own_enqueue [OF c w inv p] b DeferredAdmission by simp
  ultimately show ?thesis using t DeferredAdmission p by (auto simp: admit_or_defer_def split: option.split sum.split)
qed

lemma omni_wf_build_done:
  assumes "omni_wf K s" "pending_request_builds s = (k, p, d, Some (Inr b)) # rest"
  shows "bp_id p = k \<and> rid (built_req b) = k \<and> fresh_req (built_req b)"
proof -
  have g: "dget (pending_request_builds s) k = Some (p, d, Some (Inr b))" by (simp add: assms(2))
  then have "bp_id p = k" using assms(1) keyed_by_get [of "\<lambda>v. bp_id (fst v)" "pending_request_builds s" k] by (simp add: omni_wf_def)
  with g assms(1) show ?thesis by (simp add: omni_wf_def)
qed

lemma builds_take:
  assumes "omni_wf K s" "dget (pending_request_builds s) r = Some v"
  shows "parts r (payloads s) = add_mset (prefetched_chunks (fst v)) (parts r (payloads (s\<lparr>pending_request_builds := ddel (pending_request_builds s) r\<rparr>)))"
  unfolding parts_payloads [OF assms(1)] parts_payloads [OF omni_wf_drops(3) [OF assms(1)]] using assms(2) by simp

lemma admissions_take:
  assumes "omni_wf K s" "dget (pending_request_admissions s) r = Some v"
  shows "parts r (payloads s) = add_mset (prefetched_chunks (fst v)) (parts r (payloads (s\<lparr>pending_request_admissions := ddel (pending_request_admissions s) r\<rparr>)))"
  unfolding parts_payloads [OF assms(1)] parts_payloads [OF omni_wf_drops(4) [OF assms(1)]] using assms(2) by simp

lemma inv_drain_build:
  assumes c: "config_ok c" and w: "omni_wf K s" and inv: "req_inv r small n cs s"
  shows "omni_wf K (drain_build c s) \<and> req_inv r small n cs (drain_build c s)"
proof (cases "\<exists>k p d res rest. pending_request_builds s = (k, p, d, Some res) # rest")
  case True
  then obtain k p d res rest where h: "pending_request_builds s = (k, p, d, Some res) # rest" by blast
  then have g: "dget (pending_request_builds s) k = Some (p, d, Some res)" by simp
  define s1 where "s1 = s\<lparr>pending_request_builds := ddel (pending_request_builds s) k\<rparr>"
  have w1: "omni_wf K s1" unfolding s1_def using w by (rule omni_wf_drops)
  have p: "bp_id p = k" using w g keyed_by_get [of "\<lambda>v. bp_id (fst v)" "pending_request_builds s" k] by (simp add: omni_wf_def)
  have b: "rid (built_req b) = k \<and> fresh_req (built_req b)" if "res = Inr b" for b using omni_wf_build_done [OF w] h that by simp
  define t where "t = drain_build c s"
  have t: "t = (if k \<in> set (aborted_request_ids s) then s1 else case res of Inl e \<Rightarrow> fail_and_abort c k (Raised e) True s1 | Inr b \<Rightarrow> admit_or_defer c p d b s1)"
    using h by (cases res) (simp_all add: t_def drain_build_def s1_def Let_def)
  have "omni_wf K t" using w1 b p by (auto simp: t omni_wf_fail omni_wf_admit split: sum.split)
  moreover have "req_inv r small n cs t"
  proof (cases "k = r")
    case True
    have "parts r (payloads s) = add_mset (prefetched_chunks p) (parts r (payloads s1))"
      using builds_take [OF w, of r] g by (simp add: s1_def True)
    then show ?thesis
    proof (rule through [OF inv])
      fix cs' assume i: "req_inv r small 0 cs' s1"
      have "k \<notin> set (aborted_request_ids s)" using taken_reqs [OF i] True by (simp add: s1_def)
      then show "req_inv r small 1 (prefetched_chunks p @ cs') t"
        using fail_taken [OF w1 configD(1) [OF c] i] own_admit [OF c w1 i] p b True by (simp add: t split: sum.split)
    qed (simp_all add: same_rest_def s1_def)
  next
    case False
    have v: "same_view r s s1" unfolding s1_def using w False by (rule same_drops)
    have "same_view r s1 t"
      using same_fail [OF w1 False] same_admit [OF c w1, of p r] False p b by (auto simp: t split: sum.split)
    with v inv show ?thesis by (blast intro: req_inv_same same_view_trans)
  qed
  ultimately show ?thesis by (simp add: t_def)
next
  case False
  then have "drain_build c s = s" by (auto simp: drain_build_def split: list.splits option.splits)
  with w inv show ?thesis by simp
qed

lemma inv_drain_admission:
  assumes c: "config_ok c" and w: "omni_wf K s" and inv: "req_inv r small n cs s"
  shows "omni_wf K (drain_admission c k s) \<and> req_inv r small n cs (drain_admission c k s)"
proof (cases "dget (pending_request_admissions s) k")
  case (Some v)
  obtain p d q ready where v: "v = (p, d, q, ready)" by (cases v)
  define s1 where "s1 = s\<lparr>pending_request_admissions := ddel (pending_request_admissions s) k\<rparr>"
  have w1: "omni_wf K s1" unfolding s1_def using w by (rule omni_wf_drops)
  have p: "bp_id p = k" using w Some v keyed_by_get [of "\<lambda>v. bp_id (fst v)" "pending_request_admissions s" k] by (simp add: omni_wf_def)
  have q: "rid q = k" "fresh_req q" using w Some unfolding v omni_wf_def by blast+
  define t where "t = drain_admission c k s"
  have t: "t = (if k \<in> set (aborted_request_ids s) then s1 else admit_or_defer c p d (DeferredAdmission q ready) s1)"
    using Some by (simp add: t_def drain_admission_def s1_def v Let_def)
  have "omni_wf K t" using w1 q p by (simp add: t omni_wf_admit)
  moreover have "req_inv r small n cs t"
  proof (cases "k = r")
    case True
    have "parts r (payloads s) = add_mset (prefetched_chunks p) (parts r (payloads s1))"
      using admissions_take [OF w, of r] Some by (simp add: s1_def True v)
    then show ?thesis
    proof (rule through [OF inv])
      fix cs' assume i: "req_inv r small 0 cs' s1"
      have "k \<notin> set (aborted_request_ids s)" using taken_reqs [OF i] True by (simp add: s1_def)
      then show "req_inv r small 1 (prefetched_chunks p @ cs') t"
        using own_admit [OF c w1 i] p q True by (simp add: t)
    qed (simp_all add: same_rest_def s1_def)
  next
    case False
    have "same_view r s s1" unfolding s1_def using w False by (rule same_drops)
    moreover have "same_view r s1 t" using same_admit [OF c w1, of p r] False p q by (simp add: t)
    ultimately show ?thesis using inv by (blast intro: req_inv_same same_view_trans)
  qed
  ultimately show ?thesis by (simp add: t_def)
qed (use w inv in \<open>simp add: drain_admission_def\<close>)

lemma inv_fold:
  assumes "\<And>x s. omni_wf K s \<Longrightarrow> req_inv r small n cs s \<Longrightarrow> omni_wf K (f x s) \<and> req_inv r small n cs (f x s)" "omni_wf K s" "req_inv r small n cs s"
  shows "omni_wf K (fold f xs s) \<and> req_inv r small n cs (fold f xs s)"
  using assms(2,3) by (induction xs arbitrary: s) (simp_all add: assms(1))

lemma inv_thread_built:
  assumes c: "config_ok c" and w: "omni_wf K s" and inv: "req_inv r small n cs s" and b: "building_req s = Some (p, d)"
  shows "omni_wf K (built_on_thread c p d (request_builder c p i) (s\<lparr>building_req := None\<rparr>)) \<and>
    req_inv r small n cs (built_on_thread c p d (request_builder c p i) (s\<lparr>building_req := None\<rparr>))"
proof -
  define s1 where "s1 = s\<lparr>building_req := None\<rparr>"
  define t where "t = built_on_thread c p d (request_builder c p i) s1"
  have w1: "omni_wf K s1" using w by (simp add: s1_def omni_wf_def)
  note q = configD(2) [OF c, of p i]
  have "omni_wf K t" using w1 q by (auto simp: t_def built_on_thread_def omni_wf_fail omni_wf_admit split: sum.split)
  moreover have "req_inv r small n cs t"
  proof (cases "bp_id p = r")
    case True
    have x: "parts r (payloads s) = add_mset (prefetched_chunks p) (parts r (payloads s1))" using b True by (simp add: payloads_def s1_def)
    show ?thesis
    proof (rule through [OF inv x])
      fix cs' assume i: "req_inv r small 0 cs' s1"
      show "req_inv r small 1 (prefetched_chunks p @ cs') t"
        using fail_taken [OF w1 configD(1) [OF c] i] own_admit [OF c w1 i True] q True by (auto simp: t_def built_on_thread_def split: sum.split)
    qed (simp_all add: same_rest_def s1_def)
  next
    case False
    have "same_view r s s1" using b False by (simp add: same_view_def s1_def places_def payloads_def reqs_of_def answers_def)
    moreover have "same_view r s1 t"
      using same_fail [OF w1 False] same_admit [OF c w1 False] q by (auto simp: t_def built_on_thread_def split: sum.split)
    ultimately show ?thesis using inv by (blast intro: req_inv_same same_view_trans)
  qed
  ultimately show ?thesis by (simp add: t_def s1_def)
qed

section \<open>Payloads on their way to a builder\<close>

lemma dget_drop_ingress: "dget (drop_ingress_chunks d k) r = (if k = r then map_option (\<lambda>(_, dn). ([], dn)) (dget d r) else dget d r)"
  by (auto simp: drop_ingress_chunks_def split: option.split)

lemma omni_wf_drop_ingress: "omni_wf K s \<Longrightarrow> omni_wf K (s\<lparr>pending_stream_ingress := drop_ingress_chunks (pending_stream_ingress s) k\<rparr>)"
  by (auto simp: omni_wf_def drop_ingress_chunks_def dhas_dget split: option.split)

lemma inv_proceed:
  assumes c: "config_ok c" and w: "omni_wf K s" and inv: "req_inv r small n cs s" and ch: "checked_req s = Some p"
  shows "omni_wf K (proceed_payload c p (s\<lparr>checked_req := None\<rparr>)) \<and> req_inv r small n cs (proceed_payload c p (s\<lparr>checked_req := None\<rparr>))"
proof -
  define s0 where "s0 = s\<lparr>checked_req := None\<rparr>"
  define x where "x = ingress_of (pending_stream_ingress s0) (bp_id p)"
  define s1 where "s1 = s0\<lparr>pending_stream_ingress := drop_ingress_chunks (pending_stream_ingress s0) (bp_id p)\<rparr>"
  define p' where "p' = prefetch p x"
  have p': "bp_id p' = bp_id p" "prefetched_chunks p' = prefetched_chunks p @ fst x" by (simp_all add: p'_def prefetch_def)
  define s2 where "s2 = s1\<lparr>deferred_request_payloads := dset (deferred_request_payloads s1) (bp_id p) p'\<rparr>"
  define s3 where "s3 = s1\<lparr>pending_request_builds := dset (pending_request_builds s1) (bp_id p) (p', snd x, None)\<rparr>"
  define s4 where "s4 = s1\<lparr>building_req := Some (p', snd x)\<rparr>"
  define t where "t = proceed_payload c p s0"
  have t: "t = (if waiting_queue_is_full c s0 then fail_and_abort c (bp_id p) QueueFullExn True s0
      else if \<not> is_request_build_ready c p' (snd x) then s2
      else if has_executor c then (if admission_known s1 (bp_id p) then s1 else s3) else s4)"
    by (simp add: t_def proceed_payload_def reject_queue_full_def s1_def s2_def s3_def s4_def p'_def x_def Let_def)
  have b0: "building_req s0 = None" using w ch by (simp add: s0_def omni_wf_def)
  have w0: "omni_wf K s0" using w by (simp add: s0_def omni_wf_def)
  then have w1: "omni_wf K s1" unfolding s1_def by (rule omni_wf_drop_ingress)
  have c1: "checked_req s1 = None" by (simp add: s1_def s0_def)
  have w': "omni_wf K s2" "omni_wf K s3" "omni_wf K s4"
    using w1 p' c1 by (auto simp: s2_def s3_def s4_def omni_wf_def keyed_by_upd)
  have "omni_wf K t" using w0 w1 w' by (simp add: t omni_wf_fail)
  moreover have "req_inv r small n cs t"
  proof (cases "bp_id p = r")
    case True
    have "parts r (payloads s) = add_mset (prefetched_chunks p) (parts r (payloads s0))" using ch True by (simp add: payloads_def s0_def)
    then show ?thesis
    proof (rule through [OF inv])
      fix cs' assume i: "req_inv r small 0 cs' s0"
      note tk = taken_reqs [OF i]
      have none: "dget (deferred_request_payloads s0) r = None" "dget (pending_request_builds s0) r = None" "dget (pending_request_admissions s0) r = None"
        using tk by (auto simp: parts_payloads [OF w0] split: option.splits)
      have k: "\<not> admission_known s1 r" using tk none by (simp add: admission_known_def s1_def not_dhas_dget)
      have e: "parts r (payloads s1) = parts r (payloads s0)" by (simp add: s1_def payloads_def)
      have d: "dget (pending_stream_ingress s1) r = map_option (\<lambda>(_, dn). ([], dn)) (dget (pending_stream_ingress s0) r)"
        using True by (simp add: s1_def dget_drop_ingress)
      have g: "prefetched_chunks p' @ fst (ingress_of (pending_stream_ingress s1) r) @ m = prefetched_chunks p @ fst (ingress_of (pending_stream_ingress s0) r) @ m" for m
        using True by (auto simp: p' x_def ingress_of_def d split: option.split)
      have put: "req_inv r small 1 (prefetched_chunks p @ cs') u"
        if "parts r (payloads u) = add_mset (prefetched_chunks p') (parts r (payloads s1))" "pending_stream_ingress u = pending_stream_ingress s1" "same_rest s1 u"
          "recv_msgs u = recv_msgs s1" "inbox u = inbox s1" for u
        using that g e by (intro put_payload [OF i]) (simp_all add: same_rest_def s1_def)
      have "req_inv r small 1 (prefetched_chunks p @ cs') s2"
        by (rule put) (unfold parts_payloads [OF w1] parts_payloads [OF w'(1)], use none True in \<open>simp_all add: s2_def s1_def same_rest_def\<close>)
      moreover have "req_inv r small 1 (prefetched_chunks p @ cs') s3"
        by (rule put) (unfold parts_payloads [OF w1] parts_payloads [OF w'(2)], use none True in \<open>simp_all add: s3_def s1_def same_rest_def\<close>)
      moreover have "req_inv r small 1 (prefetched_chunks p @ cs') s4"
        by (rule put) (unfold parts_payloads [OF w1] parts_payloads [OF w'(3)], use b0 p' True in \<open>simp_all add: s4_def s1_def same_rest_def\<close>)
      ultimately show "req_inv r small 1 (prefetched_chunks p @ cs') t"
        using k True fail_taken [OF w0 configD(1) [OF c] i] by (simp add: t)
    qed (simp_all add: same_rest_def s0_def)
  next
    case False
    have "same_view r s s0" using ch False by (simp add: same_view_def s0_def places_def payloads_def reqs_of_def answers_def)
    moreover have v1: "same_view r s0 s1" using False by (simp add: same_view_def s1_def dget_drop_ingress places_def payloads_def reqs_of_def answers_def)
    moreover have "same_view r s1 s2" "same_view r s1 s3"
      using False same_parts [OF w1 w'(1), of r] same_parts [OF w1 w'(2), of r] by (simp_all add: same_view_def s2_def s3_def places_def reqs_of_def answers_def)
    moreover have "same_view r s1 s4" using False p' b0 by (simp add: same_view_def s4_def s1_def places_def payloads_def reqs_of_def answers_def)
    moreover have "same_view r s0 (fail_and_abort c (bp_id p) e True s0)" for e using w0 False by (rule same_fail)
    ultimately have "same_view r s t" by (auto simp: t intro: same_view_trans)
    with inv show ?thesis by (rule req_inv_same)
  qed
  ultimately show ?thesis by (simp add: t_def s0_def)
qed

text \<open>Payloads that move between lists of the scheduler thread.\<close>

lemma same_move:
  assumes "parts r (payloads s') = parts r (payloads s)" "same_rest s s'" "dget (pending_stream_ingress s') r = dget (pending_stream_ingress s) r"
    "chunks_for r (recv_msgs s' @ inbox s') = chunks_for r (recv_msgs s @ inbox s)"
  shows "same_view r s s'"
  using assms by (simp add: same_view_def same_rest_def places_def reqs_of_def answers_def)

lemma known_placed:
  assumes w: "omni_wf K s" and inv: "req_inv r small n cs s" and p: "parts r (payloads s) \<noteq> {#}"
  shows "r \<notin> set (aborted_request_ids s)" "answers r s = 0" "n = 1" "size (parts r (payloads s)) = 1" "reqs_of r s = {#}"
proof -
  have "size (parts r (payloads s)) \<ge> 1" using p by (simp add: Suc_le_eq nonempty_has_size [symmetric])
  moreover have "size (parts r (payloads s)) + size (filter_mset has_data (reqs_of r s)) + answers r s = n" "n \<le> 1"
    using inv by (simp_all add: req_inv_def places_def)
  ultimately have *: "answers r s = 0" "n = 1" "size (parts r (payloads s)) = 1" "size (filter_mset has_data (reqs_of r s)) = 0" by linarith+
  then show "r \<notin> set (aborted_request_ids s)" "answers r s = 0" "n = 1" "size (parts r (payloads s)) = 1" "reqs_of r s = {#}"
    using inv by (force simp: req_inv_def)+
qed

lemma inv_check:
  assumes w: "omni_wf K s" and inv: "req_inv r small n cs s" and sel: "selected_reqs s = p # ps" "checked_req s = None" "building_req s = None"
  shows "omni_wf K (check_payload p (s\<lparr>selected_reqs := ps\<rparr>)) \<and> req_inv r small n cs (check_payload p (s\<lparr>selected_reqs := ps\<rparr>))"
proof -
  have "omni_wf K (check_payload p (s\<lparr>selected_reqs := ps\<rparr>))" using w sel(3) by (simp add: check_payload_def omni_wf_def)
  moreover have "\<not> admission_known (s\<lparr>selected_reqs := ps\<rparr>) (bp_id p)" if "bp_id p = r"
  proof -
    have "size (parts r (payloads s)) = 1" "r \<notin> set (aborted_request_ids s)"
      using known_placed [OF w inv] that sel(1) by (simp_all add: payloads_def)
    moreover from this have "dget (pending_request_builds s) r = None" "dget (pending_request_admissions s) r = None"
      using that sel(1) by (auto simp: parts_payloads [OF w] split: option.splits)
    ultimately show ?thesis using that by (simp add: admission_known_def not_dhas_dget)
  qed
  then have "same_view r s (check_payload p (s\<lparr>selected_reqs := ps\<rparr>))"
    using sel by (intro same_move) (auto simp: check_payload_def payloads_def same_rest_def)
  ultimately show ?thesis using inv by (auto intro: req_inv_same)
qed

lemma parts_take_keys:
  assumes "keyed_by bp_id d" "distinct ks"
  shows "parts r (List.map_filter (dget d) ks) + (case dget (fold (\<lambda>k d. ddel d k) ks d) r of None \<Rightarrow> {#} | Some p \<Rightarrow> {#prefetched_chunks p#}) =
    (case dget d r of None \<Rightarrow> {#} | Some p \<Rightarrow> {#prefetched_chunks p#})"
  using assms
proof (induction ks arbitrary: d)
  case (Cons k ks)
  have m: "List.map_filter (dget (ddel d k)) ks = List.map_filter (dget d) ks"
    using Cons.prems(2) by (auto simp: List.map_filter_def intro!: map_cong filter_cong)
  have k: "keyed_by bp_id (ddel d k)" using Cons.prems(1) by (rule keyed_by_upd)
  have none: "dget (fold (\<lambda>k d. ddel d k) ks (ddel d k)) k = None" using Cons.prems(2) by (simp add: dget_fold_ddel)
  from Cons.IH [OF k, unfolded m] Cons.prems none keyed_by_get [OF Cons.prems(1), of k] show ?case
    by (cases "k = r") (auto simp: List.map_filter_simps split: option.splits)
qed (simp add: List.map_filter_simps)

lemma keyed_fold_ddel: "keyed_by f d \<Longrightarrow> keyed_by f (fold (\<lambda>k d. ddel d k) ks d)"
  by (induction ks arbitrary: d) (simp_all add: keyed_by_upd)

lemma inv_take_deferred:
  assumes w: "omni_wf K s" and inv: "req_inv r small n cs s"
  shows "omni_wf K (take_deferred_request_payloads s) \<and> req_inv r small n cs (take_deferred_request_payloads s)"
proof -
  have w': "omni_wf K (take_deferred_request_payloads s)"
    using w by (simp add: omni_wf_def take_deferred_request_payloads_def keyed_fold_ddel)
  have "parts r (payloads (take_deferred_request_payloads s)) = parts r (payloads s)"
    unfolding parts_payloads [OF w] parts_payloads [OF w']
    using parts_take_keys [of "deferred_request_payloads s" "dirty_deferred_ids s" r] w
    by (simp add: take_deferred_request_payloads_def omni_wf_def ac_simps)
  then have "same_view r s (take_deferred_request_payloads s)"
    by (rule same_move) (simp_all add: take_deferred_request_payloads_def same_rest_def)
  with inv w' show ?thesis by (auto intro: req_inv_same)
qed

section \<open>Staging\<close>

lemma take_backlog_parts:
  assumes "take_backlog s cap ps ids = (sel, rest, ids', cap')" "parts r ps \<noteq> {#} \<longrightarrow> \<not> admission_known s r"
  shows "parts r sel + parts r rest = parts r ps"
  using assms
proof (induction s cap ps ids arbitrary: sel rest ids' cap' rule: take_backlog.induct)
  case (3 s cap p backlog ids)
  then show ?case by (cases "admission_known s (bp_id p)") (auto simp: Let_def split: prod.splits if_splits)
qed auto

lemma take_backlog_ids: "take_backlog s cap ps ids = (sel, rest, ids', cap') \<Longrightarrow> set ids \<subseteq> bp_id ` set ps \<Longrightarrow> set ids' \<subseteq> bp_id ` set rest"
proof (induction s cap ps ids arbitrary: sel rest ids' cap' rule: take_backlog.induct)
  case (3 s cap p backlog ids)
  then have "set (removeAll (bp_id p) ids) \<subseteq> bp_id ` set backlog" by auto
  with 3 show ?case by (auto simp: Let_def split: prod.splits if_splits)
qed auto

definition staged_parts :: "string \<Rightarrow> ('b, 'c) staging \<Rightarrow> 'c list multiset" where
  "staged_parts r g = parts r (sg_selected g) + parts r (sg_rejected g) + parts r (sg_backlog g)"

lemma stage_one_parts:
  assumes "set (sg_backlog_ids g) \<subseteq> bp_id ` set (sg_backlog g)" "bp_id p = r \<longrightarrow> staged_parts r g = {#} \<and> \<not> admission_known s r"
  shows "set (sg_backlog_ids (stage_one c s p g)) \<subseteq> bp_id ` set (sg_backlog (stage_one c s p g)) \<and>
    staged_parts r (stage_one c s p g) = staged_parts r g + parts r [p]"
proof (cases "bp_id p = r")
  case True
  then have "r \<notin> bp_id ` set (sg_selected g)" "r \<notin> bp_id ` set (sg_backlog g)" using assms(2) by (simp_all add: staged_parts_def parts_empty)
  then have "r \<notin> set (sg_backlog_ids g)" using assms(1) by blast
  with True assms \<open>r \<notin> bp_id ` set (sg_selected g)\<close> show ?thesis by (auto simp: stage_one_def staged_parts_def)
next
  case False
  with assms(1) show ?thesis by (auto simp: stage_one_def staged_parts_def)
qed

lemma stage_fold_parts:
  assumes "set (sg_backlog_ids g) \<subseteq> bp_id ` set (sg_backlog g)" "size (staged_parts r g + parts r ps) \<le> 1" "parts r ps \<noteq> {#} \<longrightarrow> \<not> admission_known s r"
  shows "staged_parts r (fold (stage_one c s) ps g) = staged_parts r g + parts r ps"
  using assms
proof (induction ps arbitrary: g)
  case (Cons p ps)
  have "bp_id p = r \<longrightarrow> staged_parts r g = {#} \<and> \<not> admission_known s r" using Cons.prems(2,3) by auto
  note one = stage_one_parts [OF Cons.prems(1) this, of c]
  moreover have "size (staged_parts r (stage_one c s p g) + parts r ps) \<le> 1" "parts r ps \<noteq> {#} \<longrightarrow> \<not> admission_known s r"
    using one Cons.prems(2,3) by (auto split: if_splits)
  ultimately show ?case using Cons.IH [of "stage_one c s p g"] by simp
qed simp

lemma placed_unknown:
  assumes w: "omni_wf K s" and inv: "req_inv r small n cs s" and p: "parts r (new_reqs s) + parts r (backlogged_payloads s) \<noteq> {#}"
  shows "\<not> admission_known s r" "r \<notin> set (aborted_request_ids s)" "size (parts r (new_reqs s) + parts r (backlogged_payloads s)) \<le> 1"
proof -
  have "parts r (payloads s) \<noteq> {#}" using p by (auto simp: parts_payloads [OF w])
  note k = known_placed [OF w inv this]
  have 1: "size (parts r (new_reqs s) + parts r (backlogged_payloads s)) \<ge> 1" using p by (simp add: Suc_le_eq nonempty_has_size [symmetric] del: size_union)
  moreover have "dget (pending_request_builds s) r = None \<and> dget (pending_request_admissions s) r = None"
  proof (rule ccontr)
    assume "\<not> ?thesis"
    then have "1 + size (parts r (new_reqs s) + parts r (backlogged_payloads s)) \<le> size (parts r (payloads s))"
      by (auto simp: parts_payloads [OF w] split: option.splits)
    with 1 k(4) show False by linarith
  qed
  ultimately show "\<not> admission_known s r" using k(1) by (simp add: admission_known_def not_dhas_dget)
  show "r \<notin> set (aborted_request_ids s)" by (rule k)
  show "size (parts r (new_reqs s) + parts r (backlogged_payloads s)) \<le> 1"
    using k(4) by (simp add: parts_payloads [OF w])
qed

lemma parts_stage:
  assumes w: "omni_wf K s" and inv: "req_inv r small n cs s"
    and st: "stage_request_build_payloads c (new_reqs s) s = ((sel, rej), s')"
  shows "parts r sel + parts r rej + parts r (backlogged_payloads s') = parts r (new_reqs s) + parts r (backlogged_payloads s)"
proof -
  define there where "there \<longleftrightarrow> parts r (new_reqs s) + parts r (backlogged_payloads s) \<noteq> {#}"
  have u: "there \<Longrightarrow> \<not> admission_known s r" and one: "size (parts r (new_reqs s) + parts r (backlogged_payloads s)) \<le> 1"
    using placed_unknown [OF w inv] by (cases there; simp add: there_def)+
  have absent: "r \<notin> bp_id ` set (new_reqs s)" "r \<notin> bp_id ` set (backlogged_payloads s)" if "\<not> there"
    using that by (simp_all add: there_def parts_empty)
  have keep: "parts r (filter P ps) = parts r ps"
    if "\<And>p. \<not> admission_known s r \<Longrightarrow> bp_id p = r \<Longrightarrow> P p" "ps = new_reqs s \<or> ps = backlogged_payloads s" for P ps
  proof (cases there)
    case True
    then show ?thesis using u that(1) by (intro parts_filter_keep) blast
  next
    case False
    then have "parts r ps = {#}" using that(2) absent by (auto simp: parts_empty)
    moreover from this have "parts r (filter P ps) = {#}" by (auto simp: parts_empty)
    ultimately show ?thesis by simp
  qed
  consider "\<not> has_executor c" | "has_executor c" "waiting_queue_is_full c s" | "has_executor c" "\<not> waiting_queue_is_full c s" by blast
  then show ?thesis
  proof cases
    case 1
    with st show ?thesis by (auto simp: stage_request_build_payloads_def)
  next
    case 2
    have "parts r (filter (\<lambda>p. bp_id p \<notin> set (aborted_request_ids s)) (backlogged_payloads s)) = parts r (backlogged_payloads s)"
      "parts r (filter (\<lambda>p. bp_id p \<notin> set (aborted_request_ids s) \<and> \<not> dhas (pending_request_builds s) (bp_id p)) (new_reqs s)) = parts r (new_reqs s)"
      by (rule keep; simp add: admission_known_def)+
    with 2 st show ?thesis by (auto simp: stage_request_build_payloads_def ac_simps)
  next
    case 3
    obtain sl rest ids cap where t: "take_backlog s (request_build_max_pending c - length (pending_request_builds s)) (backlogged_payloads s)
        (map bp_id (backlogged_payloads s)) = (sl, rest, ids, cap)" by (metis prod_cases4)
    define g0 where "g0 = \<lparr>sg_selected = sl, sg_rejected = [], sg_backlog = rest, sg_backlog_ids = ids, sg_capacity = cap,
      sg_used = queued_admission_count (s\<lparr>backlogged_payloads := rest\<rparr>) + length sl\<rparr>"
    define g where "g = fold (stage_one c s) (new_reqs s) g0"
    have r: "sel = sg_selected g" "rej = sg_rejected g" "backlogged_payloads s' = sg_backlog g"
      using 3 st t by (auto simp: stage_request_build_payloads_def g_def g0_def Let_def)
    have b: "parts r sl + parts r rest = parts r (backlogged_payloads s)"
      using u by (intro take_backlog_parts [OF t]) (auto simp: there_def)
    have "staged_parts r g = staged_parts r g0 + parts r (new_reqs s)" unfolding g_def
    proof (rule stage_fold_parts)
      show "set (sg_backlog_ids g0) \<subseteq> bp_id ` set (sg_backlog g0)" using take_backlog_ids [OF t] by (simp add: g0_def)
      show "size (staged_parts r g0 + parts r (new_reqs s)) \<le> 1" using one b [symmetric] by (simp add: staged_parts_def g0_def)
      show "parts r (new_reqs s) \<noteq> {#} \<longrightarrow> \<not> admission_known s r" using u by (auto simp: there_def)
    qed
    with b r show ?thesis by (simp add: staged_parts_def g0_def ac_simps)
  qed
qed

lemma inv_stage:
  assumes w: "omni_wf K s" and inv: "req_inv r small n cs s"
  shows "omni_wf K (omni_step c s StagePayloads) \<and> req_inv r small n cs (omni_step c s StagePayloads)"
proof -
  obtain sel rej s' where st: "stage_request_build_payloads c (new_reqs s) s = ((sel, rej), s')" by (metis prod.collapse)
  obtain bs where s': "s' = s\<lparr>backlogged_payloads := bs\<rparr>"
    using st by (auto simp: stage_request_build_payloads_def Let_def split: if_splits prod.splits intro: that [of "backlogged_payloads s"])
  let ?t = "omni_step c s StagePayloads"
  have t: "?t = s\<lparr>backlogged_payloads := bs, new_reqs := [], selected_reqs := selected_reqs s @ sel, rejected_reqs := rejected_reqs s @ rej\<rparr>"
    by (simp add: st s')
  have w': "omni_wf K ?t" unfolding t using w by (simp add: omni_wf_def)
  have p: "parts r sel + parts r rej + parts r bs = parts r (new_reqs s) + parts r (backlogged_payloads s)"
    using parts_stage [OF w inv st] by (simp add: s')
  have "parts r (payloads ?t) = parts r (payloads s)"
  proof -
    define X where "X = parts r (new_payloads (recv_msgs s @ inbox s)) + parts r (selected_reqs s) + parts r (rejected_reqs s) +
      parts r (opt_list (checked_req s)) + parts r (map fst (opt_list (building_req s))) + parts r (map (\<lambda>kv. fst (snd kv)) (pending_request_builds s)) +
      parts r (map (\<lambda>kv. fst (snd kv)) (pending_request_admissions s)) + parts r (map snd (deferred_request_payloads s))"
    have "parts r (payloads ?t) = X + (parts r sel + parts r rej + parts r bs)" unfolding t by (simp add: payloads_def X_def ac_simps)
    also have "\<dots> = parts r (payloads s)" unfolding p by (simp add: payloads_def X_def ac_simps)
    finally show ?thesis .
  qed
  then have "same_view r s ?t" by (rule same_move) (simp_all add: t same_rest_def del: omni_step.simps)
  with inv w' show ?thesis by (auto intro: req_inv_same simp del: omni_step.simps)
qed

section \<open>Messages\<close>

text \<open>Stream chunks and the end of a stream differ only in what they add.\<close>

definition ingest ::
  "string \<Rightarrow> ('c omni_req \<Rightarrow> 'c omni_req) \<Rightarrow> 'c list \<Rightarrow> (bool \<Rightarrow> bool) \<Rightarrow> bool \<Rightarrow> ('b, 'c, 'e, 'r) omni_state \<Rightarrow> ('b, 'c, 'e, 'r) omni_state" where
  "ingest k f xs g recheck s =
     (if k \<in> set (completed_request_ids s) then s
      else case upd_request_data k f s of
        Some s' \<Rightarrow> s'
      | None \<Rightarrow>
          (let d = reserve_pending_stream_request k (pending_stream_ingress s); (chs, dn) = ingress_of d k in
           s\<lparr>pending_stream_ingress := dset d k (chs @ xs, g dn),
             dirty_deferred_ids := (if dhas (deferred_request_payloads s) k \<and> recheck then List.insert k (dirty_deferred_ids s) else dirty_deferred_ids s)\<rparr>))"

lemma ingest_eqs:
  "omni_stream_chunk c k ch s = ingest k (append_stream_chunk ch) [ch] (\<lambda>b. b) (recheck_on_stream_chunk c) s"
  "omni_stream_done k s = ingest k mark_stream_done [] (\<lambda>_. True) True s"
  by (simp_all add: omni_stream_chunk_def omni_stream_done_def ingest_def Let_def split: option.split prod.split)

definition adds :: "('c omni_req \<Rightarrow> 'c omni_req) \<Rightarrow> 'c list \<Rightarrow> bool" where
  "adds f xs \<longleftrightarrow> (\<forall>q. rid (f q) = rid q \<and> has_data (f q) = has_data q \<and> to_finish_abort (f q) = to_finish_abort q \<and> req_finished (f q) = req_finished q \<and>
     terminal_claimed (f q) = terminal_claimed q \<and> stream_chunks (f q) = stream_chunks q @ xs)"

lemma adds_stream: "adds (append_stream_chunk ch) [ch]" "adds mark_stream_done []"
  by (simp_all add: adds_def append_stream_chunk_def mark_stream_done_def)

lemma upd_req_other: "(\<And>q. rid (f q) = rid q) \<Longrightarrow> k \<noteq> r \<Longrightarrow> filter_mset (\<lambda>q. rid q = r) (mset (upd_req k f qs)) = filter_mset (\<lambda>q. rid q = r) (mset qs)"
  by (induction qs) auto

lemma upd_req_own:
  assumes "find_req r qs = Some q" "\<And>q. rid (f q) = rid q"
  shows "q \<in> set qs \<and> rid q = r \<and> filter_mset (\<lambda>q. rid q = r) (mset (upd_req r f qs)) = add_mset (f q) (filter_mset (\<lambda>q. rid q = r) (mset qs) - {#q#})"
  using assms(1)
proof (induction qs)
  case (Cons x qs)
  show ?case
  proof (cases "rid x = r")
    case False
    with Cons have "find_req r qs = Some q" by (simp add: find_req_def)
    with Cons.IH False show ?thesis by auto
  qed (use Cons.prems assms(2) in \<open>simp add: find_req_def\<close>)
qed (simp add: find_req_def)

lemma find_req_None: "find_req r qs = None \<longleftrightarrow> (\<forall>q\<in>set qs. rid q \<noteq> r)"
  by (induction qs) (auto simp: find_req_def)

lemma dict_ok_drop: "dict_ok d \<Longrightarrow> dict_ok (drop n d)"
  by (simp add: dict_ok_def drop_map [symmetric] distinct_drop)

lemma dget_drop: "dict_ok d \<Longrightarrow> dget (drop n d) r = dget d r \<or> dget (drop n d) r = None"
  by (metis dict_ok_drop dict_ok_in_set in_set_dropD not_None_eq)

lemma reserve_facts:
  assumes "dict_ok d"
  shows "dict_ok (reserve_pending_stream_request k d)" "dhas (reserve_pending_stream_request k d) r \<Longrightarrow> dhas d r"
    "dget (reserve_pending_stream_request k d) r = dget d r \<or> dget (reserve_pending_stream_request k d) r = None"
proof -
  show "dict_ok (reserve_pending_stream_request k d)" using assms by (simp add: reserve_pending_stream_request_def dict_ok_drop)
  show g: "dget (reserve_pending_stream_request k d) r = dget d r \<or> dget (reserve_pending_stream_request k d) r = None"
    using dget_drop [OF assms] by (simp add: reserve_pending_stream_request_def)
  show "dhas d r" if "dhas (reserve_pending_stream_request k d) r" using that g by (auto simp: dhas_dget)
qed

lemma reserve_small:
  assumes "dict_ok d" "\<And>r. dhas d r \<Longrightarrow> r \<in> K" "finite K" "card K \<le> PENDING_STREAM_REQUEST_LIMIT" "k \<in> K"
  shows "reserve_pending_stream_request k d = d"
proof (cases "dhas d k")
  case False
  have "fst ` set d \<subseteq> K - {k}" using assms(2) False by (auto simp: dhas_iff)
  then have "card (fst ` set d) \<le> card (K - {k})" using assms(3) by (intro card_mono) auto
  also have "\<dots> < card K" using assms(3,5) by (intro psubset_card_mono) auto
  also have "card (fst ` set d) = length d" using assms(1) by (metis dict_ok_def distinct_card length_map set_map)
  finally show ?thesis using assms(4) by (simp add: reserve_pending_stream_request_def)
qed (simp add: reserve_pending_stream_request_def)

lemma upd_data_only:
  assumes "upd_request_data k f s = Some s'"
  shows "\<exists>ws bs. s' = s\<lparr>waiting_queue := ws, batches := bs\<rparr> \<and>
    (\<forall>r. (\<forall>q. rid (f q) = rid q) \<longrightarrow> k \<noteq> r \<longrightarrow> reqs_of r s' = reqs_of r s)"
  using assms by (auto simp: upd_request_data_def reqs_of_def upd_req_other split: option.splits if_splits)
    (metis (no_types, lifting) omni_state.surjective omni_state.update_convs(11) omni_state.update_convs(12))+

lemma omni_wf_ingest:
  assumes w: "omni_wf K s" and k: "k \<in> K"
  shows "omni_wf K (ingest k f xs g recheck s)"
proof (cases "upd_request_data k f s")
  case None
  have "dict_ok (pending_stream_ingress s)" using w by (simp add: omni_wf_def)
  note facts = reserve_facts [OF this, of k]
  show ?thesis using None w k facts by (auto simp: ingest_def omni_wf_def Let_def dhas_dget split: prod.split)
next
  case (Some s')
  then obtain ws bs where "s' = s\<lparr>waiting_queue := ws, batches := bs\<rparr>" using upd_data_only by blast
  with Some w show ?thesis by (simp add: ingest_def omni_wf_def)
qed

lemma req_inv_ingress:
  assumes "req_inv r small n cs s" "dget d r = dget (pending_stream_ingress s) r \<or> \<not> small \<and> dget d r = None"
  shows "req_inv r small n cs (s\<lparr>pending_stream_ingress := d, dirty_deferred_ids := x\<rparr>)"
  using assms by (auto simp: req_inv_def places_def reqs_of_def answers_def payloads_def ingress_of_def)

lemma ingest_None:
  assumes "k \<notin> set (completed_request_ids s)" "upd_request_data k f s = None"
  obtains x where "ingest k f xs g recheck s = s\<lparr>pending_stream_ingress := dset (reserve_pending_stream_request k (pending_stream_ingress s)) k
      (fst (ingress_of (reserve_pending_stream_request k (pending_stream_ingress s)) k) @ xs,
       g (snd (ingress_of (reserve_pending_stream_request k (pending_stream_ingress s)) k))), dirty_deferred_ids := x\<rparr>"
  using assms by (simp add: ingest_def Let_def split_beta)

lemma inv_ingest_other:
  assumes w: "omni_wf K s" and inv: "req_inv r small n cs s" and k: "k \<in> K" "k \<noteq> r"
    and sm: "small \<Longrightarrow> finite K \<and> card K \<le> PENDING_STREAM_REQUEST_LIMIT" and f: "adds f xs"
  shows "req_inv r small n cs (ingest k f xs g recheck s)"
proof (cases "k \<in> set (completed_request_ids s)")
  case False
  show ?thesis
  proof (cases "upd_request_data k f s")
    case None
    have ok: "dict_ok (pending_stream_ingress s)" "\<And>r. dhas (pending_stream_ingress s) r \<Longrightarrow> r \<in> K" using w by (simp_all add: omni_wf_def)
    have "dget (dset (reserve_pending_stream_request k (pending_stream_ingress s)) k y) r = dget (pending_stream_ingress s) r \<or>
      \<not> small \<and> dget (dset (reserve_pending_stream_request k (pending_stream_ingress s)) k y) r = None" for y
      using reserve_facts(3) [OF ok(1), of k r] reserve_small [OF ok, of k] k sm by auto
    note d = this
    obtain y x where "ingest k f xs g recheck s =
        s\<lparr>pending_stream_ingress := dset (reserve_pending_stream_request k (pending_stream_ingress s)) k y, dirty_deferred_ids := x\<rparr>"
      using ingest_None [OF False None, of xs g recheck] by blast
    then show ?thesis using req_inv_ingress [OF inv d] by simp
  next
    case (Some s')
    then obtain ws bs where s': "s' = s\<lparr>waiting_queue := ws, batches := bs\<rparr>" "reqs_of r s' = reqs_of r s"
      using upd_data_only [OF Some] k f unfolding adds_def by blast
    then have "same_view r s s'" by (simp add: same_view_def places_def answers_def payloads_def)
    with inv Some False show ?thesis by (auto simp: ingest_def intro: req_inv_same)
  qed
qed (use inv in \<open>simp add: ingest_def\<close>)

lemma upd_data_own:
  assumes "upd_request_data r f s = Some s'" "\<And>q. rid (f q) = rid q"
  obtains q ws bs where "q \<in># reqs_of r s" "has_data q" "reqs_of r s' = add_mset (f q) (reqs_of r s - {#q#})" "s' = s\<lparr>waiting_queue := ws, batches := bs\<rparr>"
proof (cases "find_req r (batches s)")
  case (Some q)
  note u = upd_req_own [OF Some assms(2)]
  have "s' = s\<lparr>waiting_queue := waiting_queue s, batches := upd_req r f (batches s)\<rparr>" "has_data q"
    using assms(1) Some by (auto simp: upd_request_data_def split: if_splits)
  moreover from this u have "reqs_of r s' = add_mset (f q) (reqs_of r s - {#q#})" "q \<in># reqs_of r s" by (simp_all add: reqs_of_def)
  ultimately show thesis by (intro that)
next
  case None
  then obtain q where q: "find_req r (waiting_queue s) = Some q" "has_data q" "s' = s\<lparr>waiting_queue := upd_req r f (waiting_queue s), batches := batches s\<rparr>"
    using assms(1) by (auto simp: upd_request_data_def split: option.splits if_splits)
  note u = upd_req_own [OF q(1) assms(2)]
  then have "reqs_of r s' = add_mset (f q) (reqs_of r s - {#q#})" "q \<in># reqs_of r s" by (simp_all add: reqs_of_def q(3))
  with q(2,3) show thesis by (intro that)
qed

lemma upd_data_None:
  assumes "upd_request_data r f s = None" "\<forall>q\<in>#reqs_of r s. has_data q"
  shows "reqs_of r s = {#}"
proof -
  have "has_data q" if "find_req r qs = Some q" "set qs \<subseteq> set (waiting_queue s) \<union> set (batches s)" for q qs
    using upd_req_own [OF that(1), of "\<lambda>q. q"] that(2) assms(2) by (auto simp: reqs_of_def)
  then have "find_req r (batches s) = None" "find_req r (waiting_queue s) = None"
    using assms(1) by (auto simp: upd_request_data_def split: option.splits if_splits)
  then show ?thesis by (auto simp: reqs_of_empty find_req_None)
qed

lemma live_unique:
  assumes "req_inv r small n cs s" "q \<in># reqs_of r s" "has_data q"
  shows "answers r s = 0" "n = 1" "reqs_of r s = {#q#}" "parts r (payloads s) = {#}"
proof -
  obtain M where M: "reqs_of r s = add_mset q M" using assms(2) by (metis insert_DiffM)
  have c: "size (parts r (payloads s)) + size (filter_mset has_data (reqs_of r s)) + answers r s = n" "n \<le> 1"
    using assms(1) by (simp_all add: req_inv_def places_def)
  have "size (filter_mset has_data (reqs_of r s)) = Suc (size (filter_mset has_data M))" using M assms(3) by simp
  with c have a: "answers r s = 0" "n = 1" "size (parts r (payloads s)) = 0" "size (filter_mset has_data M) = 0" by linarith+
  then show "answers r s = 0" "n = 1" "parts r (payloads s) = {#}" by simp_all
  have "filter_mset has_data M = {#}" using a(4) by (simp only: size_eq_0_iff_empty)
  moreover have "\<forall>x\<in>#M. has_data x" using assms(1) M a by (auto simp: req_inv_def)
  ultimately show "reqs_of r s = {#q#}" using M by (cases M) auto
qed

lemma inv_ingest_own:
  assumes w: "omni_wf K s" and inv: "req_inv r small n cs (s\<lparr>recv_msgs := m # recv_msgs s\<rparr>)" and k: "r \<in> K"
    and m: "chunks_for r [m] = xs" "new_payloads [m] = []"
    and sm: "small \<Longrightarrow> finite K \<and> card K \<le> PENDING_STREAM_REQUEST_LIMIT" and f: "adds f xs"
  shows "req_inv r small n cs (ingest r f xs g recheck s)"
proof -
  let ?m = "s\<lparr>recv_msgs := m # recv_msgs s\<rparr>"
  have ms: "chunks_for r (m # ms) = xs @ chunks_for r ms" "new_payloads (m # ms) = new_payloads ms" for ms
    using m chunks_for_append [of r "[m]" ms] new_payloads_append [of "[m]" ms] by simp_all
  have v: "places r ?m = places r s" "reqs_of r ?m = reqs_of r s" "answers r ?m = answers r s"
    by (simp_all add: places_def reqs_of_def answers_def payloads_def ms)
  show ?thesis
  proof (cases "r \<in> set (completed_request_ids s)")
    case True
    then have "answers r s = 1" using inv v by (simp add: req_inv_def)
    with inv v have "req_inv r small n cs s" by (simp add: req_inv_def)
    with True show ?thesis by (simp add: ingest_def)
  next
    case nc: False
    show ?thesis
    proof (cases "upd_request_data r f s")
      case (Some s')
      obtain q ws bs where q: "q \<in># reqs_of r s" "has_data q" "reqs_of r s' = add_mset (f q) (reqs_of r s - {#q#})" "s' = s\<lparr>waiting_queue := ws, batches := bs\<rparr>"
        using upd_data_own [OF Some] f unfolding adds_def by blast
      have u: "answers r s = 0" "n = 1" "reqs_of r s = {#q#}" "parts r (payloads ?m) = {#}"
        using live_unique [OF inv, of q] q(1,2) v by simp_all
      have "places r s = {#stream_chunks q#}" "places r s' = {#stream_chunks q @ xs#}" "answers r s' = 0" "reqs_of r s' = {#f q#}"
        using u q f v by (simp_all add: places_def answers_def payloads_def ms adds_def)
      moreover have "dget (pending_stream_ingress s) r = None" using inv u q(2) v by (simp add: req_inv_def)
      ultimately have "req_inv r small n cs s'"
        using inv u q f v by (auto simp: req_inv_def adds_def carries_def ingress_of_def ms)
      with Some nc show ?thesis by (simp add: ingest_def)
    next
      case None
      have ok: "dict_ok (pending_stream_ingress s)" "\<And>r. dhas (pending_stream_ingress s) r \<Longrightarrow> r \<in> K" using w by (simp_all add: omni_wf_def)
      have hq: "filter_mset has_data (reqs_of r s) = {#}"
      proof (cases "answers r s = 1")
        case True
        with inv v show ?thesis by (auto simp: req_inv_def places_def)
      next
        case False
        then have "\<forall>q\<in>#reqs_of r s. has_data q" using inv v by (auto simp: req_inv_def)
        then show ?thesis using upd_data_None [OF None] by simp
      qed
      define d where "d = reserve_pending_stream_request r (pending_stream_ingress s)"
      obtain x where t: "ingest r f xs g recheck s = s\<lparr>pending_stream_ingress := dset d r (fst (ingress_of d r) @ xs, g (snd (ingress_of d r))), dirty_deferred_ids := x\<rparr>"
        using ingest_None [OF nc None, of xs g recheck] unfolding d_def by blast
      have "small \<Longrightarrow> d = pending_stream_ingress s" using reserve_small [OF ok _ _ k] sm by (simp add: d_def)
      then show ?thesis unfolding t using inv v hq
        by (auto simp: req_inv_def places_def reqs_of_def answers_def payloads_def ingress_of_def ms)
    qed
  qed
qed

lemma inv_stream_msg:
  assumes w: "omni_wf K s" and inv: "req_inv r small n cs s" and recv: "recv_msgs s = m # ms"
    and m: "omni_msg_id m = k" "chunks_for r [m] = (if k = r then xs else [])" "new_payloads [m] = []"
    and sm: "small \<Longrightarrow> finite K \<and> card K \<le> PENDING_STREAM_REQUEST_LIMIT" and f: "adds f xs"
  shows "let s0 = s\<lparr>recv_msgs := ms\<rparr>; t = (if k \<in> set (aborted_request_ids s0) then s0 else ingest k f xs g recheck s0) in omni_wf K t \<and> req_inv r small n cs t"
proof -
  define s0 where "s0 = s\<lparr>recv_msgs := ms\<rparr>"
  have s: "s = s0\<lparr>recv_msgs := m # recv_msgs s0\<rparr>" using recv by (simp add: s0_def)
  have k: "k \<in> K" and w0: "omni_wf K s0" using w recv m(1) by (auto simp: omni_wf_def s0_def)
  have p: "parts r (payloads s) = parts r (payloads s0)" using m(3) new_payloads_append [of "[m]" "ms @ inbox s"] by (simp add: payloads_def s0_def recv)
  have c: "chunks_for r (recv_msgs s @ inbox s) = (if k = r then xs else []) @ chunks_for r (recv_msgs s0 @ inbox s0)"
    using m(2) chunks_for_append [of r "[m]" "ms @ inbox s"] by (simp add: s0_def recv)
  have i0: "req_inv r small n cs s0" if "k \<noteq> r \<or> answers r s = 1"
    using that inv p c by (auto simp: req_inv_def places_def reqs_of_def answers_def s0_def)
  have "req_inv r small n cs (ingest k f xs g recheck s0)"
  proof (cases "k = r")
    case True
    then show ?thesis using inv_ingest_own [OF w0 inv [unfolded s], of xs f g recheck] k m sm f by simp
  next
    case False
    then show ?thesis using inv_ingest_other [OF w0 i0 k False] sm f by simp
  qed
  moreover have "req_inv r small n cs s0" if "k \<in> set (aborted_request_ids s0)"
    using that inv by (intro i0) (auto simp: req_inv_def s0_def)
  ultimately show ?thesis using w0 omni_wf_ingest [OF w0 k] by (simp add: s0_def [symmetric] Let_def)
qed

lemma inv_recv:
  assumes w: "omni_wf K s" and inv: "req_inv r small n cs s" and recv: "recv_msgs s = m # ms"
    and sm: "small \<Longrightarrow> finite K \<and> card K \<le> PENDING_STREAM_REQUEST_LIMIT"
  shows "omni_wf K (recv_message c m (s\<lparr>recv_msgs := ms\<rparr>)) \<and> req_inv r small n cs (recv_message c m (s\<lparr>recv_msgs := ms\<rparr>))"
proof (cases m)
  case (NewRequest p)
  let ?t = "recv_message c m (s\<lparr>recv_msgs := ms\<rparr>)"
  have "omni_wf K ?t" using w recv NewRequest by (auto simp: omni_wf_def)
  moreover have "bp_id p \<notin> set (aborted_request_ids s)" if "bp_id p = r"
    using known_placed(1) [OF w inv] that recv NewRequest by (simp add: payloads_def)
  then have "same_view r s ?t"
    using recv NewRequest by (auto simp: same_view_def places_def reqs_of_def answers_def payloads_def)
  ultimately show ?thesis using inv by (auto intro: req_inv_same)
next
  case (StreamChunk k ch)
  then have *: "omni_msg_id m = k" "chunks_for r [m] = (if k = r then [ch] else [])" "new_payloads [m] = []" by simp_all
  from inv_stream_msg [OF w inv recv * sm adds_stream(1), of "\<lambda>b. b" "recheck_on_stream_chunk c"] StreamChunk show ?thesis
    by (auto simp: ingest_eqs Let_def split: if_splits)
next
  case (StreamDone k)
  then have *: "omni_msg_id m = k" "chunks_for r [m] = (if k = r then [] else [])" "new_payloads [m] = []" by simp_all
  from inv_stream_msg [OF w inv recv * sm adds_stream(2), of "\<lambda>_. True" True] StreamDone show ?thesis
    by (auto simp: ingest_eqs Let_def split: if_splits)
qed

section \<open>The other sections\<close>

lemma inv_reject:
  assumes c: "config_ok c" and w: "omni_wf K s" and inv: "req_inv r small n cs s" and rej: "rejected_reqs s = p # ps"
  shows "omni_wf K (reject_queue_full c p (s\<lparr>rejected_reqs := ps\<rparr>)) \<and> req_inv r small n cs (reject_queue_full c p (s\<lparr>rejected_reqs := ps\<rparr>))"
proof -
  define s1 where "s1 = s\<lparr>rejected_reqs := ps\<rparr>"
  define t where "t = reject_queue_full c p s1"
  have w1: "omni_wf K s1" using w by (simp add: s1_def omni_wf_def)
  have "req_inv r small n cs t"
  proof (cases "bp_id p = r")
    case True
    have x: "parts r (payloads s) = add_mset (prefetched_chunks p) (parts r (payloads s1))" using rej True by (simp add: payloads_def s1_def)
    show ?thesis
    proof (rule through [OF inv x])
      show "req_inv r small 1 (prefetched_chunks p @ cs') t" if "req_inv r small 0 cs' s1" for cs'
        unfolding t_def reject_queue_full_def True using w1 configD(1) [OF c] that by (rule fail_taken)
    qed (simp_all add: same_rest_def s1_def)
  next
    case False
    have "same_view r s s1" using rej False by (intro same_move) (simp_all add: s1_def payloads_def same_rest_def)
    moreover have "same_view r s1 t" using same_fail [OF w1 False] by (simp add: t_def reject_queue_full_def)
    ultimately show ?thesis using inv by (blast intro: req_inv_same same_view_trans)
  qed
  moreover have "omni_wf K t" using w1 by (simp add: t_def reject_queue_full_def omni_wf_fail)
  ultimately show ?thesis by (simp add: t_def s1_def)
qed

lemma inv_results:
  assumes c: "config_ok c" and w: "omni_wf K s" and inv: "req_inv r small n cs s"
  shows "omni_wf K (omni_step c s (BuildDone k i)) \<and> req_inv r small n cs (omni_step c s (BuildDone k i))"
    "omni_wf K (omni_step c s (AdmissionReady k res)) \<and> req_inv r small n cs (omni_step c s (AdmissionReady k res))"
proof -
  show "omni_wf K (omni_step c s (BuildDone k i)) \<and> req_inv r small n cs (omni_step c s (BuildDone k i))"
  proof (cases "\<exists>p d. dget (pending_request_builds s) k = Some (p, d, None)")
    case True
    then obtain p d where g: "dget (pending_request_builds s) k = Some (p, d, None)" by blast
    have p: "bp_id p = k" using w g keyed_by_get [of "\<lambda>v. bp_id (fst v)" "pending_request_builds s" k] by (simp add: omni_wf_def)
    define t where "t = s\<lparr>pending_request_builds := dset (pending_request_builds s) k (p, d, Some (request_builder c p i))\<rparr>"
    have wt: "omni_wf K t" using w p configD(2) [OF c, of p i] by (auto simp: t_def omni_wf_def keyed_by_upd)
    have "parts r (payloads t) = parts r (payloads s)" unfolding parts_payloads [OF w] parts_payloads [OF wt] using g by (simp add: t_def)
    then have "same_view r s t" by (rule same_move) (simp_all add: t_def same_rest_def)
    then show ?thesis using inv wt g by (auto simp: t_def intro: req_inv_same)
  next
    case False
    then have "omni_step c s (BuildDone k i) = s" by (auto split: option.split)
    with w inv show ?thesis by simp
  qed
  show "omni_wf K (omni_step c s (AdmissionReady k res)) \<and> req_inv r small n cs (omni_step c s (AdmissionReady k res))"
  proof (cases "\<exists>p d q. dget (pending_request_admissions s) k = Some (p, d, q, None)")
    case True
    then obtain p d q where g: "dget (pending_request_admissions s) k = Some (p, d, q, None)" by blast
    have p: "bp_id p = k" using w g keyed_by_get [of "\<lambda>v. bp_id (fst v)" "pending_request_admissions s" k] by (simp add: omni_wf_def)
    have q: "rid q = k" "fresh_req q" using w g unfolding omni_wf_def by blast+
    define t where "t = s\<lparr>pending_request_admissions := dset (pending_request_admissions s) k (p, d, q, Some res)\<rparr>"
    have wt: "omni_wf K t" using w p q by (auto simp: t_def omni_wf_def keyed_by_upd)
    have "parts r (payloads t) = parts r (payloads s)" unfolding parts_payloads [OF w] parts_payloads [OF wt] using g by (simp add: t_def)
    then have "same_view r s t" by (rule same_move) (simp_all add: t_def same_rest_def)
    then show ?thesis using inv wt g by (auto simp: t_def intro: req_inv_same)
  next
    case False
    then have "omni_step c s (AdmissionReady k res) = s" by (auto split: option.split)
    with w inv show ?thesis by simp
  qed
qed

end
