(* ===== verification/Omni_Life_Cycle.thy ===== *)
theory Omni_Life_Cycle
  imports Omni_Exactly_Once
begin

text \<open>
  The sections after admission (batches, failures, terminal outputs and aborts of other requests), the invariant over whole runs, and the properties.
\<close>

section \<open>Batches and failures\<close>






section \<open>Terminal outputs\<close>


lemma reqs_of_batches_other:
  assumes "\<And>q. rid (f q) = rid q" "k \<noteq> r"
  shows "reqs_of r (s\<lparr>batches := upd_req k f (batches s)\<rparr>) = reqs_of r s"
  using upd_req_other [OF assms] by (simp add: reqs_of_def)














section \<open>Every section\<close>












section \<open>Properties\<close>



section \<open>An example\<close>








end
