(* ===== verification/Spec2Isabelle.thy ===== *)
theory Spec2Isabelle
  imports Runtime_Prep Stream_Queue Stage_Input Prepared_Queue Speaker_Cache Coordinator_Properties
    Control_Plane Counter_Ledger Stage_Examples Admission_Shm
    Transcription Threaded_Life_Cycle Vocoder_Scheduler Voice_Routing Omni_Life_Cycle
begin

text \<open>
  Verification development of the sglang-omni serving system.

  \<^bold>\<open>The program.\<close> sglang-omni serves multimodal models as a pipeline of stages. A pipeline configuration (\<^verbatim>\<open>config/schema.py\<close>) is validated, compiled into
  processes (\<^verbatim>\<open>config/topology.py\<close>), expanded into replicas (\<^verbatim>\<open>pipeline/replicas.py\<close>), placed on GPUs (\<^verbatim>\<open>config/placement.py\<close>) and given endpoints
  (\<^verbatim>\<open>pipeline/runtime_config.py\<close>). At run time the coordinator (\<^verbatim>\<open>pipeline/coordinator.py\<close>) admits requests, binds them to replicas and sends them to the
  entry stage; every stage (\<^verbatim>\<open>pipeline/stage/runtime.py\<close>, \<^verbatim>\<open>input.py\<close>, \<^verbatim>\<open>stream_queue.py\<close>) receives payloads and stream chunks, collects fan-in inputs, hands
  them to its scheduler (\<^verbatim>\<open>scheduling/\<close>) and routes results to the next stages or back to the coordinator, which merges the terminal results, relays streams, and
  broadcasts aborts. The HTTP front end (\<^verbatim>\<open>serve/\<close>) turns API calls into requests. In front of several such servers stands a router
  (\<^verbatim>\<open>sglang_omni_router/python/\<close>) with a control plane that owns the workers and data planes that proxy requests; they share a snapshot file, an internal
  channel and shared-memory admission slots. Paths below are relative to \<^verbatim>\<open>src/sglang_omni/\<close> unless they name the router.

  \<^bold>\<open>Reading the models.\<close> Definitions carry the names of the source where HOL allows it. A dictionary is an association list in insertion order
  (\<open>Prelude\<close>: \<open>dget\<close>, \<open>dset\<close>, \<open>ddel\<close>), a raise is \<open>Inl\<close> of an error constructor, an object with state is a record that operations return updated. Code that runs
  on one event loop is cut into its atomic sections between awaits, code on several threads into its locked sections; the sections are the events of a step function,
  and theorems quantify over all sequences of events (\<open>run\<close>), which is every interleaving. Invariants of such machines are proved once through the locale
  \<open>machine\<close> of \<open>Prelude\<close> and its interpretations. Code outside the repository (torch, ZeroMQ, httpx, the upstream SGLang scheduler, model code
  supplied as callables) appears as arguments; what is assumed of it is a named hypothesis of the theorem, shown satisfiable by the theorem's witness.

  \<^bold>\<open>Theories and what they show.\<close>

  \<^item> \<open>Prelude\<close>, \<open>Py_Strings\<close>: dictionaries, results, state machines, per-request isolation (locale \<open>keyed\<close>), Python string operations.
  \<^item> \<open>Config_Schema\<close>, \<open>Logical_Topology\<close>, \<open>Topology_Properties\<close>: configuration validators, memory sizes, logical processes. What a validated
    pipeline guarantees, that compilation never misses a key, that device blocks are disjoint and local edges stay in their process.
  \<^item> \<open>Replicas\<close>, \<open>Replica_Properties\<close>: replica expansion and request bindings (locale \<open>binding_policy\<close>). Expansion is total, names resolve back, bindings keep
    the members of a process together, round robin is fair.
  \<^item> \<open>Placement\<close>, \<open>Placement_Properties\<close>, \<open>Runtime_Prep\<close>: GPU placement, physical processes, endpoints. Declared memory fits every GPU, every instance has
    an endpoint of its own within the socket path limit, a failed preparation cleans up.
  \<^item> \<open>Coordinator\<close>, \<open>Coordinator_Properties\<close>: every state of the coordinator over the interleaving of its sections. Admission limit, each accepted request is
    settled exactly once, several terminal stages are merged when the last has answered, failures; two defects found on the way (a failed send leaks a
    reservation, a suspended failure handler rejects a later request of the same id).
  \<^item> \<open>Stream_Queue\<close>, \<open>Stage_Input\<close>, \<open>Payload_Isolation\<close>, \<open>Stage_Runtime\<close>, \<open>Stage_Lanes\<close>, \<open>Stage_Properties\<close>, \<open>Stage_Streams\<close>, \<open>Stage_Examples\<close>: the stage. Per-sender order of
    delivery, exactly-once fan-in, silence after an abort, complete routing of results, gap-free chunk numbers, reports after a scheduler crash, and that
    payloads handed over in one process share no mutable state.
  \<^item> \<open>Omni_Scheduler\<close>, \<open>Omni_Properties\<close>, \<open>Omni_Accounting\<close>, \<open>Omni_Exactly_Once\<close>, \<open>Omni_Life_Cycle\<close>: the autoregressive scheduler
    (\<^verbatim>\<open>scheduling/omni_scheduler.py\<close>): inbox, stream ingress, build pool and backlog, deferred payloads and admissions, waiting queue, aborts from other threads and terminal
    outputs, around the upstream batch scheduler as environment. The queue limit holds; every request is in one place or answered exactly once; stream input
    reaches it complete and in order; an accepted backlog is thrown away when it fills the limit, and an abort at the wrong moment leaks a queue slot.
  \<^item> \<open>Threaded_Scheduler\<close>, \<open>Threaded_Properties\<close>, \<open>Threaded_Life_Cycle\<close>: the scheduler of blocking stages
    (\<^verbatim>\<open>scheduling/threaded_simple_scheduler.py\<close>) with its counting inbox, thread-pool futures, tombstones and completion callback, every section
    interleaved with every other. Requests are answered exactly once, an abort before the answer is decided silences its request wherever it is, and nothing leaks.
  \<^item> \<open>Simple_Scheduler\<close>, \<open>Vocoder_Scheduler\<close>, \<open>Prepared_Queue\<close>, \<open>Stage_Cache\<close>, \<open>Speaker_Cache\<close>: the other schedulers and their queues and caches. The serial loop comes
    to rest with every request answered once; vocoder stream states are created and released exactly once; the caches stay within their budgets
    (locales \<open>sized_cache\<close>, \<open>lossy_store\<close>) and forget a cleared voice.
  \<^item> \<open>Audio_Chunks\<close>, \<open>Subtitles\<close>, \<open>Transcription\<close>: long-audio transcription. Chunks partition the audio within the model limits, chunk requests are bounded and
    accounted for after failures and disconnects, timestamps and cue text.
  \<^item> \<open>Router_Worker\<close>, \<open>Weight_Update\<close>, \<open>Voice_Routing\<close>: worker health and selection, weight updates with their crash-recovery journal (fail closed), the owner of
    uploaded voices.
  \<^item> \<open>Snapshot\<close>, \<open>Control_Plane\<close>, \<open>Counter_Ledger\<close>, \<open>Seqlock\<close>, \<open>Admission_Shm\<close>: the multi-process router. Acknowledged snapshots are in force
    everywhere, failure reports count once, restarts restore the registry, totals never go down, seqlock reads are consistent, and shared admission exceeds its
    bound by at most one request per further data plane.
  \<^item> This theory: stages and coordinator together.

  \<^bold>\<open>Bounds and fuel.\<close> Loops are structural recursions or have termination proofs; \<open>codec_read_mem\<close> (\<open>Seqlock\<close>) has the retry budget of the code,
  and \<open>seqlock_read_ends\<close> says when it is enough. Constants such as the numbers of remembered request ids are those of the source. Counters are unbounded as
  Python's integers are; memory fractions, audio samples and seconds are reals where the program computes with floats.

  \<^bold>\<open>Not modelled.\<close> Tensor code (\<^verbatim>\<open>models/\<close>, \<^verbatim>\<open>model_runner/\<close>, \<^verbatim>\<open>sampling/\<close>, \<^verbatim>\<open>preprocessing/\<close>), which is numerical code over torch; the transports
  (\<^verbatim>\<open>comm/\<close>, \<^verbatim>\<open>relay/\<close>, \<^verbatim>\<open>pipeline/control_plane.py\<close>), whose content is ZeroMQ, CUDA IPC, NCCL and shared-memory calls; process management
  (\<^verbatim>\<open>pipeline/mp_runner.py\<close>, \<^verbatim>\<open>stage_workers.py\<close>, \<^verbatim>\<open>mps/\<close>); the HTTP layer of \<^verbatim>\<open>serve/\<close> and of the router (FastAPI handlers, header handling, byte relays);
  \<^verbatim>\<open>client/\<close>, \<^verbatim>\<open>cli/\<close>, \<^verbatim>\<open>profiler/\<close>, \<^verbatim>\<open>vendor/\<close>. Of the autoregressive scheduler the forward pass, async decode, tensor-parallel broadcast and admin actions
  are left out.
\<close>

section \<open>A failure ends the request everywhere\<close>




end
